(* ===== verification/Prelude.thy ===== *)
theory Prelude
  imports Main "HOL-Library.Word" "HOL-Library.State_Monad" "HOL-Library.Signed_Division"
begin

text \<open>
  The vocabulary the component theories share.

  \<^item> Names for the C integer types (\<open>u8\<close>, \<open>u16\<close>, \<open>u32\<close>) and for the conversions the
    sources rely on (\<open>to_s16\<close>, the implicit conversion of an \<^verbatim>\<open>int\<close> to a \<^verbatim>\<open>short\<close>).
  \<^item> Loads and stores of halfwords and words on the little-endian target.
  \<^item> A weakest-precondition calculus \<open>wp\<close> for the state monad of the library, in which
    the hardware-facing drivers are written, with its rules in the collection \<open>wp\<close>.
  \<^item> A partial-correctness variant with invariants, \<open>keeps\<close>: every run of a program keeps
    a predicate on states, proved rule by rule from the collection \<open>keeps\<close>.
  \<^item> A locale for invariants of transition systems.
\<close>

unbundle bit_operations_syntax

section \<open>Machine integers\<close>

type_synonym u8 = "8 word"
type_synonym u16 = "16 word"
type_synonym u32 = "32 word"

definition to_s16 :: "int \<Rightarrow> int" where
  "to_s16 x = signed_take_bit 15 x"

lemma to_s16_id: "- 32768 \<le> x \<Longrightarrow> x < 32768 \<Longrightarrow> to_s16 x = x"
  by (simp add: to_s16_def signed_take_bit_int_eq_self)

lemma to_s16_wrap:
  assumes "32768 \<le> x" "x < 65536"
  shows "to_s16 x = x - 65536"
proof -
  have "to_s16 x = to_s16 (x - 65536)"
    unfolding to_s16_def
    by (rule signed_take_bit_eq_iff_take_bit_eq [THEN iffD2])
      (simp add: take_bit_eq_mod)
  also have "\<dots> = x - 65536"
    using assms by (intro to_s16_id) auto
  finally show ?thesis .
qed

text \<open>C division of a non-negative number by a positive one rounds down.\<close>

lemma sdiv_nonneg: "0 \<le> x \<Longrightarrow> 0 < k \<Longrightarrow> x sdiv k = x div (k :: int)"
  by (cases "x = 0") (simp_all add: signed_divide_int_def)

text \<open>\<^verbatim>\<open>MEMCPY\<close> of the bytes \<open>d\<close> into a buffer from index \<open>i\<close> on.\<close>

definition overwrite :: "nat \<Rightarrow> 'a list \<Rightarrow> 'a list \<Rightarrow> 'a list" where
  "overwrite i d xs = take i xs @ d @ drop (i + length d) xs"

lemma length_overwrite [simp]: "i + length d \<le> length xs \<Longrightarrow> length (overwrite i d xs) = length xs"
  by (simp add: overwrite_def)

lemma overwrite_Nil [simp]: "overwrite i [] xs = xs"
  by (simp add: overwrite_def)

lemma overwrite_append:
  "i + length d + length e \<le> length xs \<Longrightarrow>
    overwrite (i + length d) e (overwrite i d xs) = overwrite i (d @ e) xs"
  by (simp add: overwrite_def ac_simps)

lemma overwrite_within_append:
  "i + length d \<le> length xs \<Longrightarrow> overwrite i d (xs @ ys) = overwrite i d xs @ ys"
  by (simp add: overwrite_def)

lemma overwrite_after_append:
  "length xs \<le> i \<Longrightarrow> overwrite i d (xs @ ys) = xs @ overwrite (i - length xs) d ys"
  by (simp add: overwrite_def)

text \<open>Word subtraction and addition that does not wrap.\<close>

lemma unat_minus: "b \<le> a \<Longrightarrow> unat (a - b) = unat a - unat (b :: 'a :: len word)"
  by (simp add: unat_sub)

lemma unat_plus:
  "unat a + unat b < 2 ^ LENGTH('a) \<Longrightarrow> unat (a + b) = unat a + unat (b :: 'a :: len word)"
  by (simp add: unat_word_ariths)

lemma unat_min: "unat (min a b) = min (unat a) (unat (b :: 'a :: len word))"
  by (simp add: min_def word_le_nat_alt)

lemma unat_u16_bound: "unat (w :: u16) < 65536"
  using unsigned_less [of w] by simp

lemma unat_u8_bound: "unat (w :: u8) < 256"
  using unsigned_less [of w] by simp

lemma unat_of_nat_u16: "n < 65536 \<Longrightarrow> unat (word_of_nat n :: u16) = n"
  by (simp add: unsigned_of_nat take_bit_nat_eq_self)

text \<open>Conversions between the unsigned types.\<close>

lemma unat_ucast_up [simp]:
  "unat (ucast (a :: u8) :: u16) = unat a" "unat (ucast (a :: u8) :: u32) = unat a"
  "unat (ucast (b :: u16) :: u32) = unat b"
  using unat_u8_bound [of a] unat_u16_bound [of b]
  by (simp_all add: unsigned_ucast_eq take_bit_nat_eq_self)

lemma unat_ucast_down: "unat (ucast (w :: u32) :: u16) = unat w mod 65536"
  by (simp add: unsigned_ucast_eq take_bit_eq_mod)

section \<open>Halfwords and words in memory\<close>

text \<open>A 16-bit load on the little-endian target, and the bytes of a halfword and a word in memory.\<close>

definition load16 :: "u8 \<Rightarrow> u8 \<Rightarrow> u16" where
  "load16 a b = ucast a + 256 * ucast b"

definition mem16 :: "u16 \<Rightarrow> u8 list" where
  "mem16 w = [ucast w, ucast (drop_bit 8 w)]"

definition mem32 :: "u32 \<Rightarrow> u8 list" where
  "mem32 w = [ucast w, ucast (drop_bit 8 w), ucast (drop_bit 16 w), ucast (drop_bit 24 w)]"

lemma unat_ucast_u8 [simp]:
  "unat (ucast (w :: u16) :: u8) = unat w mod 256"
  "unat (ucast (v :: u32) :: u8) = unat v mod 256"
  by (simp_all add: unsigned_ucast_eq take_bit_eq_mod)

lemma unat_drop_bit: "unat (drop_bit n w) = unat w div 2 ^ n"
  unfolding unsigned_drop_bit_eq using unsigned_less [of w, where 'a = nat]
  by (simp add: drop_bit_eq_div take_bit_nat_eq_self)

lemma unat_load16: "unat (load16 a b) = unat a + 256 * unat b"
proof -
  have b: "unat (256 * (ucast b :: u16)) = 256 * unat b"
    using unat_u8_bound [of b] by (simp add: unat_word_ariths unsigned_ucast_eq take_bit_nat_eq_self)
  then show ?thesis unfolding load16_def
    using unat_u8_bound [of a] unat_u8_bound [of b] by (subst unat_plus) auto
qed

section \<open>A weakest-precondition calculus for the state monad\<close>

named_theorems wp \<open>decomposition rules of the weakest-precondition calculus\<close>
named_theorems keeps_intro \<open>rules that show a program keeps an invariant\<close>

definition wp :: "('s, 'a) state \<Rightarrow> ('a \<Rightarrow> 's \<Rightarrow> bool) \<Rightarrow> 's \<Rightarrow> bool" where
  "wp c Q s = (case run_state c s of (a, s') \<Rightarrow> Q a s')"

lemma wp_return [wp]: "Q a s \<Longrightarrow> wp (State_Monad.return a) Q s"
  by (simp add: wp_def)

lemma wp_bind [wp]: "wp c (\<lambda>a. wp (f a) Q) s \<Longrightarrow> wp (State_Monad.bind c f) Q s"
  by (simp add: wp_def split: prod.splits)

lemma wp_if [wp]:
  "(b \<Longrightarrow> wp c Q s) \<Longrightarrow> (\<not> b \<Longrightarrow> wp d Q s) \<Longrightarrow> wp (if b then c else d) Q s"
  by simp

lemma wp_mono: "wp c Q s \<Longrightarrow> (\<And>a t. Q a t \<Longrightarrow> R a t) \<Longrightarrow> wp c R s"
  by (auto simp: wp_def split: prod.splits)

lemma wp_runD: "wp c Q s \<Longrightarrow> run_state c s = (a, s') \<Longrightarrow> Q a s'"
  by (simp add: wp_def)

lemma wp_runI: "(\<And>a s'. run_state c s = (a, s') \<Longrightarrow> Q a s') \<Longrightarrow> wp c Q s"
  by (simp add: wp_def split: prod.splits)

lemma wp_runE:
  assumes "wp c Q s"
  obtains a s' where "run_state c s = (a, s')" and "Q a s'"
  using assms by (cases "run_state c s") (auto simp: wp_def)

lemma wp_conj: "wp c P s \<Longrightarrow> wp c Q s \<Longrightarrow> wp c (\<lambda>a t. P a t \<and> Q a t) s"
  by (simp add: wp_def split: prod.splits)

section \<open>Programs that keep an invariant\<close>

definition keeps :: "('s \<Rightarrow> bool) \<Rightarrow> ('s, 'a) state \<Rightarrow> bool" where
  "keeps I c \<longleftrightarrow> (\<forall>s. I s \<longrightarrow> I (snd (run_state c s)))"

lemma keepsI: "(\<And>s. I s \<Longrightarrow> I (snd (run_state c s))) \<Longrightarrow> keeps I c"
  by (simp add: keeps_def)

lemma keepsD: "keeps I c \<Longrightarrow> I s \<Longrightarrow> run_state c s = (a, s') \<Longrightarrow> I s'"
  by (metis keeps_def snd_conv)

lemma keeps_return [keeps_intro]: "keeps I (State_Monad.return a)"
  by (simp add: keeps_def)

lemma keeps_bind [keeps_intro]:
  "keeps I c \<Longrightarrow> (\<And>a. keeps I (f a)) \<Longrightarrow> keeps I (State_Monad.bind c f)"
  by (auto simp: keeps_def split: prod.splits)

lemma keeps_if [keeps_intro]:
  "(b \<Longrightarrow> keeps I c) \<Longrightarrow> (\<not> b \<Longrightarrow> keeps I d) \<Longrightarrow> keeps I (if b then c else d)"
  by simp

section \<open>Invariants of transition systems\<close>

text \<open>What holds initially and is kept by every step holds in every reachable state.\<close>

locale step_invariant =
  fixes init :: "'s \<Rightarrow> bool" and step :: "'s \<Rightarrow> 's \<Rightarrow> bool" and inv :: "'s \<Rightarrow> bool"
  assumes init_inv: "init s \<Longrightarrow> inv s"
    and step_inv: "step s t \<Longrightarrow> inv s \<Longrightarrow> inv t"
begin

lemma steps_inv: "step\<^sup>*\<^sup>* s t \<Longrightarrow> inv s \<Longrightarrow> inv t"
  by (induction rule: rtranclp_induct) (auto intro: step_inv)

lemma reachable_inv: "init s \<Longrightarrow> step\<^sup>*\<^sup>* s t \<Longrightarrow> inv t"
  using steps_inv init_inv by blast

text \<open>A predicate that no step from a reachable state leaves holds forever.\<close>

lemma reachable_stable:
  assumes "step\<^sup>*\<^sup>* s t" "inv s" "P s" "\<And>u v. inv u \<Longrightarrow> P u \<Longrightarrow> step u v \<Longrightarrow> P v"
  shows "P t"
  using assms(1)
proof (induction rule: rtranclp_induct)
  case base then show ?case by (rule assms(3))
next
  case (step u v) then show ?case using assms(4) steps_inv [OF step.hyps(1) assms(2)] by blast
qed

end

end
