(* ===== verification/Mcg_Regs.thy ===== *)
theory Mcg_Regs
  imports Prelude
begin

text \<open>
  The registers the clock driver \<^verbatim>\<open>source/MCG.c\<close> works on, and its accesses to them.

  A register is a record of the bit fields the driver names (\<open>MCG_C1_CLKS_MASK\<close> becomes the
  field \<open>CLKS\<close> of \<open>c1_reg\<close>): the driver reads and writes registers only through the field
  masks of the device header, so a mask-and-shift expression is a field access, and
  \<^verbatim>\<open>reg |= FIELD(x)\<close> is \<open>OR\<close> on that field. Field widths are those of the K64 MCG memory map.

  The registers are volatile: between two accesses the hardware may change any of them. The
  machine state therefore has a field \<open>HID\<close> of arbitrary type for what the program cannot
  see, and every access takes the hardware's own step \<open>hw\<close> before it reads or writes. The
  step \<open>hw\<close> is a parameter of every operation; what a theorem needs to know of it
  is a named hypothesis (\<open>hw_frame\<close>, \<open>hw_settles\<close>).
\<close>

section \<open>Register files\<close>

record c1_reg =
  CLKS :: "2 word"
  FRDIV :: "3 word"
  IREFS :: bool
  IRCLKEN :: bool
  IREFSTEN :: bool

record c2_reg =
  RANGE0 :: "2 word"
  HGO0 :: bool
  EREFS0 :: bool
  LP :: bool
  IRCS :: bool

record c4_reg =
  DMX32 :: bool
  DRST_DRS :: "2 word"

record c6_reg =
  PLLS :: bool
  CME0 :: bool
  VDIV0 :: "5 word"

record mcg_ctl =
  C1 :: c1_reg
  C2 :: c2_reg
  C4 :: c4_reg
  PRDIV0 :: "5 word"
  C6 :: c6_reg
  OSCSEL :: bool
  CME1 :: bool

record s_reg =
  CLKST :: "2 word"
  IREFST :: bool
  PLLST :: bool
  OSCINIT0 :: bool
  LOCK0 :: bool
  IRCST :: bool

record sc_reg =
  FCRDIV :: "3 word"
  ATME :: bool
  ATMS :: bool
  ATMF :: bool

record rtc_reg =
  TCE :: bool
  TIF :: bool
  OSCE :: bool
  TSR :: u32
  TPR :: u32

record clkdiv1_reg =
  OUTDIV1 :: "4 word"
  OUTDIV2 :: "4 word"
  OUTDIV3 :: "4 word"
  OUTDIV4 :: "4 word"

record 'h mach =
  ctl :: mcg_ctl
  S :: s_reg
  SC :: sc_reg
  C3 :: u8
  FCTRIM :: "4 word"
  ATCVH :: u8
  ATCVL :: u8
  RTC :: rtc_reg
  SCGC6_RTC :: bool
  CLKDIV1 :: clkdiv1_reg
  HID :: 'h

type_synonym 'h hw = "'h mach \<Rightarrow> 'h mach"

section \<open>Volatile accesses\<close>

definition rd :: "'h hw \<Rightarrow> ('h mach \<Rightarrow> 'a) \<Rightarrow> ('h mach, 'a) state" where
  "rd hw f = State (\<lambda>m. let m' = hw m in (f m', m'))"

definition wr :: "'h hw \<Rightarrow> ('h mach \<Rightarrow> 'h mach) \<Rightarrow> ('h mach, unit) state" where
  "wr hw g = State (\<lambda>m. ((), g (hw m)))"

definition ctl_rmw :: "'h hw \<Rightarrow> (mcg_ctl \<Rightarrow> 'r) \<Rightarrow> (('r \<Rightarrow> 'r) \<Rightarrow> mcg_ctl \<Rightarrow> mcg_ctl) \<Rightarrow>
    ('r \<Rightarrow> 'r) \<Rightarrow> ('h mach, unit) state" where
  "ctl_rmw hw sel upd f = do {
     v \<leftarrow> rd hw (\<lambda>m. sel (ctl m));
     wr hw (ctl_update (upd (\<lambda>_. f v)))
   }"

text \<open>A chain of conditions joined by \<^verbatim>\<open>&&\<close>, each a read of its own, cut short at the first false.\<close>

fun conj_rd :: "'h hw \<Rightarrow> ('h mach \<Rightarrow> bool) list \<Rightarrow> ('h mach, bool) state" where
  "conj_rd hw [] = State_Monad.return True"
| "conj_rd hw (p # ps) = do {
     b \<leftarrow> rd hw p;
     if b then conj_rd hw ps else State_Monad.return False
   }"

text \<open>
  The driver's polling idiom: \<^verbatim>\<open>for (i = 0; i < n; i++) if (p) break;\<close> followed by one more
  read that returns an error code when \<^verbatim>\<open>p\<close> does not hold.
\<close>

fun poll :: "'h hw \<Rightarrow> ('h mach \<Rightarrow> bool) \<Rightarrow> nat \<Rightarrow> ('h mach, unit) state" where
  "poll hw p 0 = State_Monad.return ()"
| "poll hw p (Suc n) = do {
     b \<leftarrow> rd hw p;
     if b then State_Monad.return () else poll hw p n
   }"

definition wait_for :: "'h hw \<Rightarrow> ('h mach \<Rightarrow> bool) \<Rightarrow> nat \<Rightarrow> int \<Rightarrow> ('h mach, int) state \<Rightarrow>
    ('h mach, int) state" where
  "wait_for hw p n err k = do {
     poll hw p n;
     b \<leftarrow> rd hw p;
     if b then k else State_Monad.return err
   }"

section \<open>What the driver assumes of the hardware\<close>

text \<open>
  The steady state the status register moves to, from the K64 reference manual's description
  of the MCG status bits: \<open>CLKST\<close> follows the \<open>CLKS\<close> multiplexer (with the PLL in place of the
  FLL when \<open>PLLS\<close> selects it), \<open>IREFST\<close> follows \<open>IREFS\<close>, \<open>PLLST\<close> follows \<open>PLLS\<close>, \<open>IRCST\<close>
  follows \<open>IRCS\<close>, the oscillator initialises when it is requested and used, and the PLL
  locks when it is enabled.
\<close>

definition clkst_of :: "mcg_ctl \<Rightarrow> 2 word" where
  "clkst_of c = (if CLKS (C1 c) = 0 then (if PLLS (C6 c) then 3 else 0) else CLKS (C1 c))"

definition oscinit_of :: "mcg_ctl \<Rightarrow> bool" where
  "oscinit_of c \<longleftrightarrow> EREFS0 (C2 c) \<and> \<not> IREFS (C1 c)"

definition lock_of :: "mcg_ctl \<Rightarrow> bool" where
  "lock_of c \<longleftrightarrow> PLLS (C6 c) \<and> \<not> LP (C2 c)"

text \<open>The hardware does not write the driver's control fields.\<close>

definition hw_frame :: "'h hw \<Rightarrow> bool" where
  "hw_frame hw \<longleftrightarrow> (\<forall>m. ctl (hw m) = ctl m \<and> FCRDIV (SC (hw m)) = FCRDIV (SC m) \<and>
     CLKDIV1 (hw m) = CLKDIV1 m \<and> SCGC6_RTC (hw m) = SCGC6_RTC m)"

text \<open>Status bits move only towards their steady value.\<close>

definition hw_no_glitch :: "'h hw \<Rightarrow> bool" where
  "hw_no_glitch hw \<longleftrightarrow> (\<forall>m.
     CLKST (S (hw m)) \<in> {CLKST (S m), clkst_of (ctl m)} \<and>
     IREFST (S (hw m)) \<in> {IREFST (S m), IREFS (C1 (ctl m))} \<and>
     PLLST (S (hw m)) \<in> {PLLST (S m), PLLS (C6 (ctl m))} \<and>
     IRCST (S (hw m)) \<in> {IRCST (S m), IRCS (C2 (ctl m))} \<and>
     (oscinit_of (ctl m) \<longrightarrow> OSCINIT0 (S m) \<longrightarrow> OSCINIT0 (S (hw m))) \<and>
     (lock_of (ctl m) \<longrightarrow> LOCK0 (S m) \<longrightarrow> LOCK0 (S (hw m))))"

text \<open>They reach it within \<open>n\<close> accesses.\<close>

definition hw_reaches :: "'h hw \<Rightarrow> nat \<Rightarrow> bool" where
  "hw_reaches hw n \<longleftrightarrow> (\<forall>m. let m' = (hw ^^ n) m in
     CLKST (S m') = clkst_of (ctl m) \<and>
     IREFST (S m') = IREFS (C1 (ctl m)) \<and>
     PLLST (S m') = PLLS (C6 (ctl m)) \<and>
     IRCST (S m') = IRCS (C2 (ctl m)) \<and>
     (oscinit_of (ctl m) \<longrightarrow> OSCINIT0 (S m')) \<and>
     (lock_of (ctl m) \<longrightarrow> LOCK0 (S m')))"

definition hw_settles :: "'h hw \<Rightarrow> bool" where
  "hw_settles hw \<longleftrightarrow> hw_frame hw \<and> hw_no_glitch hw \<and> hw_reaches hw 2000"

end
