(* ===== verification/Mcg.thy ===== *)
theory Mcg
  imports Mcg_Regs "HOL-Library.Log_Nat"
begin

text \<open>
  The clock driver \<^verbatim>\<open>source/MCG.c\<close>: one definition per function, in the order of the file, with
  its early returns as branches. A function that returns an \<^verbatim>\<open>int\<close> returns either a frequency
  in Hz or an error code below \<^verbatim>\<open>0x5B\<close>, as in the source. Frequencies are of type
  \<^typ>\<open>int\<close>; \<^verbatim>\<open>/\<close> on C integers is \<open>sdiv\<close>. The flag \<^verbatim>\<open>erefs_val\<close> (0 for an external clock, 1
  for a crystal) is a \<^typ>\<open>bool\<close>.
\<close>

section \<open>Fragments the functions share\<close>

subsection \<open>Mode checks\<close>

definition chk_FEI :: "('h mach \<Rightarrow> bool) list" where
  "chk_FEI = [\<lambda>m. CLKST (S m) = 0, \<lambda>m. IREFST (S m), \<lambda>m. \<not> PLLST (S m)]"

definition chk_PEE :: "('h mach \<Rightarrow> bool) list" where
  "chk_PEE = [\<lambda>m. CLKST (S m) = 3, \<lambda>m. \<not> IREFST (S m), \<lambda>m. PLLST (S m)]"

definition chk_PBE :: "('h mach \<Rightarrow> bool) list" where
  "chk_PBE = [\<lambda>m. CLKST (S m) = 2, \<lambda>m. \<not> IREFST (S m), \<lambda>m. PLLST (S m),
     \<lambda>m. \<not> LP (C2 (ctl m))]"

definition chk_FBE :: "('h mach \<Rightarrow> bool) list" where
  "chk_FBE = [\<lambda>m. CLKST (S m) = 2, \<lambda>m. \<not> IREFST (S m), \<lambda>m. \<not> PLLST (S m),
     \<lambda>m. \<not> LP (C2 (ctl m))]"

definition chk_BLPE :: "('h mach \<Rightarrow> bool) list" where
  "chk_BLPE = [\<lambda>m. CLKST (S m) = 2, \<lambda>m. \<not> IREFST (S m), \<lambda>m. LP (C2 (ctl m))]"

definition chk_BLPI :: "('h mach \<Rightarrow> bool) list" where
  "chk_BLPI = [\<lambda>m. CLKST (S m) = 1, \<lambda>m. IREFST (S m), \<lambda>m. \<not> PLLST (S m),
     \<lambda>m. LP (C2 (ctl m))]"

definition chk_FBI :: "('h mach \<Rightarrow> bool) list" where
  "chk_FBI = [\<lambda>m. CLKST (S m) = 1, \<lambda>m. IREFST (S m), \<lambda>m. \<not> PLLST (S m),
     \<lambda>m. \<not> LP (C2 (ctl m))]"

definition chk_FEE :: "('h mach \<Rightarrow> bool) list" where
  "chk_FEE = [\<lambda>m. CLKST (S m) = 0, \<lambda>m. \<not> IREFST (S m), \<lambda>m. \<not> PLLST (S m)]"

subsection \<open>Register updates\<close>

definition C1_rmw :: "'h hw \<Rightarrow> (c1_reg \<Rightarrow> c1_reg) \<Rightarrow> ('h mach, unit) state" where
  "C1_rmw hw f = ctl_rmw hw C1 C1_update f"

definition C2_rmw :: "'h hw \<Rightarrow> (c2_reg \<Rightarrow> c2_reg) \<Rightarrow> ('h mach, unit) state" where
  "C2_rmw hw f = ctl_rmw hw C2 C2_update f"

definition C5_rmw :: "'h hw \<Rightarrow> (5 word \<Rightarrow> 5 word) \<Rightarrow> ('h mach, unit) state" where
  "C5_rmw hw f = ctl_rmw hw PRDIV0 PRDIV0_update f"

definition C6_rmw :: "'h hw \<Rightarrow> (c6_reg \<Rightarrow> c6_reg) \<Rightarrow> ('h mach, unit) state" where
  "C6_rmw hw f = ctl_rmw hw C6 C6_update f"

definition C7_rmw :: "'h hw \<Rightarrow> (bool \<Rightarrow> bool) \<Rightarrow> ('h mach, unit) state" where
  "C7_rmw hw f = ctl_rmw hw OSCSEL OSCSEL_update f"

definition C8_rmw :: "'h hw \<Rightarrow> (bool \<Rightarrow> bool) \<Rightarrow> ('h mach, unit) state" where
  "C8_rmw hw f = ctl_rmw hw CME1 CME1_update f"

text \<open>The external reference divider for a crystal frequency.\<close>

definition frdiv_val :: "int \<Rightarrow> 3 word" where
  "frdiv_val crystal_val =
    (if crystal_val \<le> 1250000 then 0
     else if crystal_val \<le> 2500000 then 1
     else if crystal_val \<le> 5000000 then 2
     else if crystal_val \<le> 10000000 then 3
     else if crystal_val \<le> 20000000 then 4
     else 5)"

definition range_val :: "int \<Rightarrow> 2 word" where
  "range_val crystal_val =
    (if crystal_val \<le> 40000 then 0 else if crystal_val \<le> 8000000 then 1 else 2)"

definition crystal_out_of_spec :: "bool \<Rightarrow> int \<Rightarrow> bool" where
  "crystal_out_of_spec erefs_val crystal_val \<longleftrightarrow> erefs_val \<and>
     (crystal_val < 30000 \<or> crystal_val > 40000 \<and> crystal_val < 3000000 \<or> crystal_val > 32000000)"

text \<open>Range, gain and source of the oscillator in \<^verbatim>\<open>MCG_C2\<close>; \<open>hgo_val\<close> is forced to 1 when positive.\<close>

definition cfg_osc :: "'h hw \<Rightarrow> 2 word \<Rightarrow> u8 \<Rightarrow> bool \<Rightarrow> ('h mach, unit) state" where
  "cfg_osc hw rng hgo_val erefs_val =
     C2_rmw hw (\<lambda>v. v\<lparr>RANGE0 := rng, HGO0 := hgo_val > 0, EREFS0 := erefs_val\<rparr>)"

definition osc_wait :: "'h hw \<Rightarrow> bool \<Rightarrow> nat \<Rightarrow> ('h mach, int) state \<Rightarrow> ('h mach, int) state" where
  "osc_wait hw erefs_val n k =
     (if erefs_val then wait_for hw (\<lambda>m. OSCINIT0 (S m)) n 0x23 k else k)"

definition irc_out_of_spec :: "u8 \<Rightarrow> int \<Rightarrow> int option" where
  "irc_out_of_spec irc_select irc_freq =
    (if irc_select = 0
     then if irc_freq < 31250 \<or> irc_freq > 39063 then Some 0x31 else None
     else if irc_freq < 3000000 \<or> irc_freq > 5000000 then Some 0x32 else None)"

definition select_irc :: "'h hw \<Rightarrow> u8 \<Rightarrow> ('h mach, unit) state" where
  "select_irc hw irc_select = C2_rmw hw (\<lambda>v. v\<lparr>IRCS := irc_select \<noteq> 0\<rparr>)"

definition irc_wait :: "'h hw \<Rightarrow> u8 \<Rightarrow> ('h mach, int) state \<Rightarrow> ('h mach, int) state" where
  "irc_wait hw irc_select k =
    (if irc_select = 0
     then wait_for hw (\<lambda>m. \<not> IRCST (S m)) 2000 0x13 k
     else wait_for hw (\<lambda>m. IRCST (S m)) 2000 0x14 k)"

definition irc_out :: "'h hw \<Rightarrow> int \<Rightarrow> u8 \<Rightarrow> ('h mach, int) state" where
  "irc_out hw irc_freq irc_select =
    (if irc_select \<noteq> 0 then do {
       d \<leftarrow> rd hw (\<lambda>m. FCRDIV (SC m));
       State_Monad.return (irc_freq sdiv 2 ^ unat d)
     } else State_Monad.return irc_freq)"

section \<open>The FLL frequency\<close>

text \<open>The multiplier and the output range of a DRS setting, and the two error codes of that setting.\<close>

definition fll_mult :: "bool \<Rightarrow> 2 word \<Rightarrow> int" where
  "fll_mult dmx32 drs =
    (if dmx32 then (if drs = 0 then 732 else if drs = 1 then 1464 else if drs = 2 then 2197 else 2929)
     else (if drs = 0 then 640 else if drs = 1 then 1280 else if drs = 2 then 1920 else 2560))"

definition fll_check :: "2 word \<Rightarrow> int \<Rightarrow> int" where
  "fll_check drs fll_freq_hz =
    (if drs = 0 then
       (if fll_freq_hz < 20000000 then 0x33 else if fll_freq_hz > 25000000 then 0x34 else fll_freq_hz)
     else if drs = 1 then
       (if fll_freq_hz < 40000000 then 0x35 else if fll_freq_hz > 50000000 then 0x36 else fll_freq_hz)
     else if drs = 2 then
       (if fll_freq_hz < 60000000 then 0x37 else if fll_freq_hz > 75000000 then 0x38 else fll_freq_hz)
     else
       (if fll_freq_hz < 80000000 then 0x39 else if fll_freq_hz > 100000000 then 0x3A else fll_freq_hz))"

definition fll_freq :: "'h hw \<Rightarrow> int \<Rightarrow> ('h mach, int) state" where
  "fll_freq hw fll_ref = do {
     dmx32 \<leftarrow> rd hw (\<lambda>m. DMX32 (C4 (ctl m)));
     drs \<leftarrow> rd hw (\<lambda>m. DRST_DRS (C4 (ctl m)));
     State_Monad.return (fll_check drs (fll_ref * fll_mult dmx32 drs))
   }"

section \<open>From reset straight to the PLL\<close>

text \<open>The PLL divider checks of \<^verbatim>\<open>pll_init\<close> and \<^verbatim>\<open>fbe_pbe\<close>; \<open>None\<close> when all are passed.\<close>

definition pll_out_of_spec :: "int \<Rightarrow> int \<Rightarrow> int \<Rightarrow> int option" where
  "pll_out_of_spec crystal_val prdiv_val vdiv_val =
    (if prdiv_val < 1 \<or> prdiv_val > 25 then Some 0x41
     else if vdiv_val < 24 \<or> vdiv_val > 55 then Some 0x42
     else if crystal_val sdiv prdiv_val < 2000000 \<or> crystal_val sdiv prdiv_val > 4000000 then Some 0x43
     else if (crystal_val sdiv prdiv_val) * vdiv_val < 48000000 \<or>
             (crystal_val sdiv prdiv_val) * vdiv_val > 100000000 then Some 0x45
     else None)"

definition set_pll :: "'h hw \<Rightarrow> int \<Rightarrow> int \<Rightarrow> ('h mach, unit) state" where
  "set_pll hw prdiv_val vdiv_val = do {
     C5_rmw hw (\<lambda>_. word_of_int (prdiv_val - 1));
     C6_rmw hw (\<lambda>v. v\<lparr>PLLS := True, VDIV0 := word_of_int (vdiv_val - 24)\<rparr>)
   }"

text \<open>Switch \<^verbatim>\<open>CLKS\<close> to the PLL and report the frequency of the dividers actually set.\<close>

definition to_pee :: "'h hw \<Rightarrow> int \<Rightarrow> ('h mach, int) state" where
  "to_pee hw crystal_val = do {
     prdiv \<leftarrow> rd hw (\<lambda>m. uint (PRDIV0 (ctl m)) + 1);
     vdiv \<leftarrow> rd hw (\<lambda>m. uint (VDIV0 (C6 (ctl m))) + 24);
     C1_rmw hw (CLKS_update (\<lambda>_. 0));
     wait_for hw (\<lambda>m. CLKST (S m) = 3) 2000 0x1B
       (State_Monad.return ((crystal_val sdiv prdiv) * vdiv))
   }"

definition pll_init :: "'h hw \<Rightarrow> int \<Rightarrow> u8 \<Rightarrow> bool \<Rightarrow> int \<Rightarrow> int \<Rightarrow> u8 \<Rightarrow> ('h mach, int) state" where
  "pll_init hw crystal_val hgo_val erefs_val prdiv_val vdiv_val mcgout_select = do {
     ok \<leftarrow> conj_rd hw chk_FEI;
     if \<not> ok then State_Monad.return 0x1
     else if crystal_val > 50000000 then State_Monad.return 0x21
     else if erefs_val \<and> (crystal_val < 3000000 \<or> crystal_val > 32000000) then State_Monad.return 0x22
     else (case pll_out_of_spec crystal_val prdiv_val vdiv_val of
       Some code \<Rightarrow> State_Monad.return code
     | None \<Rightarrow> do {
         cfg_osc hw (if crystal_val \<le> 8000000 then 1 else 2) hgo_val erefs_val;
         C1_rmw hw (\<lambda>v. v\<lparr>CLKS := 2, FRDIV := frdiv_val crystal_val, IREFS := False\<rparr>);
         osc_wait hw erefs_val 20000 (
           wait_for hw (\<lambda>m. \<not> IREFST (S m)) 2000 0x11 (
             wait_for hw (\<lambda>m. CLKST (S m) = 2) 2000 0x1A (do {
               C6_rmw hw (CME0_update (\<lambda>_. True));
               set_pll hw prdiv_val vdiv_val;
               wait_for hw (\<lambda>m. PLLST (S m)) 2000 0x16 (
                 wait_for hw (\<lambda>m. LOCK0 (S m)) 4000 0x44 (to_pee hw crystal_val))
             })))
       })
   }"

section \<open>Mode transitions\<close>

definition pee_pbe :: "'h hw \<Rightarrow> int \<Rightarrow> ('h mach, int) state" where
  "pee_pbe hw crystal_val = do {
     ok \<leftarrow> conj_rd hw chk_PEE;
     if \<not> ok then State_Monad.return 0x8
     else do {
       C1_rmw hw (CLKS_update (\<lambda>x. x OR 2));
       wait_for hw (\<lambda>m. CLKST (S m) = 2) 2000 0x1A (State_Monad.return crystal_val)
     }
   }"

definition pbe_pee :: "'h hw \<Rightarrow> int \<Rightarrow> ('h mach, int) state" where
  "pbe_pee hw crystal_val = do {
     ok \<leftarrow> conj_rd hw chk_PBE;
     if \<not> ok then State_Monad.return 0x7
     else wait_for hw (\<lambda>m. LOCK0 (S m)) 2000 0x44 (to_pee hw crystal_val)
   }"

definition pbe_fbe :: "'h hw \<Rightarrow> int \<Rightarrow> ('h mach, int) state" where
  "pbe_fbe hw crystal_val = do {
     ok \<leftarrow> conj_rd hw chk_PBE;
     if \<not> ok then State_Monad.return 0x7
     else do {
       C6_rmw hw (PLLS_update (\<lambda>_. False));
       wait_for hw (\<lambda>m. \<not> PLLST (S m)) 2000 0x15 (State_Monad.return crystal_val)
     }
   }"

definition fbe_pbe :: "'h hw \<Rightarrow> int \<Rightarrow> int \<Rightarrow> int \<Rightarrow> ('h mach, int) state" where
  "fbe_pbe hw crystal_val prdiv_val vdiv_val = do {
     ok \<leftarrow> conj_rd hw chk_FBE;
     if \<not> ok then State_Monad.return 0x4
     else (case pll_out_of_spec crystal_val prdiv_val vdiv_val of
       Some code \<Rightarrow> State_Monad.return code
     | None \<Rightarrow> do {
         set_pll hw prdiv_val vdiv_val;
         wait_for hw (\<lambda>m. PLLST (S m)) 2000 0x16 (
           wait_for hw (\<lambda>m. LOCK0 (S m)) 2000 0x44 (State_Monad.return crystal_val))
       })
   }"

definition pbe_blpe :: "'h hw \<Rightarrow> int \<Rightarrow> ('h mach, int) state" where
  "pbe_blpe hw crystal_val = do {
     ok \<leftarrow> conj_rd hw chk_PBE;
     if \<not> ok then State_Monad.return 0x7
     else do {
       C2_rmw hw (LP_update (\<lambda>_. True));
       State_Monad.return crystal_val
     }
   }"

text \<open>Unlike \<^verbatim>\<open>fbe_pbe\<close>, this function does not check the PLL output frequency.\<close>

definition blpe_pbe :: "'h hw \<Rightarrow> int \<Rightarrow> int \<Rightarrow> int \<Rightarrow> ('h mach, int) state" where
  "blpe_pbe hw crystal_val prdiv_val vdiv_val = do {
     ok \<leftarrow> conj_rd hw chk_BLPE;
     if \<not> ok then State_Monad.return 0x6
     else if prdiv_val < 1 \<or> prdiv_val > 25 then State_Monad.return 0x41
     else if vdiv_val < 24 \<or> vdiv_val > 55 then State_Monad.return 0x42
     else if crystal_val sdiv prdiv_val < 2000000 \<or> crystal_val sdiv prdiv_val > 4000000
       then State_Monad.return 0x43
     else do {
       set_pll hw prdiv_val vdiv_val;
       C2_rmw hw (LP_update (\<lambda>_. False));
       wait_for hw (\<lambda>m. PLLST (S m)) 2000 0x16 (
         wait_for hw (\<lambda>m. LOCK0 (S m)) 2000 0x44 (State_Monad.return crystal_val))
     }
   }"

definition blpe_fbe :: "'h hw \<Rightarrow> int \<Rightarrow> ('h mach, int) state" where
  "blpe_fbe hw crystal_val = do {
     ok \<leftarrow> conj_rd hw chk_BLPE;
     if \<not> ok then State_Monad.return 0x6
     else do {
       C6_rmw hw (PLLS_update (\<lambda>_. False));
       C2_rmw hw (LP_update (\<lambda>_. False));
       wait_for hw (\<lambda>m. \<not> PLLST (S m)) 2000 0x15 (State_Monad.return crystal_val)
     }
   }"

definition fbe_blpe :: "'h hw \<Rightarrow> int \<Rightarrow> ('h mach, int) state" where
  "fbe_blpe hw crystal_val = do {
     ok \<leftarrow> conj_rd hw chk_FBE;
     if \<not> ok then State_Monad.return 0x4
     else do {
       C2_rmw hw (LP_update (\<lambda>_. True));
       State_Monad.return crystal_val
     }
   }"

definition fbe_fei :: "'h hw \<Rightarrow> int \<Rightarrow> ('h mach, int) state" where
  "fbe_fei hw slow_irc_freq = do {
     ok \<leftarrow> conj_rd hw chk_FBE;
     if \<not> ok then State_Monad.return 0x4
     else if slow_irc_freq < 31250 \<or> slow_irc_freq > 39063 then State_Monad.return 0x31
     else do {
       mcg_out \<leftarrow> fll_freq hw slow_irc_freq;
       if mcg_out < 0x5B then State_Monad.return mcg_out
       else do {
         C6_rmw hw (CME0_update (\<lambda>_. False));
         C1_rmw hw (\<lambda>v. v\<lparr>CLKS := 0, IREFS := True\<rparr>);
         wait_for hw (\<lambda>m. IREFST (S m)) 2000 0x12 (
           wait_for hw (\<lambda>m. CLKST (S m) = 0) 2000 0x18 (State_Monad.return mcg_out))
       }
     }
   }"

text \<open>The switch to the external reference that \<^verbatim>\<open>fei_fbe\<close> and \<^verbatim>\<open>fbi_fbe\<close> share after their mode check.\<close>

definition to_fbe :: "'h hw \<Rightarrow> int \<Rightarrow> u8 \<Rightarrow> bool \<Rightarrow> ('h mach, int) state" where
  "to_fbe hw crystal_val hgo_val erefs_val =
    (if crystal_val > 50000000 then State_Monad.return 0x21
     else if crystal_out_of_spec erefs_val crystal_val then State_Monad.return 0x22
     else do {
       cfg_osc hw (range_val crystal_val) hgo_val erefs_val;
       C1_rmw hw (\<lambda>v. v\<lparr>CLKS := 2, FRDIV := frdiv_val crystal_val, IREFS := False\<rparr>);
       osc_wait hw erefs_val 10000 (
         wait_for hw (\<lambda>m. \<not> IREFST (S m)) 2000 0x11 (
           wait_for hw (\<lambda>m. CLKST (S m) = 2) 2000 0x1A (do {
             C6_rmw hw (CME0_update (\<lambda>_. True));
             State_Monad.return crystal_val
           })))
     })"

definition fei_fbe :: "'h hw \<Rightarrow> int \<Rightarrow> u8 \<Rightarrow> bool \<Rightarrow> ('h mach, int) state" where
  "fei_fbe hw crystal_val hgo_val erefs_val = do {
     ok \<leftarrow> conj_rd hw chk_FEI;
     if \<not> ok then State_Monad.return 0x1
     else to_fbe hw crystal_val hgo_val erefs_val
   }"

text \<open>
  The reference frequency is kept in a \<^verbatim>\<open>short\<close>, and in the low range the divider is taken from
  \<^verbatim>\<open>RANGE0\<close>.
\<close>

definition fbe_fee_ref :: "'h hw \<Rightarrow> int \<Rightarrow> ('h mach, int) state" where
  "fbe_fee_ref hw crystal_val = do {
     high \<leftarrow> rd hw (\<lambda>m. RANGE0 (C2 (ctl m)) > 0);
     if high then rd hw (\<lambda>m. to_s16 (crystal_val sdiv (32 * 2 ^ unat (FRDIV (C1 (ctl m))))))
     else rd hw (\<lambda>m. to_s16 (crystal_val sdiv 2 ^ unat (RANGE0 (C2 (ctl m)))))
   }"

definition fbe_fee :: "'h hw \<Rightarrow> int \<Rightarrow> ('h mach, int) state" where
  "fbe_fee hw crystal_val = do {
     ok \<leftarrow> conj_rd hw chk_FBE;
     if \<not> ok then State_Monad.return 0x4
     else do {
       fll_ref_freq \<leftarrow> fbe_fee_ref hw crystal_val;
       mcg_out \<leftarrow> fll_freq hw fll_ref_freq;
       if mcg_out < 0x5B then State_Monad.return mcg_out
       else do {
         C1_rmw hw (CLKS_update (\<lambda>_. 0));
         wait_for hw (\<lambda>m. CLKST (S m) = 0) 2000 0x18 (State_Monad.return mcg_out)
       }
     }
   }"

definition fee_fbe :: "'h hw \<Rightarrow> int \<Rightarrow> ('h mach, int) state" where
  "fee_fbe hw crystal_val = do {
     ok \<leftarrow> conj_rd hw chk_FEE;
     if \<not> ok then State_Monad.return 0x2
     else do {
       C1_rmw hw (CLKS_update (\<lambda>x. x OR 2));
       wait_for hw (\<lambda>m. CLKST (S m) = 2) 2000 0x1A (State_Monad.return crystal_val)
     }
   }"

definition fbe_fbi :: "'h hw \<Rightarrow> int \<Rightarrow> u8 \<Rightarrow> ('h mach, int) state" where
  "fbe_fbi hw irc_freq irc_select = do {
     ok \<leftarrow> conj_rd hw chk_FBE;
     if \<not> ok then State_Monad.return 0x4
     else (case irc_out_of_spec irc_select irc_freq of
       Some code \<Rightarrow> State_Monad.return code
     | None \<Rightarrow> do {
         select_irc hw irc_select;
         C6_rmw hw (CME0_update (\<lambda>_. False));
         C1_rmw hw (\<lambda>v. v\<lparr>CLKS := 1, IREFS := True\<rparr>);
         irc_wait hw irc_select (
           wait_for hw (\<lambda>m. CLKST (S m) = 1) 2000 0x19 (
             wait_for hw (\<lambda>m. IREFST (S m)) 2000 0x12 (irc_out hw irc_freq irc_select)))
       })
   }"

definition fbi_fbe :: "'h hw \<Rightarrow> int \<Rightarrow> u8 \<Rightarrow> bool \<Rightarrow> ('h mach, int) state" where
  "fbi_fbe hw crystal_val hgo_val erefs_val = do {
     ok \<leftarrow> conj_rd hw chk_FBI;
     if \<not> ok then State_Monad.return 0x3
     else to_fbe hw crystal_val hgo_val erefs_val
   }"

definition fbi_blpi :: "'h hw \<Rightarrow> int \<Rightarrow> u8 \<Rightarrow> ('h mach, int) state" where
  "fbi_blpi hw irc_freq irc_select = do {
     ok \<leftarrow> conj_rd hw chk_FBI;
     if \<not> ok then State_Monad.return 0x3
     else do {
       C2_rmw hw (LP_update (\<lambda>_. True));
       irc_out hw irc_freq irc_select
     }
   }"

definition blpi_fbi :: "'h hw \<Rightarrow> int \<Rightarrow> u8 \<Rightarrow> ('h mach, int) state" where
  "blpi_fbi hw irc_freq irc_select = do {
     ok \<leftarrow> conj_rd hw chk_BLPI;
     if \<not> ok then State_Monad.return 0x5
     else do {
       C2_rmw hw (LP_update (\<lambda>_. False));
       irc_out hw irc_freq irc_select
     }
   }"

text \<open>
  The switch to the FLL on the external reference: the reference frequency and its check, which
  \<^verbatim>\<open>fbi_fee\<close> and \<^verbatim>\<open>fei_fee\<close> share, and what follows it as an argument.
\<close>

definition to_fee_ref :: "'h hw \<Rightarrow> int \<Rightarrow> ('h mach, int) state" where
  "to_fee_ref hw crystal_val = do {
     high \<leftarrow> rd hw (\<lambda>m. RANGE0 (C2 (ctl m)) > 0);
     State_Monad.return
       (if high then crystal_val sdiv (32 * 2 ^ unat (frdiv_val crystal_val))
        else crystal_val sdiv 2 ^ unat (frdiv_val crystal_val))
   }"

definition to_fee :: "'h hw \<Rightarrow> int \<Rightarrow> u8 \<Rightarrow> bool \<Rightarrow> (int \<Rightarrow> ('h mach, int) state) \<Rightarrow>
    ('h mach, int) state" where
  "to_fee hw crystal_val hgo_val erefs_val k =
    (if crystal_val > 50000000 then State_Monad.return 0x21
     else if crystal_out_of_spec erefs_val crystal_val then State_Monad.return 0x22
     else do {
       cfg_osc hw (range_val crystal_val) hgo_val erefs_val;
       fll_ref_freq \<leftarrow> to_fee_ref hw crystal_val;
       mcg_out \<leftarrow> fll_freq hw fll_ref_freq;
       if mcg_out < 0x5B then State_Monad.return mcg_out
       else do {
         C1_rmw hw (\<lambda>v. v\<lparr>CLKS := 0, FRDIV := frdiv_val crystal_val, IREFS := False\<rparr>);
         k mcg_out
       }
     })"

definition fbi_fee :: "'h hw \<Rightarrow> int \<Rightarrow> u8 \<Rightarrow> bool \<Rightarrow> ('h mach, int) state" where
  "fbi_fee hw crystal_val hgo_val erefs_val = do {
     ok \<leftarrow> conj_rd hw chk_FBI;
     if \<not> ok then State_Monad.return 0x3
     else to_fee hw crystal_val hgo_val erefs_val (\<lambda>mcg_out.
       osc_wait hw erefs_val 10000 (
         wait_for hw (\<lambda>m. \<not> IREFST (S m)) 2000 0x11 (
           wait_for hw (\<lambda>m. CLKST (S m) = 0) 2000 0x18 (do {
             C6_rmw hw (CME0_update (\<lambda>_. True));
             State_Monad.return mcg_out
           }))))
   }"

definition fee_fbi :: "'h hw \<Rightarrow> int \<Rightarrow> u8 \<Rightarrow> ('h mach, int) state" where
  "fee_fbi hw irc_freq irc_select = do {
     ok \<leftarrow> conj_rd hw chk_FEE;
     if \<not> ok then State_Monad.return 0x2
     else (case irc_out_of_spec irc_select irc_freq of
       Some code \<Rightarrow> State_Monad.return code
     | None \<Rightarrow> do {
         select_irc hw irc_select;
         C6_rmw hw (CME0_update (\<lambda>_. False));
         C1_rmw hw (\<lambda>v. v\<lparr>CLKS := CLKS v OR 1, IREFS := True\<rparr>);
         irc_wait hw irc_select (
           wait_for hw (\<lambda>m. CLKST (S m) = 1) 2000 0x19 (
             wait_for hw (\<lambda>m. IREFST (S m)) 2000 0x12 (irc_out hw irc_freq irc_select)))
       })
   }"

definition fbi_fei :: "'h hw \<Rightarrow> int \<Rightarrow> ('h mach, int) state" where
  "fbi_fei hw slow_irc_freq = do {
     ok \<leftarrow> conj_rd hw chk_FBI;
     if \<not> ok then State_Monad.return 0x3
     else if slow_irc_freq < 31250 \<or> slow_irc_freq > 39063 then State_Monad.return 0x31
     else do {
       mcg_out \<leftarrow> fll_freq hw slow_irc_freq;
       if mcg_out < 0x5B then State_Monad.return mcg_out
       else do {
         C1_rmw hw (\<lambda>v. v\<lparr>CLKS := 0, IREFS := True\<rparr>);
         wait_for hw (\<lambda>m. IREFST (S m)) 2000 0x12 (
           wait_for hw (\<lambda>m. CLKST (S m) = 0) 2000 0x18 (State_Monad.return mcg_out))
       }
     }
   }"

definition fei_fbi :: "'h hw \<Rightarrow> int \<Rightarrow> u8 \<Rightarrow> ('h mach, int) state" where
  "fei_fbi hw irc_freq irc_select = do {
     ok \<leftarrow> conj_rd hw chk_FEI;
     if \<not> ok then State_Monad.return 0x1
     else (case irc_out_of_spec irc_select irc_freq of
       Some code \<Rightarrow> State_Monad.return code
     | None \<Rightarrow> do {
         select_irc hw irc_select;
         C1_rmw hw (CLKS_update (\<lambda>_. 1));
         irc_wait hw irc_select (
           wait_for hw (\<lambda>m. CLKST (S m) = 1) 2000 0x19 (irc_out hw irc_freq irc_select))
       })
   }"

definition fei_fee :: "'h hw \<Rightarrow> int \<Rightarrow> u8 \<Rightarrow> bool \<Rightarrow> ('h mach, int) state" where
  "fei_fee hw crystal_val hgo_val erefs_val = do {
     ok \<leftarrow> conj_rd hw chk_FEI;
     if \<not> ok then State_Monad.return 0x1
     else to_fee hw crystal_val hgo_val erefs_val (\<lambda>mcg_out.
       osc_wait hw erefs_val 20000000 (
         wait_for hw (\<lambda>m. \<not> IREFST (S m)) 2000 0x11 (do {
           C6_rmw hw (CME0_update (\<lambda>_. True));
           State_Monad.return mcg_out
         })))
   }"

definition fee_fei :: "'h hw \<Rightarrow> int \<Rightarrow> ('h mach, int) state" where
  "fee_fei hw slow_irc_freq = do {
     ok \<leftarrow> conj_rd hw chk_FEE;
     if \<not> ok then State_Monad.return 0x2
     else if slow_irc_freq < 31250 \<or> slow_irc_freq > 39063 then State_Monad.return 0x31
     else do {
       mcg_out \<leftarrow> fll_freq hw slow_irc_freq;
       if mcg_out < 0x5B then State_Monad.return mcg_out
       else do {
         C6_rmw hw (CME0_update (\<lambda>_. False));
         C1_rmw hw (IREFS_update (\<lambda>_. True));
         wait_for hw (\<lambda>m. IREFST (S m)) 2000 0x12 (State_Monad.return mcg_out)
       }
     }
   }"

section \<open>The RTC oscillator as FLL reference\<close>

text \<open>\<^verbatim>\<open>RTC->SR |= RTC_SR_TCE_MASK\<close> and its inverse; \<^verbatim>\<open>TIF\<close> in the same register is read-only.\<close>

definition rtc_set_tce :: "'h hw \<Rightarrow> bool \<Rightarrow> ('h mach, unit) state" where
  "rtc_set_tce hw b = do {
     v \<leftarrow> rd hw RTC;
     wr hw (RTC_update (TCE_update (\<lambda>_. b)))
   }"

definition set_rtc_gate :: "'h hw \<Rightarrow> bool \<Rightarrow> ('h mach, unit) state" where
  "set_rtc_gate hw b = do {
     v \<leftarrow> rd hw SCGC6_RTC;
     wr hw (SCGC6_RTC_update (\<lambda>_. b))
   }"

text \<open>The count the prescaler is awaited at, in the unsigned arithmetic of \<^verbatim>\<open>RTC->TPR\<close>.\<close>

definition rtc_count :: "'h hw \<Rightarrow> ('h mach, u32) state" where
  "rtc_count hw = do {
     high \<leftarrow> rd hw (\<lambda>m. TPR (RTC m) > 0x6FFF);
     tpr \<leftarrow> rd hw (\<lambda>m. TPR (RTC m));
     State_Monad.return (if high then 0x8000 - tpr else tpr + 4096)
   }"

text \<open>
  Enables the RTC clock gate, the time counter and the oscillator, waits for the prescaler to
  count, and puts the gate and the time counter back; the result says whether the count was seen.
\<close>

definition rtc_running :: "'h hw \<Rightarrow> ('h mach, bool) state" where
  "rtc_running hw = do {
     gate \<leftarrow> rd hw SCGC6_RTC;
     (if gate then State_Monad.return () else set_rtc_gate hw True);
     tce \<leftarrow> rd hw (\<lambda>m. TCE (RTC m));
     (if tce then State_Monad.return () else rtc_set_tce hw True);
     osce \<leftarrow> rd hw (\<lambda>m. OSCE (RTC m));
     (if osce then State_Monad.return () else do {
        v \<leftarrow> rd hw RTC;
        wr hw (RTC_update (OSCE_update (\<lambda>_. True)))
      });
     tif \<leftarrow> rd hw (\<lambda>m. TIF (RTC m));
     (if tif then do {
        rtc_set_tce hw False;
        wr hw (RTC_update (TSR_update (\<lambda>_. 0)));
        rtc_set_tce hw True
      } else State_Monad.return ());
     count \<leftarrow> rtc_count hw;
     poll hw (\<lambda>m. TPR (RTC m) = count) 11250000;
     seen \<leftarrow> rd hw (\<lambda>m. TPR (RTC m) = count);
     (if tce then State_Monad.return () else rtc_set_tce hw False);
     (if gate then State_Monad.return () else set_rtc_gate hw False);
     State_Monad.return seen
   }"

definition fei_fee_rtc :: "'h hw \<Rightarrow> int \<Rightarrow> ('h mach, int) state" where
  "fei_fee_rtc hw rtc_freq = do {
     ok \<leftarrow> conj_rd hw chk_FEI;
     if \<not> ok then State_Monad.return 0x1
     else if rtc_freq > 40000 \<or> rtc_freq < 30000 then State_Monad.return 0x24
     else do {
       running \<leftarrow> rtc_running hw;
       if \<not> running then State_Monad.return 0x25
       else do {
         C7_rmw hw (\<lambda>_. True);
         C1_rmw hw (\<lambda>v. v\<lparr>CLKS := 0, FRDIV := 0, IREFS := False\<rparr>);
         wait_for hw (\<lambda>m. \<not> IREFST (S m)) 2000 0x11 (do {
           mcg_out \<leftarrow> fll_freq hw rtc_freq;
           if mcg_out < 0x5B then State_Monad.return mcg_out
           else do {
             C8_rmw hw (\<lambda>_. True);
             State_Monad.return mcg_out
           }
         })
       }
     }
   }"

definition fee_fei_rtc :: "'h hw \<Rightarrow> int \<Rightarrow> ('h mach, int) state" where
  "fee_fei_rtc hw slow_irc_freq = do {
     ok \<leftarrow> conj_rd hw chk_FEE;
     if \<not> ok then State_Monad.return 0x2
     else if slow_irc_freq < 31250 \<or> slow_irc_freq > 39063 then State_Monad.return 0x31
     else do {
       mcg_out \<leftarrow> fll_freq hw slow_irc_freq;
       if mcg_out < 0x5B then State_Monad.return mcg_out
       else do {
         C8_rmw hw (\<lambda>_. False);
         C1_rmw hw (IREFS_update (\<lambda>_. True));
         wait_for hw (\<lambda>m. IREFST (S m)) 2000 0x12 (do {
           C7_rmw hw (\<lambda>_. False);
           State_Monad.return mcg_out
         })
       }
     }
   }"

section \<open>Reading the mode, and the clock monitor\<close>

abbreviation BLPI :: u8 where "BLPI \<equiv> 1"
abbreviation FBI :: u8 where "FBI \<equiv> 2"
abbreviation FEI :: u8 where "FEI \<equiv> 3"
abbreviation FEE :: u8 where "FEE \<equiv> 4"
abbreviation FBE :: u8 where "FBE \<equiv> 5"
abbreviation BLPE :: u8 where "BLPE \<equiv> 6"
abbreviation PBE :: u8 where "PBE \<equiv> 7"
abbreviation PEE :: u8 where "PEE \<equiv> 8"

fun first_mode :: "'h hw \<Rightarrow> (('h mach \<Rightarrow> bool) list \<times> u8) list \<Rightarrow> ('h mach, u8) state" where
  "first_mode hw [] = State_Monad.return 0"
| "first_mode hw ((ps, code) # rest) = do {
     ok \<leftarrow> conj_rd hw ps;
     if ok then State_Monad.return code else first_mode hw rest
   }"

definition what_mcg_mode :: "'h hw \<Rightarrow> ('h mach, u8) state" where
  "what_mcg_mode hw = first_mode hw
     [(chk_FEI, FEI), (chk_PEE, PEE), (chk_PBE, PBE), (chk_FBE, FBE),
      (chk_BLPE, BLPE), (chk_BLPI, BLPI), (chk_FBI, FBI), (chk_FEE, FEE)]"

definition clk_monitor_0 :: "'h hw \<Rightarrow> u8 \<Rightarrow> ('h mach, unit) state" where
  "clk_monitor_0 hw en_dis = C6_rmw hw (CME0_update (\<lambda>_. en_dis \<noteq> 0))"

text \<open>\<^verbatim>\<open>rtc_as_refclk\<close> is declared in \<^verbatim>\<open>MCG.h\<close> and defined nowhere in the repository: a parameter.\<close>

definition fll_rtc_init :: "('h mach, unit) state \<Rightarrow> u8 \<Rightarrow> u8 \<Rightarrow> ('h mach, u8) state" where
  "fll_rtc_init rtc_as_refclk clk_option crystal_val = do {
     rtc_as_refclk;
     State_Monad.return 24
   }"

section \<open>Automatic trimming of the internal reference clock\<close>

text \<open>
  \<^verbatim>\<open>atc\<close> computes its count in single precision. \<open>f32\<close> rounds a rational that is at least 1 to the
  nearest number with a 24-bit significand, ties to even.
\<close>

definition round_half_even :: "rat \<Rightarrow> int" where
  "round_half_even q = (let n = \<lfloor>q\<rfloor>; d = q - of_int n in
     if d < 1/2 \<or> d = 1/2 \<and> even n then n else n + 1)"

definition f32_ulp :: "rat \<Rightarrow> rat" where
  "f32_ulp q = 2 ^ floorlog 2 (nat \<lfloor>q\<rfloor>) / 2 ^ 24"

definition f32 :: "rat \<Rightarrow> rat" where
  "f32 q = of_int (round_half_even (q / f32_ulp q)) * f32_ulp q"

definition atcv_count :: "bool \<Rightarrow> int \<Rightarrow> int \<Rightarrow> u16" where
  "atcv_count fast bus_clock_freq irc_freq =
    (let q = f32 (f32 (of_int bus_clock_freq) / f32 (of_int irc_freq)) in
     if fast then word_of_int \<lfloor>f32 (128 * f32 (21 * q))\<rfloor>
     else word_of_int \<lfloor>f32 (21 * q)\<rfloor>)"

text \<open>\<^verbatim>\<open>while (MCG->SC & MCG_SC_ATME_MASK) {}\<close>, with a bound on the reads; \<open>False\<close> when it is used up.\<close>

fun spin :: "'h hw \<Rightarrow> ('h mach \<Rightarrow> bool) \<Rightarrow> nat \<Rightarrow> ('h mach, bool) state" where
  "spin hw p 0 = State_Monad.return False"
| "spin hw p (Suc n) = do {
     b \<leftarrow> rd hw p;
     if b then spin hw p n else State_Monad.return True
   }"

definition atc_irc_error :: "bool \<Rightarrow> int \<Rightarrow> u8 option" where
  "atc_irc_error fast irc_freq =
    (if \<not> fast then (if irc_freq < 31250 then Some 4 else if irc_freq > 39062 then Some 5 else None)
     else (if irc_freq < 3000000 then Some 6 else if irc_freq > 5000000 then Some 7 else None))"

text \<open>The trim registers after the trim machine has stopped, and the code for what they hold.\<close>

definition atc_result :: "'h hw \<Rightarrow> bool \<Rightarrow> ('h mach, u8) state" where
  "atc_result hw fast = do {
     failed \<leftarrow> rd hw (\<lambda>m. ATMF (SC m));
     if failed then State_Monad.return 8
     else if \<not> fast then do {
       max \<leftarrow> rd hw (\<lambda>m. C3 m = 0xFF);
       if max then State_Monad.return 9
       else do {
         min \<leftarrow> rd hw (\<lambda>m. C3 m = 0);
         State_Monad.return (if min then 9 else 0)
       }
     } else do {
       max \<leftarrow> rd hw (\<lambda>m. FCTRIM m = 0xF);
       if max then State_Monad.return 10
       else do {
         min \<leftarrow> rd hw (\<lambda>m. FCTRIM m = 0);
         State_Monad.return (if min then 10 else 0)
       }
     }
   }"

definition atc_trim :: "'h hw \<Rightarrow> nat \<Rightarrow> bool \<Rightarrow> u16 \<Rightarrow> ('h mach, u8 option) state" where
  "atc_trim hw fuel fast atcv = do {
     wr hw (ATCVL_update (\<lambda>_. ucast (atcv AND 0xFF)));
     wr hw (ATCVH_update (\<lambda>_. ucast (drop_bit 8 (atcv AND 0xFF00))));
     sc \<leftarrow> rd hw SC;
     wr hw (SC_update (\<lambda>_. sc\<lparr>ATME := False, ATMS := False, ATMF := False\<rparr>));
     sc \<leftarrow> rd hw SC;
     wr hw (SC_update (\<lambda>_. sc\<lparr>ATME := True, ATMS := ATMS sc \<or> fast\<rparr>));
     stopped \<leftarrow> spin hw (\<lambda>m. ATME (SC m)) fuel;
     if \<not> stopped then State_Monad.return None
     else do {
       code \<leftarrow> atc_result hw fast;
       State_Monad.return (Some code)
     }
   }"

definition atc :: "'h hw \<Rightarrow> nat \<Rightarrow> u8 \<Rightarrow> int \<Rightarrow> int \<Rightarrow> ('h mach, u8 option) state" where
  "atc hw fuel irc_select irc_freq mcg_out_freq = do {
     mcg_mode \<leftarrow> what_mcg_mode hw;
     if mcg_mode \<noteq> PEE \<and> mcg_mode \<noteq> PBE \<and> mcg_mode \<noteq> FBE then State_Monad.return (Some 1)
     else do {
       orig_div \<leftarrow> rd hw CLKDIV1;
       temp_reg \<leftarrow> rd hw CLKDIV1;
       wr hw (CLKDIV1_update (\<lambda>_. temp_reg
         \<lparr>OUTDIV2 := word_of_int (mcg_out_freq sdiv 16000000),
          OUTDIV4 := word_of_int (mcg_out_freq sdiv 16000000)\<rparr>));
       bus_clock_freq \<leftarrow> rd hw (\<lambda>m. mcg_out_freq sdiv (uint (OUTDIV2 (CLKDIV1 m)) + 1));
       if bus_clock_freq < 8000000 \<or> bus_clock_freq > 16000000 then do {
         wr hw (CLKDIV1_update (\<lambda>_. orig_div));
         State_Monad.return (Some 3)
       } else (case atc_irc_error (irc_select > 0) irc_freq of
         Some code \<Rightarrow> do {
           wr hw (CLKDIV1_update (\<lambda>_. orig_div));
           State_Monad.return (Some code)
         }
       | None \<Rightarrow> do {
           result \<leftarrow> atc_trim hw fuel (irc_select > 0)
             (atcv_count (irc_select > 0) bus_clock_freq irc_freq);
           (case result of None \<Rightarrow> State_Monad.return None
            | Some code \<Rightarrow> do {
                wr hw (CLKDIV1_update (\<lambda>_. orig_div));
                State_Monad.return (Some code)
              })
         })
     }
   }"

end
