(* ===== verification/Mcg_Correct.thy ===== *)
theory Mcg_Correct
  imports Mcg
begin

text \<open>
  Correctness of the clock driver. The abstract view of the clock generator is the mode its
  control registers select (\<open>mode_of\<close>). Part one is about any hardware: what the driver does
  when a check fails. Part two is about hardware that follows the reference manual
  (\<open>hw_settles\<close>): every driver function moves the generator along its edge of the mode graph.
\<close>

section \<open>The abstract machine\<close>

datatype mcg_mode = M_BLPI | M_FBI | M_FEI | M_FEE | M_FBE | M_BLPE | M_PBE | M_PEE

fun mode_code :: "mcg_mode option \<Rightarrow> u8" where
  "mode_code None = 0"
| "mode_code (Some M_BLPI) = BLPI"
| "mode_code (Some M_FBI) = FBI"
| "mode_code (Some M_FEI) = FEI"
| "mode_code (Some M_FEE) = FEE"
| "mode_code (Some M_FBE) = FBE"
| "mode_code (Some M_BLPE) = BLPE"
| "mode_code (Some M_PBE) = PBE"
| "mode_code (Some M_PEE) = PEE"

definition mode_of :: "mcg_ctl \<Rightarrow> mcg_mode option" where
  "mode_of c =
    (if CLKS (C1 c) = 0 then
       (if PLLS (C6 c) then (if IREFS (C1 c) then None else Some M_PEE)
        else if IREFS (C1 c) then Some M_FEI else Some M_FEE)
     else if CLKS (C1 c) = 1 then
       (if \<not> IREFS (C1 c) \<or> PLLS (C6 c) then None
        else if LP (C2 c) then Some M_BLPI else Some M_FBI)
     else if CLKS (C1 c) = 2 then
       (if IREFS (C1 c) then None
        else if LP (C2 c) then Some M_BLPE
        else if PLLS (C6 c) then Some M_PBE else Some M_FBE)
     else None)"

text \<open>The status bits the mode checks read have reached the values the control registers ask for.\<close>

definition steady :: "'h mach \<Rightarrow> bool" where
  "steady m \<longleftrightarrow> CLKST (S m) = clkst_of (ctl m) \<and> IREFST (S m) = IREFS (C1 (ctl m)) \<and>
     PLLST (S m) = PLLS (C6 (ctl m))"

section \<open>Time passing on settling hardware\<close>

definition idle :: "'h mach \<Rightarrow> 'h mach \<Rightarrow> bool" where
  "idle m m' \<longleftrightarrow> ctl m' = ctl m \<and> FCRDIV (SC m') = FCRDIV (SC m) \<and>
     (CLKST (S m) = clkst_of (ctl m) \<longrightarrow> CLKST (S m') = clkst_of (ctl m)) \<and>
     (IREFST (S m) = IREFS (C1 (ctl m)) \<longrightarrow> IREFST (S m') = IREFS (C1 (ctl m))) \<and>
     (PLLST (S m) = PLLS (C6 (ctl m)) \<longrightarrow> PLLST (S m') = PLLS (C6 (ctl m))) \<and>
     (IRCST (S m) = IRCS (C2 (ctl m)) \<longrightarrow> IRCST (S m') = IRCS (C2 (ctl m))) \<and>
     (oscinit_of (ctl m) \<longrightarrow> OSCINIT0 (S m) \<longrightarrow> OSCINIT0 (S m')) \<and>
     (lock_of (ctl m) \<longrightarrow> LOCK0 (S m) \<longrightarrow> LOCK0 (S m'))"

lemma idle_refl: "idle m m"
  by (simp add: idle_def)

lemma idle_trans: "idle m m' \<Longrightarrow> idle m' m'' \<Longrightarrow> idle m m''"
  by (auto simp: idle_def)

lemma idle_hw: "hw_settles hw \<Longrightarrow> idle m (hw m)"
  by (auto simp: idle_def hw_settles_def hw_frame_def hw_no_glitch_def) metis+

lemma idle_hw_pow: "hw_settles hw \<Longrightarrow> idle m ((hw ^^ n) m)"
  by (induction n) (auto intro: idle_refl idle_trans idle_hw)

lemma wp_rd_settles:
  "hw_settles hw \<Longrightarrow> (\<And>m1. idle m m1 \<Longrightarrow> Q (f m1) m1) \<Longrightarrow> wp (rd hw f) Q m"
  by (simp add: wp_def rd_def Let_def idle_hw)

lemma wp_wr_settles:
  "hw_settles hw \<Longrightarrow> (\<And>m1. idle m m1 \<Longrightarrow> Q () (g m1)) \<Longrightarrow> wp (wr hw g) Q m"
  by (simp add: wp_def wr_def idle_hw)

text \<open>
  The polling idiom on settling hardware: a condition that stays true once it is true, and that the
  steady state satisfies, is seen by a loop of at least 2000 reads.
\<close>

lemma poll_reaches:
  assumes hw: "hw_settles hw"
    and stays: "\<And>m1 m2. idle m m1 \<Longrightarrow> p m1 \<Longrightarrow> idle m1 m2 \<Longrightarrow> p m2"
  shows "\<lbrakk>idle m m1; p ((hw ^^ n) m1) \<or> p m1\<rbrakk> \<Longrightarrow> n > 0 \<Longrightarrow>
    wp (poll hw p n) (\<lambda>_ m2. idle m m2 \<and> p m2) m1"
proof (induction n arbitrary: m1)
  case 0
  then show ?case by simp
next
  case (Suc n)
  have i: "idle m (hw m1)" using Suc.prems(1) idle_hw [OF hw] idle_trans by blast
  show ?case
  proof (cases "p (hw m1)")
    case True
    with i show ?thesis by (simp add: wp_def rd_def Let_def)
  next
    case False
    then have np: "\<not> p m1"
      using stays [OF Suc.prems(1)] idle_hw [OF hw] by blast
    with Suc.prems(2) have later: "p ((hw ^^ n) (hw m1))"
      by (simp add: funpow_swap1)
    with False have "n > 0" by (cases n) auto
    from Suc.IH [OF i disjI1 [OF later] this] show ?thesis
      using False by (simp add: wp_def rd_def Let_def)
  qed
qed

lemma wait_reaches:
  assumes hw: "hw_settles hw"
    and stays: "\<And>m1 m2. idle m m1 \<Longrightarrow> p m1 \<Longrightarrow> idle m1 m2 \<Longrightarrow> p m2"
    and reach: "p ((hw ^^ 2000) m)" and n: "2000 \<le> n"
    and k: "\<And>m2. idle m m2 \<Longrightarrow> p m2 \<Longrightarrow> wp k Q m2"
  shows "wp (wait_for hw p n err k) Q m"
proof -
  have "idle m ((hw ^^ 2000) m)" "idle ((hw ^^ 2000) m) ((hw ^^ (n - 2000)) ((hw ^^ 2000) m))"
    by (simp_all add: idle_hw_pow hw)
  then have "p ((hw ^^ (n - 2000)) ((hw ^^ 2000) m))"
    using reach stays by blast
  then have "p ((hw ^^ n) m)"
    using n by (simp flip: funpow_add comp_apply [of "hw ^^ _" "hw ^^ _"])
  then have polled: "wp (poll hw p n) (\<lambda>_ m2. idle m m2 \<and> p m2) m"
    using n by (intro poll_reaches [OF hw stays]) (auto simp: idle_refl)
  show ?thesis
    unfolding wait_for_def
  proof (rule wp_bind, rule wp_mono [OF polled], rule wp_bind)
    fix m2 assume m2: "idle m m2 \<and> p m2"
    show "wp (rd hw p) (\<lambda>b. wp (if b then k else State_Monad.return err) Q) m2"
    proof (rule wp_rd_settles [OF hw])
      fix m3 assume "idle m2 m3"
      with m2 have "idle m m3" "p m3" by (blast intro: idle_trans stays)+
      then show "wp (if p m3 then k else State_Monad.return err) Q m3" by (simp add: k)
    qed
  qed
qed

text \<open>One rule for each status condition the driver waits for.\<close>

lemma reachesD:
  assumes "hw_settles hw"
  shows "CLKST (S ((hw ^^ 2000) m)) = clkst_of (ctl m)"
    and "IREFST (S ((hw ^^ 2000) m)) = IREFS (C1 (ctl m))"
    and "PLLST (S ((hw ^^ 2000) m)) = PLLS (C6 (ctl m))"
    and "IRCST (S ((hw ^^ 2000) m)) = IRCS (C2 (ctl m))"
    and "oscinit_of (ctl m) \<Longrightarrow> OSCINIT0 (S ((hw ^^ 2000) m))"
    and "lock_of (ctl m) \<Longrightarrow> LOCK0 (S ((hw ^^ 2000) m))"
  using assms unfolding hw_settles_def hw_reaches_def Let_def by blast+

lemma wait_clkst:
  assumes "hw_settles hw" "clkst_of (ctl m) = v" "2000 \<le> n"
    "\<And>m2. idle m m2 \<Longrightarrow> CLKST (S m2) = v \<Longrightarrow> wp k Q m2"
  shows "wp (wait_for hw (\<lambda>m. CLKST (S m) = v) n err k) Q m"
  using assms by (intro wait_reaches) (auto simp: reachesD idle_def)

lemma wait_irefst:
  assumes "hw_settles hw" "IREFS (C1 (ctl m))" "2000 \<le> n"
    "\<And>m2. idle m m2 \<Longrightarrow> IREFST (S m2) \<Longrightarrow> wp k Q m2"
  shows "wp (wait_for hw (\<lambda>m. IREFST (S m)) n err k) Q m"
  using assms by (intro wait_reaches) (auto simp: reachesD idle_def)

lemma wait_not_irefst:
  assumes "hw_settles hw" "\<not> IREFS (C1 (ctl m))" "2000 \<le> n"
    "\<And>m2. idle m m2 \<Longrightarrow> \<not> IREFST (S m2) \<Longrightarrow> wp k Q m2"
  shows "wp (wait_for hw (\<lambda>m. \<not> IREFST (S m)) n err k) Q m"
  using assms by (intro wait_reaches) (auto simp: reachesD idle_def)

lemma wait_pllst:
  assumes "hw_settles hw" "PLLS (C6 (ctl m))" "2000 \<le> n"
    "\<And>m2. idle m m2 \<Longrightarrow> PLLST (S m2) \<Longrightarrow> wp k Q m2"
  shows "wp (wait_for hw (\<lambda>m. PLLST (S m)) n err k) Q m"
  using assms by (intro wait_reaches) (auto simp: reachesD idle_def)

lemma wait_not_pllst:
  assumes "hw_settles hw" "\<not> PLLS (C6 (ctl m))" "2000 \<le> n"
    "\<And>m2. idle m m2 \<Longrightarrow> \<not> PLLST (S m2) \<Longrightarrow> wp k Q m2"
  shows "wp (wait_for hw (\<lambda>m. \<not> PLLST (S m)) n err k) Q m"
  using assms by (intro wait_reaches) (auto simp: reachesD idle_def)

lemma wait_ircst:
  assumes "hw_settles hw" "IRCS (C2 (ctl m))" "2000 \<le> n"
    "\<And>m2. idle m m2 \<Longrightarrow> IRCST (S m2) \<Longrightarrow> wp k Q m2"
  shows "wp (wait_for hw (\<lambda>m. IRCST (S m)) n err k) Q m"
  using assms by (intro wait_reaches) (auto simp: reachesD idle_def)

lemma wait_not_ircst:
  assumes "hw_settles hw" "\<not> IRCS (C2 (ctl m))" "2000 \<le> n"
    "\<And>m2. idle m m2 \<Longrightarrow> \<not> IRCST (S m2) \<Longrightarrow> wp k Q m2"
  shows "wp (wait_for hw (\<lambda>m. \<not> IRCST (S m)) n err k) Q m"
  using assms by (intro wait_reaches) (auto simp: reachesD idle_def)

lemma wait_lock:
  assumes "hw_settles hw" "lock_of (ctl m)" "2000 \<le> n"
    "\<And>m2. idle m m2 \<Longrightarrow> LOCK0 (S m2) \<Longrightarrow> wp k Q m2"
  shows "wp (wait_for hw (\<lambda>m. LOCK0 (S m)) n err k) Q m"
  using assms by (intro wait_reaches) (auto simp: reachesD idle_def)

lemma wait_oscinit:
  assumes "hw_settles hw" "oscinit_of (ctl m)" "2000 \<le> n"
    "\<And>m2. idle m m2 \<Longrightarrow> OSCINIT0 (S m2) \<Longrightarrow> wp k Q m2"
  shows "wp (wait_for hw (\<lambda>m. OSCINIT0 (S m)) n err k) Q m"
  using assms by (intro wait_reaches) (auto simp: reachesD idle_def)

text \<open>
  What is known of a state while a function runs: the control registers, the fast clock divider,
  and which of the three mode status fields have settled.
\<close>

definition kn :: "mcg_ctl \<Rightarrow> 3 word \<Rightarrow> bool \<Rightarrow> bool \<Rightarrow> bool \<Rightarrow> 'h mach \<Rightarrow> bool" where
  "kn c d a b e m \<longleftrightarrow> ctl m = c \<and> FCRDIV (SC m) = d \<and> (a \<longrightarrow> CLKST (S m) = clkst_of c) \<and>
     (b \<longrightarrow> IREFST (S m) = IREFS (C1 c)) \<and> (e \<longrightarrow> PLLST (S m) = PLLS (C6 c))"

lemma kn_idle: "kn c d a b e m \<Longrightarrow> idle m m1 \<Longrightarrow> kn c d a b e m1"
  by (auto simp: kn_def idle_def)

lemma kn_steady: "kn c d True True True m \<longleftrightarrow> ctl m = c \<and> FCRDIV (SC m) = d \<and> steady m"
  by (auto simp: kn_def steady_def)

lemma kn_rd:
  assumes "hw_settles hw" "kn c d a b e m" "\<And>m1. kn c d a b e m1 \<Longrightarrow> Q (f m1) m1"
  shows "wp (rd hw f) Q m"
  using assms by (blast intro: wp_rd_settles kn_idle)

lemma kn_rd_ctl:
  assumes "hw_settles hw" "kn c d a b e m" "\<And>m1. kn c d a b e m1 \<Longrightarrow> Q (g c) m1"
    and "\<And>m. f m = g (ctl m)"
  shows "wp (rd hw f) Q m"
  using assms by (intro kn_rd [of hw c d a b e m]) (auto simp: kn_def)

lemma kn_chk:
  assumes "hw_settles hw" "kn c d a b e m"
    and "\<forall>p\<in>set ps. \<forall>m1::'h mach. kn c d a b e m1 \<longrightarrow> p m1"
    and "\<And>m1. kn c d a b e m1 \<Longrightarrow> Q True m1"
  shows "wp (conj_rd hw ps) Q (m :: 'h mach)"
  using assms(2,3)
proof (induction ps arbitrary: m)
  case Nil
  with assms(4) show ?case by (auto intro: wp_return)
next
  case (Cons p ps)
  show ?case
    by (simp, rule wp_bind, rule kn_rd [OF assms(1) Cons.prems(1)])
      (use Cons in \<open>auto intro: Cons.IH\<close>)
qed

lemma kn_rmw:
  assumes "hw_settles hw" "kn c d a b e m"
    and upd: "\<And>v c. upd (\<lambda>_. f (sel c)) c = upd f c"
    and "c' = upd f c"
    and "\<And>m1. kn c' d (a \<and> clkst_of c' = clkst_of c) (b \<and> IREFS (C1 c') = IREFS (C1 c))
          (e \<and> PLLS (C6 c') = PLLS (C6 c)) m1 \<Longrightarrow> Q () m1"
  shows "wp (ctl_rmw hw sel upd f) Q m"
  unfolding ctl_rmw_def
proof (rule wp_bind, rule wp_rd_settles [OF assms(1)], rule wp_wr_settles [OF assms(1)])
  fix m1 m2 assume "idle m m1" "idle m1 m2"
  then have "kn c d a b e m1" "kn c d a b e m2" by (blast intro: kn_idle assms(2))+
  then show "Q () (ctl_update (upd (\<lambda>_. f (sel (ctl m1)))) m2)"
    using assms(4) by (intro assms(5)) (auto simp: kn_def upd)
qed

lemma kn_C1_rmw:
  assumes "hw_settles hw" "kn c d a b e m" "c' = C1_update f c"
    and "\<And>m1. kn c' d (a \<and> clkst_of c' = clkst_of c) (b \<and> IREFS (C1 c') = IREFS (C1 c))
          (e \<and> PLLS (C6 c') = PLLS (C6 c)) m1 \<Longrightarrow> Q () m1"
  shows "wp (C1_rmw hw f) Q m"
  unfolding C1_rmw_def using assms by (intro kn_rmw [of hw c d a b e m _ _ _ c']) auto

lemma kn_C2_rmw:
  assumes "hw_settles hw" "kn c d a b e m" "c' = C2_update f c"
    and "\<And>m1. kn c' d (a \<and> clkst_of c' = clkst_of c) (b \<and> IREFS (C1 c') = IREFS (C1 c))
          (e \<and> PLLS (C6 c') = PLLS (C6 c)) m1 \<Longrightarrow> Q () m1"
  shows "wp (C2_rmw hw f) Q m"
  unfolding C2_rmw_def using assms by (intro kn_rmw [of hw c d a b e m _ _ _ c']) auto

lemma kn_C5_rmw:
  assumes "hw_settles hw" "kn c d a b e m" "c' = PRDIV0_update f c"
    and "\<And>m1. kn c' d (a \<and> clkst_of c' = clkst_of c) (b \<and> IREFS (C1 c') = IREFS (C1 c))
          (e \<and> PLLS (C6 c') = PLLS (C6 c)) m1 \<Longrightarrow> Q () m1"
  shows "wp (C5_rmw hw f) Q m"
  unfolding C5_rmw_def using assms by (intro kn_rmw [of hw c d a b e m _ _ _ c']) auto

lemma kn_C6_rmw:
  assumes "hw_settles hw" "kn c d a b e m" "c' = C6_update f c"
    and "\<And>m1. kn c' d (a \<and> clkst_of c' = clkst_of c) (b \<and> IREFS (C1 c') = IREFS (C1 c))
          (e \<and> PLLS (C6 c') = PLLS (C6 c)) m1 \<Longrightarrow> Q () m1"
  shows "wp (C6_rmw hw f) Q m"
  unfolding C6_rmw_def using assms by (intro kn_rmw [of hw c d a b e m _ _ _ c']) auto

lemma kn_C7_rmw:
  assumes "hw_settles hw" "kn c d a b e m" "c' = OSCSEL_update f c"
    and "\<And>m1. kn c' d (a \<and> clkst_of c' = clkst_of c) (b \<and> IREFS (C1 c') = IREFS (C1 c))
          (e \<and> PLLS (C6 c') = PLLS (C6 c)) m1 \<Longrightarrow> Q () m1"
  shows "wp (C7_rmw hw f) Q m"
  unfolding C7_rmw_def using assms by (intro kn_rmw [of hw c d a b e m _ _ _ c']) auto

lemma kn_C8_rmw:
  assumes "hw_settles hw" "kn c d a b e m" "c' = CME1_update f c"
    and "\<And>m1. kn c' d (a \<and> clkst_of c' = clkst_of c) (b \<and> IREFS (C1 c') = IREFS (C1 c))
          (e \<and> PLLS (C6 c') = PLLS (C6 c)) m1 \<Longrightarrow> Q () m1"
  shows "wp (C8_rmw hw f) Q m"
  unfolding C8_rmw_def using assms by (intro kn_rmw [of hw c d a b e m _ _ _ c']) auto

lemma kn_wait_clkst:
  assumes "hw_settles hw" "kn c d a b e m" "clkst_of c = v" "2000 \<le> n"
    "\<And>m1. kn c d True b e m1 \<Longrightarrow> wp k Q m1"
  shows "wp (wait_for hw (\<lambda>m. CLKST (S m) = v) n err k) Q m"
  using assms by (intro wait_clkst) (auto simp: kn_def idle_def)

lemma kn_wait_irefst:
  assumes "hw_settles hw" "kn c d a b e m" "IREFS (C1 c)" "2000 \<le> n"
    "\<And>m1. kn c d a True e m1 \<Longrightarrow> wp k Q m1"
  shows "wp (wait_for hw (\<lambda>m. IREFST (S m)) n err k) Q m"
  using assms by (intro wait_irefst) (auto simp: kn_def idle_def)

lemma kn_wait_not_irefst:
  assumes "hw_settles hw" "kn c d a b e m" "\<not> IREFS (C1 c)" "2000 \<le> n"
    "\<And>m1. kn c d a True e m1 \<Longrightarrow> wp k Q m1"
  shows "wp (wait_for hw (\<lambda>m. \<not> IREFST (S m)) n err k) Q m"
  using assms by (intro wait_not_irefst) (auto simp: kn_def idle_def)

lemma kn_wait_pllst:
  assumes "hw_settles hw" "kn c d a b e m" "PLLS (C6 c)" "2000 \<le> n"
    "\<And>m1. kn c d a b True m1 \<Longrightarrow> wp k Q m1"
  shows "wp (wait_for hw (\<lambda>m. PLLST (S m)) n err k) Q m"
  using assms by (intro wait_pllst) (auto simp: kn_def idle_def)

lemma kn_wait_not_pllst:
  assumes "hw_settles hw" "kn c d a b e m" "\<not> PLLS (C6 c)" "2000 \<le> n"
    "\<And>m1. kn c d a b True m1 \<Longrightarrow> wp k Q m1"
  shows "wp (wait_for hw (\<lambda>m. \<not> PLLST (S m)) n err k) Q m"
  using assms by (intro wait_not_pllst) (auto simp: kn_def idle_def)

lemma kn_wait_ircst:
  assumes "hw_settles hw" "kn c d a b e m" "IRCS (C2 c)" "2000 \<le> n"
    "\<And>m1. kn c d a b e m1 \<Longrightarrow> wp k Q m1"
  shows "wp (wait_for hw (\<lambda>m. IRCST (S m)) n err k) Q m"
  using assms by (intro wait_ircst) (auto simp: kn_def idle_def)

lemma kn_wait_not_ircst:
  assumes "hw_settles hw" "kn c d a b e m" "\<not> IRCS (C2 c)" "2000 \<le> n"
    "\<And>m1. kn c d a b e m1 \<Longrightarrow> wp k Q m1"
  shows "wp (wait_for hw (\<lambda>m. \<not> IRCST (S m)) n err k) Q m"
  using assms by (intro wait_not_ircst) (auto simp: kn_def idle_def)

lemma kn_wait_lock:
  assumes "hw_settles hw" "kn c d a b e m" "lock_of c" "2000 \<le> n"
    "\<And>m1. kn c d a b e m1 \<Longrightarrow> wp k Q m1"
  shows "wp (wait_for hw (\<lambda>m. LOCK0 (S m)) n err k) Q m"
  using assms by (intro wait_lock) (auto simp: kn_def idle_def)

lemma kn_wait_oscinit:
  assumes "hw_settles hw" "kn c d a b e m" "oscinit_of c" "2000 \<le> n"
    "\<And>m1. kn c d a b e m1 \<Longrightarrow> wp k Q m1"
  shows "wp (wait_for hw (\<lambda>m. OSCINIT0 (S m)) n err k) Q m"
  using assms by (intro wait_oscinit) (auto simp: kn_def idle_def)

lemma kn_chk_FEI:
  assumes "hw_settles hw" "kn c d True True True m" "mode_of c = Some M_FEI"
    and "\<And>m1. kn c d True True True m1 \<Longrightarrow> Q True m1"
  shows "wp (conj_rd hw chk_FEI) Q m"
  using assms by (intro kn_chk [of hw c d True True True])
    (auto simp: chk_FEI_def kn_def mode_of_def clkst_of_def split: if_splits)

lemma kn_chk_PEE:
  assumes "hw_settles hw" "kn c d True True True m" "mode_of c = Some M_PEE"
    and "\<And>m1. kn c d True True True m1 \<Longrightarrow> Q True m1"
  shows "wp (conj_rd hw chk_PEE) Q m"
  using assms by (intro kn_chk [of hw c d True True True])
    (auto simp: chk_PEE_def kn_def mode_of_def clkst_of_def split: if_splits)

lemma kn_chk_PBE:
  assumes "hw_settles hw" "kn c d True True True m" "mode_of c = Some M_PBE"
    and "\<And>m1. kn c d True True True m1 \<Longrightarrow> Q True m1"
  shows "wp (conj_rd hw chk_PBE) Q m"
  using assms by (intro kn_chk [of hw c d True True True])
    (auto simp: chk_PBE_def kn_def mode_of_def clkst_of_def split: if_splits)

lemma kn_chk_FBE:
  assumes "hw_settles hw" "kn c d True True True m" "mode_of c = Some M_FBE"
    and "\<And>m1. kn c d True True True m1 \<Longrightarrow> Q True m1"
  shows "wp (conj_rd hw chk_FBE) Q m"
  using assms by (intro kn_chk [of hw c d True True True])
    (auto simp: chk_FBE_def kn_def mode_of_def clkst_of_def split: if_splits)

lemma kn_chk_BLPE:
  assumes "hw_settles hw" "kn c d True True True m" "mode_of c = Some M_BLPE"
    and "\<And>m1. kn c d True True True m1 \<Longrightarrow> Q True m1"
  shows "wp (conj_rd hw chk_BLPE) Q m"
  using assms by (intro kn_chk [of hw c d True True True])
    (auto simp: chk_BLPE_def kn_def mode_of_def clkst_of_def split: if_splits)

lemma kn_chk_BLPI:
  assumes "hw_settles hw" "kn c d True True True m" "mode_of c = Some M_BLPI"
    and "\<And>m1. kn c d True True True m1 \<Longrightarrow> Q True m1"
  shows "wp (conj_rd hw chk_BLPI) Q m"
  using assms by (intro kn_chk [of hw c d True True True])
    (auto simp: chk_BLPI_def kn_def mode_of_def clkst_of_def split: if_splits)

lemma kn_chk_FBI:
  assumes "hw_settles hw" "kn c d True True True m" "mode_of c = Some M_FBI"
    and "\<And>m1. kn c d True True True m1 \<Longrightarrow> Q True m1"
  shows "wp (conj_rd hw chk_FBI) Q m"
  using assms by (intro kn_chk [of hw c d True True True])
    (auto simp: chk_FBI_def kn_def mode_of_def clkst_of_def split: if_splits)

lemma kn_chk_FEE:
  assumes "hw_settles hw" "kn c d True True True m" "mode_of c = Some M_FEE"
    and "\<And>m1. kn c d True True True m1 \<Longrightarrow> Q True m1"
  shows "wp (conj_rd hw chk_FEE) Q m"
  using assms by (intro kn_chk [of hw c d True True True])
    (auto simp: chk_FEE_def kn_def mode_of_def clkst_of_def split: if_splits)

text \<open>The fragments the functions share, as rules of their own.\<close>

lemma kn_osc_wait:
  assumes "hw_settles hw" "kn c d a b e m" "erefs_val \<Longrightarrow> oscinit_of c" "2000 \<le> n"
    and "\<And>m1. kn c d a b e m1 \<Longrightarrow> wp k Q m1"
  shows "wp (osc_wait hw erefs_val n k) Q m"
  unfolding osc_wait_def
  by (rule wp_if) (auto intro: kn_wait_oscinit [OF assms(1,2) _ assms(4,5)] assms(2,3,5))

lemma kn_irc_wait:
  assumes "hw_settles hw" "kn c d a b e m" "IRCS (C2 c) = (irc_select \<noteq> 0)"
    and "\<And>m1. kn c d a b e m1 \<Longrightarrow> wp k Q m1"
  shows "wp (irc_wait hw irc_select k) Q m"
  unfolding irc_wait_def using assms(3)
  by (intro wp_if) (auto intro: kn_wait_ircst [OF assms(1,2)] kn_wait_not_ircst [OF assms(1,2)] assms(4))

definition irc_hz :: "int \<Rightarrow> u8 \<Rightarrow> 3 word \<Rightarrow> int" where
  "irc_hz irc_freq irc_select d = (if irc_select \<noteq> 0 then irc_freq sdiv 2 ^ unat d else irc_freq)"

lemma kn_irc_out:
  assumes "hw_settles hw" "kn c d a b e m"
    and "\<And>m1. kn c d a b e m1 \<Longrightarrow> Q (irc_hz irc_freq irc_select d) m1"
  shows "wp (irc_out hw irc_freq irc_select) Q m"
proof (cases "irc_select = 0")
  case True
  then show ?thesis using assms(2,3) by (auto simp: irc_out_def irc_hz_def intro: wp_return)
next
  case False
  have "wp (rd hw (\<lambda>m. FCRDIV (SC m))) (\<lambda>x. wp (State_Monad.return (irc_freq sdiv 2 ^ unat x)) Q) m"
    using False assms(3) by (intro kn_rd [OF assms(1,2)] wp_return) (auto simp: kn_def irc_hz_def)
  then show ?thesis using False by (auto simp: irc_out_def intro: wp_bind)
qed

definition fll_hz :: "mcg_ctl \<Rightarrow> int \<Rightarrow> int" where
  "fll_hz c fll_ref = fll_check (DRST_DRS (C4 c)) (fll_ref * fll_mult (DMX32 (C4 c)) (DRST_DRS (C4 c)))"

lemma kn_fll_freq:
  assumes "hw_settles hw" "kn c d a b e m"
    and "\<And>m1. kn c d a b e m1 \<Longrightarrow> Q (fll_hz c fll_ref) m1"
  shows "wp (fll_freq hw fll_ref) Q m"
  unfolding fll_freq_def
  by (rule wp_bind, rule kn_rd [OF assms(1,2)], rule wp_bind, rule kn_rd [OF assms(1)], assumption,
      rule wp_return) (use assms(3) in \<open>auto simp: kn_def fll_hz_def\<close>)

definition pll_set :: "int \<Rightarrow> int \<Rightarrow> mcg_ctl \<Rightarrow> mcg_ctl" where
  "pll_set prdiv_val vdiv_val c =
     C6_update (\<lambda>v. v\<lparr>PLLS := True, VDIV0 := word_of_int (vdiv_val - 24)\<rparr>)
       (c\<lparr>PRDIV0 := word_of_int (prdiv_val - 1)\<rparr>)"

lemma pll_set_simps [simp]:
  "C1 (pll_set p v c) = C1 c" "C2 (pll_set p v c) = C2 c" "C4 (pll_set p v c) = C4 c"
  "PLLS (C6 (pll_set p v c))" "CME0 (C6 (pll_set p v c)) = CME0 (C6 c)"
  "PRDIV0 (pll_set p v c) = word_of_int (p - 1)" "VDIV0 (C6 (pll_set p v c)) = word_of_int (v - 24)"
  by (simp_all add: pll_set_def)

lemma kn_set_pll:
  assumes hw: "hw_settles hw" and "kn c d a b e m"
    and "\<And>m1. kn (pll_set p v c) d (a \<and> CLKS (C1 c) \<noteq> 0) b False m1 \<Longrightarrow> Q () m1"
  shows "wp (set_pll hw p v) Q m"
  unfolding set_pll_def
  by (rule wp_bind, rule kn_C5_rmw [OF hw assms(2) refl], rule kn_C6_rmw [OF hw _ refl], assumption,
      rule assms(3)) (auto simp: kn_def clkst_of_def pll_set_def split: if_splits)

definition pll_hz :: "mcg_ctl \<Rightarrow> int \<Rightarrow> int" where
  "pll_hz c crystal_val = (crystal_val sdiv (uint (PRDIV0 c) + 1)) * (uint (VDIV0 (C6 c)) + 24)"

lemma kn_to_pee:
  assumes hw: "hw_settles hw" and "kn c d a b e m" and "PLLS (C6 c)"
    and "\<And>m1. kn (C1_update (CLKS_update (\<lambda>_. 0)) c) d True b e m1 \<Longrightarrow> Q (pll_hz c crystal_val) m1"
  shows "wp (to_pee hw crystal_val) Q m"
proof -
  let ?c1 = "C1_update (CLKS_update (\<lambda>_. 0)) c"
  have switch: "wp (do { C1_rmw hw (CLKS_update (\<lambda>_. 0)); wait_for hw (\<lambda>m. CLKST (S m) = 3) 2000 0x1B
      (State_Monad.return (pll_hz c crystal_val)) }) Q m1" if "kn c d a b e m1" for m1
  proof (rule wp_bind, rule kn_C1_rmw [OF hw that refl], rule kn_wait_clkst [OF hw])
    fix m2 m3
    show "clkst_of ?c1 = 3" using assms(3) by (simp add: clkst_of_def)
    show "wp (State_Monad.return (pll_hz c crystal_val)) Q m3"
      if "kn ?c1 d True (b \<and> IREFS (C1 ?c1) = IREFS (C1 c)) (e \<and> PLLS (C6 ?c1) = PLLS (C6 c)) m3"
      using that by (intro wp_return assms(4)) simp
  qed simp_all
  show ?thesis
    unfolding to_pee_def
    by (rule wp_bind, rule kn_rd [OF hw assms(2)], rule wp_bind, rule kn_rd [OF hw], assumption)
      (use switch in \<open>simp add: kn_def pll_hz_def\<close>)
qed

definition fbe_fee_ref_hz :: "mcg_ctl \<Rightarrow> int \<Rightarrow> int" where
  "fbe_fee_ref_hz c crystal_val = to_s16 (crystal_val sdiv
     (if RANGE0 (C2 c) > 0 then 32 * 2 ^ unat (FRDIV (C1 c)) else 2 ^ unat (RANGE0 (C2 c))))"

lemma kn_fbe_fee_ref:
  assumes hw: "hw_settles hw" and kn: "kn c d a b e m"
    and "\<And>m1. kn c d a b e m1 \<Longrightarrow> Q (fbe_fee_ref_hz c crystal_val) m1"
  shows "wp (fbe_fee_ref hw crystal_val) Q m"
  unfolding fbe_fee_ref_def
  by (rule wp_bind, rule kn_rd [OF hw kn], rule wp_if; rule kn_rd [OF hw], assumption)
    (use assms(3) in \<open>auto simp: kn_def fbe_fee_ref_hz_def\<close>)

definition to_fee_ref_hz :: "mcg_ctl \<Rightarrow> int \<Rightarrow> int" where
  "to_fee_ref_hz c crystal_val = crystal_val sdiv
     (if RANGE0 (C2 c) > 0 then 32 * 2 ^ unat (frdiv_val crystal_val) else 2 ^ unat (frdiv_val crystal_val))"

lemma kn_to_fee_ref:
  assumes hw: "hw_settles hw" and kn: "kn c d a b e m"
    and "\<And>m1. kn c d a b e m1 \<Longrightarrow> Q (to_fee_ref_hz c crystal_val) m1"
  shows "wp (to_fee_ref hw crystal_val) Q m"
  unfolding to_fee_ref_def
  by (rule wp_bind, rule kn_rd [OF hw kn], rule wp_return)
    (use assms(3) in \<open>auto simp: kn_def to_fee_ref_hz_def\<close>)

lemmas kn_rmws = kn_C1_rmw kn_C2_rmw kn_C5_rmw kn_C6_rmw kn_C7_rmw kn_C8_rmw

lemmas kn_rules = kn_fbe_fee_ref kn_to_fee_ref kn_osc_wait kn_irc_wait kn_irc_out kn_fll_freq kn_set_pll kn_to_pee
  kn_wait_clkst kn_wait_irefst kn_wait_not_irefst kn_wait_pllst kn_wait_not_pllst kn_wait_ircst kn_wait_not_ircst kn_wait_lock kn_wait_oscinit kn_chk_FEI kn_chk_PEE kn_chk_PBE kn_chk_FBE kn_chk_BLPE kn_chk_BLPI kn_chk_FBI kn_chk_FEE

lemmas mode_defs = mode_of_def clkst_of_def oscinit_of_def lock_of_def

lemma FEI_iff: "mode_of c = Some M_FEI \<longleftrightarrow> CLKS (C1 c) = 0 \<and> IREFS (C1 c) \<and> \<not> PLLS (C6 c)"
  by (auto simp: mode_of_def split: if_splits)

lemma FEE_iff: "mode_of c = Some M_FEE \<longleftrightarrow> CLKS (C1 c) = 0 \<and> \<not> IREFS (C1 c) \<and> \<not> PLLS (C6 c)"
  by (auto simp: mode_of_def split: if_splits)

lemma PEE_iff: "mode_of c = Some M_PEE \<longleftrightarrow> CLKS (C1 c) = 0 \<and> \<not> IREFS (C1 c) \<and> PLLS (C6 c)"
  by (auto simp: mode_of_def split: if_splits)

lemma PBE_iff: "mode_of c = Some M_PBE \<longleftrightarrow> CLKS (C1 c) = 2 \<and> \<not> IREFS (C1 c) \<and> PLLS (C6 c) \<and> \<not> LP (C2 c)"
  by (auto simp: mode_of_def split: if_splits)

lemma FBE_iff: "mode_of c = Some M_FBE \<longleftrightarrow> CLKS (C1 c) = 2 \<and> \<not> IREFS (C1 c) \<and> \<not> PLLS (C6 c) \<and> \<not> LP (C2 c)"
  by (auto simp: mode_of_def split: if_splits)

lemma BLPE_iff: "mode_of c = Some M_BLPE \<longleftrightarrow> CLKS (C1 c) = 2 \<and> \<not> IREFS (C1 c) \<and> LP (C2 c)"
  by (auto simp: mode_of_def split: if_splits)

lemma FBI_iff: "mode_of c = Some M_FBI \<longleftrightarrow> CLKS (C1 c) = 1 \<and> IREFS (C1 c) \<and> \<not> PLLS (C6 c) \<and> \<not> LP (C2 c)"
  by (auto simp: mode_of_def split: if_splits)

lemma BLPI_iff: "mode_of c = Some M_BLPI \<longleftrightarrow> CLKS (C1 c) = 1 \<and> IREFS (C1 c) \<and> \<not> PLLS (C6 c) \<and> LP (C2 c)"
  by (auto simp: mode_of_def split: if_splits)

section \<open>The driver refines the mode graph\<close>

text \<open>
  One constructor per transition function of the driver, with its arguments. The abstract
  specification gives each its edge of the mode graph (\<open>src\<close>, \<open>dst\<close>), the code of a rejected
  argument (\<open>arg_error\<close>), and for an accepted one the new control registers (\<open>ctl_after\<close>) and the
  frequency reported (\<open>hz_after\<close>).
\<close>

datatype mcg_op =
    Pee_pbe int | Pbe_pee int | Pbe_fbe int | Fbe_pbe int int int | Pbe_blpe int
  | Blpe_pbe int int int | Blpe_fbe int | Fbe_blpe int | Fbe_fei int | Fei_fbe int u8 bool
  | Fbe_fee int | Fee_fbe int | Fbe_fbi int u8 | Fbi_fbe int u8 bool | Fbi_blpi int u8
  | Blpi_fbi int u8 | Fbi_fee int u8 bool | Fee_fbi int u8 | Fbi_fei int | Fei_fbi int u8
  | Fei_fee int u8 bool | Fee_fei int | Pll_init int u8 bool int int u8

fun exec :: "'h hw \<Rightarrow> mcg_op \<Rightarrow> ('h mach, int) state" where
  "exec hw (Pee_pbe x) = pee_pbe hw x"
| "exec hw (Pbe_pee x) = pbe_pee hw x"
| "exec hw (Pbe_fbe x) = pbe_fbe hw x"
| "exec hw (Fbe_pbe x p v) = fbe_pbe hw x p v"
| "exec hw (Pbe_blpe x) = pbe_blpe hw x"
| "exec hw (Blpe_pbe x p v) = blpe_pbe hw x p v"
| "exec hw (Blpe_fbe x) = blpe_fbe hw x"
| "exec hw (Fbe_blpe x) = fbe_blpe hw x"
| "exec hw (Fbe_fei x) = fbe_fei hw x"
| "exec hw (Fei_fbe x h er) = fei_fbe hw x h er"
| "exec hw (Fbe_fee x) = fbe_fee hw x"
| "exec hw (Fee_fbe x) = fee_fbe hw x"
| "exec hw (Fbe_fbi x s) = fbe_fbi hw x s"
| "exec hw (Fbi_fbe x h er) = fbi_fbe hw x h er"
| "exec hw (Fbi_blpi x s) = fbi_blpi hw x s"
| "exec hw (Blpi_fbi x s) = blpi_fbi hw x s"
| "exec hw (Fbi_fee x h er) = fbi_fee hw x h er"
| "exec hw (Fee_fbi x s) = fee_fbi hw x s"
| "exec hw (Fbi_fei x) = fbi_fei hw x"
| "exec hw (Fei_fbi x s) = fei_fbi hw x s"
| "exec hw (Fei_fee x h er) = fei_fee hw x h er"
| "exec hw (Fee_fei x) = fee_fei hw x"
| "exec hw (Pll_init x h er p v g) = pll_init hw x h er p v g"

fun src :: "mcg_op \<Rightarrow> mcg_mode" where
  "src (Pee_pbe _) = M_PEE" | "src (Pbe_pee _) = M_PBE" | "src (Pbe_fbe _) = M_PBE"
| "src (Fbe_pbe _ _ _) = M_FBE" | "src (Pbe_blpe _) = M_PBE" | "src (Blpe_pbe _ _ _) = M_BLPE"
| "src (Blpe_fbe _) = M_BLPE" | "src (Fbe_blpe _) = M_FBE" | "src (Fbe_fei _) = M_FBE"
| "src (Fei_fbe _ _ _) = M_FEI" | "src (Fbe_fee _) = M_FBE" | "src (Fee_fbe _) = M_FEE"
| "src (Fbe_fbi _ _) = M_FBE" | "src (Fbi_fbe _ _ _) = M_FBI" | "src (Fbi_blpi _ _) = M_FBI"
| "src (Blpi_fbi _ _) = M_BLPI" | "src (Fbi_fee _ _ _) = M_FBI" | "src (Fee_fbi _ _) = M_FEE"
| "src (Fbi_fei _) = M_FBI" | "src (Fei_fbi _ _) = M_FEI" | "src (Fei_fee _ _ _) = M_FEI"
| "src (Fee_fei _) = M_FEE" | "src (Pll_init _ _ _ _ _ _) = M_FEI"

fun dst :: "mcg_op \<Rightarrow> mcg_mode" where
  "dst (Pee_pbe _) = M_PBE" | "dst (Pbe_pee _) = M_PEE" | "dst (Pbe_fbe _) = M_FBE"
| "dst (Fbe_pbe _ _ _) = M_PBE" | "dst (Pbe_blpe _) = M_BLPE" | "dst (Blpe_pbe _ _ _) = M_PBE"
| "dst (Blpe_fbe _) = M_FBE" | "dst (Fbe_blpe _) = M_BLPE" | "dst (Fbe_fei _) = M_FEI"
| "dst (Fei_fbe _ _ _) = M_FBE" | "dst (Fbe_fee _) = M_FEE" | "dst (Fee_fbe _) = M_FBE"
| "dst (Fbe_fbi _ _) = M_FBI" | "dst (Fbi_fbe _ _ _) = M_FBE" | "dst (Fbi_blpi _ _) = M_BLPI"
| "dst (Blpi_fbi _ _) = M_FBI" | "dst (Fbi_fee _ _ _) = M_FEE" | "dst (Fee_fbi _ _) = M_FBI"
| "dst (Fbi_fei _) = M_FEI" | "dst (Fei_fbi _ _) = M_FBI" | "dst (Fei_fee _ _ _) = M_FEE"
| "dst (Fee_fei _) = M_FEI" | "dst (Pll_init _ _ _ _ _ _) = M_PEE"

text \<open>The code each function returns when the generator is not in its source mode.\<close>

fun mode_error :: "mcg_mode \<Rightarrow> int" where
  "mode_error M_FEI = 0x1" | "mode_error M_FEE = 0x2" | "mode_error M_FBI = 0x3"
| "mode_error M_FBE = 0x4" | "mode_error M_BLPI = 0x5" | "mode_error M_BLPE = 0x6"
| "mode_error M_PBE = 0x7" | "mode_error M_PEE = 0x8"

definition ext_error :: "int \<Rightarrow> bool \<Rightarrow> int option" where
  "ext_error x er = (if x > 50000000 then Some 0x21
     else if crystal_out_of_spec er x then Some 0x22 else None)"

definition fll_error :: "mcg_ctl \<Rightarrow> int \<Rightarrow> int option" where
  "fll_error c f = (if fll_hz c f < 0x5B then Some (fll_hz c f) else None)"

definition slow_error :: "mcg_ctl \<Rightarrow> int \<Rightarrow> int option" where
  "slow_error c f = (if f < 31250 \<or> f > 39063 then Some 0x31 else fll_error c f)"

definition osc_set :: "2 word \<Rightarrow> u8 \<Rightarrow> bool \<Rightarrow> mcg_ctl \<Rightarrow> mcg_ctl" where
  "osc_set r h er = C2_update (\<lambda>v. v\<lparr>RANGE0 := r, HGO0 := h > 0, EREFS0 := er\<rparr>)"

definition ext_ref :: "2 word \<Rightarrow> int \<Rightarrow> mcg_ctl \<Rightarrow> mcg_ctl" where
  "ext_ref cs x = C1_update (\<lambda>v. v\<lparr>CLKS := cs, FRDIV := frdiv_val x, IREFS := False\<rparr>)"

definition fee_error :: "mcg_ctl \<Rightarrow> int \<Rightarrow> u8 \<Rightarrow> bool \<Rightarrow> int option" where
  "fee_error c x h er = (case ext_error x er of Some e \<Rightarrow> Some e
     | None \<Rightarrow> fll_error c (to_fee_ref_hz (osc_set (range_val x) h er c) x))"

fun arg_error :: "mcg_op \<Rightarrow> mcg_ctl \<Rightarrow> int option" where
  "arg_error (Fbe_pbe x p v) c = pll_out_of_spec x p v"
| "arg_error (Blpe_pbe x p v) c =
    (if p < 1 \<or> p > 25 then Some 0x41 else if v < 24 \<or> v > 55 then Some 0x42
     else if x sdiv p < 2000000 \<or> x sdiv p > 4000000 then Some 0x43 else None)"
| "arg_error (Fbe_fei f) c = slow_error c f"
| "arg_error (Fei_fbe x h er) c = ext_error x er"
| "arg_error (Fbe_fee x) c = fll_error c (fbe_fee_ref_hz c x)"
| "arg_error (Fbe_fbi f s) c = irc_out_of_spec s f"
| "arg_error (Fbi_fbe x h er) c = ext_error x er"
| "arg_error (Fbi_fee x h er) c = fee_error c x h er"
| "arg_error (Fee_fbi f s) c = irc_out_of_spec s f"
| "arg_error (Fbi_fei f) c = slow_error c f"
| "arg_error (Fei_fbi f s) c = irc_out_of_spec s f"
| "arg_error (Fei_fee x h er) c = fee_error c x h er"
| "arg_error (Fee_fei f) c = slow_error c f"
| "arg_error (Pll_init x h er p v g) c =
    (if x > 50000000 then Some 0x21 else if er \<and> (x < 3000000 \<or> x > 32000000) then Some 0x22
     else pll_out_of_spec x p v)"
| "arg_error _ c = None"

fun ctl_after :: "mcg_op \<Rightarrow> mcg_ctl \<Rightarrow> mcg_ctl" where
  "ctl_after (Pee_pbe _) c = C1_update (CLKS_update (\<lambda>x. x OR 2)) c"
| "ctl_after (Pbe_pee _) c = C1_update (CLKS_update (\<lambda>_. 0)) c"
| "ctl_after (Pbe_fbe _) c = C6_update (PLLS_update (\<lambda>_. False)) c"
| "ctl_after (Fbe_pbe x p v) c = pll_set p v c"
| "ctl_after (Pbe_blpe _) c = C2_update (LP_update (\<lambda>_. True)) c"
| "ctl_after (Blpe_pbe x p v) c = C2_update (LP_update (\<lambda>_. False)) (pll_set p v c)"
| "ctl_after (Blpe_fbe _) c = C2_update (LP_update (\<lambda>_. False)) (C6_update (PLLS_update (\<lambda>_. False)) c)"
| "ctl_after (Fbe_blpe _) c = C2_update (LP_update (\<lambda>_. True)) c"
| "ctl_after (Fbe_fei _) c =
     C1_update (\<lambda>v. v\<lparr>CLKS := 0, IREFS := True\<rparr>) (C6_update (CME0_update (\<lambda>_. False)) c)"
| "ctl_after (Fei_fbe x h er) c =
     C6_update (CME0_update (\<lambda>_. True)) (ext_ref 2 x (osc_set (range_val x) h er c))"
| "ctl_after (Fbe_fee _) c = C1_update (CLKS_update (\<lambda>_. 0)) c"
| "ctl_after (Fee_fbe _) c = C1_update (CLKS_update (\<lambda>x. x OR 2)) c"
| "ctl_after (Fbe_fbi _ s) c = C1_update (\<lambda>v. v\<lparr>CLKS := 1, IREFS := True\<rparr>)
     (C6_update (CME0_update (\<lambda>_. False)) (C2_update (IRCS_update (\<lambda>_. s \<noteq> 0)) c))"
| "ctl_after (Fbi_fbe x h er) c =
     C6_update (CME0_update (\<lambda>_. True)) (ext_ref 2 x (osc_set (range_val x) h er c))"
| "ctl_after (Fbi_blpi _ _) c = C2_update (LP_update (\<lambda>_. True)) c"
| "ctl_after (Blpi_fbi _ _) c = C2_update (LP_update (\<lambda>_. False)) c"
| "ctl_after (Fbi_fee x h er) c =
     C6_update (CME0_update (\<lambda>_. True)) (ext_ref 0 x (osc_set (range_val x) h er c))"
| "ctl_after (Fee_fbi _ s) c = C1_update (\<lambda>v. v\<lparr>CLKS := CLKS v OR 1, IREFS := True\<rparr>)
     (C6_update (CME0_update (\<lambda>_. False)) (C2_update (IRCS_update (\<lambda>_. s \<noteq> 0)) c))"
| "ctl_after (Fbi_fei _) c = C1_update (\<lambda>v. v\<lparr>CLKS := 0, IREFS := True\<rparr>) c"
| "ctl_after (Fei_fbi _ s) c =
     C1_update (CLKS_update (\<lambda>_. 1)) (C2_update (IRCS_update (\<lambda>_. s \<noteq> 0)) c)"
| "ctl_after (Fei_fee x h er) c =
     C6_update (CME0_update (\<lambda>_. True)) (ext_ref 0 x (osc_set (range_val x) h er c))"
| "ctl_after (Fee_fei _) c =
     C1_update (IREFS_update (\<lambda>_. True)) (C6_update (CME0_update (\<lambda>_. False)) c)"
| "ctl_after (Pll_init x h er p v _) c =
     C1_update (CLKS_update (\<lambda>_. 0)) (pll_set p v (C6_update (CME0_update (\<lambda>_. True))
       (ext_ref 2 x (osc_set (if x \<le> 8000000 then 1 else 2) h er c))))"

fun hz_after :: "mcg_op \<Rightarrow> mcg_ctl \<Rightarrow> 3 word \<Rightarrow> int" where
  "hz_after (Pee_pbe x) c d = x"
| "hz_after (Pbe_pee x) c d = pll_hz c x"
| "hz_after (Pbe_fbe x) c d = x"
| "hz_after (Fbe_pbe x p v) c d = x"
| "hz_after (Pbe_blpe x) c d = x"
| "hz_after (Blpe_pbe x p v) c d = x"
| "hz_after (Blpe_fbe x) c d = x"
| "hz_after (Fbe_blpe x) c d = x"
| "hz_after (Fbe_fei f) c d = fll_hz c f"
| "hz_after (Fei_fbe x h er) c d = x"
| "hz_after (Fbe_fee x) c d = fll_hz c (fbe_fee_ref_hz c x)"
| "hz_after (Fee_fbe x) c d = x"
| "hz_after (Fbe_fbi f s) c d = irc_hz f s d"
| "hz_after (Fbi_fbe x h er) c d = x"
| "hz_after (Fbi_blpi f s) c d = irc_hz f s d"
| "hz_after (Blpi_fbi f s) c d = irc_hz f s d"
| "hz_after (Fbi_fee x h er) c d = fll_hz c (to_fee_ref_hz (osc_set (range_val x) h er c) x)"
| "hz_after (Fee_fbi f s) c d = irc_hz f s d"
| "hz_after (Fbi_fei f) c d = fll_hz c f"
| "hz_after (Fei_fbi f s) c d = irc_hz f s d"
| "hz_after (Fei_fee x h er) c d = fll_hz c (to_fee_ref_hz (osc_set (range_val x) h er c) x)"
| "hz_after (Fee_fei f) c d = fll_hz c f"
| "hz_after (Pll_init x h er p v g) c d =
     (x sdiv (uint (word_of_int (p - 1) :: 5 word) + 1)) * (uint (word_of_int (v - 24) :: 5 word) + 24)"

lemmas drv_defs = pee_pbe_def pbe_pee_def pbe_fbe_def fbe_pbe_def pbe_blpe_def blpe_pbe_def
  blpe_fbe_def fbe_blpe_def fbe_fei_def fei_fbe_def fbe_fee_def fee_fbe_def fbe_fbi_def fbi_fbe_def
  fbi_blpi_def blpi_fbi_def fbi_fee_def fee_fbi_def fbi_fei_def fei_fbi_def fei_fee_def fee_fei_def
  pll_init_def to_fbe_def to_fee_def cfg_osc_def select_irc_def

lemmas mode_iffs = FEI_iff FEE_iff PEE_iff PBE_iff FBE_iff BLPE_iff FBI_iff BLPI_iff

lemmas modeDs = mode_iffs [THEN iffD1]

lemmas error_defs = ext_error_def fll_error_def slow_error_def fee_error_def

lemma fll_hz_C2 [simp]: "fll_hz (C2_update g c) f = fll_hz c f"
  by (simp add: fll_hz_def)

lemma pll_hz_pll_set [simp]: "pll_hz (pll_set p v c) x =
    (x sdiv (uint (word_of_int (p - 1) :: 5 word) + 1)) * (uint (word_of_int (v - 24) :: 5 word) + 24)"
  by (simp add: pll_hz_def)

text \<open>
  All 23 functions at once: symbolic execution with the rules above. The low-power bit, which the
  modes with \<^verbatim>\<open>CLKS = 0\<close> do not check, has to be clear for the PLL to lock in \<^verbatim>\<open>pll_init\<close>.
\<close>

lemma exec_refines_kn:
  assumes hw: "hw_settles hw" and kn: "kn c d True True True m"
    and mode: "mode_of c = Some (src op)" and arg: "arg_error op c = None"
    and lp: "CLKS (C1 c) = 0 \<longrightarrow> \<not> LP (C2 c)"
  shows "wp (exec hw op) (\<lambda>r m'. r = hz_after op c d \<and> kn (ctl_after op c) d True True True m') m"
  by (insert kn mode arg lp; cases op; hypsubst;
    (simp only: exec.simps hz_after.simps ctl_after.simps src.simps arg_error.simps error_defs
      ext_ref_def osc_set_def split: if_split_asm option.split_asm)?;
    frule modeDs; simp only: drv_defs;
    ((rule wp_bind wp_return
      | (rule kn_rmws, rule hw, assumption, rule refl, simp add: clkst_of_def split del: if_split)
      | (rule kn_rules, rule hw, assumption)
      | simp add: clkst_of_def oscinit_of_def lock_of_def split del: if_split)+)?)

text \<open>A rejected argument: the code is returned, and only an FLL check can come after a write.\<close>

fun ctl_rejected :: "mcg_op \<Rightarrow> mcg_ctl \<Rightarrow> mcg_ctl" where
  "ctl_rejected (Fbi_fee x h er) c =
    (if ext_error x er = None then osc_set (range_val x) h er c else c)"
| "ctl_rejected (Fei_fee x h er) c =
    (if ext_error x er = None then osc_set (range_val x) h er c else c)"
| "ctl_rejected _ c = c"

lemma exec_rejects_kn:
  assumes hw: "hw_settles hw" and kn: "kn c d True True True m"
    and mode: "mode_of c = Some (src op)" and arg: "arg_error op c = Some code"
  shows "wp (exec hw op) (\<lambda>r m'. r = code \<and> kn (ctl_rejected op c) d True True True m') m"
  by (insert kn mode arg; cases op; hypsubst;
    (simp only: exec.simps ctl_rejected.simps src.simps arg_error.simps error_defs
      ext_ref_def osc_set_def split: if_split_asm option.split_asm)?;
    (frule modeDs; simp only: drv_defs)?;
    ((rule wp_bind wp_return
      | (rule kn_rmws, rule hw, assumption, rule refl, simp add: clkst_of_def split del: if_split)
      | (rule kn_rules, rule hw, assumption)
      | simp add: clkst_of_def split del: if_split)+)?)

lemmas chk_defs = chk_FEI_def chk_PEE_def chk_PBE_def chk_FBE_def chk_BLPE_def chk_BLPI_def
  chk_FBI_def chk_FEE_def

section \<open>The mode reported in a steady state\<close>

text \<open>In a steady state a chain of mode conditions evaluates to what the control registers say.\<close>

lemma kn_conj:
  fixes m :: "'h mach"
  assumes "hw_settles hw" "kn c d a b e m"
    and "\<forall>p\<in>set ps. (\<forall>m1::'h mach. kn c d a b e m1 \<longrightarrow> p m1) \<or> (\<forall>m1::'h mach. kn c d a b e m1 \<longrightarrow> \<not> p m1)"
    and "\<And>m1. kn c d a b e m1 \<Longrightarrow> Q (\<forall>p\<in>set ps. p m1) m1"
  shows "wp (conj_rd hw ps) Q m"
  using assms(2-4)
proof (induction ps arbitrary: m)
  case Nil
  then show ?case by (auto intro: wp_return)
next
  case (Cons p ps)
  show ?case
  proof (simp, rule wp_bind, rule kn_rd [OF assms(1) Cons.prems(1)], rule wp_if)
    fix m1 :: "'h mach" assume "kn c d a b e m1" "p m1"
    with Cons.prems show "wp (conj_rd hw ps) Q m1"
      by (intro Cons.IH) fastforce+
  next
    fix m1 :: "'h mach" assume "kn c d a b e m1" "\<not> p m1"
    with Cons.prems(3) show "wp (State_Monad.return False) Q m1"
      by (intro wp_return) fastforce
  qed
qed

lemma kn_mode_checks:
  fixes m :: "'h mach"
  assumes hw: "hw_settles hw" and "kn c d True True True m" and "mode_of c \<noteq> None"
    and Q: "\<And>m1. kn c d True True True m1 \<Longrightarrow> Q (mode_of c = Some md) m1"
    and chk: "(ps, md) \<in> {(chk_FEI, M_FEI), (chk_PEE, M_PEE), (chk_PBE, M_PBE), (chk_FBE, M_FBE),
      (chk_BLPE, M_BLPE), (chk_BLPI, M_BLPI), (chk_FBI, M_FBI), (chk_FEE, M_FEE)}"
  shows "wp (conj_rd hw ps) Q m"
proof (rule kn_conj [OF hw assms(2)])
  show "\<forall>p\<in>set ps. (\<forall>m1::'h mach. kn c d True True True m1 \<longrightarrow> p m1) \<or> (\<forall>m1::'h mach. kn c d True True True m1 \<longrightarrow> \<not> p m1)"
    using chk by (auto simp: chk_defs kn_def)
  fix m1 :: "'h mach" assume kn: "kn c d True True True m1"
  have clks: "CLKS (C1 c) = 0 \<or> CLKS (C1 c) = 1 \<or> CLKS (C1 c) = 2"
    using assms(3) by (auto simp: mode_of_def split: if_splits)
  have st: "CLKST (S m1) = clkst_of c" "IREFST (S m1) = IREFS (C1 c)" "PLLST (S m1) = PLLS (C6 c)"
    "ctl m1 = c" using kn by (auto simp: kn_def)
  have "(\<forall>p\<in>set ps. p m1) \<longleftrightarrow> mode_of c = Some md"
    using chk clks by (elim insertE emptyE Pair_inject; hypsubst; elim disjE;
        simp add: chk_defs st clkst_of_def mode_iffs)
  with Q [OF kn] show "Q (\<forall>p\<in>set ps. p m1) m1" by simp
qed

lemma kn_first_mode:
  fixes m :: "'h mach"
  assumes hw: "hw_settles hw" and "kn c d True True True m" and "mode_of c \<noteq> None"
    and "set tab \<subseteq> {(chk_FEI, M_FEI), (chk_PEE, M_PEE), (chk_PBE, M_PBE), (chk_FBE, M_FBE),
      (chk_BLPE, M_BLPE), (chk_BLPI, M_BLPI), (chk_FBI, M_FBI), (chk_FEE, M_FEE)}"
    and "the (mode_of c) \<in> snd ` set tab"
  shows "wp (first_mode hw (map (\<lambda>(ps, md). (ps, mode_code (Some md))) tab))
    (\<lambda>r m'. r = mode_code (mode_of c) \<and> kn c d True True True m') m"
  using assms(2,4,5)
proof (induction tab arbitrary: m)
  case Nil
  then show ?case by simp
next
  case (Cons x tab)
  obtain ps md where x: "x = (ps, md)" by (cases x)
  show ?case
    unfolding x list.map prod.case first_mode.simps
  proof (rule wp_bind, rule kn_mode_checks [OF hw Cons.prems(1) assms(3), where md = md], rule wp_if)
    fix m1 :: "'h mach" assume "kn c d True True True m1" and md: "mode_of c = Some md"
    then show "wp (State_Monad.return (mode_code (Some md)))
        (\<lambda>r m'. r = mode_code (mode_of c) \<and> kn c d True True True m') m1"
      by (intro wp_return) auto
  next
    fix m1 :: "'h mach" assume "kn c d True True True m1" and "mode_of c \<noteq> Some md"
    then show "wp (first_mode hw (map (\<lambda>(ps, md). (ps, mode_code (Some md))) tab))
        (\<lambda>r m'. r = mode_code (mode_of c) \<and> kn c d True True True m') m1"
      using Cons.prems(2,3) assms(3) by (intro Cons.IH) (auto simp: x)
  qed (use Cons.prems(2) x in auto)
qed

lemma kn_what_mcg_mode:
  assumes "hw_settles hw" "kn c d True True True m" "mode_of c \<noteq> None"
  shows "wp (what_mcg_mode hw) (\<lambda>r m'. r = mode_code (mode_of c) \<and> kn c d True True True m') m"
proof -
  have "the (mode_of c) \<in> {M_FEI, M_PEE, M_PBE, M_FBE, M_BLPE, M_BLPI, M_FBI, M_FEE}"
    by (cases "the (mode_of c)") auto
  then show ?thesis
    using kn_first_mode [OF assms, of "[(chk_FEI, M_FEI), (chk_PEE, M_PEE), (chk_PBE, M_PBE),
      (chk_FBE, M_FBE), (chk_BLPE, M_BLPE), (chk_BLPI, M_BLPI), (chk_FBI, M_FBI), (chk_FEE, M_FEE)]"]
    by (simp add: what_mcg_mode_def)
qed

lemma exec_wrong_mode_kn:
  assumes hw: "hw_settles hw" and kn: "kn c d True True True m"
    and "mode_of c \<noteq> None" and "mode_of c \<noteq> Some (src op)"
  shows "wp (exec hw op) (\<lambda>r m'. r = mode_error (src op) \<and> kn c d True True True m') m"
  by (insert assms(4); cases op; simp only: exec.simps src.simps mode_error.simps drv_defs;
    rule wp_bind; rule kn_mode_checks [OF hw kn assms(3), where md = "src op"];
    simp add: wp_return)

end
