(* ===== verification/Mcg_Props.thy ===== *)
theory Mcg_Props
  imports Mcg_Correct
begin

text \<open>
  What the clock driver guarantees: it refines an abstract machine on control registers
  (\<open>spec_step\<close>), brings the board from reset to 60 MHz, and reports errors without side effects.
  The theorems about the FLL and PLL frequency checks and about auto-trim follow.
\<close>

section \<open>Well-formed control registers and the abstract machine\<close>

definition wf_ctl :: "mcg_ctl \<Rightarrow> bool" where
  "wf_ctl c \<longleftrightarrow> mode_of c \<noteq> None \<and> (CLKS (C1 c) = 0 \<longrightarrow> \<not> LP (C2 c)) \<and>
     (CME0 (C6 c) \<longrightarrow> \<not> IREFS (C1 c))"

definition spec_step :: "mcg_op \<Rightarrow> mcg_ctl \<Rightarrow> 3 word \<Rightarrow> int \<times> mcg_ctl" where
  "spec_step op c d =
    (if mode_of c \<noteq> Some (src op) then (mode_error (src op), c)
     else case arg_error op c of
       Some code \<Rightarrow> (code, ctl_rejected op c)
     | None \<Rightarrow> (hz_after op c d, ctl_after op c))"

text \<open>The clock set-up of \<^verbatim>\<open>main\<close>, ending with the mode it reads back.\<close>

definition CLK_FREQ_HZ :: int where "CLK_FREQ_HZ = 50000000"
definition SLOW_IRC_FREQ :: int where "SLOW_IRC_FREQ = 32768"
definition PLL0_PRDIV :: int where "PLL0_PRDIV = 25"
definition PLL0_VDIV :: int where "PLL0_VDIV = 30"

definition main_clock :: "'h hw \<Rightarrow> ('h mach, int \<times> u8) state" where
  "main_clock hw = do {
     mcg_clk_hz \<leftarrow> fei_fbi hw SLOW_IRC_FREQ 0;
     mcg_clk_hz \<leftarrow> fbi_fbe hw CLK_FREQ_HZ 0 False;
     mcg_clk_hz \<leftarrow> fbe_pbe hw CLK_FREQ_HZ PLL0_PRDIV PLL0_VDIV;
     mcg_clk_hz \<leftarrow> pbe_pee hw CLK_FREQ_HZ;
     modeMCG \<leftarrow> what_mcg_mode hw;
     State_Monad.return (mcg_clk_hz, modeMCG)
   }"

text \<open>The state out of reset (FEI), and hardware whose status register follows at once.\<close>

definition reset_ctl :: mcg_ctl where
  "reset_ctl = \<lparr>C1 = \<lparr>CLKS = 0, FRDIV = 0, IREFS = True, IRCLKEN = False, IREFSTEN = False\<rparr>,
     C2 = \<lparr>RANGE0 = 0, HGO0 = False, EREFS0 = False, LP = False, IRCS = False\<rparr>,
     C4 = \<lparr>DMX32 = False, DRST_DRS = 0\<rparr>, PRDIV0 = 0, C6 = \<lparr>PLLS = False, CME0 = False, VDIV0 = 0\<rparr>,
     OSCSEL = False, CME1 = False\<rparr>"

definition status_of :: "mcg_ctl \<Rightarrow> s_reg" where
  "status_of c = \<lparr>CLKST = clkst_of c, IREFST = IREFS (C1 c), PLLST = PLLS (C6 c),
     OSCINIT0 = oscinit_of c, LOCK0 = lock_of c, IRCST = IRCS (C2 c)\<rparr>"

definition prompt_hw :: "unit hw" where
  "prompt_hw m = m\<lparr>S := status_of (ctl m)\<rparr>"

definition mach_of :: "mcg_ctl \<Rightarrow> unit mach" where
  "mach_of c = \<lparr>ctl = c, S = status_of c,
     SC = \<lparr>FCRDIV = 1, ATME = False, ATMS = False, ATMF = False\<rparr>, C3 = 0x80, FCTRIM = 8, ATCVH = 0,
     ATCVL = 0, RTC = \<lparr>TCE = False, TIF = False, OSCE = False, TSR = 0, TPR = 0\<rparr>, SCGC6_RTC = False,
     CLKDIV1 = \<lparr>OUTDIV1 = 0, OUTDIV2 = 1, OUTDIV3 = 2, OUTDIV4 = 4\<rparr>, HID = ()\<rparr>"

section \<open>Shared facts\<close>

lemma status_of_sel [simp]:
  "CLKST (status_of c) = clkst_of c" "IREFST (status_of c) = IREFS (C1 c)"
  "PLLST (status_of c) = PLLS (C6 c)" "OSCINIT0 (status_of c) = oscinit_of c"
  "LOCK0 (status_of c) = lock_of c" "IRCST (status_of c) = IRCS (C2 c)"
  by (simp_all add: status_of_def)

lemma ctl_prompt_pow [simp]: "ctl ((prompt_hw ^^ n) m) = ctl m"
  by (induction n) (simp_all add: prompt_hw_def)

lemma S_prompt_pow: "0 < n \<Longrightarrow> S ((prompt_hw ^^ n) m) = status_of (ctl m)"
  by (cases n) (simp_all add: prompt_hw_def)

lemma prompt_hw_settles: "hw_settles prompt_hw"
  by (auto simp: hw_settles_def hw_frame_def hw_no_glitch_def hw_reaches_def Let_def S_prompt_pow)
    (simp_all add: prompt_hw_def)

lemma mach_of_simps [simp]: "ctl (mach_of c) = c" "steady (mach_of c)" "FCRDIV (SC (mach_of c)) = 1"
  by (simp_all add: mach_of_def steady_def)

lemmas ctl_setters = ext_ref_def osc_set_def pll_set_def

lemma mode_of_osc_set [simp]: "mode_of (osc_set r h er c) = mode_of c"
  by (simp add: mode_of_def osc_set_def)

lemma ctl_after_mode:
  assumes "mode_of c = Some (src op)" "CLKS (C1 c) = 0 \<longrightarrow> \<not> LP (C2 c)"
  shows "mode_of (ctl_after op c) = Some (dst op)"
  by (insert assms; cases op; hypsubst; simp only: src.simps dst.simps mode_iffs ctl_after.simps;
      simp add: ctl_setters)

lemma ctl_after_cme:
  assumes "mode_of c = Some (src op)" "CME0 (C6 c) \<longrightarrow> \<not> IREFS (C1 c)"
  shows "CME0 (C6 (ctl_after op c)) \<longrightarrow> \<not> IREFS (C1 (ctl_after op c))"
  by (insert assms; cases op; hypsubst; simp only: src.simps mode_iffs ctl_after.simps;
      simp add: ctl_setters)

lemma ctl_after_lp:
  assumes "mode_of c = Some (src op)" "CLKS (C1 c) = 0 \<longrightarrow> \<not> LP (C2 c)"
  shows "CLKS (C1 (ctl_after op c)) = 0 \<longrightarrow> \<not> LP (C2 (ctl_after op c))"
  by (insert assms; cases op; hypsubst; simp only: src.simps mode_iffs ctl_after.simps;
      simp add: ctl_setters)

lemma ctl_after_wf:
  assumes "wf_ctl c" "mode_of c = Some (src op)"
  shows "mode_of (ctl_after op c) = Some (dst op) \<and> wf_ctl (ctl_after op c)"
  using assms ctl_after_mode [OF assms(2)] ctl_after_cme [OF assms(2)] ctl_after_lp [OF assms(2)]
  by (auto simp: wf_ctl_def)

lemma ctl_rejected_wf:
  assumes "wf_ctl c"
  shows "mode_of (ctl_rejected op c) = mode_of c \<and> wf_ctl (ctl_rejected op c)"
proof -
  have "wf_ctl (osc_set r h er c)" for r h er
    using assms by (simp add: wf_ctl_def) (simp add: osc_set_def)
  with assms show ?thesis by (cases op) auto
qed

text \<open>The steps of the abstract machine keep it well formed, and the driver takes exactly these steps.\<close>

lemma spec_step_wf: "wf_ctl c \<Longrightarrow> wf_ctl (snd (spec_step op c d))"
  using ctl_after_wf [of c op] ctl_rejected_wf [of c op]
  by (auto simp: spec_step_def split: option.split)

lemma exec_spec:
  assumes hw: "hw_settles hw" and wf: "wf_ctl (ctl m)" and st: "steady m"
  shows "wp (exec hw op) (\<lambda>r m'. (r, ctl m') = spec_step op (ctl m) (FCRDIV (SC m)) \<and> steady m' \<and>
    FCRDIV (SC m') = FCRDIV (SC m)) m"
proof -
  let ?c = "ctl m" and ?d = "FCRDIV (SC m)"
  have kn: "kn ?c ?d True True True m" using st by (simp add: kn_steady)
  have lp: "CLKS (C1 ?c) = 0 \<longrightarrow> \<not> LP (C2 ?c)" and md: "mode_of ?c \<noteq> None"
    using wf by (auto simp: wf_ctl_def)
  have "wp (exec hw op) (\<lambda>r m'. r = fst (spec_step op ?c ?d) \<and>
      kn (snd (spec_step op ?c ?d)) ?d True True True m') m"
    using exec_wrong_mode_kn [OF hw kn md, of op] exec_rejects_kn [OF hw kn, of op]
      exec_refines_kn [OF hw kn, of op] lp
    by (auto simp: spec_step_def split: option.splits)
  then show ?thesis
    by (rule wp_mono) (auto simp: kn_steady prod_eq_iff)
qed

lemma what_mode_spec:
  assumes hw: "hw_settles hw" and "mode_of (ctl m) \<noteq> None" "steady m"
  shows "wp (what_mcg_mode hw) (\<lambda>r m'. r = mode_code (mode_of (ctl m)) \<and> ctl m' = ctl m \<and> steady m') m"
  by (rule wp_mono [OF kn_what_mcg_mode [OF hw, of "ctl m" "FCRDIV (SC m)"]])
    (use assms in \<open>auto simp: kn_steady\<close>)

lemma mode_code_inj: "mode_code x = mode_code y \<longleftrightarrow> x = y"
  by (cases x rule: mode_code.cases; cases y rule: mode_code.cases; simp)

lemma mode_code_0 [simp]: "mode_code x = 0 \<longleftrightarrow> x = None"
  using mode_code_inj [of x None] by simp

section \<open>Correctness of the driver on settling hardware\<close>

text \<open>
  C1: On hardware that settles, a call of any of the 23 transition functions in a well-formed steady
  state is exactly one step of the abstract machine: it returns the frequency or error code the
  abstract step gives, leaves the control registers it gives, and ends in a steady state.
\<close>

theorem mcg_driver_refines:
  assumes "hw_settles hw" "wf_ctl (ctl m)" "steady m" "run_state (exec hw op) m = (r, m')"
  shows "(r, ctl m') = spec_step op (ctl m) (FCRDIV (SC m)) \<and> steady m'"
  using wp_runD [OF exec_spec [OF assms(1-3)] assms(4)] by blast

lemma reset_wf [simp]: "wf_ctl reset_ctl" "mode_of reset_ctl = Some M_FEI"
  by (simp_all add: wf_ctl_def mode_of_def reset_ctl_def)

theorem mcg_driver_refines_witness:
  "fst (run_state (exec prompt_hw (Fei_fbi 32768 0)) (mach_of reset_ctl)) = 32768"
proof -
  obtain r m' where run: "run_state (exec prompt_hw (Fei_fbi 32768 0)) (mach_of reset_ctl) = (r, m')"
    by fastforce
  from mcg_driver_refines [OF prompt_hw_settles _ _ run]
  have "(r, ctl m') = spec_step (Fei_fbi 32768 0) reset_ctl 1" by simp
  then show ?thesis using run by (simp add: spec_step_def irc_out_of_spec_def irc_hz_def)
qed

text \<open>
  C2: The edges of the mode graph: called in its source mode with arguments in spec, a
  transition function reports the frequency of its target mode, and \<^verbatim>\<open>what_mcg_mode\<close> then
  returns the code of that mode.
\<close>

theorem mcg_edge_taken:
  fixes m :: "'h mach"
  assumes "hw_settles hw" "wf_ctl (ctl m)" "steady m"
    and "mode_of (ctl m) = Some (src op)" "arg_error op (ctl m) = None"
    and "run_state (do { r \<leftarrow> exec hw op; md \<leftarrow> what_mcg_mode hw; State_Monad.return (r, md) }) m = (x, m')"
  shows "x = (hz_after op (ctl m) (FCRDIV (SC m)), mode_code (Some (dst op)))"
proof -
  have "wp (do { r \<leftarrow> exec hw op; md \<leftarrow> what_mcg_mode hw; State_Monad.return (r, md) })
    (\<lambda>x m'. x = (hz_after op (ctl m) (FCRDIV (SC m)), mode_code (Some (dst op)))) m"
  proof (rule wp_bind, rule wp_mono [OF exec_spec [OF assms(1-3)]], rule wp_bind)
    fix r and m1 :: "'h mach"
    assume step: "(r, ctl m1) = spec_step op (ctl m) (FCRDIV (SC m)) \<and> steady m1 \<and>
      FCRDIV (SC m1) = FCRDIV (SC m)"
    then have "r = hz_after op (ctl m) (FCRDIV (SC m))" "ctl m1 = ctl_after op (ctl m)"
      using assms(4,5) by (auto simp: spec_step_def)
    then show "wp (what_mcg_mode hw) (\<lambda>md. wp (State_Monad.return (r, md))
        (\<lambda>x m'. x = (hz_after op (ctl m) (FCRDIV (SC m)), mode_code (Some (dst op))))) m1"
      using ctl_after_wf [OF assms(2,4)] step
      by (intro wp_mono [OF what_mode_spec [OF assms(1)]] wp_return) auto
  qed
  from wp_runD [OF this assms(6)] show ?thesis .
qed

theorem mcg_edge_taken_witness:
  "fst (run_state (do { r \<leftarrow> exec prompt_hw (Fei_fbe 8000000 1 True); md \<leftarrow> what_mcg_mode prompt_hw;
     State_Monad.return (r, md) }) (mach_of reset_ctl)) = (8000000, FBE)"
proof -
  obtain x m' where run: "run_state (do { r \<leftarrow> exec prompt_hw (Fei_fbe 8000000 1 True);
      md \<leftarrow> what_mcg_mode prompt_hw; State_Monad.return (r, md) }) (mach_of reset_ctl) = (x, m')"
    by fastforce
  have "x = (hz_after (Fei_fbe 8000000 1 True) (ctl (mach_of reset_ctl)) (FCRDIV (SC (mach_of reset_ctl))),
      mode_code (Some (dst (Fei_fbe 8000000 1 True))))"
    by (rule mcg_edge_taken [OF prompt_hw_settles _ _ _ _ run])
      (simp_all add: ext_error_def crystal_out_of_spec_def)
  then show ?thesis using run by simp
qed

lemma exec_step:
  assumes "hw_settles hw" "kn c d True True True m" "wf_ctl c"
    and "mode_of c = Some (src op)" "arg_error op c = None"
    and "\<And>m1. kn (ctl_after op c) d True True True m1 \<Longrightarrow> wf_ctl (ctl_after op c) \<Longrightarrow>
      mode_of (ctl_after op c) = Some (dst op) \<Longrightarrow> Q (hz_after op c d) m1"
  shows "wp (exec hw op) Q m"
  using assms(3) ctl_after_wf [OF assms(3,4)]
  by (intro wp_mono [OF exec_refines_kn [OF assms(1,2,4,5)]]) (auto simp: wf_ctl_def intro: assms(6))

lemma main_clock_exec: "main_clock hw = do {
     exec hw (Fei_fbi SLOW_IRC_FREQ 0);
     exec hw (Fbi_fbe CLK_FREQ_HZ 0 False);
     exec hw (Fbe_pbe CLK_FREQ_HZ PLL0_PRDIV PLL0_VDIV);
     mcg_clk_hz \<leftarrow> exec hw (Pbe_pee CLK_FREQ_HZ);
     modeMCG \<leftarrow> what_mcg_mode hw;
     State_Monad.return (mcg_clk_hz, modeMCG)
   }"
  by (simp add: main_clock_def)

text \<open>
  C4: The clock set-up of \<^verbatim>\<open>main\<close>, run out of reset on hardware that settles, ends in PEE mode
  (\<^verbatim>\<open>modeMCG\<close> is 8) and computes 60 MHz for \<^verbatim>\<open>mcg_clk_hz\<close>.
\<close>

theorem main_clock_60MHz:
  assumes hw: "hw_settles hw" and wf: "wf_ctl (ctl m)" and st: "steady m"
    and fei: "mode_of (ctl m) = Some M_FEI" and run: "run_state (main_clock hw) m = (x, m')"
  shows "x = (60000000, PEE)"
proof -
  note clk_consts = SLOW_IRC_FREQ_def CLK_FREQ_HZ_def PLL0_PRDIV_def PLL0_VDIV_def
  have kn: "kn (ctl m) (FCRDIV (SC m)) True True True m" using st by (simp add: kn_steady)
  have "wp (main_clock hw) (\<lambda>x m'. x = (60000000, PEE)) m"
    unfolding main_clock_exec
  proof (rule wp_bind, rule exec_step [OF hw kn wf],
      goal_cases)
    case (3 m1)
    show ?case
    proof (rule wp_bind, rule exec_step [OF hw 3(1,2)], goal_cases)
      case (3 m2)
      show ?case
      proof (rule wp_bind, rule exec_step [OF hw 3(1,2)], goal_cases)
        case (3 m3)
        show ?case
        proof (rule wp_bind, rule exec_step [OF hw 3(1,2)], goal_cases)
          case (3 m4)
          then show ?case
            by (intro wp_bind wp_mono [OF kn_what_mcg_mode [OF hw 3(1)]] wp_return)
              (simp_all add: clk_consts signed_divide_int_def)
        qed (use 3 in simp_all)
      qed (use 3 in \<open>simp_all add: pll_out_of_spec_def clk_consts signed_divide_int_def\<close>)
    qed (use 3 in \<open>simp_all add: ext_error_def crystal_out_of_spec_def clk_consts\<close>)
  qed (use fei in \<open>simp_all add: irc_out_of_spec_def clk_consts\<close>)
  from wp_runD [OF this run] show ?thesis .
qed

theorem main_clock_60MHz_witness:
  "fst (run_state (main_clock prompt_hw) (mach_of reset_ctl)) = (60000000, PEE)"
proof -
  obtain x m' where run: "run_state (main_clock prompt_hw) (mach_of reset_ctl) = (x, m')"
    by fastforce
  from main_clock_60MHz [OF prompt_hw_settles _ _ _ run] show ?thesis using run by simp
qed

end
