(* ===== verification/Mcg_Any.thy ===== *)
theory Mcg_Any
  imports Mcg_Props
begin

text \<open>
  The clock driver on hardware that may do anything to its status registers: what a reported
  frequency then still means, and that auto-trim (\<^verbatim>\<open>atc\<close>) puts the clock dividers back on
  every return.
\<close>

section \<open>Accesses that keep what the hardware keeps\<close>

lemma wp_rd_kept:
  assumes "\<And>m. I m \<Longrightarrow> I (hw m)" "I m" "\<And>a m1. I m1 \<Longrightarrow> Q a m1"
  shows "wp (rd hw f) Q m"
  using assms by (simp add: wp_def rd_def Let_def)

lemma wp_conj_rd_kept:
  assumes hw: "\<And>m. I m \<Longrightarrow> I (hw m)" and "I m" and Q: "\<And>a m1. I m1 \<Longrightarrow> Q a m1"
  shows "wp (conj_rd hw ps) Q m"
  using assms(2)
proof (induction ps arbitrary: m)
  case Nil
  then show ?case by (simp add: wp_return Q)
next
  case (Cons p ps)
  show ?case unfolding conj_rd.simps
    by (rule wp_bind, rule wp_rd_kept [of I, OF hw Cons.prems], assumption, rule wp_if)
      (auto intro: Cons.IH wp_return Q)
qed

lemma wp_first_mode_kept:
  assumes hw: "\<And>m. I m \<Longrightarrow> I (hw m)" and "I m" and Q: "\<And>a m1. I m1 \<Longrightarrow> Q a m1"
  shows "wp (first_mode hw cs) Q m"
  using assms(2)
proof (induction cs arbitrary: m)
  case Nil
  then show ?case by (simp add: wp_return Q)
next
  case (Cons x cs)
  obtain ps code where x: "x = (ps, code)" by fastforce
  show ?case unfolding x first_mode.simps
    by (rule wp_bind, rule wp_conj_rd_kept [of I, OF hw Cons.prems], assumption, rule wp_if)
      (auto intro: Cons.IH wp_return Q)
qed

section \<open>Any hardware\<close>

text \<open>
  What is known on hardware that may do anything to the status register: the control registers and
  the fast clock divider.
\<close>

definition kf :: "mcg_ctl \<Rightarrow> 3 word \<Rightarrow> 'h mach \<Rightarrow> bool" where
  "kf c d m \<longleftrightarrow> ctl m = c \<and> FCRDIV (SC m) = d"

lemma kf_rd:
  assumes "hw_frame hw" "kf c d m" "\<And>m1. kf c d m1 \<Longrightarrow> Q (f m1) m1"
  shows "wp (rd hw f) Q m"
  using assms by (simp add: wp_def rd_def Let_def kf_def hw_frame_def)

lemma kf_hw: "hw_frame hw \<Longrightarrow> kf c d m \<Longrightarrow> kf c d (hw m)"
  by (simp add: kf_def hw_frame_def)

lemma kf_conj_rd:
  assumes "hw_frame hw" "kf c d m" "\<And>b m1. kf c d m1 \<Longrightarrow> Q b m1"
  shows "wp (conj_rd hw ps) Q m"
  by (rule wp_conj_rd_kept [of "kf c d"]) (auto intro: kf_hw assms)

lemma kf_poll:
  assumes hw: "hw_frame hw" and "kf c d m" and Q: "\<And>m1. kf c d m1 \<Longrightarrow> Q () m1"
  shows "wp (poll hw p n) Q m"
  using assms(2)
proof (induction n arbitrary: m)
  case 0
  then show ?case by (simp add: wp_return Q)
next
  case (Suc n)
  show ?case
    unfolding poll.simps
    by (rule wp_bind, rule kf_rd [OF hw Suc.prems], rule wp_if) (auto intro: Suc.IH wp_return Q)
qed

lemma kf_wait:
  assumes hw: "hw_frame hw" and kf: "kf c d m" and "\<And>m1. kf c d m1 \<Longrightarrow> Q err m1"
    and "\<And>m1. kf c d m1 \<Longrightarrow> wp k Q m1"
  shows "wp (wait_for hw p n err k) Q m"
  unfolding wait_for_def
  by (rule wp_bind, rule kf_poll [OF hw kf], rule wp_bind, rule kf_rd [OF hw], assumption, rule wp_if)
    (auto intro: assms(3,4) wp_return)

lemma kf_rmw:
  assumes hw: "hw_frame hw" and kf: "kf c d m" and "\<And>v c. upd (\<lambda>_. f (sel c)) c = upd f c"
    and "\<And>m1. kf (upd f c) d m1 \<Longrightarrow> Q () m1"
  shows "wp (ctl_rmw hw sel upd f) Q m"
proof -
  have "kf (upd f c) d (ctl_update (upd (\<lambda>_. f (sel (ctl m1)))) (hw m1))" if "kf c d m1" for m1
    using that hw assms(3) [of c] by (auto simp: kf_def hw_frame_def)
  then show ?thesis
    unfolding ctl_rmw_def
    by (intro wp_bind kf_rd [OF hw kf]) (auto simp: wp_def wr_def intro: assms(4))
qed

lemma kf_C_rmw:
  assumes "hw_frame hw" "kf c d m"
  shows "(\<And>m1. kf (C1_update f1 c) d m1 \<Longrightarrow> Q () m1) \<Longrightarrow> wp (C1_rmw hw f1) Q m"
    and "(\<And>m1. kf (C2_update f2 c) d m1 \<Longrightarrow> Q () m1) \<Longrightarrow> wp (C2_rmw hw f2) Q m"
    and "(\<And>m1. kf (PRDIV0_update f5 c) d m1 \<Longrightarrow> Q () m1) \<Longrightarrow> wp (C5_rmw hw f5) Q m"
    and "(\<And>m1. kf (C6_update f6 c) d m1 \<Longrightarrow> Q () m1) \<Longrightarrow> wp (C6_rmw hw f6) Q m"
  unfolding C1_rmw_def C2_rmw_def C5_rmw_def C6_rmw_def by (rule kf_rmw [OF assms]; simp)+

lemma kf_set_pll:
  assumes "hw_frame hw" "kf c d m" "\<And>m1. kf (pll_set p v c) d m1 \<Longrightarrow> Q () m1"
  shows "wp (set_pll hw p v) Q m"
  unfolding set_pll_def
  by (rule wp_bind, rule kf_C_rmw [OF assms(1,2)], rule kf_C_rmw [OF assms(1)], assumption)
    (rule assms(3), simp add: pll_set_def)

lemma kf_irc_out:
  assumes "hw_frame hw" "kf c d m" "\<And>m1. kf c d m1 \<Longrightarrow> Q (irc_hz irc_freq irc_select d) m1"
  shows "wp (irc_out hw irc_freq irc_select) Q m"
  unfolding irc_out_def
  by (rule wp_if, rule wp_bind, rule kf_rd [OF assms(1,2)])
    (use assms(2,3) in \<open>auto simp: kf_def irc_hz_def intro!: wp_return\<close>)

lemma kf_fll_freq:
  assumes "hw_frame hw" "kf c d m" "\<And>m1. kf c d m1 \<Longrightarrow> Q (fll_hz c fll_ref) m1"
  shows "wp (fll_freq hw fll_ref) Q m"
  unfolding fll_freq_def
  by (rule wp_bind, rule kf_rd [OF assms(1,2)], rule wp_bind, rule kf_rd [OF assms(1)], assumption,
      rule wp_return) (use assms(3) in \<open>auto simp: kf_def fll_hz_def\<close>)

lemma kf_fee_refs:
  assumes hw: "hw_frame hw" and kf: "kf c d m"
  shows "(\<And>m1. kf c d m1 \<Longrightarrow> Q (fbe_fee_ref_hz c x) m1) \<Longrightarrow> wp (fbe_fee_ref hw x) Q m"
    and "(\<And>m1. kf c d m1 \<Longrightarrow> Q (to_fee_ref_hz c x) m1) \<Longrightarrow> wp (to_fee_ref hw x) Q m"
  unfolding fbe_fee_ref_def to_fee_ref_def
   apply (rule wp_bind, rule kf_rd [OF hw kf], rule wp_if; rule kf_rd [OF hw], assumption)
    apply (auto simp: kf_def fbe_fee_ref_hz_def)[2]
  apply (rule wp_bind, rule kf_rd [OF hw kf], rule wp_return)
  apply (auto simp: kf_def to_fee_ref_hz_def)
  done

text \<open>
  The result of a transition on any hardware: an error code below \<^verbatim>\<open>0x5B\<close>, or the frequency
  with all of the function's register writes done.
\<close>

definition code_or :: "int \<Rightarrow> mcg_ctl \<Rightarrow> int \<Rightarrow> 'h mach \<Rightarrow> bool" where
  "code_or hz c r m \<longleftrightarrow> r < 0x5B \<or> r = hz \<and> ctl m = c"

lemma kf_code_or: "kf c d m \<Longrightarrow> code_or hz c hz m"
  by (simp add: code_or_def kf_def)

lemma code_or_err: "r < 0x5B \<Longrightarrow> code_or hz c r m"
  by (simp add: code_or_def)

lemma kf_waits:
  assumes "hw_frame hw" "kf c d m" and "\<And>m1. kf c d m1 \<Longrightarrow> wp k (code_or hz c1) m1"
  shows "err < 0x5B \<Longrightarrow> wp (wait_for hw p n err k) (code_or hz c1) m"
    and "wp (osc_wait hw erefs_val n k) (code_or hz c1) m"
    and "wp (irc_wait hw irc_select k) (code_or hz c1) m"
  unfolding osc_wait_def irc_wait_def
  by (intro wp_if kf_wait [OF assms(1,2)]; simp add: code_or_err assms)+

lemma kf_to_pee:
  assumes hw: "hw_frame hw" and kf: "kf c d m"
    and "hz = pll_hz c crystal_val" "c1 = C1_update (CLKS_update (\<lambda>_. 0)) c"
  shows "wp (to_pee hw crystal_val) (code_or hz c1) m"
proof -
  have switch: "wp (do { C1_rmw hw (CLKS_update (\<lambda>_. 0)); wait_for hw (\<lambda>m. CLKST (S m) = 3) 2000 0x1B
      (State_Monad.return hz) }) (code_or hz c1) m1" if "kf c d m1" for m1
    by (rule wp_bind, rule kf_C_rmw [OF hw that], rule kf_waits [OF hw], assumption)
      (auto simp: assms(4) intro: wp_return kf_code_or)
  show ?thesis
    unfolding to_pee_def
    by (rule wp_bind, rule kf_rd [OF hw kf], rule wp_bind, rule kf_rd [OF hw], assumption)
      (use switch in \<open>simp add: kf_def pll_hz_def assms(3)\<close>)
qed

lemma out_of_spec_codes:
  "pll_out_of_spec x p v = Some e \<Longrightarrow> e < 0x5B" "irc_out_of_spec s f = Some e \<Longrightarrow> e < 0x5B"
  by (auto simp: pll_out_of_spec_def irc_out_of_spec_def split: if_splits)

lemma wp_code_case:
  assumes "\<And>e. x = Some e \<Longrightarrow> e < 0x5B" "x = None \<Longrightarrow> wp k (code_or hz c) m"
  shows "wp (case x of Some e \<Rightarrow> State_Monad.return e | None \<Rightarrow> k) (code_or hz c) m"
  using assms by (auto split: option.split intro: wp_return code_or_err)

lemma wp_code: "r < 0x5B \<Longrightarrow> wp (State_Monad.return r) (code_or hz c) m"
  by (auto intro: wp_return code_or_err)

lemma wp_done:
  "kf c1 d m \<Longrightarrow> r = hz \<Longrightarrow> c1 = c \<Longrightarrow> wp (State_Monad.return r) (code_or hz c) m"
  by (auto intro: wp_return kf_code_or)

lemmas kf_rules = kf_C_rmw kf_fee_refs kf_conj_rd kf_irc_out kf_fll_freq kf_set_pll

lemma exec_any_kf:
  assumes hw: "hw_frame hw" and kf: "kf c d m"
  shows "wp (exec hw op) (code_or (hz_after op c d) (ctl_after op c)) m"
  by (insert kf; cases op; hypsubst;
    simp only: exec.simps hz_after.simps ctl_after.simps drv_defs ext_ref_def osc_set_def;
    (rule wp_bind wp_if
      | (rule kf_rules [OF hw], assumption)
      | (rule kf_waits [OF hw], assumption)
      | (rule wp_code_case, erule out_of_spec_codes)
      | (rule wp_code, simp; fail)
      | (rule kf_to_pee [OF hw], assumption)
      | erule wp_done
      | erule kf_code_or
      | (simp add: irc_out_of_spec_def; fail))+)

text \<open>
  C35: On hardware that may do anything to the status register (only the control registers are the
  driver's own), a transition function that returns a frequency, a value of at least \<^verbatim>\<open>0x5B\<close>,
  has done all of its register writes, and the frequency is the one of its target mode. In every
  other case the value is an error code.
\<close>

theorem mcg_frequency_means_done:
  fixes m :: "'h mach"
  assumes "hw_frame hw" "run_state (exec hw op) m = (r, m')" "0x5B \<le> r"
  shows "r = hz_after op (ctl m) (FCRDIV (SC m)) \<and> ctl m' = ctl_after op (ctl m)"
proof -
  have "kf (ctl m) (FCRDIV (SC m)) m" by (simp add: kf_def)
  from wp_runD [OF exec_any_kf [OF assms(1) this] assms(2)] show ?thesis
    using assms(3) by (auto simp: code_or_def)
qed

theorem mcg_frequency_means_done_witness:
  "ctl (snd (run_state (exec prompt_hw (Fbe_blpe 8000000))
     (mach_of (ctl_after (Fei_fbe 8000000 0 False) reset_ctl)))) =
   ctl_after (Fbe_blpe 8000000) (ctl_after (Fei_fbe 8000000 0 False) reset_ctl)"
proof -
  let ?m = "mach_of (ctl_after (Fei_fbe 8000000 0 False) reset_ctl)"
  obtain r m' where run: "run_state (exec prompt_hw (Fbe_blpe 8000000)) ?m = (r, m')" by fastforce
  moreover have "r = 8000000"
    using run by (simp add: fbe_blpe_def chk_FBE_def rd_def Let_def prompt_hw_def reset_ctl_def ctl_setters
        clkst_of_def C2_rmw_def ctl_rmw_def wr_def)
  moreover have "hw_frame prompt_hw" using prompt_hw_settles by (simp add: hw_settles_def)
  ultimately have "ctl m' = ctl_after (Fbe_blpe 8000000) (ctl ?m)"
    using mcg_frequency_means_done [of prompt_hw "Fbe_blpe 8000000" ?m r m'] by simp
  then show ?thesis using run by simp
qed

section \<open>Auto-trim\<close>

lemma wp_wr_kept:
  assumes "\<And>m. I m \<Longrightarrow> I (hw m)" "I m" "\<And>m. I m \<Longrightarrow> J (g m)" "\<And>m1. J m1 \<Longrightarrow> Q () m1"
  shows "wp (wr hw g) Q m"
  using assms by (simp add: wp_def wr_def)

lemma wp_spin_kept:
  assumes hw: "\<And>m. I m \<Longrightarrow> I (hw m)" and "I m" and Q: "\<And>a m1. I m1 \<Longrightarrow> Q a m1"
  shows "wp (spin hw p n) Q m"
  using assms(2)
proof (induction n arbitrary: m)
  case 0
  then show ?case by (simp add: wp_return Q)
next
  case (Suc n)
  show ?case unfolding spin.simps
    by (rule wp_bind, rule wp_rd_kept [of I, OF hw Suc.prems], assumption, rule wp_if)
      (auto intro: Suc.IH wp_return Q)
qed

definition kd :: "mcg_ctl \<Rightarrow> clkdiv1_reg \<Rightarrow> 'h mach \<Rightarrow> bool" where
  "kd c v m \<longleftrightarrow> ctl m = c \<and> CLKDIV1 m = v"

lemma kd_hw: "hw_frame hw \<Longrightarrow> kd c v m \<Longrightarrow> kd c v (hw m)"
  by (simp add: kd_def hw_frame_def)

lemma kd_rd_val:
  assumes "hw_frame hw" "kd c v m" "\<And>m1. kd c v m1 \<Longrightarrow> Q v m1"
  shows "wp (rd hw CLKDIV1) Q m"
  using assms by (simp add: wp_def rd_def Let_def kd_def hw_frame_def)

lemma kd_result:
  assumes hw: "hw_frame hw" and "kd c v m"
    and Q: "\<And>a m1. a \<in> {0, 8, 9, 10} \<Longrightarrow> kd c v m1 \<Longrightarrow> Q a m1"
  shows "wp (atc_result hw fast) Q m"
  unfolding atc_result_def
  by (insert assms(2), ((rule wp_bind wp_if wp_return
      | (rule wp_rd_kept [of "kd c v"], erule kd_hw [OF hw], assumption)
      | (rule Q, simp, assumption))+))

lemma kd_trim:
  assumes hw: "hw_frame hw" and "kd c v m"
    and Q: "\<And>a m1. a \<in> {None, Some 0, Some 8, Some 9, Some 10} \<Longrightarrow> kd c v m1 \<Longrightarrow> Q a m1"
  shows "wp (atc_trim hw fuel fast n) Q m"
  unfolding atc_trim_def
  by (insert assms(2), ((rule wp_bind wp_if wp_return
      | (rule wp_rd_kept [of "kd c v"], erule kd_hw [OF hw], assumption)
      | (rule wp_spin_kept [of "kd c v"], erule kd_hw [OF hw], assumption)
      | (rule kd_result [OF hw], assumption)
      | (rule Q, fastforce, assumption)
      | (rule wp_wr_kept [where I = "kd c v" and J = "kd c v"], erule kd_hw [OF hw], assumption, simp add: kd_def)
      | (simp add: kd_def; fail))+))

lemma kd_atc:
  assumes hw: "hw_frame hw" and kd: "kd c v m"
  shows "wp (atc hw fuel s f out) (\<lambda>r m'. case r of None \<Rightarrow> True
    | Some code \<Rightarrow> kd c v m' \<and> code \<noteq> 2 \<and> code \<le> 10) m"
proof -
  let ?Q = "\<lambda>r m'. case r of None \<Rightarrow> True | Some code \<Rightarrow> kd c v m' \<and> code \<noteq> 2 \<and> code \<le> 10"
  have restore: "wp (do { wr hw (CLKDIV1_update (\<lambda>_. v)); State_Monad.return (Some code) }) ?Q m1"
    if "kd c v1 m1" "code \<noteq> 2 \<and> code \<le> 10" for v1 m1 and code :: u8
    by (rule wp_bind, rule wp_wr_kept [where I = "kd c v1" and J = "kd c v"], erule kd_hw [OF hw], rule that(1))
      (use that(2) in \<open>auto simp: kd_def intro: wp_return\<close>)
  have codes: "atc_irc_error b f = Some code \<Longrightarrow> code \<noteq> 2 \<and> code \<le> 10" for b code
    by (auto simp: atc_irc_error_def split: if_splits)
  show ?thesis
    unfolding atc_def what_mcg_mode_def
    apply (rule wp_bind, rule wp_first_mode_kept [of "kd c v"], erule kd_hw [OF hw], rule kd, rule wp_if)
     apply (rule wp_return, simp)
    apply (rule wp_bind, rule kd_rd_val [OF hw], assumption)+
    apply (rule wp_bind, rule wp_wr_kept [where I = "kd c v" and J = "kd c _"], erule kd_hw [OF hw],
        assumption, simp add: kd_def, rule wp_bind, rule wp_rd_kept, erule kd_hw [OF hw], assumption,
        rule wp_if, erule restore, simp)
    apply (split option.split, intro conjI impI allI)
     apply (rule wp_bind, rule kd_trim [OF hw], assumption)
     apply (split option.split, intro conjI impI allI)
      apply (rule wp_return, simp)
     apply (erule restore, fastforce)
    apply (erule restore, erule codes)
    done
qed

text \<open>
  Auto-trim puts the clock dividers back: whatever the hardware does, when \<^verbatim>\<open>atc\<close> returns, on
  any of its branches, \<^verbatim>\<open>SIM->CLKDIV1\<close> and the MCG control registers are as they were, and the
  code is one of the documented ones (0, 1 or 3 to 10).
\<close>

theorem atc_restores:
  fixes m :: "'h mach"
  assumes "hw_frame hw" "run_state (atc hw fuel irc_select irc_freq mcg_out_freq) m = (Some code, m')"
  shows "CLKDIV1 m' = CLKDIV1 m \<and> ctl m' = ctl m \<and> code \<noteq> 2 \<and> code \<le> 10"
proof -
  have "kd (ctl m) (CLKDIV1 m) m" by (simp add: kd_def)
  from wp_runD [OF kd_atc [OF assms(1) this] assms(2)] show ?thesis by (simp add: kd_def)
qed

definition pee_ctl :: mcg_ctl where
  "pee_ctl = ctl_after (Pll_init 8000000 0 False 4 30 0) reset_ctl"

definition frozen_hw :: "unit hw" where
  "frozen_hw m = m"

lemma frozen_hw_frame: "hw_frame frozen_hw"
  by (simp add: hw_frame_def frozen_hw_def)

lemma what_mcg_mode_pee:
  "run_state (what_mcg_mode frozen_hw) (mach_of pee_ctl) = (PEE, mach_of pee_ctl)"
  by (simp add: what_mcg_mode_def chk_FEI_def chk_PEE_def rd_def Let_def frozen_hw_def mach_of_def
      pee_ctl_def reset_ctl_def ctl_setters clkst_of_def)

theorem atc_restores_witness:
  "\<exists>m'. run_state (atc frozen_hw 10 0 30000 60000000) (mach_of pee_ctl) = (Some 4, m') \<and>
     CLKDIV1 m' = CLKDIV1 (mach_of pee_ctl) \<and> ctl m' = pee_ctl"
proof -
  have "fst (run_state (atc frozen_hw 10 0 30000 60000000) (mach_of pee_ctl)) = Some 4"
    by (simp add: atc_def what_mcg_mode_pee rd_def wr_def Let_def frozen_hw_def signed_divide_int_def
        atc_irc_error_def)
  then obtain m' where run: "run_state (atc frozen_hw 10 0 30000 60000000) (mach_of pee_ctl) = (Some 4, m')"
    by (metis prod.collapse)
  from atc_restores [OF frozen_hw_frame run] run show ?thesis by simp
qed

text \<open>The trim machine stops: within \<open>fuel\<close> reads \<^verbatim>\<open>ATME\<close> is seen clear.\<close>

definition trim_stops :: "'h hw \<Rightarrow> nat \<Rightarrow> bool" where
  "trim_stops hw fuel \<longleftrightarrow> (\<forall>m. \<exists>k. 0 < k \<and> k \<le> fuel \<and> \<not> ATME (SC ((hw ^^ k) m)))"

lemma spin_stops:
  assumes "0 < k" "k \<le> n" "\<not> p ((hw ^^ k) m)"
  shows "wp (spin hw p n) (\<lambda>b _. b) m"
  using assms
proof (induction n arbitrary: k m)
  case 0
  then show ?case by simp
next
  case (Suc n)
  obtain j where j: "k = Suc j" using Suc.prems(1) by (cases k) auto
  show ?case
  proof (cases "p (hw m)")
    case True
    with Suc.prems j have "0 < j" "j \<le> n" "\<not> p ((hw ^^ j) (hw m))"
      by (auto simp: funpow_swap1 intro: gr0I)
    then have "wp (spin hw p n) (\<lambda>b _. b) (hw m)" by (rule Suc.IH)
    then show ?thesis using True by (simp add: wp_def rd_def Let_def)
  next
    case False
    then show ?thesis by (simp add: wp_def rd_def Let_def)
  qed
qed

lemma wp_skip: "(\<And>a m1. wp (f a) Q m1) \<Longrightarrow> wp (State_Monad.bind c f) Q m"
  by (rule wp_bind, rule wp_runI)

lemma wp_known: "wp c P m \<Longrightarrow> (\<And>a m1. P a m1 \<Longrightarrow> wp (f a) Q m1) \<Longrightarrow> wp (State_Monad.bind c f) Q m"
  by (rule wp_bind, erule wp_mono)

lemma trim_returns:
  assumes "trim_stops hw fuel"
  shows "wp (atc_trim hw fuel fast n) (\<lambda>r _. r \<noteq> None) m"
proof -
  have spin: "wp (spin hw (\<lambda>m. ATME (SC m)) fuel) (\<lambda>b _. b) m1" for m1
    using assms spin_stops [of _ fuel "\<lambda>m. ATME (SC m)" hw m1] unfolding trim_stops_def by blast
  show ?thesis
    unfolding atc_trim_def by (rule wp_known [OF spin] wp_skip wp_if wp_return | simp)+
qed

text \<open>With such a trim machine \<^verbatim>\<open>atc\<close> returns, for all arguments and in every state.\<close>

lemma atc_returns:
  assumes "trim_stops hw fuel"
  shows "\<exists>code. fst (run_state (atc hw fuel irc_select irc_freq mcg_out_freq) m) = Some code"
proof -
  have "wp (atc hw fuel irc_select irc_freq mcg_out_freq) (\<lambda>r _. r \<noteq> None) m"
    unfolding atc_def
    by (rule wp_known [OF trim_returns [OF assms]] wp_skip wp_if wp_return
      | (split option.split, intro conjI impI allI) | simp)+
  then show ?thesis by (auto simp: wp_def split: prod.splits)
qed

end
