(* ===== verification/Mcg_Checks.thy ===== *)
theory Mcg_Checks
  imports Mcg_Any
begin

text \<open>
  The arithmetic of the clock driver: the FLL and PLL frequency checks, the reference frequency
  computations (with the places where they do not do what they mean to), the RTC start-up count
  and the auto-trim count in single precision.
\<close>

section \<open>The FLL frequency check\<close>

lemma drs_cases: "(drs :: 2 word) = 0 \<or> drs = 1 \<or> drs = 2 \<or> drs = 3"
proof -
  have "uint drs < 4" using uint_lt2p [of drs] by simp
  then have "uint drs = 0 \<or> uint drs = 1 \<or> uint drs = 2 \<or> uint drs = 3"
    using uint_ge_0 [of drs] by presburger
  then show ?thesis by (auto simp: word_uint_eq_iff)
qed

lemma fll_check_spec:
  "fll_check drs f = (if f < 20000000 * (uint drs + 1) then 0x33 + 2 * uint drs
     else if f > 25000000 * (uint drs + 1) then 0x34 + 2 * uint drs else f)"
  using drs_cases [of drs] by (auto simp: fll_check_def)

lemma fll_mult_spec: "\<not> dmx32 \<Longrightarrow> fll_mult dmx32 drs = 640 * (uint drs + 1)"
  using drs_cases [of drs] by (auto simp: fll_mult_def)

text \<open>
  \<^verbatim>\<open>fll_freq\<close> returns a frequency exactly when the product of reference and multiplier is within
  20 to 25 MHz times the DRS setting plus one, and then that product; otherwise it returns the
  too-low or the too-high error code of the setting.
\<close>

theorem fll_freq_in_spec:
  fixes m :: "'h mach"
  assumes "hw_frame hw" "run_state (fll_freq hw fll_ref) m = (r, m')"
  shows "let c4 = C4 (ctl m); n = uint (DRST_DRS c4); f = fll_ref * fll_mult (DMX32 c4) (DRST_DRS c4) in
    r = (if f < 20000000 * (n + 1) then 0x33 + 2 * n else if f > 25000000 * (n + 1) then 0x34 + 2 * n else f) \<and>
    (0x5B \<le> r \<longleftrightarrow> 20000000 * (n + 1) \<le> f \<and> f \<le> 25000000 * (n + 1)) \<and> ctl m' = ctl m"
proof -
  have kf: "kf (ctl m) (FCRDIV (SC m)) m" by (simp add: kf_def)
  have "wp (fll_freq hw fll_ref) (\<lambda>r m'. r = fll_hz (ctl m) fll_ref \<and> ctl m' = ctl m) m"
    by (rule kf_fll_freq [OF assms(1) kf]) (simp add: kf_def)
  from wp_runD [OF this assms(2)] have "r = fll_hz (ctl m) fll_ref" "ctl m' = ctl m" by auto
  moreover have "0x5B \<le> (if f < 20000000 * (n + 1) then 0x33 + 2 * n
      else if f > 25000000 * (n + 1) then 0x34 + 2 * n else f) \<longleftrightarrow>
      20000000 * (n + 1) \<le> f \<and> f \<le> 25000000 * (n + 1)" if "0 \<le> n" "n < 4" for n f :: int
    using that by auto
  ultimately show ?thesis
    using uint_lt2p [of "DRST_DRS (C4 (ctl m))"] by (simp add: fll_hz_def fll_check_spec Let_def)
qed

theorem fll_freq_in_spec_witness:
  "fst (run_state (fll_freq frozen_hw 32768) (mach_of reset_ctl)) = 20971520"
proof -
  obtain r m' where run: "run_state (fll_freq frozen_hw 32768) (mach_of reset_ctl) = (r, m')" by fastforce
  from fll_freq_in_spec [OF frozen_hw_frame run] run show ?thesis
    by (simp add: reset_ctl_def fll_mult_def)
qed

text \<open>
  No FLL computation of the driver overflows an \<^verbatim>\<open>int\<close>: for an external clock of at most 50 MHz
  the divided reference stays below 50 kHz, and its product with any multiplier fits in 32 bits.
\<close>

theorem fll_product_fits:
  assumes "0 \<le> crystal_val" "crystal_val \<le> 50000000" "RANGE0 (C2 c) = range_val crystal_val"
  shows "0 \<le> to_fee_ref_hz c crystal_val \<and>
    to_fee_ref_hz c crystal_val * fll_mult dmx32 drs < 2 ^ 31"
proof -
  have "to_fee_ref_hz c crystal_val = crystal_val div
     (if RANGE0 (C2 c) > 0 then 32 * 2 ^ unat (frdiv_val crystal_val) else 2 ^ unat (frdiv_val crystal_val))"
    using assms(1) unfolding to_fee_ref_hz_def by (intro sdiv_nonneg) auto
  then have r: "0 \<le> to_fee_ref_hz c crystal_val" "to_fee_ref_hz c crystal_val \<le> 50000"
    using assms by (auto simp: frdiv_val_def range_val_def)
  have "0 \<le> fll_mult dmx32 drs" "fll_mult dmx32 drs \<le> 2929" by (auto simp: fll_mult_def)
  with r have "to_fee_ref_hz c crystal_val * fll_mult dmx32 drs \<le> 50000 * 2929" by (intro mult_mono) auto
  with r(1) show ?thesis by simp
qed

theorem fll_product_fits_witness:
  "to_fee_ref_hz (osc_set 2 0 False reset_ctl) 50000000 * fll_mult True 3 < 2 ^ 31"
  by (rule fll_product_fits [THEN conjunct2]) (simp_all add: osc_set_def range_val_def)

section \<open>The PLL frequency check\<close>

lemma pll_set_hz:
  assumes "1 \<le> p" "p \<le> 25" "24 \<le> v" "v \<le> 55"
  shows "pll_hz (pll_set p v c) x = (x sdiv p) * v"
proof -
  have "uint (word_of_int (p - 1) :: 5 word) = p - 1" "uint (word_of_int (v - 24) :: 5 word) = v - 24"
    using assms by (simp_all only: uint_word_of_int) simp_all
  then show ?thesis by (simp only: pll_hz_pll_set) simp
qed

lemma fbe_pbe_any:
  assumes hw: "hw_frame hw" and kf: "kf c d m"
  shows "wp (fbe_pbe hw x p v) (\<lambda>r m'. r < 0x5B \<or> pll_out_of_spec x p v = None \<and> ctl m' = pll_set p v c) m"
proof (cases "pll_out_of_spec x p v")
  case None
  then show ?thesis
    using exec_any_kf [OF hw kf, of "Fbe_pbe x p v"] by (simp, elim wp_mono) (auto simp: code_or_def)
next
  case (Some e)
  then show ?thesis
    unfolding fbe_pbe_def
    by (intro wp_bind kf_conj_rd [OF hw kf] wp_if wp_return)
      (auto intro: wp_return dest: out_of_spec_codes)
qed

text \<open>
  When \<^verbatim>\<open>fbe_pbe\<close> reports success, on any hardware, the PLL dividers it has written give a
  reference of 2 to 4 MHz and an output of 48 to 100 MHz.
\<close>

theorem fbe_pbe_pll_in_spec:
  fixes m :: "'h mach"
  assumes "hw_frame hw" "run_state (fbe_pbe hw crystal_val prdiv_val vdiv_val) m = (r, m')" "0x5B \<le> r"
  shows "2000000 \<le> crystal_val sdiv prdiv_val \<and> crystal_val sdiv prdiv_val \<le> 4000000 \<and>
    48000000 \<le> pll_hz (ctl m') crystal_val \<and> pll_hz (ctl m') crystal_val \<le> 100000000"
proof -
  have "kf (ctl m) (FCRDIV (SC m)) m" by (simp add: kf_def)
  from wp_runD [OF fbe_pbe_any [OF assms(1) this] assms(2)] assms(3)
  have ok: "pll_out_of_spec crystal_val prdiv_val vdiv_val = None" and "ctl m' = pll_set prdiv_val vdiv_val (ctl m)"
    by auto
  then show ?thesis by (auto simp: pll_out_of_spec_def pll_set_hz simp del: pll_hz_pll_set split: if_splits)
qed

lemma exec_accepts:
  assumes "hw_settles hw" "wf_ctl (ctl m)" "steady m" "mode_of (ctl m) = Some (src op)"
    and "arg_error op (ctl m) = None" "run_state (exec hw op) m = (r, m')"
  shows "r = hz_after op (ctl m) (FCRDIV (SC m)) \<and> ctl m' = ctl_after op (ctl m)"
  using wp_runD [OF exec_spec [OF assms(1-3)] assms(6)] assms(4,5) by (simp add: spec_step_def)

definition fbe_ctl :: mcg_ctl where
  "fbe_ctl = ctl_after (Fei_fbe 8000000 0 False) reset_ctl"

lemma fbe_ctl_wf [simp]: "wf_ctl fbe_ctl" "mode_of fbe_ctl = Some M_FBE"
  using ctl_after_wf [of reset_ctl "Fei_fbe 8000000 0 False"] by (simp_all add: fbe_ctl_def)

lemma prompt_hw_frame: "hw_frame prompt_hw"
  using prompt_hw_settles by (simp add: hw_settles_def)

theorem fbe_pbe_pll_in_spec_witness:
  "48000000 \<le> pll_hz (ctl (snd (run_state (fbe_pbe prompt_hw 8000000 2 24) (mach_of fbe_ctl)))) 8000000"
proof -
  obtain r m' where run: "run_state (fbe_pbe prompt_hw 8000000 2 24) (mach_of fbe_ctl) = (r, m')" by fastforce
  have "r = 8000000"
    using exec_accepts [OF prompt_hw_settles, of "mach_of fbe_ctl" "Fbe_pbe 8000000 2 24"] run
    by (simp add: pll_out_of_spec_def signed_divide_int_def)
  then show ?thesis using fbe_pbe_pll_in_spec [OF prompt_hw_frame run] run by simp
qed

text \<open>
  C37: \<^verbatim>\<open>blpe_pbe\<close> has no such guarantee: with dividers and reference in spec it accepts an 8 MHz
  clock with \<^verbatim>\<open>prdiv\<close> 2 and \<^verbatim>\<open>vdiv\<close> 55, although the PLL then runs at 220 MHz; \<^verbatim>\<open>fbe_pbe\<close>
  rejects the same arguments with code \<^verbatim>\<open>0x45\<close>.
\<close>

theorem blpe_pbe_overclocks:
  fixes m :: "'h mach"
  assumes "hw_settles hw" "wf_ctl (ctl m)" "steady m" "mode_of (ctl m) = Some M_BLPE"
    and "run_state (blpe_pbe hw 8000000 2 55) m = (r, m')"
  shows "r = 8000000 \<and> pll_hz (ctl m') 8000000 = 220000000 \<and> pll_out_of_spec 8000000 2 55 = Some 0x45"
proof -
  have "r = 8000000" "ctl m' = ctl_after (Blpe_pbe 8000000 2 55) (ctl m)"
    using exec_accepts [OF assms(1-3), of "Blpe_pbe 8000000 2 55"] assms(4,5)
    by (simp_all add: signed_divide_int_def)
  then show ?thesis by (simp add: pll_hz_def pll_out_of_spec_def signed_divide_int_def)
qed

theorem blpe_pbe_overclocks_witness:
  "fst (run_state (blpe_pbe prompt_hw 8000000 2 55) (mach_of (ctl_after (Fbe_blpe 8000000) fbe_ctl))) = 8000000"
proof -
  let ?m = "mach_of (ctl_after (Fbe_blpe 8000000) fbe_ctl)"
  obtain r m' where run: "run_state (blpe_pbe prompt_hw 8000000 2 55) ?m = (r, m')" by fastforce
  have "wf_ctl (ctl ?m)" "mode_of (ctl ?m) = Some M_BLPE"
    using ctl_after_wf [of fbe_ctl "Fbe_blpe 8000000"] by (simp_all del: ctl_after.simps)
  from blpe_pbe_overclocks [OF prompt_hw_settles this(1) _ this(2) run] show ?thesis using run
    by (simp del: ctl_after.simps)
qed

section \<open>Reference frequencies\<close>

text \<open>
  \<^verbatim>\<open>fbe_fee\<close> keeps the FLL reference in a \<^verbatim>\<open>short\<close>. For an external clock of 32768 to 39062 Hz in
  the low range and the reset multiplier, the FLL output is within 20 to 25 MHz, and yet the call
  is rejected with the too-low code \<^verbatim>\<open>0x33\<close> and leaves the registers alone; the check of
  \<^verbatim>\<open>fei_fee\<close>, which keeps the reference in an \<^verbatim>\<open>int\<close>, accepts the same clock.
\<close>

theorem fbe_fee_rejects_valid:
  fixes m :: "'h mach"
  assumes "hw_settles hw" "wf_ctl (ctl m)" "steady m" "mode_of (ctl m) = Some M_FBE"
    and "RANGE0 (C2 (ctl m)) = 0" "DMX32 (C4 (ctl m)) = False" "DRST_DRS (C4 (ctl m)) = 0"
    and "32768 \<le> crystal_val" "crystal_val \<le> 39062"
    and "run_state (fbe_fee hw crystal_val) m = (r, m')"
  shows "r = 0x33 \<and> ctl m' = ctl m \<and>
    20000000 \<le> crystal_val * 640 \<and> crystal_val * 640 \<le> 25000000 \<and>
    fee_error (ctl m) crystal_val 0 False = None"
proof -
  have x: "crystal_val sdiv 1 = crystal_val" using assms(8) by (subst sdiv_nonneg) auto
  have "fbe_fee_ref_hz (ctl m) crystal_val = crystal_val - 65536"
    using assms(5,8,9) x by (simp add: fbe_fee_ref_hz_def to_s16_wrap)
  then have "arg_error (Fbe_fee crystal_val) (ctl m) = Some 0x33"
    using assms(6-9) by (simp add: fll_error_def fll_hz_def fll_check_def fll_mult_def)
  then have "r = 0x33 \<and> ctl m' = ctl m"
    using wp_runD [OF exec_spec [OF assms(1-3), of "Fbe_fee crystal_val"]] assms(4,10)
    by (simp add: spec_step_def)
  moreover have "fee_error (ctl m) crystal_val 0 False = None"
    using assms(6-9) x by (simp add: fee_error_def ext_error_def crystal_out_of_spec_def fll_error_def
        fll_hz_def fll_check_def fll_mult_def to_fee_ref_hz_def osc_set_def range_val_def frdiv_val_def)
  ultimately show ?thesis using assms(8,9) by simp
qed

theorem fbe_fee_rejects_valid_witness:
  "fst (run_state (fbe_fee prompt_hw 32768)
     (mach_of (ctl_after (Fei_fbe 32768 0 False) reset_ctl))) = 0x33"
proof -
  let ?m = "mach_of (ctl_after (Fei_fbe 32768 0 False) reset_ctl)"
  obtain r m' where run: "run_state (fbe_fee prompt_hw 32768) ?m = (r, m')" by fastforce
  have "wf_ctl (ctl ?m)" "mode_of (ctl ?m) = Some M_FBE"
    using ctl_after_wf [of reset_ctl "Fei_fbe 32768 0 False"] by (simp_all del: ctl_after.simps)
  from fbe_fee_rejects_valid [OF prompt_hw_settles this(1) _ this(2) _ _ _ _ _ run] run show ?thesis
    by (simp add: reset_ctl_def osc_set_def ext_ref_def range_val_def)
qed

section \<open>The RTC start-up check\<close>

text \<open>
  The count \<^verbatim>\<open>fei_fee_rtc\<close> waits for is 4096 prescaler ticks ahead, modulo the 15-bit range of
  the prescaler, only when the prescaler reads at most \<^verbatim>\<open>0x6FFF\<close> or is exactly \<^verbatim>\<open>0x7800\<close>: the
  roll-over branch computes \<^verbatim>\<open>0x8000 - TPR\<close>.
\<close>

theorem rtc_count_rollover:
  fixes m :: "'h mach"
  assumes "\<And>m. TPR (RTC (hw m)) = TPR (RTC m)" "TPR (RTC m) < 0x8000"
  shows "unat (fst (run_state (rtc_count hw) m)) = (unat (TPR (RTC m)) + 4096) mod 0x8000 \<longleftrightarrow>
    TPR (RTC m) \<le> 0x6FFF \<or> TPR (RTC m) = 0x7800"
proof -
  define t where "t = TPR (RTC m)"
  have t: "unat t < 0x8000" using assms(2) by (simp add: t_def word_less_nat_alt)
  have run: "fst (run_state (rtc_count hw) m) = (if t > 0x6FFF then 0x8000 - t else t + 4096)"
    by (simp add: rtc_count_def rd_def Let_def assms(1) t_def)
  have hi: "unat (0x8000 - t) = 0x8000 - unat t" using t by (simp add: unat_sub word_le_nat_alt)
  have lo: "unat (t + 4096) = unat t + 4096" using t by (simp add: unat_word_ariths)
  have "t = 0x7800 \<longleftrightarrow> unat t = 0x7800" by (simp add: word_unat_eq_iff)
  moreover have "t \<le> 0x6FFF \<longleftrightarrow> unat t \<le> 0x6FFF" by (simp add: word_le_nat_alt)
  moreover have "(n + 4096) mod 0x8000 = n + 4096 - 0x8000" if "0x7000 \<le> n" "n < 0x8000" for n :: nat
    using that by (simp add: mod_if)
  ultimately show ?thesis unfolding run t_def [symmetric] using t hi lo
    by (cases "unat t \<le> 0x6FFF") (auto simp: not_le)
qed

theorem rtc_count_rollover_witness:
  "unat (fst (run_state (rtc_count frozen_hw) (mach_of reset_ctl\<lparr>RTC := \<lparr>TCE = True, TIF = False,
     OSCE = True, TSR = 0, TPR = 0x7000\<rparr>\<rparr>))) \<noteq> (0x7000 + 4096) mod 0x8000"
proof -
  let ?m = "mach_of reset_ctl\<lparr>RTC := \<lparr>TCE = True, TIF = False, OSCE = True, TSR = 0, TPR = 0x7000\<rparr>\<rparr>"
  have "unat (fst (run_state (rtc_count frozen_hw) ?m)) = (unat (TPR (RTC ?m)) + 4096) mod 0x8000 \<longleftrightarrow>
      TPR (RTC ?m) \<le> 0x6FFF \<or> TPR (RTC ?m) = 0x7800"
    by (rule rtc_count_rollover) (simp_all add: frozen_hw_def)
  then show ?thesis by simp
qed

section \<open>The auto-trim count\<close>

lemma round_half_even_error: "\<bar>of_int (round_half_even q) - q\<bar> \<le> 1 / 2"
  unfolding round_half_even_def Let_def
  using of_int_floor_le [of q] floor_correct [of q] by (auto split: if_splits)

lemma f32_ulp_le:
  assumes "1 \<le> q"
  shows "f32_ulp q \<le> q / 2 ^ 23" "0 < f32_ulp q"
proof -
  have "0 < nat \<lfloor>q\<rfloor>" using assms by simp
  then have "2 ^ (floorlog 2 (nat \<lfloor>q\<rfloor>) - 1) \<le> nat \<lfloor>q\<rfloor>"
    using floorlog_bounds [of "nat \<lfloor>q\<rfloor>" 2] by simp
  moreover have "floorlog 2 (nat \<lfloor>q\<rfloor>) = Suc (floorlog 2 (nat \<lfloor>q\<rfloor>) - 1)"
    using \<open>0 < nat \<lfloor>q\<rfloor>\<close> by (simp add: floorlog_def)
  ultimately have "(2::nat) ^ floorlog 2 (nat \<lfloor>q\<rfloor>) \<le> 2 * nat \<lfloor>q\<rfloor>"
    by (metis mult_le_mono2 power_Suc)
  then have "(2::rat) ^ floorlog 2 (nat \<lfloor>q\<rfloor>) \<le> of_nat (2 * nat \<lfloor>q\<rfloor>)"
    by (metis of_nat_le_iff of_nat_numeral of_nat_power)
  also have "\<dots> = 2 * of_int \<lfloor>q\<rfloor>" using assms by simp
  also have "\<dots> \<le> 2 * q" by simp
  finally show "f32_ulp q \<le> q / 2 ^ 23" by (simp add: f32_ulp_def field_simps)
qed (simp add: f32_ulp_def)

lemma f32_error:
  assumes "1 \<le> q"
  shows "\<bar>f32 q - q\<bar> \<le> q / 2 ^ 24"
proof -
  let ?u = "f32_ulp q"
  have u: "0 < ?u" "?u \<le> q / 2 ^ 23" using f32_ulp_le [OF assms] by auto
  have "f32 q - q = (of_int (round_half_even (q / ?u)) - q / ?u) * ?u"
    using u(1) by (simp add: f32_def field_simps)
  then have "\<bar>f32 q - q\<bar> = \<bar>of_int (round_half_even (q / ?u)) - q / ?u\<bar> * ?u"
    using u(1) by (simp add: abs_mult)
  also have "\<dots> \<le> 1 / 2 * ?u"
    using u(1) round_half_even_error [of "q / ?u"] by (intro mult_right_mono) auto
  also have "\<dots> \<le> q / 2 ^ 24" using u(2) by simp
  finally show ?thesis .
qed

lemma round_half_even_int: "round_half_even (of_int n) = n"
  by (simp add: round_half_even_def)

lemma f32_int:
  assumes "1 \<le> n" "n < 2 ^ 24"
  shows "f32 (of_int n) = of_int n"
proof -
  define k where "k = floorlog 2 (nat n)"
  have "k \<le> 24"
    using assms floorlog_le_iff [of 2 "nat n" 24] by (simp add: k_def nat_less_iff)
  then have pow: "(2::rat) ^ 24 = 2 ^ k * 2 ^ (24 - k)" by (simp flip: power_add)
  have "of_int n / f32_ulp (of_int n) = of_int n * 2 ^ 24 / (2 ^ k :: rat)"
    by (simp add: f32_ulp_def flip: k_def)
  also have "\<dots> = of_int (n * 2 ^ (24 - k))" unfolding pow by simp
  finally have quot: "of_int n / f32_ulp (of_int n) = (of_int (n * 2 ^ (24 - k)) :: rat)" .
  have "f32 (of_int n) = of_int n / f32_ulp (of_int n) * f32_ulp (of_int n)"
    unfolding f32_def quot round_half_even_int ..
  then show ?thesis using f32_ulp_le(2) [of "of_int n"] assms(1) by simp
qed

lemma f32_near:
  assumes "1 \<le> x" "1 \<le> q" "\<bar>x - q\<bar> \<le> q * e" "0 \<le> e" "e \<le> 1"
  shows "\<bar>f32 x - q\<bar> \<le> q * (e + 1 / 2 ^ 23)"
proof -
  have "x \<le> q + q * e" using assms(3) by linarith
  also have "\<dots> \<le> 2 * q" using assms(2,5) by (simp add: mult_left_le)
  finally have "x / 2 ^ 24 \<le> q * (1 / 2 ^ 23)" by simp
  then have "\<bar>f32 x - q\<bar> \<le> q * (1 / 2 ^ 23) + q * e"
    using f32_error [OF assms(1)] assms(3) by linarith
  then show ?thesis by (simp add: distrib_left)
qed

lemma f32_times:
  assumes "1 \<le> x" "1 \<le> q" "\<bar>x - q\<bar> \<le> q * e" "0 \<le> e" "e \<le> 1" "1 \<le> k"
  shows "\<bar>f32 (k * x) - k * q\<bar> \<le> k * q * (e + 1 / 2 ^ 23)"
proof (rule f32_near)
  show "1 \<le> k * x" "1 \<le> k * q" using assms mult_mono [of 1 k 1] by auto
  have "\<bar>k * x - k * q\<bar> = k * \<bar>x - q\<bar>" using assms(6) by (simp add: abs_mult flip: right_diff_distrib)
  also have "\<dots> \<le> k * (q * e)" using assms(3,6) by (intro mult_left_mono) auto
  finally show "\<bar>k * x - k * q\<bar> \<le> k * q * e" by (simp add: mult.assoc)
qed (use assms in auto)

lemma f32_ge_1:
  assumes "\<bar>x - q\<bar> \<le> q * e" "e \<le> 1 / 4" "3 / 2 \<le> q"
  shows "1 \<le> (x :: rat)"
proof -
  have "q * e \<le> q * (1 / 4)" using assms(2,3) by (intro mult_left_mono) auto
  then show ?thesis using assms(1,3) by linarith
qed

lemma floor_word:
  assumes "\<bar>x - q\<bar> \<le> q * (3 / 2 ^ 23)" "1 \<le> q" "q \<le> 16000"
  shows "\<bar>of_int (uint (word_of_int \<lfloor>x\<rfloor> :: u16)) - q\<bar> \<le> (1 + 1 / 100 :: rat)"
proof -
  have "q * (3 / 2 ^ 23) \<le> 16000 * (3 / 2 ^ 23)" using assms(3) by (intro mult_right_mono) auto
  then have err: "\<bar>x - q\<bar> \<le> 1 / 100" using assms(1) by simp
  then have "0 \<le> x" "x < 65536" using assms(2,3) by linarith+
  then have "0 \<le> \<lfloor>x\<rfloor>" "\<lfloor>x\<rfloor> < 65536" by (simp_all add: floor_less_iff)
  then have "uint (word_of_int \<lfloor>x\<rfloor> :: u16) = \<lfloor>x\<rfloor>" by (simp add: uint_word_of_int)
  then show ?thesis using err of_int_floor_le [of x] floor_correct [of x]
    unfolding abs_le_iff by (simp only:) linarith
qed

text \<open>
  The auto-trim count: for a bus clock of 8 to 16 MHz and an in-spec trim target, the
  single-precision computation of \<^verbatim>\<open>atc\<close>, truncated to an \<^verbatim>\<open>unsigned short\<close>, is within 1.01 of
  \<open>21 * bus / irc\<close> (slow clock) and \<open>128 * 21 * bus / irc\<close> (fast clock): it neither wraps nor loses
  more than the fraction.
\<close>

theorem atcv_count_accurate:
  assumes "8000000 \<le> bus" "bus \<le> 16000000" "atc_irc_error fast irc_freq = None"
  shows "\<bar>of_int (uint (atcv_count fast bus irc_freq)) -
    (if fast then 128 * 21 else 21) * of_int bus / of_int irc_freq\<bar> \<le> (1 + 1 / 100 :: rat)"
proof -
  let ?e = "1 / 2 ^ 23 :: rat"
  have irc: "31250 \<le> irc_freq" "irc_freq \<le> 5000000"
    and sl: "\<not> fast \<Longrightarrow> irc_freq \<le> 39062" and fs: "fast \<Longrightarrow> 3000000 \<le> irc_freq"
    using assms(3) by (auto simp: atc_irc_error_def split: if_splits)
  define q :: rat where "q = of_int bus / of_int irc_freq"
  have "(3 / 2 * of_int irc_freq :: rat) \<le> of_int bus" using irc assms(1) by linarith
  then have q: "3 / 2 \<le> q" using irc by (simp add: q_def pos_le_divide_eq)
  define x1 where "x1 = f32 q"
  have x1: "\<bar>x1 - q\<bar> \<le> q * ?e" using f32_near [of q q 0] q by (simp add: x1_def)
  have x1': "1 \<le> x1" using f32_ge_1 [OF x1] q by simp
  define x2 where "x2 = f32 (21 * x1)"
  have x2: "\<bar>x2 - 21 * q\<bar> \<le> 21 * q * (?e + ?e)" unfolding x2_def
    using q x1' x1 by (intro f32_times) auto
  have x2': "1 \<le> x2" using f32_ge_1 [OF x2] q by simp
  have x3: "\<bar>f32 (128 * x2) - 128 * (21 * q)\<bar> \<le> 128 * (21 * q) * ((?e + ?e) + ?e)"
    using q x2' x2 by (intro f32_times) auto
  have "f32 (f32 (of_int bus) / f32 (of_int irc_freq)) = x1"
    using assms irc by (simp add: f32_int x1_def q_def)
  then have count: "atcv_count fast bus irc_freq =
      (if fast then word_of_int \<lfloor>f32 (128 * x2)\<rfloor> else word_of_int \<lfloor>x2\<rfloor>)"
    by (simp add: atcv_count_def x2_def)
  show ?thesis
  proof (cases fast)
    case True
    have "(of_int bus :: rat) \<le> 16 / 3 * of_int irc_freq" using fs [OF True] assms(2) by linarith
    then have "q \<le> 16 / 3" using irc by (simp add: q_def pos_divide_le_eq)
    then have "\<bar>of_int (uint (atcv_count fast bus irc_freq)) - 128 * (21 * q)\<bar> \<le> 1 + 1 / 100"
      unfolding count if_P [OF True] using x3 q by (intro floor_word) auto
    then show ?thesis using True by (simp add: q_def)
  next
    case False
    have "(of_int bus :: rat) \<le> 512 * of_int irc_freq" using irc assms(2) by linarith
    then have "q \<le> 512" using irc by (simp add: q_def pos_divide_le_eq)
    moreover have "\<bar>x2 - 21 * q\<bar> \<le> 21 * q * (3 / 2 ^ 23)" using x2 q by simp
    ultimately have "\<bar>of_int (uint (atcv_count fast bus irc_freq)) - 21 * q\<bar> \<le> 1 + 1 / 100"
      unfolding count if_not_P [OF False] using q by (intro floor_word) auto
    then show ?thesis using False by (simp add: q_def)
  qed
qed

theorem atcv_count_accurate_witness:
  "\<bar>of_int (uint (atcv_count True 16000000 4000000)) - 128 * 21 * 16000000 / 4000000\<bar> \<le> (1 + 1 / 100 :: rat)"
  using atcv_count_accurate [of 16000000 True 4000000] by (simp add: atc_irc_error_def)

end
