(* ===== verification/Mcg_Calls.thy ===== *)
theory Mcg_Calls
  imports Mcg_Any
begin

text \<open>
  All calls of the clock driver that write registers, in any order: the transition functions, the RTC reference, the clock
  monitor and auto-trim; and what auto-trim does on settling hardware with a trim machine that stops.
\<close>

section \<open>Auto-trim\<close>

text \<open>
  The trim machine as the reference manual describes it: only software writes the compare value, and once
  \<^verbatim>\<open>ATME\<close> is clear the flags and trim registers do not change by themselves.
\<close>

definition trim_frame :: "'h hw \<Rightarrow> bool" where
  "trim_frame hw \<longleftrightarrow> (\<forall>m. ATCVH (hw m) = ATCVH m \<and> ATCVL (hw m) = ATCVL m \<and>
     (\<not> ATME (SC m) \<longrightarrow> SC (hw m) = SC m \<and> C3 (hw m) = C3 m \<and> FCTRIM (hw m) = FCTRIM m))"

text \<open>The bus clock during the trim, with the divider \<^verbatim>\<open>OUTDIV2\<close> that \<^verbatim>\<open>atc\<close> writes for it.\<close>

definition atc_bus :: "int \<Rightarrow> int" where
  "atc_bus out = out sdiv (uint (word_of_int (out sdiv 16000000) :: 4 word) + 1)"

definition trim_code :: "bool \<Rightarrow> bool \<Rightarrow> u8 \<Rightarrow> 4 word \<Rightarrow> u8" where
  "trim_code fast q x y = (if q then 8
     else if \<not> fast then (if x = 0xFF \<or> x = 0 then 9 else 0)
     else if y = 0xF \<or> y = 0 then 10 else 0)"

definition atc_spec :: "mcg_mode option \<Rightarrow> bool \<Rightarrow> int \<Rightarrow> int \<Rightarrow> u8 \<Rightarrow> 'h mach \<Rightarrow> bool" where
  "atc_spec md fast f out code m \<longleftrightarrow>
    (if md \<notin> {Some M_PEE, Some M_PBE, Some M_FBE} then code = 1
     else if atc_bus out < 8000000 \<or> atc_bus out > 16000000 then code = 3
     else case atc_irc_error fast f of
       Some e \<Rightarrow> code = e
     | None \<Rightarrow> code = trim_code fast (ATMF (SC m)) (C3 m) (FCTRIM m) \<and> 256 * unat (ATCVH m) + unat (ATCVL m) = unat (atcv_count fast (atc_bus out) f))"

text \<open>What is known during a trim: the settled state and the dividers, the compare value, the outcome.\<close>

definition ka :: "mcg_ctl \<Rightarrow> 3 word \<Rightarrow> clkdiv1_reg \<Rightarrow> 'h mach \<Rightarrow> bool" where
  "ka c d v m \<longleftrightarrow> kn c d True True True m \<and> CLKDIV1 m = v"

definition kv :: "'h hw \<Rightarrow> u16 \<Rightarrow> 'h mach \<Rightarrow> bool" where
  "kv hw n m \<longleftrightarrow> (trim_frame hw \<longrightarrow> 256 * unat (ATCVH m) + unat (ATCVL m) = unat n)"

definition ks :: "'h hw \<Rightarrow> bool \<Rightarrow> u8 \<Rightarrow> 4 word \<Rightarrow> 'h mach \<Rightarrow> bool" where
  "ks hw q x y m \<longleftrightarrow> (trim_frame hw \<longrightarrow> \<not> ATME (SC m) \<and> ATMF (SC m) = q \<and> C3 m = x \<and> FCTRIM m = y)"

lemma ka_hw: "hw_settles hw \<Longrightarrow> ka c d v m \<Longrightarrow> ka c d v (hw m)"
  using kn_idle [of c d True True True m "hw m"] idle_hw [of hw m] by (auto simp: ka_def hw_settles_def hw_frame_def)

lemma kv_hw: "kv hw n m \<Longrightarrow> kv hw n (hw m)"
  by (auto simp: kv_def trim_frame_def)

lemma ks_hw: "ks hw q x y m \<Longrightarrow> ks hw q x y (hw m)"
  by (auto simp: ks_def trim_frame_def)

lemma result_wp:
  fixes hw :: "'h hw"
  assumes I: "\<And>m. I m \<Longrightarrow> I (hw m)" "\<And>m. I m \<Longrightarrow> ks hw q x y m" and "I m"
    and Q: "\<And>a m1. I m1 \<Longrightarrow> (trim_frame hw \<Longrightarrow> a = trim_code fast q x y) \<Longrightarrow> Q a m1"
  shows "wp (atc_result hw fast) Q m"
proof -
  have rd: "wp (rd hw f) R m1" if "I m1" "\<And>m2. I m2 \<Longrightarrow> ks hw q x y m2 \<Longrightarrow> R (f m2) m2" for f and R :: "bool \<Rightarrow> 'h mach \<Rightarrow> bool" and m1
    using I that by (simp add: wp_def rd_def Let_def)
  show ?thesis
    unfolding atc_result_def
    by (intro wp_bind rd [OF \<open>I m\<close>] wp_if wp_return | (erule rd) | (rule Q, assumption) | (simp add: trim_code_def ks_def; fail))+
qed

lemma atcv_bytes: "256 * unat (ucast (drop_bit 8 (n AND 0xFF00)) :: u8) + unat (ucast (n AND 0xFF) :: u8) = unat (n :: u16)"
proof -
  have m: "(0xFF :: u16) = mask 8" "(0xFF00 :: u16) = push_bit 8 (mask 8)" by (simp_all add: mask_eq_exp_minus_1)
  have "ucast (n AND 0xFF) = (ucast n :: u8)" unfolding m(1) by (rule bit_word_eqI) (auto simp: bit_simps)
  moreover have "ucast (drop_bit 8 (n AND 0xFF00)) = (ucast (drop_bit 8 n) :: u8)"
    unfolding m(2) by (rule bit_word_eqI) (auto simp: bit_simps)
  moreover have "unat (ucast n :: u8) = unat n mod 256" by (simp add: unsigned_ucast_eq take_bit_eq_mod)
  moreover have "unat (ucast (drop_bit 8 n) :: u8) = unat n div 256"
    using unat_u16_bound [of n] by (simp add: unsigned_ucast_eq take_bit_eq_mod unat_drop_bit)
  ultimately show ?thesis by simp
qed

text \<open>The loop: kept predicates, and \<^verbatim>\<open>ATME\<close> clear when it has ended.\<close>

lemma spin_wp:
  assumes I: "\<And>m. I m \<Longrightarrow> I (hw m)" and "I m" and Q: "\<And>b m1. I m1 \<Longrightarrow> (b \<Longrightarrow> \<not> p m1) \<Longrightarrow> Q b m1"
  shows "wp (spin hw p n) Q m"
  using assms(2)
proof (induction n arbitrary: m)
  case 0
  then show ?case by (auto intro: wp_return Q)
next
  case (Suc n)
  then show ?case using I [OF Suc.prems] Suc.IH [of "hw m"] Q [of "hw m" True] by (auto simp: wp_def rd_def Let_def split: prod.splits)
qed

lemma trim_wp:
  fixes hw :: "'h hw"
  assumes hw: "hw_settles hw" and "ka c d v m"
    and Q: "\<And>r m1. ka c d v m1 \<Longrightarrow> (\<And>code. r = Some code \<Longrightarrow> trim_frame hw \<Longrightarrow>
      \<not> ATME (SC m1) \<and> code = trim_code fast (ATMF (SC m1)) (C3 m1) (FCTRIM m1) \<and> kv hw n m1) \<Longrightarrow> Q r m1"
  shows "wp (atc_trim hw fuel fast n) Q m"
proof -
  define K where "K = (\<lambda>m. ka c d v m \<and> kv hw n m)"
  have K: "K (hw m)" if "K m" for m using that ka_hw [OF hw] kv_hw unfolding K_def by blast
  have res: "wp (atc_result hw fast) (\<lambda>code. wp (State_Monad.return (Some code)) Q) m" if "K m" "\<not> ATME (SC m)" for m
  proof (rule result_wp [where I = "\<lambda>m1. K m1 \<and> ks hw (ATMF (SC m)) (C3 m) (FCTRIM m) m1"])
    show "K m \<and> ks hw (ATMF (SC m)) (C3 m) (FCTRIM m) m" using that by (simp add: ks_def)
    fix a m1 assume k: "K m1 \<and> ks hw (ATMF (SC m)) (C3 m) (FCTRIM m) m1" "trim_frame hw \<Longrightarrow> a = trim_code fast (ATMF (SC m)) (C3 m) (FCTRIM m)"
    show "wp (State_Monad.return (Some a)) Q m1" by (rule wp_return, rule Q) (use k in \<open>auto simp: K_def ks_def\<close>)
  qed (use K ks_hw in blast)+
  have spin: "wp (spin hw (\<lambda>m. ATME (SC m)) fuel) (\<lambda>stopped. wp (if \<not> stopped then State_Monad.return None
      else atc_result hw fast \<bind> (\<lambda>code. State_Monad.return (Some code))) Q) m" if "K m" for m
    by (rule spin_wp [where I = K]) (use that K res Q in \<open>auto simp: K_def intro!: wp_bind wp_return\<close>)
  define L where "L = (\<lambda>m :: 'h mach. ka c d v m \<and> (trim_frame hw \<longrightarrow> ATCVL m = ucast (n AND 0xFF)))"
  have L: "L (hw m)" if "L m" for m using that ka_hw [OF hw] by (auto simp: L_def trim_frame_def)
  have sc: "wp (rd hw SC) R m" if "K m" "\<And>sc m1. K m1 \<Longrightarrow> FCRDIV sc = d \<Longrightarrow> R sc m1" for m and R :: "sc_reg \<Rightarrow> 'h mach \<Rightarrow> bool"
    using that(2) [OF K [OF that(1)]] K [OF that(1)] by (simp add: wp_def rd_def Let_def K_def ka_def kn_def)
  have low: "wp (wr hw (ATCVL_update (\<lambda>_. ucast (n AND 0xFF)))) R m" if "\<And>m1. L m1 \<Longrightarrow> R () m1" for R
    by (rule wp_wr_kept [where I = "ka c d v" and J = L]) (use ka_hw [OF hw] assms(2) that in \<open>auto simp: L_def ka_def kn_def\<close>)
  have high: "wp (wr hw (ATCVH_update (\<lambda>_. ucast (drop_bit 8 (n AND 0xFF00))))) R m" if "L m" "\<And>m1. K m1 \<Longrightarrow> R () m1" for R and m
    by (rule wp_wr_kept [where I = L and J = K]) (use L that atcv_bytes [of n] in \<open>auto simp: L_def K_def ka_def kn_def kv_def\<close>)
  have set_sc: "wp (wr hw (SC_update (\<lambda>_. sc))) R m" if "K m" "FCRDIV sc = d" "\<And>m1. K m1 \<Longrightarrow> R () m1" for R m sc
    by (rule wp_wr_kept [where I = K and J = K]) (use K that in \<open>auto simp: K_def ka_def kn_def kv_def\<close>)
  show ?thesis
    unfolding atc_trim_def
    by (rule wp_bind, rule low, rule wp_bind, rule high, assumption, rule wp_bind, rule sc, assumption, rule wp_bind, rule set_sc, assumption, simp,
        rule wp_bind, rule sc, assumption, rule wp_bind, rule set_sc, assumption, simp, rule wp_bind, erule spin)
qed

lemma mode_code_eq [simp]: "mode_code x = PEE \<longleftrightarrow> x = Some M_PEE" "mode_code x = PBE \<longleftrightarrow> x = Some M_PBE" "mode_code x = FBE \<longleftrightarrow> x = Some M_FBE"
  using mode_code_inj [of x "Some M_PEE"] mode_code_inj [of x "Some M_PBE"] mode_code_inj [of x "Some M_FBE"] by simp_all

text \<open>On settling hardware: whatever it returns, the dividers and control registers are back; the code is that of \<open>atc_spec\<close>.\<close>

lemma atc_wp:
  fixes hw :: "'h hw"
  assumes hw: "hw_settles hw" and ka: "ka c d v m" and md: "mode_of c \<noteq> None"
  shows "wp (atc hw fuel s f out) (\<lambda>r m'. kn c d True True True m' \<and>
    (\<forall>code. r = Some code \<longrightarrow> CLKDIV1 m' = v \<and> (trim_frame hw \<longrightarrow> atc_spec (mode_of c) (s > 0) f out code m'))) m"
    (is "wp _ ?Q m")
proof -
  have fr: "hw_frame hw" using hw by (simp add: hw_settles_def)
  have mode: "wp (what_mcg_mode hw) (\<lambda>r m1. r = mode_code (mode_of c) \<and> ka c d v m1) m"
  proof -
    have "wp (what_mcg_mode hw) (\<lambda>_. ka c d v) m" unfolding what_mcg_mode_def
      by (rule wp_first_mode_kept [of "ka c d v", OF ka_hw [OF hw] ka]) 
    then show ?thesis using kn_what_mcg_mode [OF hw _ md, of d m] ka by (simp add: wp_def ka_def split: prod.splits)
  qed
  have div: "wp (wr hw (CLKDIV1_update (\<lambda>_. w))) R m1" if "ka c d v1 m1" "\<And>m2. ka c d w m2 \<Longrightarrow> R () m2" for R and v1 w and m1 :: "'h mach"
    by (rule wp_wr_kept [where I = "ka c d v1" and J = "ka c d w"]) (use ka_hw [OF hw] that in \<open>auto simp: ka_def kn_def\<close>)
  have rdiv: "wp (rd hw CLKDIV1) R m1" if "ka c d v1 m1" "\<And>m2. ka c d v1 m2 \<Longrightarrow> R v1 m2" for R v1 m1
    using that ka_hw [OF hw that(1)] by (simp add: wp_def rd_def Let_def ka_def)
  have rbus: "wp (rd hw (\<lambda>m. out sdiv (uint (OUTDIV2 (CLKDIV1 m)) + 1))) R m1"
    if "ka c d v1 m1" "\<And>m2. ka c d v1 m2 \<Longrightarrow> R (out sdiv (uint (OUTDIV2 v1) + 1)) m2" for R v1 m1
    using that ka_hw [OF hw that(1)] by (simp add: wp_def rd_def Let_def ka_def)
  have restore: "wp (do { wr hw (CLKDIV1_update (\<lambda>_. v)); State_Monad.return (Some code) }) ?Q m1"
    if "ka c d v1 m1" "trim_frame hw \<Longrightarrow> atc_spec (mode_of c) (s > 0) f out code (CLKDIV1_update (\<lambda>_. v) (hw m1))" for v1 m1 code
    using that ka_hw [OF hw that(1)] by (simp add: wp_def wr_def ka_def kn_def)
  define w where "w = v\<lparr>OUTDIV2 := word_of_int (out sdiv 16000000), OUTDIV4 := word_of_int (out sdiv 16000000) :: 4 word\<rparr>"
  have bus: "out sdiv (uint (OUTDIV2 w) + 1) = atc_bus out" by (simp add: w_def atc_bus_def)
  have none: "?Q None m1" if "ka c d v1 m1" for v1 m1 using that by (simp add: ka_def)
  have trimmed: "wp (do {
        result \<leftarrow> atc_trim hw fuel (s > 0) (atcv_count (s > 0) (atc_bus out) f);
        (case result of None \<Rightarrow> State_Monad.return None
         | Some code \<Rightarrow> do { wr hw (CLKDIV1_update (\<lambda>_. v)); State_Monad.return (Some code) }) }) ?Q m1"
    if k: "ka c d w m1" and sp: "mode_of c \<in> {Some M_PEE, Some M_PBE, Some M_FBE}" "\<not> (atc_bus out < 8000000 \<or> atc_bus out > 16000000)"
      "atc_irc_error (s > 0) f = None" for m1
  proof (rule wp_bind, rule trim_wp [OF hw k])
    fix r and m2 :: "'h mach"
    assume m2: "ka c d w m2" "\<And>code. r = Some code \<Longrightarrow> trim_frame hw \<Longrightarrow> \<not> ATME (SC m2) \<and> code = trim_code (s > 0) (ATMF (SC m2)) (C3 m2) (FCTRIM m2) \<and>
      kv hw (atcv_count (s > 0) (atc_bus out) f) m2"
    show "wp (case r of None \<Rightarrow> State_Monad.return None
         | Some code \<Rightarrow> do { wr hw (CLKDIV1_update (\<lambda>_. v)); State_Monad.return (Some code) }) ?Q m2"
    proof (cases r)
      case None
      then show ?thesis using none [OF m2(1)] by (simp add: wp_return)
    next
      case (Some code)
      have "atc_spec (mode_of c) (s > 0) f out code (CLKDIV1_update (\<lambda>_. v) (hw m2))" if t: "trim_frame hw"
        using m2(2) [OF Some t] t sp unfolding atc_spec_def by (auto simp: trim_frame_def kv_def)
      then show ?thesis unfolding Some option.case by (rule restore [OF m2(1)])
    qed
  qed
  have rest: "wp (do {
      orig_div \<leftarrow> rd hw CLKDIV1;
      temp_reg \<leftarrow> rd hw CLKDIV1;
      wr hw (CLKDIV1_update (\<lambda>_. temp_reg\<lparr>OUTDIV2 := word_of_int (out sdiv 16000000), OUTDIV4 := word_of_int (out sdiv 16000000)\<rparr>));
      bus_clock_freq \<leftarrow> rd hw (\<lambda>m. out sdiv (uint (OUTDIV2 (CLKDIV1 m)) + 1));
      if bus_clock_freq < 8000000 \<or> bus_clock_freq > 16000000 then do {
        wr hw (CLKDIV1_update (\<lambda>_. orig_div));
        State_Monad.return (Some 3)
      } else (case atc_irc_error (s > 0) f of
        Some code \<Rightarrow> do { wr hw (CLKDIV1_update (\<lambda>_. orig_div)); State_Monad.return (Some code) }
      | None \<Rightarrow> do {
          result \<leftarrow> atc_trim hw fuel (s > 0) (atcv_count (s > 0) bus_clock_freq f);
          (case result of None \<Rightarrow> State_Monad.return None
           | Some code \<Rightarrow> do { wr hw (CLKDIV1_update (\<lambda>_. orig_div)); State_Monad.return (Some code) }) })
      }) ?Q m1" if k: "ka c d v m1" and sp: "mode_of c \<in> {Some M_PEE, Some M_PBE, Some M_FBE}" for m1
  proof (rule wp_bind, rule rdiv [OF k], rule wp_bind, rule rdiv, assumption,
      rule wp_bind, rule div [where w = w, unfolded w_def], assumption, fold w_def, rule wp_bind, rule rbus, assumption, unfold bus)
    fix m2 :: "'h mach" assume k: "ka c d w m2"
    show "wp (if atc_bus out < 8000000 \<or> atc_bus out > 16000000 then do {
        wr hw (CLKDIV1_update (\<lambda>_. v));
        State_Monad.return (Some 3)
      } else (case atc_irc_error (s > 0) f of
        Some code \<Rightarrow> do { wr hw (CLKDIV1_update (\<lambda>_. v)); State_Monad.return (Some code) }
      | None \<Rightarrow> do {
          result \<leftarrow> atc_trim hw fuel (s > 0) (atcv_count (s > 0) (atc_bus out) f);
          (case result of None \<Rightarrow> State_Monad.return None
           | Some code \<Rightarrow> do { wr hw (CLKDIV1_update (\<lambda>_. v)); State_Monad.return (Some code) }) })) ?Q m2"
    proof (rule wp_if)
      assume "\<not> (atc_bus out < 8000000 \<or> atc_bus out > 16000000)"
      then show "wp (case atc_irc_error (s > 0) f of
          Some code \<Rightarrow> do { wr hw (CLKDIV1_update (\<lambda>_. v)); State_Monad.return (Some code) }
        | None \<Rightarrow> do {
            result \<leftarrow> atc_trim hw fuel (s > 0) (atcv_count (s > 0) (atc_bus out) f);
            (case result of None \<Rightarrow> State_Monad.return None
             | Some code \<Rightarrow> do { wr hw (CLKDIV1_update (\<lambda>_. v)); State_Monad.return (Some code) }) }) ?Q m2"
        using sp trimmed [OF k sp] restore [OF k] by (cases "atc_irc_error (s > 0) f") (auto simp: atc_spec_def)
    qed (rule restore [OF k], use sp in \<open>simp add: atc_spec_def\<close>)
  qed
  show ?thesis
    unfolding atc_def
  proof (rule wp_bind, rule wp_mono [OF mode], elim conjE, hypsubst, rule wp_if)
    fix m1 :: "'h mach" assume "ka c d v m1" "mode_code (mode_of c) \<noteq> PEE \<and> mode_code (mode_of c) \<noteq> PBE \<and> mode_code (mode_of c) \<noteq> FBE"
    then show "wp (State_Monad.return (Some 1)) ?Q m1" by (intro wp_return) (auto simp: ka_def atc_spec_def)
  qed (rule rest, auto)
qed





section \<open>All calls\<close>

text \<open>The calls of the driver that write registers.\<close>

datatype mcg_call = Transition mcg_op | Clk_monitor_0 u8 | Fei_fee_rtc int | Fee_fei_rtc int | Atc nat u8 int int

fun call :: "'h hw \<Rightarrow> mcg_call \<Rightarrow> ('h mach, unit) state" where
  "call hw (Transition op) = do { exec hw op; State_Monad.return () }"
| "call hw (Clk_monitor_0 e) = clk_monitor_0 hw e"
| "call hw (Fei_fee_rtc f) = do { fei_fee_rtc hw f; State_Monad.return () }"
| "call hw (Fee_fei_rtc f) = do { fee_fei_rtc hw f; State_Monad.return () }"
| "call hw (Atc fuel s f out) = do { atc hw fuel s f out; State_Monad.return () }"

fun run_calls :: "'h hw \<Rightarrow> mcg_call list \<Rightarrow> ('h mach, unit) state" where
  "run_calls hw [] = State_Monad.return ()"
| "run_calls hw (k # calls) = do { call hw k; run_calls hw calls }"

text \<open>The calls that may leave the clock monitor on in an internal mode.\<close>

fun keeps_monitor :: "mcg_call \<Rightarrow> bool" where
  "keeps_monitor (Clk_monitor_0 e) \<longleftrightarrow> e = 0"
| "keeps_monitor (Fee_fei_rtc f) \<longleftrightarrow> False"
| "keeps_monitor _ \<longleftrightarrow> True"

text \<open>What every call keeps: a mode, and no low power with the FLL or PLL selected; without the calls above also the monitor off in internal modes.\<close>

definition wf_mode :: "bool \<Rightarrow> mcg_ctl \<Rightarrow> bool" where
  "wf_mode b c \<longleftrightarrow> mode_of c \<noteq> None \<and> (CLKS (C1 c) = 0 \<longrightarrow> \<not> LP (C2 c)) \<and> (b \<longrightarrow> CME0 (C6 c) \<longrightarrow> \<not> IREFS (C1 c))"

lemma wf_mode_rejected: "wf_mode b c \<Longrightarrow> wf_mode b (ctl_rejected op c)"
proof -
  have "wf_mode b (osc_set r h er c)" if "wf_mode b c" for r h er using that by (simp add: wf_mode_def) (simp add: osc_set_def)
  then show "wf_mode b c \<Longrightarrow> ?thesis" by (cases op) auto
qed

lemma wf_mode_after: "wf_mode b c \<Longrightarrow> mode_of c = Some (src op) \<Longrightarrow> wf_mode b (ctl_after op c)"
  using ctl_after_mode [of c op] ctl_after_cme [of c op] ctl_after_lp [of c op] by (auto simp: wf_mode_def)

lemma exec_wf:
  assumes hw: "hw_settles hw" and "wf_mode b (ctl m)" "steady m"
  shows "wp (exec hw op) (\<lambda>_ m'. wf_mode b (ctl m') \<and> steady m') m"
proof -
  have kn: "kn (ctl m) (FCRDIV (SC m)) True True True m" using assms(3) by (simp add: kn_steady)
  have md: "mode_of (ctl m) \<noteq> None" and lp: "CLKS (C1 (ctl m)) = 0 \<longrightarrow> \<not> LP (C2 (ctl m))" using assms(2) by (simp_all add: wf_mode_def)
  consider "mode_of (ctl m) \<noteq> Some (src op)" | code where "mode_of (ctl m) = Some (src op)" "arg_error op (ctl m) = Some code"
    | "mode_of (ctl m) = Some (src op)" "arg_error op (ctl m) = None" by blast
  then show ?thesis
  proof cases
    case 1
    then show ?thesis by (rule wp_mono [OF exec_wrong_mode_kn [OF hw kn md]]) (use assms(2) in \<open>auto simp: kn_steady\<close>)
  next
    case 2
    then show ?thesis by (intro wp_mono [OF exec_rejects_kn [OF hw kn]]) (use assms(2) wf_mode_rejected in \<open>auto simp: kn_steady\<close>)
  next
    case 3
    then show ?thesis by (intro wp_mono [OF exec_refines_kn [OF hw kn]]) (use lp assms(2) wf_mode_after in \<open>auto simp: kn_steady\<close>)
  qed
qed

text \<open>The RTC and its clock gate are no concern of the generator.\<close>

lemma kn_wr:
  assumes "hw_settles hw" "kn c d a b e m" "\<And>m1. kn c d a b e m1 \<Longrightarrow> kn c d a b e (g m1)" "\<And>m1. kn c d a b e m1 \<Longrightarrow> Q () m1"
  shows "wp (wr hw g) Q m"
  using assms by (blast intro: wp_wr_settles kn_idle)

lemma kn_poll:
  assumes hw: "hw_settles hw" and "kn c d a b e m" and Q: "\<And>m1. kn c d a b e m1 \<Longrightarrow> Q () m1"
  shows "wp (poll hw p n) Q m"
  using assms(2)
proof (induction n arbitrary: m)
  case (Suc n)
  show ?case unfolding poll.simps
    by (rule wp_bind, rule kn_rd [OF hw Suc.prems], rule wp_if) (auto intro: Suc.IH wp_return Q)
qed (auto intro: wp_return Q)

lemma kn_tce:
  assumes "hw_settles hw" "kn c d a b e m" "\<And>m1. kn c d a b e m1 \<Longrightarrow> Q () m1"
  shows "wp (rtc_set_tce hw x) Q m"
  unfolding rtc_set_tce_def
  by (rule wp_bind, rule kn_rd [OF assms(1,2)], rule kn_wr [OF assms(1)], assumption) (auto simp: kn_def assms(3))

lemma kn_gate:
  assumes "hw_settles hw" "kn c d a b e m" "\<And>m1. kn c d a b e m1 \<Longrightarrow> Q () m1"
  shows "wp (set_rtc_gate hw x) Q m"
  unfolding set_rtc_gate_def
  by (rule wp_bind, rule kn_rd [OF assms(1,2)], rule kn_wr [OF assms(1)], assumption) (auto simp: kn_def assms(3))

lemma kn_count:
  assumes "hw_settles hw" "kn c d a b e m" "\<And>n m1. kn c d a b e m1 \<Longrightarrow> Q n m1"
  shows "wp (rtc_count hw) Q m"
  unfolding rtc_count_def
  by (rule wp_bind, rule kn_rd [OF assms(1,2)], rule wp_bind, rule kn_rd [OF assms(1)], assumption, rule wp_return) (rule assms(3))

lemma kn_when:
  assumes "kn c d a b e m" "\<And>Q. (\<And>m1. kn c d a b e m1 \<Longrightarrow> Q () m1) \<Longrightarrow> wp f Q m" "\<And>m1. kn c d a b e m1 \<Longrightarrow> Q () m1"
  shows "wp (if x then State_Monad.return () else f) Q m" "wp (if x then f else State_Monad.return ()) Q m"
  using assms by (auto intro: wp_return)

lemma kn_osce:
  assumes "hw_settles hw" "kn c d a b e m" "\<And>m1. kn c d a b e m1 \<Longrightarrow> Q () m1"
  shows "wp (do { v \<leftarrow> rd hw RTC; wr hw (RTC_update (OSCE_update (\<lambda>_. True))) }) Q m"
  by (rule wp_bind, rule kn_rd [OF assms(1,2)], rule kn_wr [OF assms(1)], assumption) (auto simp: kn_def assms(3))

lemma kn_restart:
  assumes "hw_settles hw" "kn c d a b e m" "\<And>m1. kn c d a b e m1 \<Longrightarrow> Q () m1"
  shows "wp (do { rtc_set_tce hw False; wr hw (RTC_update (TSR_update (\<lambda>_. 0))); rtc_set_tce hw True }) Q m"
  by (rule wp_bind, rule kn_tce [OF assms(1,2)], rule wp_bind, rule kn_wr [OF assms(1)], assumption, simp add: kn_def,
      rule kn_tce [OF assms(1)]) (auto simp: assms(3))

lemma kn_rtc_running:
  assumes hw: "hw_settles hw" and "kn c d a b e m" and Q: "\<And>x m1. kn c d a b e m1 \<Longrightarrow> Q x m1"
  shows "wp (rtc_running hw) Q m"
  unfolding rtc_running_def
  by (insert assms(2); (rule wp_bind wp_return
      | (rule kn_rd [OF hw], assumption) | (rule kn_count [OF hw], assumption) | (rule kn_poll [OF hw], assumption)
      | (rule kn_when, assumption, (rule kn_gate [OF hw] kn_tce [OF hw] kn_osce [OF hw] kn_restart [OF hw], assumption), blast)
      | (rule Q, assumption))+)

lemma fei_fee_rtc_wf:
  assumes hw: "hw_settles hw" and kn: "kn c d True True True m" and "wf_mode b c"
  shows "wp (fei_fee_rtc hw f) (\<lambda>_ m'. wf_mode b (ctl m') \<and> steady m') m"
proof -
  have md: "mode_of c \<noteq> None" using assms(3) by (simp add: wf_mode_def)
  have keep: "wf_mode b (ctl m1) \<and> steady m1" if "kn c' d True True True m1" "wf_mode b c'" for m1 c' using that by (auto simp: kn_steady)
  let ?o = "OSCSEL_update (\<lambda>_. True) c"
  let ?c = "C1_update (\<lambda>v. v\<lparr>CLKS := 0, FRDIV := 0, IREFS := False\<rparr>) ?o"
  have fee: "wf_mode b ?c" "wf_mode b (CME1_update (\<lambda>_. True) ?c)" "clkst_of ?c = clkst_of c" if "mode_of c = Some M_FEI"
    using that assms(3) by (simp_all add: wf_mode_def mode_iffs clkst_of_def) (simp_all add: mode_of_def)
  show ?thesis
    unfolding fei_fee_rtc_def
  proof (rule wp_bind, rule kn_mode_checks [OF hw kn md, where md = M_FEI], rule wp_if)
    fix m1 :: "'a mach" assume "kn c d True True True m1" "\<not> mode_of c \<noteq> Some M_FEI"
    then have k: "kn c d True True True m1" and fei: "mode_of c = Some M_FEI" by simp_all
    then have c0: "CLKS (C1 c) = 0" "\<not> PLLS (C6 c)" by (simp_all add: mode_iffs)
    show "wp (if f > 40000 \<or> f < 30000 then State_Monad.return 0x24
      else do {
        running \<leftarrow> rtc_running hw;
        if \<not> running then State_Monad.return 0x25
        else do {
          C7_rmw hw (\<lambda>_. True);
          C1_rmw hw (\<lambda>v. v\<lparr>CLKS := 0, FRDIV := 0, IREFS := False\<rparr>);
          wait_for hw (\<lambda>m. \<not> IREFST (S m)) 2000 0x11 (do {
            mcg_out \<leftarrow> fll_freq hw f;
            if mcg_out < 0x5B then State_Monad.return mcg_out else do { C8_rmw hw (\<lambda>_. True); State_Monad.return mcg_out }
          })
        }
      }) (\<lambda>_ m'. wf_mode b (ctl m') \<and> steady m') m1"
      apply (rule wp_if, rule wp_return, rule keep [OF k assms(3)])
      apply (rule wp_bind, rule kn_rtc_running [OF hw k], rule wp_if, rule wp_return, erule keep, rule assms(3))
      apply (rule wp_bind, rule kn_C7_rmw [OF hw], assumption, rule refl)
      apply (rule wp_bind, rule kn_C1_rmw [OF hw], assumption, rule refl)
      apply (rule kn_wait_not_irefst [OF hw], assumption, simp, simp)
      apply (rule wp_bind, rule kn_fll_freq [OF hw], assumption, rule wp_if, rule wp_return, rule keep [of ?c])
        apply (simp add: clkst_of_def c0, rule fee(1) [OF fei])
      apply (rule wp_bind, rule kn_C8_rmw [OF hw], assumption, rule refl, rule wp_return, rule keep [of "CME1_update (\<lambda>_. True) ?c"])
       apply (simp add: clkst_of_def c0, rule fee(2) [OF fei])
      done
  qed (use keep assms(3) in \<open>auto intro: wp_return\<close>)
qed

definition fee_fei_rtc_ctl :: "int \<Rightarrow> mcg_ctl \<Rightarrow> mcg_ctl" where
  "fee_fei_rtc_ctl f c = (if mode_of c = Some M_FEE \<and> 31250 \<le> f \<and> f \<le> 39063 \<and> 0x5B \<le> fll_hz c f
     then OSCSEL_update (\<lambda>_. False) (C1_update (IREFS_update (\<lambda>_. True)) (CME1_update (\<lambda>_. False) c)) else c)"

lemma fee_fei_rtc_kn:
  assumes hw: "hw_settles hw" and kn: "kn c d True True True m" and md: "mode_of c \<noteq> None"
  shows "wp (fee_fei_rtc hw f) (\<lambda>_ m'. ctl m' = fee_fei_rtc_ctl f c \<and> steady m') m"
  unfolding fee_fei_rtc_def
proof (rule wp_bind, rule kn_mode_checks [OF hw kn md, where md = M_FEE], rule wp_if)
  let ?Q = "\<lambda>_ m'. ctl m' = fee_fei_rtc_ctl f c \<and> steady m'"
  have keep: "?Q r m1" if "kn c' d True True True m1" "c' = fee_fei_rtc_ctl f c" for r :: int and m1 :: "'a mach" and c' using that by (auto simp: kn_steady)
  fix m1 :: "'a mach" assume "kn c d True True True m1" "\<not> mode_of c \<noteq> Some M_FEE"
  then have k: "kn c d True True True m1" and fee: "mode_of c = Some M_FEE" by simp_all
  then have c0: "CLKS (C1 c) = 0" "\<not> PLLS (C6 c)" by (simp_all add: mode_iffs)
  have res: "OSCSEL_update (\<lambda>_. False) (C1_update (IREFS_update (\<lambda>_. True)) (CME1_update (\<lambda>_. False) c)) = fee_fei_rtc_ctl f c"
    if "\<not> (f < 31250 \<or> f > 39063)" "\<not> fll_hz c f < 0x5B" using that fee by (simp add: fee_fei_rtc_ctl_def)
  show "wp (if f < 31250 \<or> f > 39063 then State_Monad.return 0x31
      else do {
        mcg_out \<leftarrow> fll_freq hw f;
        if mcg_out < 0x5B then State_Monad.return mcg_out
        else do {
          C8_rmw hw (\<lambda>_. False);
          C1_rmw hw (IREFS_update (\<lambda>_. True));
          wait_for hw (\<lambda>m. IREFST (S m)) 2000 0x12 (do { C7_rmw hw (\<lambda>_. False); State_Monad.return mcg_out })
        }
      }) ?Q m1"
    apply (rule wp_if, rule wp_return, rule keep [OF k], (auto simp: fee_fei_rtc_ctl_def)[1])
    apply (rule wp_bind, rule kn_fll_freq [OF hw k], rule wp_if, rule wp_return, erule keep, (auto simp: fee_fei_rtc_ctl_def)[1])
    apply (rule wp_bind, rule kn_C8_rmw [OF hw], assumption, rule refl)
    apply (rule wp_bind, rule kn_C1_rmw [OF hw], assumption, rule refl)
    apply (rule kn_wait_irefst [OF hw], assumption, simp, simp)
    apply (rule wp_bind, rule kn_C7_rmw [OF hw], assumption, rule refl, rule wp_return,
        rule keep [of "OSCSEL_update (\<lambda>_. False) (C1_update (IREFS_update (\<lambda>_. True)) (CME1_update (\<lambda>_. False) c))"])
     apply (simp add: clkst_of_def c0)
    apply (rule res, assumption, assumption)
    done
qed (use assms(3) in \<open>auto simp: kn_steady fee_fei_rtc_ctl_def intro!: wp_return\<close>)

lemma fee_fei_rtc_wf:
  assumes "hw_settles hw" "kn c d True True True m" "wf_mode False c"
  shows "wp (fee_fei_rtc hw f) (\<lambda>_ m'. wf_mode False (ctl m') \<and> steady m') m"
proof -
  have "wf_mode False (fee_fei_rtc_ctl f c)" using assms(3) by (simp add: fee_fei_rtc_ctl_def wf_mode_def mode_iffs) (auto simp: mode_of_def)
  then show ?thesis using fee_fei_rtc_kn [OF assms(1,2)] assms(3) by (intro wp_mono [OF fee_fei_rtc_kn [OF assms(1,2)]]) (auto simp: wf_mode_def)
qed

lemma clk_monitor_wf:
  assumes hw: "hw_settles hw" and kn: "kn c d True True True m" and "wf_mode b c" "b \<Longrightarrow> e = 0"
  shows "wp (clk_monitor_0 hw e) (\<lambda>_ m'. wf_mode b (ctl m') \<and> steady m') m"
  unfolding clk_monitor_0_def
proof (rule kn_C6_rmw [OF hw kn refl])
  let ?c = "C6_update (CME0_update (\<lambda>_. e \<noteq> 0)) c"
  have same: "mode_of ?c = mode_of c" "clkst_of ?c = clkst_of c" by (simp_all add: mode_of_def clkst_of_def)
  fix m1 :: "'a mach"
  assume "kn ?c d (True \<and> clkst_of ?c = clkst_of c) (True \<and> IREFS (C1 ?c) = IREFS (C1 c)) (True \<and> PLLS (C6 ?c) = PLLS (C6 c)) m1"
  then show "wf_mode b (ctl m1) \<and> steady m1" using assms(3,4) same by (auto simp: kn_steady wf_mode_def)
qed

lemma call_wf:
  fixes m :: "'h mach"
  assumes hw: "hw_settles hw" and wf: "wf_mode b (ctl m)" and st: "steady m" and "b \<Longrightarrow> keeps_monitor k"
  shows "wp (call hw k) (\<lambda>_ m'. wf_mode b (ctl m') \<and> steady m') m"
proof -
  have kn: "kn (ctl m) (FCRDIV (SC m)) True True True m" using st by (simp add: kn_steady)
  have weak: "wf_mode False (ctl m)" using wf by (simp add: wf_mode_def)
  have fin: "wp c (\<lambda>_ m'. wf_mode b (ctl m') \<and> steady m') m \<Longrightarrow> wp (do { c; State_Monad.return () }) (\<lambda>_ m'. wf_mode b (ctl m') \<and> steady m') m"
    for c :: "('h mach, int) state" by (rule wp_bind, erule wp_mono, rule wp_return)
  have fin': "wp c (\<lambda>_ m'. wf_mode b (ctl m') \<and> steady m') m \<Longrightarrow> wp (do { c; State_Monad.return () }) (\<lambda>_ m'. wf_mode b (ctl m') \<and> steady m') m"
    for c :: "('h mach, u8 option) state" by (rule wp_bind, erule wp_mono, rule wp_return)
  show ?thesis
  proof (cases k)
    case (Transition op)
    then show ?thesis using exec_wf [OF hw wf st] by (simp add: fin)
  next
    case (Clk_monitor_0 e)
    then show ?thesis using clk_monitor_wf [OF hw kn wf] assms(4) by simp
  next
    case (Fei_fee_rtc f)
    then show ?thesis using fei_fee_rtc_wf [OF hw kn wf] by (simp add: fin)
  next
    case (Fee_fei_rtc f)
    then have "\<not> b" using assms(4) by auto
    then show ?thesis using Fee_fei_rtc fee_fei_rtc_wf [OF hw kn weak] fin by simp
  next
    case (Atc fuel s f out)
    have "ka (ctl m) (FCRDIV (SC m)) (CLKDIV1 m) m" "mode_of (ctl m) \<noteq> None" using kn wf by (simp_all add: ka_def wf_mode_def)
    from wp_mono [OF atc_wp [OF hw this]] show ?thesis using Atc wf by (auto simp: kn_steady intro!: fin')
  qed
qed

lemma run_calls_wf:
  fixes m :: "'h mach"
  assumes hw: "hw_settles hw"
  shows "wf_mode b (ctl m) \<Longrightarrow> steady m \<Longrightarrow> (b \<Longrightarrow> \<forall>k\<in>set calls. keeps_monitor k) \<Longrightarrow>
    wp (run_calls hw calls) (\<lambda>_ m'. wf_mode b (ctl m') \<and> steady m') m"
proof (induction calls arbitrary: m)
  case (Cons k calls)
  show ?case unfolding run_calls.simps
    by (rule wp_bind, rule wp_mono [OF call_wf [OF hw Cons.prems(1,2), of k]]) (use Cons in auto)
qed (simp add: wp_return)

text \<open>
  C3: Whatever sequence of calls of the driver (all that write registers: the transition functions, those of the RTC reference, the
  clock monitor and auto-trim) is made on settling hardware from a well-formed steady state, with whatever arguments and with return codes ignored, the
  generator is afterwards in one of its eight modes (\<^verbatim>\<open>what_mcg_mode\<close> never reports 0). If the sequence has neither a call that
  switches the clock monitor on nor one of \<^verbatim>\<open>fee_fei_rtc\<close>, which does not switch it off, the
  monitor is not enabled in the internal-clock modes FEI, FBI and BLPI.
\<close>

theorem mcg_always_in_a_mode:
  fixes m :: "'h mach"
  assumes "hw_settles hw" "wf_ctl (ctl m)" "steady m"
    and "run_state (do { run_calls hw calls; what_mcg_mode hw }) m = (md, m')"
  shows "md \<noteq> 0 \<and> ((\<forall>k\<in>set calls. keeps_monitor k) \<longrightarrow> CME0 (C6 (ctl m')) \<longrightarrow> md \<noteq> FEI \<and> md \<noteq> FBI \<and> md \<noteq> BLPI)"
proof -
  let ?b = "\<forall>k\<in>set calls. keeps_monitor k"
  have wf: "wf_mode ?b (ctl m)" using assms(2) by (simp add: wf_ctl_def wf_mode_def)
  have "wp (do { run_calls hw calls; what_mcg_mode hw }) (\<lambda>md m'. md = mode_code (mode_of (ctl m')) \<and> wf_mode ?b (ctl m')) m"
  proof (rule wp_bind, rule wp_mono [OF run_calls_wf [OF assms(1) wf assms(3)]])
    fix m1 :: "'h mach" assume m1: "wf_mode ?b (ctl m1) \<and> steady m1"
    show "wp (what_mcg_mode hw) (\<lambda>md m'. md = mode_code (mode_of (ctl m')) \<and> wf_mode ?b (ctl m')) m1"
      by (rule wp_mono [OF what_mode_spec [OF assms(1)]]) (use m1 in \<open>auto simp: wf_mode_def\<close>)
  qed
  from wp_runD [OF this assms(4)] have md: "md = mode_code (mode_of (ctl m'))" and w: "wf_mode ?b (ctl m')" by auto
  then obtain mode where mode: "mode_of (ctl m') = Some mode" by (auto simp: wf_mode_def)
  then have md': "md = mode_code (Some mode)" using md by simp
  have "?b \<longrightarrow> CME0 (C6 (ctl m')) \<longrightarrow> \<not> IREFS (C1 (ctl m'))" using w by (simp add: wf_mode_def)
  then show ?thesis using mode md' by (cases mode) (simp_all add: mode_iffs)
qed

theorem mcg_always_in_a_mode_witness:
  "fst (run_state (do { run_calls prompt_hw [Clk_monitor_0 1, Transition (Pee_pbe 7), Fee_fei_rtc 32768]; what_mcg_mode prompt_hw }) (mach_of reset_ctl)) \<noteq> 0"
proof -
  obtain md m' where run: "run_state (do { run_calls prompt_hw [Clk_monitor_0 1, Transition (Pee_pbe 7), Fee_fei_rtc 32768]; what_mcg_mode prompt_hw })
    (mach_of reset_ctl) = (md, m')" by fastforce
  then show ?thesis using mcg_always_in_a_mode [OF prompt_hw_settles _ _ run] by simp
qed

text \<open>
  In FEE with the monitor on, \<^verbatim>\<open>fee_fei_rtc\<close> ends in FEI with the monitor still on, where \<^verbatim>\<open>fee_fei\<close> switches it off.
\<close>

lemma fee_fei_rtc_leaves_monitor:
  assumes "hw_settles hw" "steady m" "mode_of (ctl m) = Some M_FEE" "CME0 (C6 (ctl m))" "31250 \<le> f" "f \<le> 39063" "0x5B \<le> fll_hz (ctl m) f"
    and "run_state (fee_fei_rtc hw f) m = (r, m')"
  shows "mode_of (ctl m') = Some M_FEI \<and> CME0 (C6 (ctl m'))"
proof -
  have "kn (ctl m) (FCRDIV (SC m)) True True True m" using assms(2) by (simp add: kn_steady)
  from wp_runD [OF fee_fei_rtc_kn [OF assms(1) this] assms(8)] assms(3-7) show ?thesis
    by (simp add: fee_fei_rtc_ctl_def mode_iffs)
qed

end
