(* ===== verification/Pbuf.thy ===== *)
theory Pbuf
  imports Prelude
begin

text \<open>
  Packet buffers, \<^verbatim>\<open>lwip/src/core/pbuf.c\<close>. A chain of \<^verbatim>\<open>struct pbuf\<close> is a list, \<^verbatim>\<open>NULL\<close> the
  empty list; a pbuf holds its payload bytes (\<^verbatim>\<open>len\<close> is their number), the bytes of its memory in
  front of the payload pointer, and the fields of the struct at their C widths. The bytes of a chain
  (\<open>bytes\<close>) are its abstract value, and every operation is shown to do on them what its
  comment promises.
\<close>

section \<open>Data\<close>

datatype err = ERR_OK | ERR_MEM | ERR_BUF | ERR_TIMEOUT | ERR_RTE | ERR_INPROGRESS | ERR_VAL
  | ERR_WOULDBLOCK | ERR_USE | ERR_ALREADY | ERR_ISCONN | ERR_CONN | ERR_IF | ERR_ABRT | ERR_RST
  | ERR_CLSD | ERR_ARG

datatype pbuf_type = PBUF_RAM | PBUF_ROM | PBUF_REF | PBUF_POOL

datatype pbuf_layer = PBUF_TRANSPORT | PBUF_IP | PBUF_LINK | PBUF_RAW_TX | PBUF_RAW

record pbuf =
  front :: "u8 list"
  payload :: "u8 list"
  tot_len :: u16
  ptype :: pbuf_type
  pflags :: u8
  ref :: u16

type_synonym chain = "pbuf list"

definition len :: "pbuf \<Rightarrow> u16" where
  "len p = word_of_nat (length (payload p))"

definition bytes :: "chain \<Rightarrow> u8 list" where
  "bytes ps = concat (map payload ps)"

text \<open>
  The invariant of a chain: \<^verbatim>\<open>p->tot_len == p->len + (p->next ? p->next->tot_len : 0)\<close>,
  without wrap-around.
\<close>

fun wf_chain :: "chain \<Rightarrow> bool" where
  "wf_chain [] \<longleftrightarrow> True"
| "wf_chain (p # ps) \<longleftrightarrow> unat (tot_len p) = length (payload p) + length (bytes ps) \<and> wf_chain ps"

section \<open>Reading\<close>

fun copy_partial_loop :: "chain \<Rightarrow> u8 list \<Rightarrow> u16 \<Rightarrow> u16 \<Rightarrow> u16 \<Rightarrow> u16 \<Rightarrow> u16 \<times> u8 list" where
  "copy_partial_loop [] dataptr n offset left copied_total = (copied_total, dataptr)"
| "copy_partial_loop (p # ps) dataptr n offset left copied_total =
    (if n = 0 then (copied_total, dataptr)
     else if offset \<noteq> 0 \<and> offset \<ge> len p
     then copy_partial_loop ps dataptr n (offset - len p) left copied_total
     else let
         buf_copy_len = (if len p - offset > n then n else len p - offset);
         dataptr' = overwrite (unat left)
           (take (unat buf_copy_len) (drop (unat offset) (payload p))) dataptr
       in copy_partial_loop ps dataptr' (n - buf_copy_len) 0 (left + buf_copy_len)
            (copied_total + buf_copy_len))"

definition pbuf_copy_partial :: "chain \<Rightarrow> u8 list \<Rightarrow> u16 \<Rightarrow> u16 \<Rightarrow> u16 \<times> u8 list" where
  "pbuf_copy_partial buf dataptr n offset =
    (if buf = [] then (0, dataptr) else copy_partial_loop buf dataptr n offset 0 0)"

fun pbuf_skip_const :: "chain \<Rightarrow> u16 \<Rightarrow> chain \<times> u16" where
  "pbuf_skip_const [] offset_left = ([], offset_left)"
| "pbuf_skip_const (q # qs) offset_left =
    (if len q \<le> offset_left then pbuf_skip_const qs (offset_left - len q) else (q # qs, offset_left))"

definition pbuf_try_get_at :: "chain \<Rightarrow> u16 \<Rightarrow> int" where
  "pbuf_try_get_at p offset = (case pbuf_skip_const p offset of
     ([], q_idx) \<Rightarrow> - 1
   | (q # qs, q_idx) \<Rightarrow> if len q > q_idx then uint (payload q ! unat q_idx) else - 1)"

definition pbuf_get_at :: "chain \<Rightarrow> u16 \<Rightarrow> u8" where
  "pbuf_get_at p offset = (let r = pbuf_try_get_at p offset in if r \<ge> 0 then word_of_int r else 0)"

text \<open>The comparison loop of \<^verbatim>\<open>pbuf_memcmp\<close>, over the remaining bytes of \<^verbatim>\<open>s2\<close>.\<close>

fun memcmp_loop :: "chain \<Rightarrow> u16 \<Rightarrow> u8 list \<Rightarrow> u16 \<Rightarrow> u16" where
  "memcmp_loop q start [] i = 0"
| "memcmp_loop q start (b # s2) i =
    (if pbuf_get_at q (start + i) \<noteq> b then i + 1 else memcmp_loop q start s2 (i + 1))"

definition pbuf_memcmp :: "chain \<Rightarrow> u16 \<Rightarrow> u8 list \<Rightarrow> u16 \<Rightarrow> u16" where
  "pbuf_memcmp p offset s2 n =
    (if unat (tot_len (hd p)) < unat offset + unat n then 0xffff
     else case pbuf_skip_const p offset of (q, start) \<Rightarrow> memcmp_loop q start (take (unat n) s2) 0)"

text \<open>The search loop; a \<^verbatim>\<open>u16_t\<close> index that wraps would never leave it, so not returning is \<open>None\<close>.\<close>

partial_function (option) memfind_loop :: "chain \<Rightarrow> u8 list \<Rightarrow> u16 \<Rightarrow> u16 \<Rightarrow> u16 \<Rightarrow> u16 option" where
  "memfind_loop p mem mem_len maxi i =
    (if i \<le> maxi
     then if pbuf_memcmp p i mem mem_len = 0 then Some i else memfind_loop p mem mem_len maxi (i + 1)
     else Some 0xFFFF)"

definition pbuf_memfind :: "chain \<Rightarrow> u8 list \<Rightarrow> u16 \<Rightarrow> u16 \<Rightarrow> u16 option" where
  "pbuf_memfind p mem mem_len start_offset =
    (let maxi = tot_len (hd p) - mem_len in
     if unat (tot_len (hd p)) \<ge> unat mem_len + unat start_offset
     then memfind_loop p mem mem_len maxi start_offset else Some 0xFFFF)"

text \<open>\<^verbatim>\<open>substr\<close> is the string without its terminating zero.\<close>

definition pbuf_strstr :: "chain \<Rightarrow> u8 list \<Rightarrow> u16 option" where
  "pbuf_strstr p substr =
    (if substr = [] \<or> tot_len (hd p) = 0xFFFF then Some 0xFFFF
     else if length substr \<ge> 0xFFFF then Some 0xFFFF
     else pbuf_memfind p substr (word_of_nat (length substr)) 0)"

text \<open>The counter is 16 bits wide.\<close>

fun pbuf_clen :: "chain \<Rightarrow> u16" where
  "pbuf_clen [] = 0"
| "pbuf_clen (p # ps) = 1 + pbuf_clen ps"

section \<open>Writing\<close>

text \<open>
  \<open>None\<close> stands for following \<^verbatim>\<open>p->next\<close> off the end of the chain. The chain with a part \<open>q\<close> replaced
  that \<^verbatim>\<open>pbuf_skip\<close> has pointed to is \<open>with_tail\<close>.
\<close>

fun take_loop :: "chain \<Rightarrow> u8 list \<Rightarrow> u16 \<Rightarrow> u16 \<Rightarrow> chain option" where
  "take_loop [] dataptr total_copy_len copied_total = (if total_copy_len = 0 then Some [] else None)"
| "take_loop (p # ps) dataptr total_copy_len copied_total =
    (if total_copy_len = 0 then Some (p # ps)
     else let
         buf_copy_len = (if total_copy_len > len p then len p else total_copy_len);
         p' = p\<lparr>payload := overwrite 0 (take (unat buf_copy_len) (drop (unat copied_total) dataptr))
           (payload p)\<rparr>
       in map_option (Cons p') (take_loop ps dataptr (total_copy_len - buf_copy_len)
            (copied_total + buf_copy_len)))"

definition pbuf_take :: "chain \<Rightarrow> u8 list \<Rightarrow> u16 \<Rightarrow> (err \<times> chain) option" where
  "pbuf_take buf dataptr n =
    (if buf = [] then Some (ERR_ARG, buf)
     else if tot_len (hd buf) < n then Some (ERR_MEM, buf)
     else map_option (Pair ERR_OK) (take_loop buf dataptr n 0))"

definition with_tail :: "chain \<Rightarrow> chain \<Rightarrow> chain \<Rightarrow> chain" where
  "with_tail ps q q' = take (length ps - length q) ps @ q'"

definition pbuf_take_at :: "chain \<Rightarrow> u8 list \<Rightarrow> u16 \<Rightarrow> u16 \<Rightarrow> (err \<times> chain) option" where
  "pbuf_take_at buf dataptr n offset = (case pbuf_skip_const buf offset of
     ([], target_offset) \<Rightarrow> Some (ERR_MEM, buf)
   | (q # qs, target_offset) \<Rightarrow>
       if unat (tot_len q) \<ge> unat target_offset + unat n
       then let
           first_copy_len = (if len q - target_offset < n then len q - target_offset else n);
           q' = q\<lparr>payload := overwrite (unat target_offset) (take (unat first_copy_len) dataptr) (payload q)\<rparr>;
           remaining_len = n - first_copy_len
         in if remaining_len > 0
            then map_option (\<lambda>(e, qs'). (e, with_tail buf (q # qs) (q' # qs')))
              (pbuf_take qs (drop (unat first_copy_len) dataptr) remaining_len)
            else Some (ERR_OK, with_tail buf (q # qs) (q' # qs))
       else Some (ERR_MEM, buf))"

definition pbuf_put_at :: "chain \<Rightarrow> u16 \<Rightarrow> u8 \<Rightarrow> chain" where
  "pbuf_put_at p offset data = (case pbuf_skip_const p offset of
     ([], q_idx) \<Rightarrow> p
   | (q # qs, q_idx) \<Rightarrow>
       if len q > q_idx then with_tail p (q # qs) (q\<lparr>payload := (payload q)[unat q_idx := data]\<rparr> # qs) else p)"

section \<open>Chains and their bytes\<close>

definition small :: "chain \<Rightarrow> bool" where
  "small ps \<longleftrightarrow> (\<forall>p\<in>set ps. length (payload p) < 65536)"

lemma small_simps [simp]: "small []" "small (p # ps) \<longleftrightarrow> length (payload p) < 65536 \<and> small ps"
  by (auto simp: small_def)

lemma bytes_simps [simp]:
  "bytes [] = []" "bytes (p # ps) = payload p @ bytes ps" "bytes (ps @ qs) = bytes ps @ bytes qs"
  by (simp_all add: bytes_def)

lemma unat_len: "length (payload p) < 65536 \<Longrightarrow> unat (len p) = length (payload p)"
  by (simp add: len_def unat_of_nat_u16)

lemma wf_small: "wf_chain ps \<Longrightarrow> small ps"
proof (induction ps)
  case (Cons p ps)
  then show ?case using unat_u16_bound [of "tot_len p"] by simp
qed simp

lemma wf_tot_len: "wf_chain ps \<Longrightarrow> ps \<noteq> [] \<Longrightarrow> unat (tot_len (hd ps)) = length (bytes ps)"
  by (cases ps) auto

lemma wf_bytes_bound: "wf_chain ps \<Longrightarrow> length (bytes ps) < 65536"
  using unat_u16_bound [of "tot_len (hd ps)"] wf_tot_len [of ps] by (cases ps) auto

lemma wf_append_right: "wf_chain (ps @ qs) \<Longrightarrow> wf_chain qs"
  by (induction ps) auto

section \<open>Reading does what it says\<close>

lemma copy_partial_loop_spec:
  assumes "small ps" "unat left + unat n < 65536" "unat left + unat n \<le> length dst"
  shows "copy_partial_loop ps dst n offset left copied =
    (let d = take (unat n) (drop (unat offset) (bytes ps)) in
     (copied + word_of_nat (length d), overwrite (unat left) d dst))"
  using assms
proof (induction ps arbitrary: dst n offset left copied)
  case Nil
  then show ?case by simp
next
  case (Cons p ps)
  let ?k = "length (payload p)"
  have k: "unat (len p) = ?k" using Cons.prems by (simp add: unat_len)
  consider (none) "n = 0" | (skip) "n \<noteq> 0" "offset \<noteq> 0" "len p \<le> offset"
    | (copy) "n \<noteq> 0" "offset = 0 \<or> \<not> len p \<le> offset"
    by blast
  then show ?case
  proof cases
    case none
    then show ?thesis by simp
  next
    case skip
    then have "unat (offset - len p) = unat offset - ?k" "?k \<le> unat offset"
      using k by (simp_all add: unat_minus word_le_nat_alt)
    then show ?thesis using skip Cons by simp
  next
    case copy
    then have off: "unat offset \<le> ?k" using k by (auto simp: word_le_nat_alt)
    define m where "m = (if len p - offset > n then n else len p - offset)"
    define d where "d = take (unat m) (drop (unat offset) (payload p))"
    define e where "e = take (unat n - unat m) (bytes ps)"
    have lo: "unat (len p - offset) = ?k - unat offset"
      using off k by (simp add: unat_minus word_le_nat_alt)
    have m: "unat m = min (unat n) (?k - unat offset)"
      using lo by (simp add: m_def word_less_nat_alt)
    have d: "length d = unat m" using m by (simp add: d_def)
    have dst: "length (overwrite (unat left) d dst) = length dst"
      using Cons.prems(3) d m by (intro length_overwrite) simp
    have rest: "unat (n - m) = unat n - unat m" "unat (left + m) = unat left + unat m"
      using m Cons.prems(2) by (simp_all add: unat_minus unat_plus word_le_nat_alt)
    have "copy_partial_loop (p # ps) dst n offset left copied =
        copy_partial_loop ps (overwrite (unat left) d dst) (n - m) 0 (left + m) (copied + m)"
      using copy by (auto simp: m_def d_def Let_def)
    also have "\<dots> = (copied + m + word_of_nat (length e), overwrite (unat left + unat m) e (overwrite (unat left) d dst))"
      using Cons.prems m rest dst unfolding e_def by (subst Cons.IH) (auto simp: Let_def)
    also have "\<dots> = (copied + word_of_nat (length (d @ e)), overwrite (unat left) (d @ e) dst)"
    proof -
      have "length e \<le> unat n - unat m" "unat m \<le> unat n" by (simp_all add: e_def m)
      then have "unat left + length d + length e \<le> length dst" using Cons.prems(3) d by linarith
      from overwrite_append [OF this] show ?thesis using d by simp
    qed
    also have "d @ e = take (unat n) (drop (unat offset) (bytes (p # ps)))"
      using off by (auto simp: d_def e_def m min_def)
    finally show ?thesis by (simp only: Let_def)
  qed
qed


lemma pbuf_copy_partial_spec:
  assumes "wf_chain ps" "unat n \<le> length dst"
  shows "pbuf_copy_partial ps dst n offset =
    (let d = take (unat n) (drop (unat offset) (bytes ps)) in
     (word_of_nat (length d), overwrite 0 d dst))"
proof (cases "ps = []")
  case False
  have "small ps" using assms(1) by (rule wf_small)
  from copy_partial_loop_spec [OF this, of 0 n dst offset 0] show ?thesis
    using False assms(2) unat_u16_bound [of n] by (simp add: pbuf_copy_partial_def)
qed (simp add: pbuf_copy_partial_def)

lemma pbuf_skip_spec:
  assumes "wf_chain ps" "pbuf_skip_const ps offset = (q, start)"
  shows "\<exists>pre. ps = pre @ q \<and> unat offset = length (bytes pre) + unat start \<and>
    (q \<noteq> [] \<longrightarrow> unat start < length (payload (hd q)))"
  using assms
proof (induction ps arbitrary: offset)
  case Nil
  then show ?case by simp
next
  case (Cons p ps)
  have k: "unat (len p) = length (payload p)" using Cons.prems wf_small [of "p # ps"] by (simp add: unat_len)
  show ?case
  proof (cases "len p \<le> offset")
    case True
    with Cons.prems obtain pre where "ps = pre @ q" "unat (offset - len p) = length (bytes pre) + unat start"
      "q \<noteq> [] \<longrightarrow> unat start < length (payload (hd q))"
      using Cons.IH [of "offset - len p"] by auto
    then show ?thesis using True k
      by (intro exI [of _ "p # pre"]) (auto simp: unat_minus word_le_nat_alt)
  next
    case False
    then show ?thesis using Cons.prems k by (intro exI [of _ "[]"]) (auto simp: word_le_nat_alt)
  qed
qed

lemma pbuf_skip_end:
  assumes "wf_chain ps" "pbuf_skip_const ps offset = (q, start)"
  shows "q = [] \<longleftrightarrow> length (bytes ps) \<le> unat offset"
proof -
  obtain pre where "ps = pre @ q" "unat offset = length (bytes pre) + unat start"
    "q \<noteq> [] \<longrightarrow> unat start < length (payload (hd q))"
    using pbuf_skip_spec [OF assms] by blast
  then show ?thesis by (cases q) auto
qed

lemma pbuf_try_get_at_spec:
  assumes "wf_chain ps"
  shows "pbuf_try_get_at ps offset =
    (if unat offset < length (bytes ps) then uint (bytes ps ! unat offset) else - 1)"
proof -
  obtain q start where sk: "pbuf_skip_const ps offset = (q, start)" by fastforce
  obtain pre where pre: "ps = pre @ q" "unat offset = length (bytes pre) + unat start"
    "q \<noteq> [] \<longrightarrow> unat start < length (payload (hd q))"
    using pbuf_skip_spec [OF assms sk] by blast
  show ?thesis
  proof (cases q)
    case Nil
    then show ?thesis using sk pre pbuf_skip_end [OF assms sk] by (simp add: pbuf_try_get_at_def)
  next
    case (Cons p rest)
    have "wf_chain q" using assms pre(1) wf_append_right by blast
    then have "unat (len p) = length (payload p)" using Cons wf_small [of q] by (simp add: unat_len)
    then show ?thesis using Cons sk pre
      by (auto simp: pbuf_try_get_at_def word_less_nat_alt nth_append)
  qed
qed

lemma pbuf_get_at_spec:
  assumes "wf_chain ps"
  shows "pbuf_get_at ps offset = (if unat offset < length (bytes ps) then bytes ps ! unat offset else 0)"
  using uint_ge_0 [of "bytes ps ! unat offset"]
  by (auto simp: pbuf_get_at_def pbuf_try_get_at_spec [OF assms] Let_def)

section \<open>Searching\<close>

text \<open>The position \<open>j\<close> of \<open>xs\<close> holds the pattern \<open>mem\<close>.\<close>

definition occurs_at :: "'a list \<Rightarrow> nat \<Rightarrow> 'a list \<Rightarrow> bool" where
  "occurs_at mem j xs \<longleftrightarrow> j + length mem \<le> length xs \<and> take (length mem) (drop j xs) = mem"

text \<open>The first hit at or after \<open>i\<close> and up to \<open>lim\<close>, or \<^verbatim>\<open>0xFFFF\<close>.\<close>

definition first_hit :: "'a list \<Rightarrow> nat \<Rightarrow> nat \<Rightarrow> 'a list \<Rightarrow> nat \<Rightarrow> bool" where
  "first_hit mem i lim xs r \<longleftrightarrow>
    (if \<exists>j\<in>{i..lim}. occurs_at mem j xs
     then i \<le> r \<and> r \<le> lim \<and> occurs_at mem r xs \<and> (\<forall>j\<in>{i..<r}. \<not> occurs_at mem j xs)
     else r = 0xFFFF)"

lemma first_hit_step:
  assumes "i \<le> lim" "\<not> occurs_at mem i xs" "first_hit mem (Suc i) lim xs r"
  shows "first_hit mem i lim xs r"
proof -
  have ex: "(\<exists>j\<in>{i..lim}. occurs_at mem j xs) \<longleftrightarrow> (\<exists>j\<in>{Suc i..lim}. occurs_at mem j xs)"
  proof
    assume "\<exists>j\<in>{i..lim}. occurs_at mem j xs"
    then obtain j where j: "i \<le> j" "j \<le> lim" "occurs_at mem j xs" by auto
    then have "j \<noteq> i" using assms(2) by blast
    then show "\<exists>j\<in>{Suc i..lim}. occurs_at mem j xs" using j by (intro bexI [of _ j]) auto
  qed auto
  show ?thesis
  proof (cases "\<exists>j\<in>{Suc i..lim}. occurs_at mem j xs")
    case True
    then have hit: "Suc i \<le> r" "r \<le> lim" "occurs_at mem r xs" and no: "\<forall>j\<in>{Suc i..<r}. \<not> occurs_at mem j xs"
      using assms(3) unfolding first_hit_def if_P [OF True] by blast+
    have "\<not> occurs_at mem j xs" if "j \<in> {i..<r}" for j
      using that no assms(2) by (cases "j = i") simp_all
    with hit show ?thesis using True ex unfolding first_hit_def by (simp del: atLeastAtMost_iff)
  next
    case False
    then show ?thesis using assms(3) ex unfolding first_hit_def by (simp del: atLeastAtMost_iff)
  qed
qed

text \<open>
  What the search loop relies on: a comparison that decides whether the pattern stands at a position.
  The loop is then shown to end, with the first position that holds the pattern.
\<close>

locale searchable =
  fixes ok :: "'b \<Rightarrow> bool" and bytes_of :: "'b \<Rightarrow> u8 list"
    and cmp :: "'b \<Rightarrow> u16 \<Rightarrow> u8 list \<Rightarrow> u16 \<Rightarrow> u16"
    and loop :: "'b \<Rightarrow> u8 list \<Rightarrow> u16 \<Rightarrow> u16 \<Rightarrow> u16 \<Rightarrow> u16 option"
  assumes size: "ok b \<Longrightarrow> length (bytes_of b) < 65536"
    and cmp_zero: "ok b \<Longrightarrow> length mem = unat n \<Longrightarrow> unat i + unat n \<le> length (bytes_of b) \<Longrightarrow>
      cmp b i mem n = 0 \<longleftrightarrow> occurs_at mem (unat i) (bytes_of b)"
    and loop_unfold: "loop b mem n lim i =
      (if i \<le> lim then if cmp b i mem n = 0 then Some i else loop b mem n lim (i + 1) else Some 0xFFFF)"
begin

lemma loop_first:
  assumes "ok b" "length mem = unat n" "unat lim + unat n \<le> length (bytes_of b)"
  shows "\<exists>r. loop b mem n lim i = Some r \<and> first_hit mem (unat i) (unat lim) (bytes_of b) (unat r)"
proof (induction "unat lim + 1 - unat i" arbitrary: i rule: less_induct)
  case less
  show ?case
  proof (cases "i \<le> lim")
    case False
    then show ?thesis by (auto simp: loop_unfold [of b mem n lim i] word_le_nat_alt first_hit_def)
  next
    case True
    then have le: "unat i \<le> unat lim" by (simp add: word_le_nat_alt)
    have cmp: "cmp b i mem n = 0 \<longleftrightarrow> occurs_at mem (unat i) (bytes_of b)"
      using assms le by (intro cmp_zero) auto
    show ?thesis
    proof (cases "occurs_at mem (unat i) (bytes_of b)")
      case True
      then show ?thesis using le cmp \<open>i \<le> lim\<close> by (auto simp: loop_unfold [of b mem n lim i] first_hit_def)
    next
      case False
      have "unat i \<noteq> 65535"
      proof
        assume "unat i = 65535"
        then have "length mem = 0" "65535 \<le> length (bytes_of b)" using assms size [OF assms(1)] le by auto
        with \<open>unat i = 65535\<close> False show False by (simp add: occurs_at_def)
      qed
      then have i1: "unat (i + 1) = unat i + 1" using unat_u16_bound [of i] by (subst unat_plus) auto
      have "loop b mem n lim i = loop b mem n lim (i + 1)"
        using cmp False \<open>i \<le> lim\<close> by (subst loop_unfold) simp
      moreover have "unat lim + 1 - unat (i + 1) < unat lim + 1 - unat i" using i1 le by simp
      from less [OF this] obtain r where "loop b mem n lim (i + 1) = Some r"
        "first_hit mem (Suc (unat i)) (unat lim) (bytes_of b) (unat r)"
        using i1 by auto
      ultimately show ?thesis using first_hit_step [OF le False] by auto
    qed
  qed
qed

end


lemma memcmp_loop_spec:
  assumes "wf_chain q" "unat start + unat i + length s2 \<le> length (bytes q)" "unat i + length s2 < 65536"
    and "memcmp_loop q start s2 i = r"
  shows "(r = 0 \<longleftrightarrow> take (length s2) (drop (unat start + unat i) (bytes q)) = s2) \<and>
    (r \<noteq> 0 \<longrightarrow> (\<exists>k < length s2. unat r = unat i + k + 1 \<and> bytes q ! (unat start + unat i + k) \<noteq> s2 ! k \<and>
      take k (drop (unat start + unat i) (bytes q)) = take k s2))"
  using assms
proof (induction s2 arbitrary: i)
  case Nil
  then show ?case by simp
next
  case (Cons b s2)
  let ?j = "unat start + unat i"
  have lt: "?j < length (bytes q)" using Cons.prems(2) by simp
  have si: "unat (start + i) = ?j" using lt wf_bytes_bound [OF assms(1)] by (intro unat_plus) simp
  have i1: "unat (i + 1) = unat i + 1" using Cons.prems(3) by (subst unat_plus) auto
  have get: "pbuf_get_at q (start + i) = bytes q ! ?j" using lt by (simp add: pbuf_get_at_spec [OF assms(1)] si)
  have dr: "drop ?j (bytes q) = bytes q ! ?j # drop (Suc ?j) (bytes q)" using lt by (rule Cons_nth_drop_Suc [symmetric])
  show ?case
  proof (cases "bytes q ! ?j = b")
    case True
    then have "memcmp_loop q start s2 (i + 1) = r" using Cons.prems(4) get by simp
    from Cons.IH [OF assms(1) _ _ this] Cons.prems(2,3) i1
    have "(r = 0 \<longleftrightarrow> take (length s2) (drop (Suc ?j) (bytes q)) = s2) \<and>
      (r \<noteq> 0 \<longrightarrow> (\<exists>k < length s2. unat r = unat i + Suc k + 1 \<and> bytes q ! (?j + Suc k) \<noteq> s2 ! k \<and>
        take k (drop (Suc ?j) (bytes q)) = take k s2))" by simp
    then have zero: "r = 0 \<longleftrightarrow> take (length s2) (drop (Suc ?j) (bytes q)) = s2"
      and diff: "r \<noteq> 0 \<longrightarrow> (\<exists>k < length s2. unat r = unat i + Suc k + 1 \<and> bytes q ! (?j + Suc k) \<noteq> s2 ! k \<and>
        take k (drop (Suc ?j) (bytes q)) = take k s2)"
      by blast+
    show ?thesis
    proof (cases "r = 0")
      case True
      then show ?thesis using zero dr \<open>bytes q ! ?j = b\<close> by simp
    next
      case False
      with diff obtain k where "k < length s2" "unat r = unat i + Suc k + 1"
        "bytes q ! (?j + Suc k) \<noteq> s2 ! k" "take k (drop (Suc ?j) (bytes q)) = take k s2" by blast
      then show ?thesis using False zero dr True by (intro conjI impI exI [of _ "Suc k"]) auto
    qed
  next
    case False
    then have "r = i + 1" using Cons.prems(4) get by simp
    then show ?thesis using False dr i1 by (auto intro!: exI [of _ 0])
  qed
qed


text \<open>\<^verbatim>\<open>pbuf_memcmp\<close> against memory of the given length.\<close>

lemma pbuf_memcmp_spec:
  assumes "wf_chain p" "p \<noteq> []" "length s2 = unat n" "pbuf_memcmp p offset s2 n = r"
  shows "if length (bytes p) < unat offset + unat n then r = 0xffff
    else (r = 0 \<longleftrightarrow> occurs_at s2 (unat offset) (bytes p)) \<and>
      (r \<noteq> 0 \<longrightarrow> unat r \<le> unat n \<and> bytes p ! (unat offset + unat r - 1) \<noteq> s2 ! (unat r - 1) \<and>
        take (unat r - 1) (drop (unat offset) (bytes p)) = take (unat r - 1) s2)"
proof (cases "length (bytes p) < unat offset + unat n")
  case True
  then show ?thesis using assms wf_tot_len [OF assms(1,2)] by (simp add: pbuf_memcmp_def)
next
  case False
  obtain q start where sk: "pbuf_skip_const p offset = (q, start)" by fastforce
  from pbuf_skip_spec [OF assms(1) sk] obtain pre
    where pre: "p = pre @ q" "unat offset = length (bytes pre) + unat start" by blast
  have wfq: "wf_chain q" using assms(1) pre(1) wf_append_right by blast
  have r: "memcmp_loop q start s2 0 = r"
    using assms(3,4) False wf_tot_len [OF assms(1,2)] sk by (simp add: pbuf_memcmp_def)
  have at: "drop (unat start) (bytes q) = drop (unat offset) (bytes p)"
    "bytes q ! (unat start + k) = bytes p ! (unat offset + k)" for k
    using pre by (simp_all add: nth_append add.assoc)
  have "unat start + unat (0 :: u16) + length s2 \<le> length (bytes q)" using False pre assms(3) by simp
  from memcmp_loop_spec [OF wfq this _ r] assms(3) unat_u16_bound [of n]
  have "(r = 0 \<longleftrightarrow> take (length s2) (drop (unat offset) (bytes p)) = s2) \<and>
    (r \<noteq> 0 \<longrightarrow> (\<exists>k < length s2. unat r = k + 1 \<and> bytes p ! (unat offset + k) \<noteq> s2 ! k \<and>
      take k (drop (unat offset) (bytes p)) = take k s2))" by (simp add: at)
  then show ?thesis using False assms(3) by (auto simp: occurs_at_def)
qed

interpretation pb: searchable "\<lambda>p. wf_chain p \<and> p \<noteq> []" bytes pbuf_memcmp memfind_loop
proof (unfold_locales, goal_cases)
  case (1 b)
  then show ?case by (simp add: wf_bytes_bound)
next
  case (2 b mem n i)
  then show ?case using pbuf_memcmp_spec [of b mem n i] by simp
next
  case (3 b mem n lim i)
  show ?case by (rule memfind_loop.simps)
qed

lemma pbuf_memfind_spec:
  assumes "wf_chain p" "p \<noteq> []" "length mem = unat n"
  shows "\<exists>r. pbuf_memfind p mem n start = Some r \<and>
    (if \<exists>j\<ge>unat start. occurs_at mem j (bytes p)
     then unat start \<le> unat r \<and> occurs_at mem (unat r) (bytes p) \<and>
       (\<forall>j. unat start \<le> j \<and> j < unat r \<longrightarrow> \<not> occurs_at mem j (bytes p))
     else r = 0xFFFF)"
proof (cases "unat n + unat start \<le> length (bytes p)")
  case True
  let ?lim = "tot_len (hd p) - n"
  have tl: "unat (tot_len (hd p)) = length (bytes p)" using assms(1,2) by (rule wf_tot_len)
  have lim: "unat ?lim = length (bytes p) - unat n" using True tl by (simp add: unat_minus word_le_nat_alt)
  have "\<exists>r. memfind_loop p mem n ?lim start = Some r \<and>
      first_hit mem (unat start) (unat ?lim) (bytes p) (unat r)"
    by (rule pb.loop_first) (use assms lim True in auto)
  then obtain r where find: "pbuf_memfind p mem n start = Some r"
    and hit: "first_hit mem (unat start) (unat ?lim) (bytes p) (unat r)"
    using True tl by (auto simp: pbuf_memfind_def)
  have ex: "(\<exists>j\<in>{unat start..unat ?lim}. occurs_at mem j (bytes p)) \<longleftrightarrow>
      (\<exists>j\<ge>unat start. occurs_at mem j (bytes p))"
    using assms(3) lim True by (auto simp: occurs_at_def)
  show ?thesis
  proof (cases "\<exists>j\<ge>unat start. occurs_at mem j (bytes p)")
    case True
    then show ?thesis using hit unfolding first_hit_def ex if_P [OF True]
      by (intro exI [of _ r] conjI find) auto
  next
    case False
    have "unat r = 0xFFFF" using hit unfolding first_hit_def ex if_not_P [OF False] .
    then have "r = 0xFFFF" by (simp add: word_unat_eq_iff)
    then show ?thesis using find unfolding if_not_P [OF False] by simp
  qed
next
  case False
  then have none: "\<not> (\<exists>j\<ge>unat start. occurs_at mem j (bytes p))" using assms(3) by (auto simp: occurs_at_def)
  show ?thesis unfolding if_not_P [OF none] using False wf_tot_len [OF assms(1,2)] by (simp add: pbuf_memfind_def)
qed

end
