(* ===== verification/Lwip_Def.thy ===== *)
theory Lwip_Def
  imports Chksum
begin

text \<open>
  The string functions of \<^verbatim>\<open>lwip/src/core/def.c\<close>. A C string is the list of its characters before
  the terminating NUL; the character read at the end is \<open>nul\<close>.
\<close>

section \<open>Characters\<close>

abbreviation nul :: char where
  "nul \<equiv> CHR 0x00"

definition cur :: "string \<Rightarrow> char" where
  "cur s = (case s of [] \<Rightarrow> nul | c # _ \<Rightarrow> c)"

definition c_string :: "string \<Rightarrow> bool" where
  "c_string s \<longleftrightarrow> nul \<notin> set s"

section \<open>Searching and comparing\<close>

text \<open>\<^verbatim>\<open>strncmp(p, token, tokenlen) == 0\<close> for a token of that length.\<close>

definition strncmp_eq :: "string \<Rightarrow> string \<Rightarrow> bool" where
  "strncmp_eq p token \<longleftrightarrow> take (length token) p = token"

text \<open>The result is the offset of the match in \<^verbatim>\<open>buffer\<close>; \<open>i\<close> is \<^verbatim>\<open>p - buffer\<close>.\<close>

fun strnstr_loop :: "string \<Rightarrow> string \<Rightarrow> nat \<Rightarrow> nat \<Rightarrow> nat option" where
  "strnstr_loop [] token n i = None"
| "strnstr_loop (c # p) token n i =
    (if i + length token \<le> n
     then if c = cur token \<and> strncmp_eq (c # p) token then Some i else strnstr_loop p token n (i + 1)
     else None)"

definition lwip_strnstr :: "string \<Rightarrow> string \<Rightarrow> nat \<Rightarrow> nat option" where
  "lwip_strnstr buffer token n = (if length token = 0 then Some 0 else strnstr_loop buffer token n 0)"

definition upc :: "char \<Rightarrow> u8" where
  "upc c = of_char c OR 0x20"

text \<open>What both comparisons do with one pair of characters: whether they go on.\<close>

definition same_letter :: "char \<Rightarrow> char \<Rightarrow> bool" where
  "same_letter c1 c2 \<longleftrightarrow>
    (if c1 \<noteq> c2 then if upc c1 \<ge> 97 \<and> upc c1 \<le> 122 then upc c1 = upc c2 else False else True)"

fun lwip_stricmp :: "string \<Rightarrow> string \<Rightarrow> int" where
  "lwip_stricmp str1 str2 =
    (if \<not> same_letter (cur str1) (cur str2) then 1
     else case str1 of [] \<Rightarrow> 0 | c1 # rest \<Rightarrow> if c1 \<noteq> nul then lwip_stricmp rest (tl str2) else 0)"

fun lwip_strnicmp :: "string \<Rightarrow> string \<Rightarrow> nat \<Rightarrow> int" where
  "lwip_strnicmp str1 str2 n =
    (if \<not> same_letter (cur str1) (cur str2) then 1
     else if n = 0 then 0
     else case str1 of [] \<Rightarrow> 0 | c1 # rest \<Rightarrow> if c1 \<noteq> nul then lwip_strnicmp rest (tl str2) (n - 1) else 0)"

section \<open>Printing an integer\<close>

definition itoa_chars :: string where
  "itoa_chars = ''zyxwvutsrqponmlkjihgfedcba9876543210123456789abcdefghijklmnopqrstuvwxyz''"

text \<open>The digits, least significant first, and the last value of \<^verbatim>\<open>tmp_value\<close>.\<close>

function itoa_digits :: "int \<Rightarrow> string \<times> int" where
  "itoa_digits tmp_value =
    (let number = tmp_value sdiv 10; c = itoa_chars ! nat (35 + (tmp_value - number * 10)) in
     if number \<noteq> 0 then (case itoa_digits number of (cs, t) \<Rightarrow> (c # cs, t)) else ([c], tmp_value))"
  by pat_completeness auto
termination
  by (relation "measure (\<lambda>t. nat \<bar>t\<bar>)") (auto simp: signed_divide_int_def sgn_if abs_if)

text \<open>The reversal in place between \<^verbatim>\<open>ptr1\<close> and \<^verbatim>\<open>ptr\<close>.\<close>

function reverse_loop :: "string \<Rightarrow> nat \<Rightarrow> nat \<Rightarrow> string" where
  "reverse_loop buf ptr1 ptr =
    (if ptr1 < ptr then reverse_loop (buf[ptr := buf ! ptr1, ptr1 := buf ! ptr]) (ptr1 + 1) (ptr - 1) else buf)"
  by pat_completeness auto
termination
  by (relation "measure (\<lambda>(buf, ptr1, ptr). ptr - ptr1)") auto

definition lwip_itoa :: "int \<Rightarrow> string" where
  "lwip_itoa number =
    (case itoa_digits number of (cs, tmp_value) \<Rightarrow>
      let result = cs @ (if tmp_value < 0 then ''-'' else []) in reverse_loop result 0 (length result - 1))"

section \<open>Comparison up to case\<close>

definition lower :: "char \<Rightarrow> nat" where
  "lower c = (let n = of_char c in if 65 \<le> n \<and> n \<le> 90 then n + 32 else n)"

lemma unat_upc: "unat (upc c) = (if even (of_char c div 32 :: nat) then of_char c + 32 else of_char c)"
proof -
  let ?n = "of_char c :: nat"
  have n: "?n < 256" by simp
  have or: "?n OR 32 = ?n + (if even (?n div 32) then 32 else 0)"
    using set_bit_eq_or [of 5 ?n] set_bit_eq [of 5 ?n] by (auto simp: bit_iff_odd push_bit_eq_mult)
  have "?n div 32 = 7" if "224 \<le> ?n" using that n by (intro div_nat_eqI) auto
  then have "?n < 224" if "even (?n div 32)" using that by fastforce
  then have lt: "?n OR 32 < 256" using n by (auto simp: or)
  have "upc c = of_nat (?n OR 32)" by (simp add: upc_def of_nat_or_eq of_nat_of_char)
  then have "unat (upc c) = ?n OR 32" using lt by (simp only: unsigned_of_nat) (simp add: take_bit_nat_eq_self)
  then show ?thesis by (simp add: or)
qed

lemma upc_letter:
  "97 \<le> upc c \<and> upc c \<le> 122 \<Longrightarrow> unat (upc c) = lower c"
  "\<not> (97 \<le> upc c \<and> upc c \<le> 122) \<Longrightarrow> lower c = of_char c \<and> \<not> (97 \<le> lower c \<and> lower c \<le> 122)"
proof -
  have d: "97 \<le> n \<Longrightarrow> n \<le> 122 \<Longrightarrow> n div 32 = 3" "65 \<le> n \<Longrightarrow> n \<le> 90 \<Longrightarrow> n div 32 = 2" for n :: nat
    by (auto intro: div_nat_eqI)
  show "97 \<le> upc c \<and> upc c \<le> 122 \<Longrightarrow> unat (upc c) = lower c"
    "\<not> (97 \<le> upc c \<and> upc c \<le> 122) \<Longrightarrow> lower c = of_char c \<and> \<not> (97 \<le> lower c \<and> lower c \<le> 122)"
    by (auto simp: word_le_nat_alt unat_upc lower_def Let_def d split: if_splits)
qed

lemma same_letter_lower: "same_letter c1 c2 \<longleftrightarrow> lower c1 = lower c2"
proof -
  have letter: "97 \<le> upc c \<and> upc c \<le> 122 \<longleftrightarrow> 97 \<le> lower c \<and> lower c \<le> 122" for c
    using upc_letter [of c] by (auto simp: word_le_nat_alt)
  show ?thesis
  proof (cases "97 \<le> upc c1 \<and> upc c1 \<le> 122")
    case True
    then have "unat (upc c1) = lower c1" using upc_letter by blast
    moreover have "97 \<le> upc c2 \<and> upc c2 \<le> 122 \<longrightarrow> unat (upc c2) = lower c2" using upc_letter by blast
    ultimately show ?thesis using True letter [of c1] letter [of c2] by (auto simp: same_letter_def word_unat_eq_iff word_le_nat_alt)
  next
    case False
    then have "lower c1 = of_char c1" using upc_letter by blast
    moreover have "97 \<le> upc c2 \<and> upc c2 \<le> 122 \<or> lower c2 = of_char c2" using upc_letter by blast
    ultimately show ?thesis using False letter [of c1] letter [of c2] by (auto simp: same_letter_def)
  qed
qed

lemma lower_nul: "lower c = lower nul \<longleftrightarrow> c = nul" "lower nul = lower c \<longleftrightarrow> c = nul"
  by (auto simp: lower_def Let_def of_char_eq_iff [symmetric, where 'a = nat] split: if_splits)

declare lwip_stricmp.simps [simp del] lwip_strnicmp.simps [simp del]

lemma lwip_stricmp_iff:
  "c_string str1 \<Longrightarrow> c_string str2 \<Longrightarrow> lwip_stricmp str1 str2 = (if map lower str1 = map lower str2 then 0 else 1)"
proof (induction str1 arbitrary: str2)
  case Nil
  then show ?case
    by (cases str2) (auto simp: lwip_stricmp.simps [of "[]"] same_letter_lower cur_def c_string_def lower_nul)
next
  case (Cons c1 s1)
  then show ?case using lower_nul(1) [of c1]
    by (cases str2) (auto simp: lwip_stricmp.simps [of "c1 # s1"] same_letter_lower cur_def c_string_def)
qed

text \<open>The loop of \<^verbatim>\<open>lwip_strnicmp\<close> tests its count after a comparison: it compares one character more.\<close>

lemma lwip_strnicmp_iff:
  "c_string str1 \<Longrightarrow> c_string str2 \<Longrightarrow>
     lwip_strnicmp str1 str2 n = (if take (n + 1) (map lower str1) = take (n + 1) (map lower str2) then 0 else 1)"
proof (induction str1 arbitrary: str2 n)
  case Nil
  then show ?case
    by (cases str2) (auto simp: lwip_strnicmp.simps [of "[]"] same_letter_lower cur_def c_string_def lower_nul)
next
  case (Cons c1 s1)
  then show ?case using lower_nul(1) [of c1]
    by (cases str2; cases n) (auto simp: lwip_strnicmp.simps [of "c1 # s1"] same_letter_lower cur_def c_string_def)
qed

section \<open>Search\<close>

definition token_at :: "string \<Rightarrow> string \<Rightarrow> nat \<Rightarrow> nat \<Rightarrow> bool" where
  "token_at buffer token n k \<longleftrightarrow> k + length token \<le> n \<and> take (length token) (drop k buffer) = token"

lemma strnstr_loop_spec:
  assumes "token \<noteq> []"
  shows "case strnstr_loop p token n i of
      None \<Rightarrow> \<forall>k. \<not> (i + k + length token \<le> n \<and> take (length token) (drop k p) = token)
    | Some j \<Rightarrow> \<exists>k. j = i + k \<and> i + k + length token \<le> n \<and> take (length token) (drop k p) = token \<and>
        (\<forall>k' < k. take (length token) (drop k' p) \<noteq> token)"
proof (induction p arbitrary: i)
  case Nil
  then show ?case using assms by simp
next
  case (Cons c p)
  have first: "c = cur token" if "take (length token) (c # p) = token"
    using that assms by (cases token) (auto simp: cur_def)
  consider "n < i + length token" | "i + length token \<le> n" "take (length token) (c # p) = token"
    | "i + length token \<le> n" "take (length token) (c # p) \<noteq> token" by linarith
  then show ?case
  proof cases
    case 1
    then show ?thesis by simp
  next
    case 2
    then show ?thesis using first by (simp add: strncmp_eq_def)
  next
    case 3
    then have step: "strnstr_loop (c # p) token n i = strnstr_loop p token n (i + 1)" by (simp add: strncmp_eq_def)
    show ?thesis
    proof (cases "strnstr_loop p token n (i + 1)")
      case None
      have "\<not> (i + k + length token \<le> n \<and> take (length token) (drop k (c # p)) = token)" for k
        using Cons.IH [of "i + 1"] 3 None by (cases k) auto
      then show ?thesis using None step by simp
    next
      case (Some j)
      then obtain k where k: "j = i + 1 + k" "i + 1 + k + length token \<le> n" "take (length token) (drop k p) = token"
        "\<forall>k' < k. take (length token) (drop k' p) \<noteq> token" using Cons.IH [of "i + 1"] by auto
      have "take (length token) (drop k' (c # p)) \<noteq> token" if "k' < Suc k" for k'
        using that k(4) 3 by (cases k') auto
      then show ?thesis using Some step k by (auto intro!: exI [of _ "Suc k"])
    qed
  qed
qed

lemma lwip_strnstr_first:
  "lwip_strnstr buffer token n = Some j \<longleftrightarrow> token_at buffer token n j \<and> (\<forall>k < j. \<not> token_at buffer token n k)"
proof (cases "token = []")
  case True
  then show ?thesis by (auto simp: lwip_strnstr_def token_at_def)
next
  case False
  note spec = strnstr_loop_spec [OF False, where p = buffer and n = n and i = 0]
  show ?thesis
  proof (cases "strnstr_loop buffer token n 0")
    case None
    then show ?thesis using spec False by (auto simp: lwip_strnstr_def token_at_def)
  next
    case (Some i)
    then have "token_at buffer token n i" "\<forall>k < i. \<not> token_at buffer token n k"
      using spec by (auto simp: token_at_def)
    then show ?thesis using Some False by (auto simp: lwip_strnstr_def) (metis linorder_neqE_nat)
  qed
qed

section \<open>Decimal notation\<close>

definition digit :: "nat \<Rightarrow> char" where
  "digit d = char_of (48 + d)"

fun decimal :: "nat \<Rightarrow> string" where
  "decimal n = (if n < 10 then [digit n] else decimal (n div 10) @ [digit (n mod 10)])"

declare decimal.simps [simp del]

lemma itoa_char: "\<bar>k\<bar> \<le> 9 \<Longrightarrow> itoa_chars ! nat (35 + k) = digit (nat \<bar>k\<bar>)"
proof -
  assume k: "\<bar>k\<bar> \<le> 9"
  have "\<forall>i \<in> set [26..<45]. itoa_chars ! i = digit (if i < 35 then 35 - i else i - 35)" by code_simp
  moreover have "nat (35 + k) \<in> set [26..<45]" unfolding set_upt using k by (auto simp: nat_less_iff le_nat_iff)
  ultimately have "itoa_chars ! nat (35 + k) = digit (if nat (35 + k) < 35 then 35 - nat (35 + k) else nat (35 + k) - 35)"
    by blast
  also have "(if nat (35 + k) < 35 then 35 - nat (35 + k) else nat (35 + k) - 35) = nat \<bar>k\<bar>" using k by auto
  finally show ?thesis .
qed

lemma decimal_small: "n < 10 \<Longrightarrow> decimal n = [digit n]"
  by (subst decimal.simps) simp

lemma decimal_nonempty: "decimal n \<noteq> []"
  by (subst decimal.simps) simp

lemma decimal_step: "decimal (10 * q + r) = decimal q @ [digit r]" if "0 < q" "r < 10"
  using that by (subst decimal.simps) simp

lemma sdiv10:
  fixes t :: int
  shows "\<bar>t sdiv 10\<bar> = \<bar>t\<bar> div 10" "\<bar>t - t sdiv 10 * 10\<bar> = \<bar>t\<bar> mod 10" "t sdiv 10 \<noteq> 0 \<Longrightarrow> t sdiv 10 < 0 \<longleftrightarrow> t < 0"
proof -
  have s: "t sdiv 10 = sgn t * (\<bar>t\<bar> div 10)" by (simp add: signed_divide_int_def)
  have "t - t sdiv 10 * 10 = sgn t * (\<bar>t\<bar> - \<bar>t\<bar> div 10 * 10)" unfolding s by (simp add: right_diff_distrib sgn_mult_abs)
  then show "\<bar>t - t sdiv 10 * 10\<bar> = \<bar>t\<bar> mod 10" by (auto simp: minus_div_mult_eq_mod abs_mult abs_sgn_eq)
  show "\<bar>t sdiv 10\<bar> = \<bar>t\<bar> div 10" unfolding s by (auto simp: abs_mult abs_sgn_eq)
  show "t sdiv 10 \<noteq> 0 \<Longrightarrow> t sdiv 10 < 0 \<longleftrightarrow> t < 0"
    unfolding s by (auto simp: sgn_if pos_imp_zdiv_nonneg_iff split: if_splits)
qed

declare itoa_digits.simps [simp del]

lemma itoa_digits_decimal: "rev (fst (itoa_digits t)) = decimal (nat \<bar>t\<bar>) \<and> (snd (itoa_digits t) < 0 \<longleftrightarrow> t < 0)"
proof (induction t rule: itoa_digits.induct)
  case (1 t)
  let ?q = "t sdiv 10"
  have c: "itoa_chars ! nat (35 + (t - ?q * 10)) = digit (nat \<bar>t\<bar> mod 10)"
    using itoa_char [of "t - ?q * 10"] sdiv10(2) [of t] by (simp add: nat_mod_distrib)
  have q: "nat \<bar>?q\<bar> = nat \<bar>t\<bar> div 10" using sdiv10(1) [of t] by (simp add: nat_div_distrib)
  show ?case
  proof (cases "?q = 0")
    case True
    then have "nat \<bar>t\<bar> < 10" using q by simp
    then show ?thesis using True c by (subst itoa_digits.simps, subst itoa_digits.simps) (simp add: Let_def decimal_small)
  next
    case False
    then have "decimal (nat \<bar>t\<bar>) = decimal (nat \<bar>?q\<bar>) @ [digit (nat \<bar>t\<bar> mod 10)]"
      using q decimal_step [of "nat \<bar>t\<bar> div 10" "nat \<bar>t\<bar> mod 10"] by simp
    moreover have "itoa_digits t = (digit (nat \<bar>t\<bar> mod 10) # fst (itoa_digits ?q), snd (itoa_digits ?q))"
      using False c by (subst itoa_digits.simps) (simp add: Let_def split: prod.splits)
    ultimately show ?thesis using "1.IH" [OF refl refl False] sdiv10(3) [OF False] by simp
  qed
qed

declare reverse_loop.simps [simp del]

lemma reverse_loop_rev:
  "i + length ys = Suc j \<or> ys = [] \<and> j \<le> i \<Longrightarrow> length xs = i \<Longrightarrow> reverse_loop (xs @ ys @ zs) i j = xs @ rev ys @ zs"
proof (induction ys arbitrary: xs zs i j rule: length_induct)
  case (1 ys)
  show ?case
  proof (cases "i < j")
    case False
    then have "length ys \<le> 1" using "1.prems" by auto
    then show ?thesis using False by (cases ys) (auto simp: reverse_loop.simps [of _ i j])
  next
    case True
    then obtain a ys' where a: "ys = a # ys'" using "1.prems" by (cases ys) auto
    then obtain mid b where b: "ys = a # mid @ [b]" using "1.prems" True by (cases ys' rule: rev_cases) auto
    have j: "j = i + 1 + length mid" using "1.prems" b by auto
    have "(xs @ ys @ zs)[j := (xs @ ys @ zs) ! i, i := (xs @ ys @ zs) ! j] = (xs @ [b]) @ mid @ (a # zs)"
      using "1.prems"(2) b j by (simp add: nth_append list_update_append)
    then have "reverse_loop (xs @ ys @ zs) i j = reverse_loop ((xs @ [b]) @ mid @ (a # zs)) (i + 1) (j - 1)"
      using True by (subst reverse_loop.simps) simp
    also have "\<dots> = (xs @ [b]) @ rev mid @ (a # zs)"
      using "1.IH" [rule_format, of mid "i + 1" "j - 1" "xs @ [b]" "a # zs"] "1.prems"(2) b j by simp
    finally show ?thesis using b by simp
  qed
qed

lemma lwip_itoa_decimal: "lwip_itoa t = (if t < 0 then ''-'' else []) @ decimal (nat \<bar>t\<bar>)"
proof -
  obtain cs l where d: "itoa_digits t = (cs, l)" by fastforce
  let ?r = "cs @ (if l < 0 then ''-'' else [])"
  have "rev cs = decimal (nat \<bar>t\<bar>)" using d itoa_digits_decimal [of t] by simp
  then have "cs \<noteq> []" using decimal_nonempty [of "nat \<bar>t\<bar>"] by auto
  then have "reverse_loop ?r 0 (length ?r - 1) = rev ?r" using reverse_loop_rev [of 0 ?r "length ?r - 1" "[]" "[]"] by simp
  then show ?thesis using d itoa_digits_decimal [of t] by (simp add: lwip_itoa_def Let_def)
qed

section \<open>Properties\<close>

text \<open>
  \<^verbatim>\<open>lwip_stricmp\<close> returns zero exactly for strings equal up to case. \<^verbatim>\<open>lwip_strnicmp\<close> with length
  \<open>n\<close> compares \<open>n + 1\<close> characters, because its count is tested after the comparison: it tells apart
  strings that differ only behind the given length.
\<close>

theorem def_case_insensitive:
  assumes "c_string str1" "c_string str2"
  shows "(lwip_stricmp str1 str2 = 0 \<longleftrightarrow> map lower str1 = map lower str2) \<and>
    (lwip_strnicmp str1 str2 n = 0 \<longleftrightarrow> take (n + 1) (map lower str1) = take (n + 1) (map lower str2))"
  using lwip_stricmp_iff [OF assms] lwip_strnicmp_iff [OF assms] by simp

theorem def_case_insensitive_witness:
  "lwip_stricmp ''Host'' ''hOST'' = 0 \<and> lwip_strnicmp ''ab'' ''ac'' 1 \<noteq> 0"
  using def_case_insensitive [of "''Host''" "''hOST''" 0] def_case_insensitive [of "''ab''" "''ac''" 1]
  by (simp add: c_string_def lower_def)

end
