(* ===== verification/Pbuf_Write.thy ===== *)
theory Pbuf_Write
  imports Pbuf
begin

text \<open>
  Writing into packet buffers: \<^verbatim>\<open>pbuf_take\<close>, \<^verbatim>\<open>pbuf_take_at\<close> and \<^verbatim>\<open>pbuf_put_at\<close> overwrite a part of the
  bytes of a chain and change nothing else of it (\<open>same_shape\<close>).
\<close>

section \<open>The shape of a chain\<close>

definition shape :: "pbuf \<Rightarrow> nat \<times> u8 list \<times> u16 \<times> pbuf_type \<times> u8 \<times> u16" where
  "shape p = (length (payload p), front p, tot_len p, ptype p, pflags p, ref p)"

definition same_shape :: "chain \<Rightarrow> chain \<Rightarrow> bool" where
  "same_shape ps qs \<longleftrightarrow> map shape ps = map shape qs"

lemma same_shape_refl [simp]: "same_shape ps ps"
  by (simp add: same_shape_def)

lemma same_shape_Cons [simp]: "same_shape (p # ps) (q # qs) \<longleftrightarrow> shape p = shape q \<and> same_shape ps qs"
  by (simp add: same_shape_def)

lemma same_shape_append: "same_shape ps qs \<Longrightarrow> same_shape (xs @ ps) (xs @ qs)"
  by (simp add: same_shape_def)

lemma same_shape_Cons_iff:
  "same_shape (p # ps) qs \<longleftrightarrow> (\<exists>q qs'. qs = q # qs' \<and> shape p = shape q \<and> same_shape ps qs')"
  by (cases qs) (auto simp: same_shape_def)

lemma same_shape_Nil_iff [simp]: "same_shape [] qs \<longleftrightarrow> qs = []"
  by (auto simp: same_shape_def)

lemma same_shape_bytes: "same_shape ps qs \<Longrightarrow> length (bytes qs) = length (bytes ps)"
proof (induction ps arbitrary: qs)
  case (Cons p ps)
  from Cons.prems obtain q qs' where "qs = q # qs'" "shape p = shape q" "same_shape ps qs'"
    by (auto simp: same_shape_Cons_iff)
  then show ?case using Cons.IH [of qs'] by (simp add: shape_def)
qed simp

lemma same_shape_wf: "same_shape ps qs \<Longrightarrow> wf_chain ps \<Longrightarrow> wf_chain qs"
proof (induction ps arbitrary: qs)
  case (Cons p ps)
  from Cons.prems obtain q qs' where "qs = q # qs'" "shape p = shape q" "same_shape ps qs'"
    by (auto simp: same_shape_Cons_iff)
  then show ?case using Cons.IH [of qs'] Cons.prems(2) same_shape_bytes [of ps qs'] by (simp add: shape_def)
qed simp

lemma shape_payload [simp]:
  "length xs = length (payload p) \<Longrightarrow> shape (p\<lparr>payload := xs\<rparr>) = shape p"
  by (simp add: shape_def)

section \<open>Taking data over\<close>

lemma take_loop_spec:
  assumes "small ps" "unat n \<le> length (bytes ps)" "unat copied + unat n \<le> length dataptr"
    and "unat copied + unat n < 65536"
  shows "\<exists>qs. take_loop ps dataptr n copied = Some qs \<and> same_shape ps qs \<and>
    bytes qs = overwrite 0 (take (unat n) (drop (unat copied) dataptr)) (bytes ps)"
  using assms
proof (induction ps arbitrary: n copied)
  case Nil
  then show ?case by (simp add: unat_eq_zero overwrite_def)
next
  case (Cons p ps)
  let ?k = "length (payload p)"
  have k: "unat (len p) = ?k" using Cons.prems by (simp add: unat_len)
  show ?case
  proof (cases "n = 0")
    case True
    then show ?thesis by simp
  next
    case False
    define m where "m = (if n > len p then len p else n)"
    define d where "d = take (unat m) (drop (unat copied) dataptr)"
    have m: "unat m = min (unat n) ?k" using k by (simp add: m_def word_less_nat_alt)
    have d: "length d = unat m" using m Cons.prems(3) by (simp add: d_def)
    have rest: "unat (n - m) = unat n - unat m" "unat (copied + m) = unat copied + unat m"
      using m Cons.prems(4) by (simp_all add: unat_minus unat_plus word_le_nat_alt)
    obtain qs where qs: "take_loop ps dataptr (n - m) (copied + m) = Some qs" "same_shape ps qs"
      "bytes qs = overwrite 0 (take (unat n - unat m) (drop (unat copied + unat m) dataptr)) (bytes ps)"
    proof -
      have "unat (n - m) \<le> length (bytes ps)" using Cons.prems(2) m rest(1) by (cases "unat n \<le> ?k") auto
      then show ?thesis using Cons.IH [of "n - m" "copied + m"] Cons.prems m rest that by (auto simp: min_def)
    qed
    have "take (unat n) (drop (unat copied) dataptr) =
        d @ take (unat n - unat m) (drop (unat copied + unat m) dataptr)"
      using m by (metis add.commute d_def drop_drop le_add_diff_inverse min.cobounded1 take_add)
    moreover have "overwrite 0 (d @ e) (payload p @ bytes ps) = overwrite 0 d (payload p) @ overwrite 0 e (bytes ps)"
      if "unat m = ?k \<or> e = []" for e
      using that d m by (auto simp: overwrite_def)
    moreover have "unat m = ?k \<or> take (unat n - unat m) (drop (unat copied + unat m) dataptr) = []"
      using m by (auto simp: min_def)
    moreover have "take_loop (p # ps) dataptr n copied =
        Some (p\<lparr>payload := overwrite 0 d (payload p)\<rparr> # qs)"
      using False qs(1) by (simp add: Let_def m_def d_def)
    ultimately show ?thesis using qs(2,3) d m by simp
  qed
qed

lemma pbuf_take_spec:
  assumes "wf_chain ps" "ps \<noteq> []" "unat n \<le> length dataptr"
  shows "if length (bytes ps) < unat n then pbuf_take ps dataptr n = Some (ERR_MEM, ps)
    else \<exists>qs. pbuf_take ps dataptr n = Some (ERR_OK, qs) \<and> same_shape ps qs \<and>
      bytes qs = overwrite 0 (take (unat n) dataptr) (bytes ps)"
  using take_loop_spec [OF wf_small [OF assms(1)], of n 0 dataptr] assms wf_tot_len [OF assms(1,2)]
    unat_u16_bound [of n]
  by (auto simp: pbuf_take_def word_less_nat_alt)

lemma with_tail_append [simp]: "with_tail (pre @ q) q q' = pre @ q'"
  by (simp add: with_tail_def)

lemma pbuf_put_at_spec:
  assumes "wf_chain ps"
  shows "same_shape ps (pbuf_put_at ps offset data) \<and>
    bytes (pbuf_put_at ps offset data) = (bytes ps)[unat offset := data]"
proof -
  obtain q start where sk: "pbuf_skip_const ps offset = (q, start)" by fastforce
  from pbuf_skip_spec [OF assms sk] obtain pre where pre: "ps = pre @ q"
    "unat offset = length (bytes pre) + unat start" "q \<noteq> [] \<longrightarrow> unat start < length (payload (hd q))" by blast
  show ?thesis
  proof (cases q)
    case Nil
    then show ?thesis using sk pbuf_skip_end [OF assms sk] by (simp add: pbuf_put_at_def list_update_beyond)
  next
    case (Cons p rest)
    have "wf_chain q" using assms pre(1) wf_append_right by blast
    then have "unat (len p) = length (payload p)" using Cons wf_small [of q] by (simp add: unat_len)
    then have "len p > start" using pre(3) Cons by (simp add: word_less_nat_alt)
    then have "pbuf_put_at ps offset data = pre @ p\<lparr>payload := (payload p)[unat start := data]\<rparr> # rest"
      using sk Cons pre(1) by (simp add: pbuf_put_at_def)
    then show ?thesis using pre Cons by (simp add: same_shape_append list_update_append)
  qed
qed

lemma pbuf_take_at_spec:
  assumes "wf_chain ps" "unat n \<le> length dataptr" "0 < unat n"
  shows "if length (bytes ps) < unat offset + unat n then pbuf_take_at ps dataptr n offset = Some (ERR_MEM, ps)
    else \<exists>qs. pbuf_take_at ps dataptr n offset = Some (ERR_OK, qs) \<and> same_shape ps qs \<and>
      bytes qs = overwrite (unat offset) (take (unat n) dataptr) (bytes ps)"
proof -
  obtain q start where sk: "pbuf_skip_const ps offset = (q, start)" by fastforce
  from pbuf_skip_spec [OF assms(1) sk] obtain pre where pre: "ps = pre @ q"
    "unat offset = length (bytes pre) + unat start" "q \<noteq> [] \<longrightarrow> unat start < length (payload (hd q))" by blast
  have wfq: "wf_chain q" using assms(1) pre(1) wf_append_right by blast
  show ?thesis
  proof (cases q)
    case Nil
    then show ?thesis using sk pbuf_skip_end [OF assms(1) sk] assms(3) by (simp add: pbuf_take_at_def)
  next
    case (Cons p rest)
    have tl: "unat (tot_len p) = length (bytes q)" using wfq Cons by simp
    show ?thesis
    proof (cases "length (bytes ps) < unat offset + unat n")
      case True
      then show ?thesis using sk Cons tl pre by (simp add: pbuf_take_at_def)
    next
      case False
      have k: "unat (len p) = length (payload p)" using Cons wf_small [OF wfq] by (simp add: unat_len)
      define m where "m = (if len p - start < n then len p - start else n)"
      have lo: "unat (len p - start) = length (payload p) - unat start"
        using k pre(3) Cons by (simp add: unat_minus word_le_nat_alt)
      have m: "unat m = min (unat n) (length (payload p) - unat start)"
        using lo by (simp add: m_def word_less_nat_alt)
      define d where "d = take (unat m) dataptr"
      have d: "length d = unat m" using m assms(2) by (simp add: d_def)
      let ?p = "p\<lparr>payload := overwrite (unat start) d (payload p)\<rparr>"
      have fits: "unat start + length d \<le> length (payload p)" using d m pre(3) Cons by simp
      have nm: "unat (n - m) = unat n - unat m" using m by (simp add: unat_minus word_le_nat_alt)
      show ?thesis
      proof (cases "n - m > 0")
        case True
        then have big: "unat m = length (payload p) - unat start" "unat m < unat n"
          using nm m by (auto simp: word_less_nat_alt)
        have "rest \<noteq> []" "unat (n - m) \<le> length (bytes rest)" using False pre Cons big nm by auto
        moreover have "unat (n - m) \<le> length (drop (unat m) dataptr)" using assms(2) nm by (simp add: diff_le_mono)
        ultimately obtain qs where qs: "pbuf_take rest (drop (unat m) dataptr) (n - m) = Some (ERR_OK, qs)"
          "same_shape rest qs" "bytes qs = overwrite 0 (take (unat n - unat m) (drop (unat m) dataptr)) (bytes rest)"
          using pbuf_take_spec [of rest "n - m" "drop (unat m) dataptr"] wfq Cons nm by auto
        have "pbuf_take_at ps dataptr n offset = Some (ERR_OK, pre @ ?p # qs)"
          using sk Cons tl pre False True qs(1) by (simp add: pbuf_take_at_def Let_def m_def [symmetric] d_def)
        moreover have "take (unat n) dataptr = d @ take (unat n - unat m) (drop (unat m) dataptr)"
          using big(2) unfolding d_def by (metis le_add_diff_inverse less_imp_le_nat take_add)
        ultimately show ?thesis
          using False fits qs(2,3) pre Cons big d
          by (auto simp: same_shape_append overwrite_after_append) (auto simp: overwrite_def)
      next
        case not: False
        then have "m = n" using nm m by (auto simp: word_less_nat_alt word_unat_eq_iff)
        have "pbuf_take_at ps dataptr n offset = Some (ERR_OK, pre @ ?p # rest)"
          using sk Cons tl pre False not by (simp add: pbuf_take_at_def Let_def m_def [symmetric] d_def)
        then show ?thesis using False fits pre Cons \<open>m = n\<close> d
          by (auto simp: same_shape_append overwrite_after_append overwrite_within_append d_def)
      qed
    qed
  qed
qed

end
