(* ===== verification/Pbuf_Chain.thy ===== *)
theory Pbuf_Chain
  imports Pbuf_Write
begin

text \<open>
  The structure of packet buffer chains, \<^verbatim>\<open>lwip/src/core/pbuf.c\<close>: allocation, reference counts,
  joining and splitting, header space, copying. The allocators are parameters: a block of memory
  is its list of bytes. Sizes are those of the K64 build (\<^verbatim>\<open>MEM_ALIGNMENT\<close> 4, a 16-byte
  \<^verbatim>\<open>struct pbuf\<close>, 16-bit \<^verbatim>\<open>mem_size_t\<close>, no link encapsulation, IPv4 only).
\<close>

section \<open>Reference counts\<close>

text \<open>The count of deallocated pbufs is 8 bits wide; the second result is what is left of the chain.\<close>

fun pbuf_free :: "chain \<Rightarrow> u8 \<times> chain" where
  "pbuf_free [] = (0, [])"
| "pbuf_free (p # ps) =
    (let r = ref p - 1 in
     if r = 0 then (case pbuf_free ps of (count, rest) \<Rightarrow> (count + 1, rest))
     else (0, p\<lparr>ref := r\<rparr> # ps))"

text \<open>
  The assertions on the way: there is a pbuf, and every one whose count is decreased is referenced. A count of 0 is the
  caller's mistake (the count would wrap around to 65535 and the chain be kept), so the operations that end with a call of
  \<^verbatim>\<open>pbuf_free\<close> are modelled for callers that hold a reference.
\<close>

fun pbuf_free_loop_asserts :: "chain \<Rightarrow> bool" where
  "pbuf_free_loop_asserts [] \<longleftrightarrow> True"
| "pbuf_free_loop_asserts (p # ps) \<longleftrightarrow> ref p > 0 \<and> (ref p - 1 = 0 \<longrightarrow> pbuf_free_loop_asserts ps)"

definition pbuf_free_asserts :: "chain \<Rightarrow> bool" where
  "pbuf_free_asserts p \<longleftrightarrow> p \<noteq> [] \<and> pbuf_free_loop_asserts p"

fun pbuf_ref :: "chain \<Rightarrow> chain" where
  "pbuf_ref [] = []"
| "pbuf_ref (p # ps) = p\<lparr>ref := ref p + 1\<rparr> # ps"

section \<open>Joining and splitting\<close>

definition pbuf_cat :: "chain \<Rightarrow> chain \<Rightarrow> chain" where
  "pbuf_cat h t = (if h = [] \<or> t = [] then h
     else map (\<lambda>p. p\<lparr>tot_len := tot_len p + tot_len (hd t)\<rparr>) h @ t)"

definition pbuf_chain :: "chain \<Rightarrow> chain \<Rightarrow> chain" where
  "pbuf_chain h t = (if h = [] \<or> t = [] then h
     else map (\<lambda>p. p\<lparr>tot_len := tot_len p + tot_len (hd t)\<rparr>) h @ pbuf_ref t)"

text \<open>The pbuf on its own, and the remaining tail (\<open>[]\<close> for \<^verbatim>\<open>NULL\<close>).\<close>

fun pbuf_dechain :: "chain \<Rightarrow> chain \<times> chain" where
  "pbuf_dechain [] = ([], [])"
| "pbuf_dechain [p] = ([p], [])"
| "pbuf_dechain (p # q # qs) =
    (case pbuf_free (q\<lparr>tot_len := tot_len p - len p\<rparr> # qs) of (tail_gone, rest) \<Rightarrow>
      ([p\<lparr>tot_len := len p\<rparr>], if tail_gone > 0 then [] else rest))"

text \<open>The kept chain and what other references keep of the tail; \<open>None\<close> for running off the chain.\<close>

fun realloc_loop :: "chain \<Rightarrow> u16 \<Rightarrow> u16 \<Rightarrow> (chain \<times> chain) option" where
  "realloc_loop [] rem_len grow = None"
| "realloc_loop (q # qs) rem_len grow =
    (if rem_len > len q
     then map_option (apfst (Cons (q\<lparr>tot_len := tot_len q + grow\<rparr>)))
       (realloc_loop qs (rem_len - len q) grow)
     else Some ([q\<lparr>payload := take (unat rem_len) (payload q), tot_len := rem_len\<rparr>], snd (pbuf_free qs)))"

definition pbuf_realloc :: "chain \<Rightarrow> u16 \<Rightarrow> (chain \<times> chain) option" where
  "pbuf_realloc p new_len =
    (if new_len \<ge> tot_len (hd p) then Some (p, []) else realloc_loop p new_len (new_len - tot_len (hd p)))"

section \<open>Header space\<close>

definition hide :: "nat \<Rightarrow> pbuf \<Rightarrow> pbuf" where
  "hide n p = p\<lparr>front := front p @ take n (payload p), payload := drop n (payload p),
     tot_len := tot_len p - word_of_nat n\<rparr>"

definition reveal :: "nat \<Rightarrow> pbuf \<Rightarrow> pbuf" where
  "reveal n p = (let k = length (front p) - n in
     p\<lparr>front := take k (front p), payload := drop k (front p) @ payload p,
       tot_len := tot_len p + word_of_nat n\<rparr>)"

text \<open>
  The header size increment is an \<^verbatim>\<open>s16_t\<close>. \<open>None\<close> stands for moving the payload pointer of a
  pbuf with external payload in front of the memory it is known to refer to.
\<close>

definition pbuf_header_impl :: "pbuf \<Rightarrow> int \<Rightarrow> bool \<Rightarrow> (u8 \<times> pbuf) option" where
  "pbuf_header_impl p header_size_increment force =
    (let inc = header_size_increment; n = nat \<bar>inc\<bar>; external = (ptype p = PBUF_REF \<or> ptype p = PBUF_ROM) in
     if inc = 0 then Some (0, p)
     else if inc < 0 then (if n > unat (len p) then Some (1, p) else Some (0, hide n p))
     else if external \<and> \<not> force then Some (1, p)
     else if n > length (front p) then (if external then None else Some (1, p))
     else Some (0, reveal n p))"

definition pbuf_header :: "pbuf \<Rightarrow> int \<Rightarrow> (u8 \<times> pbuf) option" where
  "pbuf_header p header_size_increment = pbuf_header_impl p header_size_increment False"

definition pbuf_header_force :: "pbuf \<Rightarrow> int \<Rightarrow> (u8 \<times> pbuf) option" where
  "pbuf_header_force p header_size_increment = pbuf_header_impl p header_size_increment True"

section \<open>Copying\<close>

text \<open>
  The copy loop from a position of the target and a position of the source. One of the two is
  always finished by the bytes moved, so a target that is not finished means the source pbuf is.
\<close>

definition is_queue :: "chain \<Rightarrow> bool" where
  "is_queue ps \<longleftrightarrow> ps \<noteq> [] \<and> len (hd ps) = tot_len (hd ps) \<and> tl ps \<noteq> []"

function copy_loop :: "chain \<Rightarrow> u16 \<Rightarrow> chain \<Rightarrow> u16 \<Rightarrow> err \<times> chain" where
  "copy_loop (t # ts) offset_to (f # fs) offset_from =
    (let
       n = (if len t - offset_to \<ge> len f - offset_from then len f - offset_from else len t - offset_to);
       t' = t\<lparr>payload := overwrite (unat offset_to)
         (take (unat n) (drop (unat offset_from) (payload f))) (payload t)\<rparr>;
       from_done = (offset_from + n \<ge> len f);
       to_done = (offset_to + n = len t);
       from' = (if from_done then fs else f # fs);
       to_rest = (if to_done then ts else t' # ts)
     in if to_done \<and> ts = [] \<and> from' \<noteq> [] then (ERR_ARG, [t'])
        else if is_queue from' \<or> is_queue to_rest then (ERR_VAL, t' # ts)
        else if from' = [] then (ERR_OK, t' # ts)
        else if to_done then apsnd (Cons t') (copy_loop ts 0 from' (if from_done then 0 else offset_from + n))
        else copy_loop (t' # ts) (offset_to + n) fs 0)"
| "copy_loop [] offset_to fs offset_from = (ERR_ARG, [])"
| "copy_loop (t # ts) offset_to [] offset_from = (ERR_OK, t # ts)"
  by pat_completeness auto
termination
  by (relation "measure (\<lambda>(ts, _, fs, _). length ts + length fs)") auto

definition pbuf_copy :: "chain \<Rightarrow> chain \<Rightarrow> err \<times> chain" where
  "pbuf_copy p_to p_from =
    (if p_to \<noteq> [] \<and> p_from \<noteq> [] \<and> tot_len (hd p_to) \<ge> tot_len (hd p_from)
     then copy_loop p_to 0 p_from 0 else (ERR_ARG, p_to))"

section \<open>Allocation\<close>

definition mem_align :: "nat \<Rightarrow> nat" where
  "mem_align n = (n + 3) div 4 * 4"

definition SIZEOF_STRUCT_PBUF :: nat where "SIZEOF_STRUCT_PBUF = 16"
definition PBUF_LINK_HLEN :: nat where "PBUF_LINK_HLEN = 14"
definition PBUF_IP_HLEN :: nat where "PBUF_IP_HLEN = 20"
definition PBUF_TRANSPORT_HLEN :: nat where "PBUF_TRANSPORT_HLEN = 20"
definition TCP_MSS :: nat where "TCP_MSS = 1500 - 40"

definition PBUF_POOL_BUFSIZE_ALIGNED :: nat where
  "PBUF_POOL_BUFSIZE_ALIGNED = mem_align (TCP_MSS + 40 + PBUF_LINK_HLEN)"

fun layer_offset :: "pbuf_layer \<Rightarrow> nat" where
  "layer_offset PBUF_TRANSPORT = PBUF_LINK_HLEN + PBUF_IP_HLEN + PBUF_TRANSPORT_HLEN"
| "layer_offset PBUF_IP = PBUF_LINK_HLEN + PBUF_IP_HLEN"
| "layer_offset PBUF_LINK = PBUF_LINK_HLEN"
| "layer_offset PBUF_RAW_TX = 0"
| "layer_offset PBUF_RAW = 0"

text \<open>A new pbuf on a block of memory that follows its struct, \<open>off\<close> bytes of it in front of the payload.\<close>

definition new_pbuf :: "pbuf_type \<Rightarrow> u8 list \<Rightarrow> nat \<Rightarrow> nat \<Rightarrow> u16 \<Rightarrow> pbuf" where
  "new_pbuf type block off n tot = \<lparr>front = take off block, payload = take n (drop off block),
     tot_len = tot, ptype = type, pflags = 0, ref = 1\<rparr>"

text \<open>
  \<open>memp_malloc k\<close> is the block the \<open>k\<close>-th request to \<^verbatim>\<open>MEMP_PBUF_POOL\<close> gets. When one fails, the
  chain so far is freed and the result is \<^verbatim>\<open>NULL\<close>.
\<close>

function pool_tail :: "(nat \<Rightarrow> u8 list option) \<Rightarrow> nat \<Rightarrow> nat \<Rightarrow> chain option" where
  "pool_tail memp_malloc k rem_len =
    (if rem_len = 0 then Some []
     else case memp_malloc k of None \<Rightarrow> None
     | Some block \<Rightarrow> let n = min rem_len PBUF_POOL_BUFSIZE_ALIGNED in
         map_option (Cons (new_pbuf PBUF_POOL block 0 n (word_of_nat rem_len)))
           (pool_tail memp_malloc (Suc k) (rem_len - n)))"
  by pat_completeness auto
termination
  by (relation "measure (\<lambda>(_, _, rem_len). rem_len)")
    (auto simp: PBUF_POOL_BUFSIZE_ALIGNED_def mem_align_def TCP_MSS_def PBUF_LINK_HLEN_def)

declare pool_tail.simps [simp del]

definition alloc_pool :: "(nat \<Rightarrow> u8 list option) \<Rightarrow> pbuf_layer \<Rightarrow> u16 \<Rightarrow> chain option" where
  "alloc_pool memp_malloc layer nbytes =
    (case memp_malloc 0 of None \<Rightarrow> None
     | Some block \<Rightarrow> let
         off = mem_align (layer_offset layer);
         n = min (unat nbytes) (PBUF_POOL_BUFSIZE_ALIGNED - off)
       in map_option (Cons (new_pbuf PBUF_POOL block off n nbytes))
            (pool_tail memp_malloc 1 (unat nbytes - n)))"

text \<open>\<^verbatim>\<open>mem_malloc\<close> gets a 16-bit size; the wrapped sum is refused.\<close>

definition alloc_ram :: "(u16 \<Rightarrow> u8 list option) \<Rightarrow> pbuf_layer \<Rightarrow> u16 \<Rightarrow> chain option" where
  "alloc_ram mem_malloc layer nbytes =
    (let
       off = mem_align (SIZEOF_STRUCT_PBUF + layer_offset layer);
       alloc_len = (word_of_nat (off + mem_align (unat nbytes)) :: u16)
     in if unat alloc_len < mem_align (unat nbytes) then None
        else case mem_malloc alloc_len of None \<Rightarrow> None
        | Some block \<Rightarrow> Some [new_pbuf PBUF_RAM block (off - SIZEOF_STRUCT_PBUF) (unat nbytes) nbytes])"

text \<open>
  A \<^verbatim>\<open>PBUF_ROM\<close> or \<^verbatim>\<open>PBUF_REF\<close> pbuf has no payload until its caller sets one, here the bytes \<open>ext\<close>.
\<close>

definition pbuf_alloc :: "(nat \<Rightarrow> u8 list option) \<Rightarrow> (u16 \<Rightarrow> u8 list option) \<Rightarrow> bool \<Rightarrow> u8 list \<Rightarrow>
    pbuf_layer \<Rightarrow> u16 \<Rightarrow> pbuf_type \<Rightarrow> chain option" where
  "pbuf_alloc memp_malloc mem_malloc memp_pbuf ext layer nbytes type =
    (case type of
       PBUF_POOL \<Rightarrow> alloc_pool memp_malloc layer nbytes
     | PBUF_RAM \<Rightarrow> alloc_ram mem_malloc layer nbytes
     | _ \<Rightarrow> if memp_pbuf then Some [new_pbuf type ext 0 (unat nbytes) nbytes] else None)"

definition pbuf_alloced_custom :: "pbuf_layer \<Rightarrow> u16 \<Rightarrow> pbuf_type \<Rightarrow> u8 list \<Rightarrow> u16 \<Rightarrow> chain option" where
  "pbuf_alloced_custom l nbytes type payload_mem payload_mem_len =
    (let off = mem_align (layer_offset l) in
     if off + unat nbytes > unat payload_mem_len then None
     else Some [(new_pbuf type payload_mem off (unat nbytes) nbytes)\<lparr>pflags := 2\<rparr>])"

text \<open>The single pbuf, and what other references keep of the old chain.\<close>

definition pbuf_coalesce :: "(u16 \<Rightarrow> u8 list option) \<Rightarrow> chain \<Rightarrow> pbuf_layer \<Rightarrow> chain \<times> chain" where
  "pbuf_coalesce mem_malloc p layer =
    (if tl p = [] then (p, [])
     else case alloc_ram mem_malloc layer (tot_len (hd p)) of
       None \<Rightarrow> (p, [])
     | Some q \<Rightarrow> (snd (pbuf_copy q p), snd (pbuf_free p)))"

end
