(* ===== verification/Pbuf_Props.thy ===== *)
theory Pbuf_Props
  imports Pbuf_Chain
begin

text \<open>
  What the packet buffer operations do to the bytes of a chain, and that they keep its invariant.
\<close>

section \<open>Joining and splitting\<close>

lemma cat_bytes: "h \<noteq> [] \<Longrightarrow> t \<noteq> [] \<Longrightarrow> bytes (pbuf_cat h t) = bytes h @ bytes t"
  by (simp add: pbuf_cat_def bytes_def comp_def)

lemma add_tot_wf:
  assumes "wf_chain h" "wf_chain t" "unat n = length (bytes t)" "length (bytes h) + length (bytes t) < 65536"
  shows "wf_chain (map (\<lambda>p. p\<lparr>tot_len := tot_len p + n\<rparr>) h @ t)"
  using assms(1,4)
proof (induction h)
  case Nil
  then show ?case using assms(2) by simp
next
  case (Cons p h)
  have "bytes (map (\<lambda>p. p\<lparr>tot_len := tot_len p + n\<rparr>) h) = bytes h" by (simp add: bytes_def comp_def)
  moreover have "unat (tot_len p + n) = unat (tot_len p) + unat n"
    using Cons.prems assms(3) by (intro unat_plus) simp
  ultimately show ?case using Cons assms(3) by simp
qed

lemma cat_wf:
  assumes "wf_chain h" "wf_chain t" "h \<noteq> []" "t \<noteq> []"
  shows "wf_chain (pbuf_cat h t) \<longleftrightarrow> length (bytes h) + length (bytes t) < 65536"
proof
  assume "wf_chain (pbuf_cat h t)"
  then have "length (bytes (pbuf_cat h t)) < 65536" by (rule wf_bytes_bound)
  then show "length (bytes h) + length (bytes t) < 65536" using assms(3,4) by (simp add: cat_bytes)
next
  assume "length (bytes h) + length (bytes t) < 65536"
  then show "wf_chain (pbuf_cat h t)"
    using add_tot_wf [OF assms(1,2) wf_tot_len [OF assms(2,4)]] assms(3,4) by (simp add: pbuf_cat_def)
qed

lemma realloc_loop_spec:
  assumes "wf_chain ps" "unat n < length (bytes ps)" "unat n + unat m = length (bytes ps)"
  shows "\<exists>k s. realloc_loop ps n (- m) = Some (k, s) \<and> bytes k = take (unat n) (bytes ps) \<and> wf_chain k \<and>
    k \<noteq> [] \<and> tot_len (hd k) = n"
  using assms
proof (induction ps arbitrary: n)
  case Nil
  then show ?case by simp
next
  case (Cons q qs)
  have k: "unat (len q) = length (payload q)" using Cons.prems wf_small [of "q # qs"] by (simp add: unat_len)
  show ?case
  proof (cases "n > len q")
    case True
    then have big: "length (payload q) < unat n" "unat (n - len q) = unat n - length (payload q)"
      using k by (simp_all add: word_less_nat_alt unat_minus word_le_nat_alt)
    with Cons obtain ks s where ks: "realloc_loop qs (n - len q) (- m) = Some (ks, s)"
      "bytes ks = take (unat n - length (payload q)) (bytes qs)" "wf_chain ks"
      using Cons.IH [of "n - len q"] by auto
    have "unat (n + m) = unat n + unat m"
      using Cons.prems unat_u16_bound [of "tot_len q"] by (intro unat_plus) simp
    then have "tot_len q = n + m" using Cons.prems by (simp add: word_unat_eq_iff)
    then have tot: "tot_len q - m = n" by simp
    show ?thesis using True ks big Cons.prems tot by (auto simp: min_def)
  next
    case False
    then have "unat n \<le> length (payload q)" using k by (simp add: word_le_nat_alt not_less)
    then show ?thesis using False by (auto simp: min_def)
  qed
qed

lemma realloc_loop_head:
  "realloc_loop (q # qs) n g = Some (k, s) \<Longrightarrow> length (payload q) < 65536 \<Longrightarrow>
    payload (hd k) = take (unat n) (payload q) \<and> front (hd k) = front q"
  by (auto simp: word_less_nat_alt unat_len split: if_splits)

lemma pbuf_realloc_spec:
  assumes "wf_chain (q # qs)"
  obtains h t s where "pbuf_realloc (q # qs) n = Some (h # t, s)" "wf_chain (h # t)" "bytes (h # t) = take (unat n) (bytes (q # qs))"
    "tot_len h = min n (tot_len q)" "payload h = take (unat n) (payload q)" "front h = front q"
proof (cases "tot_len q \<le> n")
  case True
  then have "length (bytes (q # qs)) \<le> unat n" using wf_tot_len [OF assms] by (simp add: word_le_nat_alt)
  then show thesis using that [of q qs "[]"] True assms by (simp add: pbuf_realloc_def min_def)
next
  case False
  let ?m = "tot_len q - n"
  have "unat ?m = length (bytes (q # qs)) - unat n" "unat n < length (bytes (q # qs))"
    using False wf_tot_len [OF assms] by (simp_all add: unat_minus word_le_nat_alt)
  then obtain k s where k: "realloc_loop (q # qs) n (- ?m) = Some (k, s)" "bytes k = take (unat n) (bytes (q # qs))" "wf_chain k"
    "k \<noteq> []" "tot_len (hd k) = n"
    using realloc_loop_spec [OF assms, of n ?m] by auto
  note h = realloc_loop_head [OF k(1)]
  have "length (payload q) < 65536" using wf_small [OF assms] by simp
  moreover have "min n (tot_len q) = n" using False by simp
  ultimately show thesis using k h False by (intro that [of "hd k" "tl k" s]) (simp_all add: pbuf_realloc_def)
qed

text \<open>Hiding a header and revealing it again.\<close>

lemma hide_reveal: "n \<le> length (payload p) \<Longrightarrow> reveal n (hide n p) = p"
  by (simp add: hide_def reveal_def Let_def)

lemma reveal_hide: "n \<le> length (front p) \<Longrightarrow> hide n (reveal n p) = p"
  by (simp add: hide_def reveal_def Let_def)

lemma header_wf:
  assumes "wf_chain (p # ps)"
  shows "n \<le> length (payload p) \<Longrightarrow> wf_chain (hide n p # ps)"
    and "n \<le> length (front p) \<Longrightarrow> n + length (bytes (p # ps)) < 65536 \<Longrightarrow> wf_chain (reveal n p # ps)"
proof -
  assume n: "n \<le> length (payload p)"
  have "n < 65536" using n wf_small [OF assms] by simp
  then have "unat (word_of_nat n :: u16) = n" by (rule unat_of_nat_u16)
  then have "unat (tot_len p - word_of_nat n) = unat (tot_len p) - n"
    using n assms by (simp add: unat_minus word_le_nat_alt)
  then show "wf_chain (hide n p # ps)" using assms n by (simp add: hide_def)
next
  assume n: "n \<le> length (front p)" "n + length (bytes (p # ps)) < 65536"
  then have "unat (word_of_nat n :: u16) = n" by (intro unat_of_nat_u16) simp
  then have "unat (tot_len p + word_of_nat n) = unat (tot_len p) + n"
    using n assms by (subst unat_plus) auto
  then show "wf_chain (reveal n p # ps)" using assms n by (simp add: reveal_def Let_def)
qed

section \<open>Reference counts\<close>

text \<open>The pbufs at the head of a chain that only one reference keeps.\<close>

definition unshared :: "chain \<Rightarrow> nat" where
  "unshared ps = length (takeWhile (\<lambda>p. ref p = 1) ps)"

lemma pbuf_free_spec:
  "pbuf_free ps = (word_of_nat (unshared ps),
     case drop (unshared ps) ps of [] \<Rightarrow> [] | p # rest \<Rightarrow> p\<lparr>ref := ref p - 1\<rparr> # rest)"
  by (induction ps) (auto simp: unshared_def Let_def)

text \<open>They hold exactly when there is a pbuf and the first one that is kept was referenced, so for every chain of referenced pbufs.\<close>

lemma free_loop_asserts_iff:
  "pbuf_free_loop_asserts ps \<longleftrightarrow> (case drop (unshared ps) ps of [] \<Rightarrow> True | p # rest \<Rightarrow> ref p \<noteq> 0)"
  by (induction ps) (auto simp: unshared_def word_greater_zero_iff)

lemma pbuf_free_asserts_iff:
  "pbuf_free_asserts ps \<longleftrightarrow> ps \<noteq> [] \<and> (case drop (unshared ps) ps of [] \<Rightarrow> True | p # rest \<Rightarrow> ref p \<noteq> 0)"
  by (simp add: pbuf_free_asserts_def free_loop_asserts_iff)

lemma referenced_asserts: "ps \<noteq> [] \<Longrightarrow> \<forall>p\<in>set ps. 0 < ref p \<Longrightarrow> pbuf_free_asserts ps"
proof -
  have "pbuf_free_loop_asserts ps" if "\<forall>p\<in>set ps. 0 < ref p" using that by (induction ps) auto
  then show "ps \<noteq> [] \<Longrightarrow> \<forall>p\<in>set ps. 0 < ref p \<Longrightarrow> pbuf_free_asserts ps" by (simp add: pbuf_free_asserts_def)
qed

lemma unreferenced_kept: "ref p = 0 \<Longrightarrow> pbuf_free (p # ps) = (0, p\<lparr>ref := 65535\<rparr> # ps)"
  by (simp add: Let_def)

section \<open>Copying\<close>

lemma copy_loop_step:
  assumes "unat ot \<le> length (payload t)" "unat fo \<le> length (payload f)"
    and "length (payload t) < 65536" "length (payload f) < 65536"
    and "n = (if len t - ot \<ge> len f - fo then len f - fo else len t - ot)"
  shows "unat n = min (length (payload t) - unat ot) (length (payload f) - unat fo)"
    and "unat (ot + n) = unat ot + unat n" "unat (fo + n) = unat fo + unat n"
    and "(fo + n \<ge> len f) = (unat fo + unat n = length (payload f))"
    and "(ot + n = len t) = (unat ot + unat n = length (payload t))"
proof -
  have k: "unat (len t) = length (payload t)" "unat (len f) = length (payload f)"
    using assms by (simp_all add: unat_len)
  have d: "unat (len t - ot) = length (payload t) - unat ot" "unat (len f - fo) = length (payload f) - unat fo"
    using assms k by (simp_all add: unat_minus word_le_nat_alt)
  show n: "unat n = min (length (payload t) - unat ot) (length (payload f) - unat fo)"
    using d assms(5) by (auto simp: word_le_nat_alt)
  show t: "unat (ot + n) = unat ot + unat n" and f: "unat (fo + n) = unat fo + unat n"
    using n assms(1-4) by (intro unat_plus; simp)+
  show "(fo + n \<ge> len f) = (unat fo + unat n = length (payload f))"
    using n f k assms(2) by (auto simp: word_le_nat_alt)
  show "(ot + n = len t) = (unat ot + unat n = length (payload t))"
    using t k by (simp add: word_unat_eq_iff)
qed


text \<open>A packet, not a packet queue: only the last pbuf can hold all that is left.\<close>

fun packet :: "chain \<Rightarrow> bool" where
  "packet [] \<longleftrightarrow> True"
| "packet (p # ps) \<longleftrightarrow> \<not> is_queue (p # ps) \<and> packet ps"

lemma packet_not_queue: "packet ps \<Longrightarrow> \<not> is_queue ps"
  by (cases ps) (auto simp: is_queue_def)

lemma packet_more:
  assumes "wf_chain (p # ps)" "packet (p # ps)" "ps \<noteq> []"
  shows "0 < length (bytes ps)"
proof (rule ccontr)
  assume "\<not> 0 < length (bytes ps)"
  then have "unat (tot_len p) = unat (len p)" using assms(1) wf_small [OF assms(1)] by (simp add: unat_len)
  then show False using assms(2,3) by (simp add: is_queue_def word_unat_eq_iff)
qed

lemma is_queue_same: "same_shape ps qs \<Longrightarrow> is_queue qs = is_queue ps"
  by (cases ps) (auto simp: is_queue_def same_shape_Cons_iff shape_def len_def same_shape_def)

lemma copy_loop_spec:
  assumes "wf_chain (t # ts)" "wf_chain (f # fs)" "packet (t # ts)" "packet (f # fs)"
    and "unat ot \<le> length (payload t)" "unat fo \<le> length (payload f)"
    and "length (bytes (f # fs)) - unat fo \<le> length (bytes (t # ts)) - unat ot"
  shows "\<exists>qs. copy_loop (t # ts) ot (f # fs) fo = (ERR_OK, qs) \<and> same_shape (t # ts) qs \<and>
    bytes qs = overwrite (unat ot) (drop (unat fo) (bytes (f # fs))) (bytes (t # ts))"
  using assms
proof (induction "length ts + length fs" arbitrary: t ts f fs ot fo rule: less_induct)
  case less
  let ?T = "length (payload t)" and ?F = "length (payload f)"
  define n where "n = (if len t - ot \<ge> len f - fo then len f - fo else len t - ot)"
  define d where "d = take (unat n) (drop (unat fo) (payload f))"
  define t' where "t' = t\<lparr>payload := overwrite (unat ot) d (payload t)\<rparr>"
  have sm: "?T < 65536" "?F < 65536" using wf_small [OF less.prems(1)] wf_small [OF less.prems(2)] by auto
  note st = copy_loop_step [OF less.prems(5,6) sm n_def]
  have d: "length d = unat n" using st(1) by (simp add: d_def)
  have fits: "unat ot + length d \<le> ?T" using d st(1) less.prems(5) by simp
  have sh: "shape t' = shape t" using fits by (simp add: t'_def)
  have q: "\<not> is_queue (t' # ts)" using is_queue_same [of "t # ts" "t' # ts"] sh packet_not_queue [OF less.prems(3)] by simp
  define rest where "rest = drop (unat fo + unat n) (bytes (f # fs))"
  have srcb: "drop (unat fo) (bytes (f # fs)) = d @ rest"
  proof -
    have "d @ drop (unat fo + unat n) (payload f) = drop (unat fo) (payload f)"
      unfolding d_def by (metis add.commute append_take_drop_id drop_drop)
    moreover have "unat fo + unat n \<le> ?F" using st(1) less.prems(6) by simp
    ultimately show ?thesis using less.prems(6) by (simp add: rest_def)
  qed
  have room: "unat ot + unat n + length rest \<le> length (bytes (t # ts))"
  proof -
    have "length (bytes (f # fs)) - unat fo = unat n + length rest"
      using arg_cong [OF srcb, of length] d by (simp del: bytes_simps)
    moreover have "?T \<le> length (bytes (t # ts))" by simp
    ultimately show ?thesis using less.prems(5,7) by linarith
  qed
  have dstb: "overwrite (unat ot) (d @ rest) (bytes (t # ts)) = overwrite (unat ot + unat n) rest (bytes (t' # ts))"
    using overwrite_append [of "unat ot" d rest "bytes (t # ts)"] room d fits
    by (simp add: t'_def overwrite_within_append)
  let ?fd = "unat fo + unat n = ?F" and ?td = "unat ot + unat n = ?T"
  have fin: "?fd \<or> ?td" using st(1) less.prems(5,6) by auto
  have step: "copy_loop (t # ts) ot (f # fs) fo =
     (if ?td \<and> ts = [] \<and> (if ?fd then fs else f # fs) \<noteq> [] then (ERR_ARG, [t'])
      else if is_queue (if ?fd then fs else f # fs) \<or> is_queue (if ?td then ts else t' # ts) then (ERR_VAL, t' # ts)
      else if (if ?fd then fs else f # fs) = [] then (ERR_OK, t' # ts)
      else if ?td then apsnd (Cons t') (copy_loop ts 0 (if ?fd then fs else f # fs) (if ?fd then 0 else fo + n))
      else copy_loop (t' # ts) (ot + n) fs 0)"
    by (simp only: copy_loop.simps(1) Let_def n_def [symmetric] d_def [symmetric] t'_def [symmetric] st(4,5))
  have wt: "wf_chain (t' # ts)" using same_shape_wf [of "t # ts" "t' # ts"] sh less.prems(1) by simp
  show ?case
  proof (cases "?fd \<and> fs = []")
    case True
    then have "rest = []" by (simp add: rest_def)
    moreover have "copy_loop (t # ts) ot (f # fs) fo = (ERR_OK, t' # ts)"
      unfolding step using True q packet_not_queue [of ts] less.prems(3) by (simp add: is_queue_def [of "[]"])
    ultimately show ?thesis unfolding srcb dstb using sh by simp
  next
    case False
    have "unat fo + unat n \<le> ?F" using st(1) less.prems(6) by simp
    then have left: "0 < length rest"
      using packet_more [OF less.prems(2,4)] False
      by (cases "fs = []") (simp_all add: rest_def trans_less_add1 flip: length_greater_0_conv)
    show ?thesis
    proof (cases "?td")
      case td: True
      then have "ts \<noteq> []" using room left by auto
      then obtain t2 ts2 where ts: "ts = t2 # ts2" by (cases ts) auto
      define f2 fo2 where "f2 = (if ?fd then fs else f # fs)" and "fo2 = (if ?fd then 0 else fo + n)"
      have "f2 \<noteq> []" using False by (auto simp: f2_def)
      have drop2: "drop (unat fo2) (bytes f2) = rest"
        using st(3) by (auto simp: f2_def fo2_def rest_def)
      have "\<exists>qs. copy_loop ts 0 f2 fo2 = (ERR_OK, qs) \<and> same_shape ts qs \<and>
          bytes qs = overwrite (unat (0 :: u16)) (drop (unat fo2) (bytes f2)) (bytes ts)"
      proof -
        obtain g gs where g: "f2 = g # gs" using \<open>f2 \<noteq> []\<close> by (cases f2) auto
        have "length ts2 + length gs < length ts + length fs"
          using g ts False by (auto simp: f2_def split: if_splits)
        moreover have "wf_chain f2" "packet f2" using less.prems(2,4) by (auto simp: f2_def)
        moreover have "unat fo2 \<le> length (payload g)"
          using g st(3) \<open>unat fo + unat n \<le> ?F\<close> by (auto simp: f2_def fo2_def split: if_splits)
        moreover have "length (bytes f2) - unat fo2 \<le> length (bytes ts) - unat (0 :: u16)"
          using arg_cong [OF drop2, of length] room td by simp
        ultimately show ?thesis unfolding g ts using less.prems(1,3) ts g
          by (intro less.hyps) auto
      qed
      then obtain qs where qs: "copy_loop ts 0 f2 fo2 = (ERR_OK, qs)" "same_shape ts qs"
        "bytes qs = overwrite 0 rest (bytes ts)" by (auto simp: drop2)
      have "\<not> is_queue f2" "\<not> is_queue ts"
        using packet_not_queue [OF less.prems(4)] packet_not_queue [of fs] packet_not_queue [of ts] less.prems(3,4)
        by (auto simp: f2_def)
      then have "copy_loop (t # ts) ot (f # fs) fo = (ERR_OK, t' # qs)"
        unfolding step using td \<open>f2 \<noteq> []\<close> \<open>ts \<noteq> []\<close> qs(1) by (simp add: f2_def fo2_def split: if_splits)
      then show ?thesis unfolding srcb dstb using sh qs(2,3) td fits
        by (simp add: t'_def overwrite_after_append)
    next
      case td: False
      then have fd: "?fd" "fs \<noteq> []" using fin False by auto
      then obtain f2 fs2 where fs: "fs = f2 # fs2" by (cases fs) auto
      have rest: "rest = bytes fs" using fd by (simp add: rest_def)
      have "\<exists>qs. copy_loop (t' # ts) (ot + n) (f2 # fs2) 0 = (ERR_OK, qs) \<and> same_shape (t' # ts) qs \<and>
          bytes qs = overwrite (unat (ot + n)) (drop (unat (0 :: u16)) (bytes (f2 # fs2))) (bytes (t' # ts))"
      proof (rule less.hyps)
        show "length ts + length fs2 < length ts + length fs" using fs by simp
        show "wf_chain (f2 # fs2)" "packet (f2 # fs2)" using less.prems(2,4) fs by auto
        show "packet (t' # ts)" using q less.prems(3) by simp
        show "unat (ot + n) \<le> length (payload t')" using st(2) fits d by (simp add: t'_def)
        show "length (bytes (f2 # fs2)) - unat (0 :: u16) \<le> length (bytes (t' # ts)) - unat (ot + n)"
          using room rest fs st(2) fits d by (simp add: t'_def)
      qed (use wt in simp_all)
      then obtain qs where qs: "copy_loop (t' # ts) (ot + n) fs 0 = (ERR_OK, qs)" "same_shape (t' # ts) qs"
        "bytes qs = overwrite (unat ot + unat n) rest (bytes (t' # ts))" by (auto simp: st(2) rest fs)
      have "\<not> is_queue fs" using packet_not_queue [of fs] less.prems(4) by simp
      then have "copy_loop (t # ts) ot (f # fs) fo = (ERR_OK, qs)"
        unfolding step using td fd q qs(1) by simp
      then show ?thesis unfolding srcb dstb using sh qs(2,3) by (simp add: same_shape_def)
    qed
  qed
qed

lemma pbuf_copy_spec:
  assumes "wf_chain p_to" "wf_chain p_from" "packet p_to" "packet p_from" "p_to \<noteq> []" "p_from \<noteq> []"
  shows "if length (bytes p_to) < length (bytes p_from) then pbuf_copy p_to p_from = (ERR_ARG, p_to)
    else \<exists>qs. pbuf_copy p_to p_from = (ERR_OK, qs) \<and> same_shape p_to qs \<and>
      bytes qs = overwrite 0 (bytes p_from) (bytes p_to)"
proof -
  obtain t ts f fs where "p_to = t # ts" "p_from = f # fs" using assms(5,6) by (meson neq_Nil_conv)
  then show ?thesis
    using copy_loop_spec [of t ts f fs 0 0] assms wf_tot_len [OF assms(1,5)] wf_tot_len [OF assms(2,6)]
    by (auto simp: pbuf_copy_def word_le_nat_alt)
qed

section \<open>Allocation\<close>

lemmas size_defs = PBUF_POOL_BUFSIZE_ALIGNED_def mem_align_def TCP_MSS_def PBUF_LINK_HLEN_def
  SIZEOF_STRUCT_PBUF_def PBUF_IP_HLEN_def PBUF_TRANSPORT_HLEN_def

text \<open>What is relied on of the allocators: a block is as long as was asked for.\<close>

definition pool_ok :: "(nat \<Rightarrow> u8 list option) \<Rightarrow> bool" where
  "pool_ok memp_malloc \<longleftrightarrow> (\<forall>k b. memp_malloc k = Some b \<longrightarrow> length b = PBUF_POOL_BUFSIZE_ALIGNED)"

definition heap_ok :: "(u16 \<Rightarrow> u8 list option) \<Rightarrow> bool" where
  "heap_ok mem_malloc \<longleftrightarrow> (\<forall>n b. mem_malloc n = Some b \<longrightarrow> unat n \<le> length b + SIZEOF_STRUCT_PBUF)"

lemma pool_tail_spec:
  assumes "pool_ok memp_malloc" "n < 65536" "pool_tail memp_malloc k n = Some ps"
  shows "wf_chain ps \<and> length (bytes ps) = n \<and> (\<forall>p\<in>set ps. ref p = 1 \<and> pflags p = 0 \<and> ptype p = PBUF_POOL)"
  using assms(2,3)
proof (induction memp_malloc\<equiv>memp_malloc k n arbitrary: ps rule: pool_tail.induct)
  case (1 k n)
  show ?case
  proof (cases "n = 0")
    case True
    then show ?thesis using 1 by (simp add: pool_tail.simps)
  next
    case False
    let ?m = "min n PBUF_POOL_BUFSIZE_ALIGNED"
    from False "1.prems"(2) obtain b qs where b: "memp_malloc k = Some b"
      "pool_tail memp_malloc (Suc k) (n - ?m) = Some qs"
      "ps = new_pbuf PBUF_POOL b 0 ?m (word_of_nat n) # qs"
      by (subst (asm) pool_tail.simps) (auto simp: Let_def split: option.splits)
    have "length b = PBUF_POOL_BUFSIZE_ALIGNED" using assms(1) b(1) by (auto simp: pool_ok_def)
    moreover have "wf_chain qs \<and> length (bytes qs) = n - ?m \<and>
        (\<forall>p\<in>set qs. ref p = 1 \<and> pflags p = 0 \<and> ptype p = PBUF_POOL)"
      using "1.hyps" [OF False b(1) refl _ b(2)] "1.prems"(1) by simp
    ultimately show ?thesis using b(3) "1.prems"(1) by (simp add: new_pbuf_def unat_of_nat_u16)
  qed
qed

lemma align_offset: "mem_align (layer_offset l) \<le> 56" "mem_align (16 + layer_offset l) = 16 + mem_align (layer_offset l)"
  by (cases l; simp add: size_defs)+

lemma alloc_pool_spec:
  assumes "pool_ok memp_malloc" "alloc_pool memp_malloc layer n = Some ps"
  shows "wf_chain ps \<and> ps \<noteq> [] \<and> length (bytes ps) = unat n \<and> length (front (hd ps)) = mem_align (layer_offset layer) \<and>
    (\<forall>p\<in>set ps. ref p = 1 \<and> pflags p = 0 \<and> ptype p = PBUF_POOL)"
proof -
  let ?off = "mem_align (layer_offset layer)"
  let ?m = "min (unat n) (PBUF_POOL_BUFSIZE_ALIGNED - ?off)"
  obtain b qs where b: "memp_malloc 0 = Some b" "pool_tail memp_malloc 1 (unat n - ?m) = Some qs"
    "ps = new_pbuf PBUF_POOL b ?off ?m n # qs"
    using assms(2) by (auto simp: alloc_pool_def Let_def split: option.splits)
  have "length b = PBUF_POOL_BUFSIZE_ALIGNED" using assms(1) b(1) by (auto simp: pool_ok_def)
  moreover have "?off \<le> PBUF_POOL_BUFSIZE_ALIGNED" using align_offset(1) [of layer] by (simp add: size_defs)
  ultimately show ?thesis
    using pool_tail_spec [OF assms(1) _ b(2)] unat_u16_bound [of n] b(3) by (simp add: new_pbuf_def)
qed

lemma alloc_ram_spec:
  assumes "heap_ok mem_malloc" "alloc_ram mem_malloc layer n = Some ps"
  shows "\<exists>p. ps = [p] \<and> wf_chain [p] \<and> length (payload p) = unat n \<and>
    length (front p) = mem_align (layer_offset layer) \<and> ref p = 1 \<and> pflags p = 0 \<and> ptype p = PBUF_RAM"
proof -
  define off al where "off = mem_align (layer_offset layer)" and "al = mem_align (unat n)"
  define alloc where "alloc = (word_of_nat (16 + off + al) :: u16)"
  have off: "mem_align (16 + layer_offset layer) = 16 + off" "off \<le> 56"
    using align_offset [of layer] by (simp_all add: off_def SIZEOF_STRUCT_PBUF_def)
  have al: "unat n \<le> al" "al \<le> 65536"
    using unat_u16_bound [of n] by (auto simp: al_def mem_align_def)
  have "alloc_ram mem_malloc layer n = (if unat alloc < al then None else case mem_malloc alloc of None \<Rightarrow> None
      | Some b \<Rightarrow> Some [new_pbuf PBUF_RAM b off (unat n) n])"
    unfolding alloc_ram_def Let_def off(1) alloc_def al_def SIZEOF_STRUCT_PBUF_def diff_add_inverse ..
  then obtain b where ge: "al \<le> unat alloc" and some: "mem_malloc alloc = Some b"
    and b: "ps = [new_pbuf PBUF_RAM b off (unat n) n]"
    using assms(2) by (auto split: if_splits option.splits)
  have "16 + off + al < 65536"
  proof (rule ccontr)
    assume big: "\<not> 16 + off + al < 65536"
    have "unat alloc = (16 + off + al) mod 65536" unfolding alloc_def unsigned_of_nat by (simp only: take_bit_eq_mod) simp
    also have "\<dots> = 16 + off + al - 65536" using big off(2) al(2) by (simp add: mod_if)
    finally show False using ge off(2) big by linarith
  qed
  then have "unat alloc = 16 + off + al" unfolding alloc_def by (rule unat_of_nat_u16)
  then have "off + unat n \<le> length b"
    using assms(1) some al(1) by (auto simp: heap_ok_def SIZEOF_STRUCT_PBUF_def dest!: spec)
  then show ?thesis using b by (simp add: new_pbuf_def off_def)
qed

lemma coalesce_spec:
  assumes "heap_ok mem_malloc" "wf_chain p" "packet p" "p \<noteq> []"
  shows "bytes (fst (pbuf_coalesce mem_malloc p layer)) = bytes p \<and> wf_chain (fst (pbuf_coalesce mem_malloc p layer))"
proof (cases "tl p = [] \<or> alloc_ram mem_malloc layer (tot_len (hd p)) = None")
  case True
  then show ?thesis using assms by (auto simp: pbuf_coalesce_def)
next
  case False
  then obtain q where al: "alloc_ram mem_malloc layer (tot_len (hd p)) = Some [q]"
    and q: "wf_chain [q]" "length (payload q) = length (bytes p)"
    using alloc_ram_spec [OF assms(1)] wf_tot_len [OF assms(2,4)] by (metis option.exhaust)
  have "packet [q]" by (simp add: is_queue_def)
  then obtain qs where "pbuf_copy [q] p = (ERR_OK, qs)" "same_shape [q] qs" "bytes qs = overwrite 0 (bytes p) (payload q)"
    using pbuf_copy_spec [of "[q]" p] assms q by auto
  then show ?thesis
    using False al q same_shape_wf [of "[q]" qs] by (simp add: pbuf_coalesce_def overwrite_def)
qed

text \<open>Chaining a tail on and taking it off again.\<close>

lemma chain_dechain:
  assumes "wf_chain [p]" "wf_chain t" "t \<noteq> []" "length (payload p) + length (bytes t) < 65536"
    and "0 < ref (hd t)" "ref (hd t) < 0xFFFF"
  shows "pbuf_dechain (pbuf_chain [p] t) = ([p], t)"
proof -
  obtain q qs where t: "t = q # qs" using assms(3) by (cases t) auto
  have p: "len p = tot_len p" using assms(1) wf_small [OF assms(1)] by (simp add: word_unat_eq_iff unat_len)
  have "ref q + 1 - 1 \<noteq> 0" "ref q + 1 - 1 = ref q" using assms(5) t by auto
  moreover have "len (p\<lparr>tot_len := x\<rparr>) = tot_len p" for x using p by (simp add: len_def)
  ultimately show ?thesis using t p by (simp add: pbuf_chain_def)
qed

section \<open>Properties\<close>

text \<open>Two small pbufs, to evaluate the operations on.\<close>

definition seg :: "u8 list \<Rightarrow> u16 \<Rightarrow> pbuf" where
  "seg xs n = \<lparr>front = [9, 9], payload = xs, tot_len = n, ptype = PBUF_RAM, pflags = 0, ref = 1\<rparr>"

definition hello :: chain where
  "hello = [seg [104, 101] 5, seg [108, 108, 111] 3]"

lemma hello_wf [simp]: "wf_chain hello" "hello \<noteq> []" "bytes hello = [104, 101, 108, 108, 111]" "packet hello"
  by (simp_all add: hello_def seg_def is_queue_def len_def)

text \<open>
  \<^verbatim>\<open>pbuf_copy_partial\<close> copies exactly the bytes of the chain from \<^verbatim>\<open>offset\<close> on, at most \<^verbatim>\<open>len\<close> of them,
  across pbuf boundaries, returns how many, and leaves the rest of the destination alone.
\<close>

theorem pbuf_copy_partial_exact:
  assumes "wf_chain buf" "unat n \<le> length dataptr"
  shows "pbuf_copy_partial buf dataptr n offset =
    (let d = take (unat n) (drop (unat offset) (bytes buf)) in
     (word_of_nat (length d), d @ drop (length d) dataptr))"
  using pbuf_copy_partial_spec [OF assms] by (simp add: overwrite_def Let_def)

theorem pbuf_copy_partial_exact_witness:
  "pbuf_copy_partial hello [0, 0, 0, 0] 3 1 = (3, [101, 108, 108, 0])"
  using pbuf_copy_partial_exact [of hello 3 "[0, 0, 0, 0]" 1] by simp

text \<open>
  What \<^verbatim>\<open>pbuf_take\<close> writes is what \<^verbatim>\<open>pbuf_copy_partial\<close> reads: data that fits is accepted, the
  chain keeps its invariant, and copying out the same number of bytes gives the data back; data
  that does not fit is refused with \<^verbatim>\<open>ERR_MEM\<close> and the chain is not touched.
\<close>

theorem pbuf_take_copy_roundtrip:
  assumes "wf_chain buf" "buf \<noteq> []" "length dataptr = unat n" "length dst = unat n"
  shows "if unat n \<le> length (bytes buf)
    then \<exists>buf'. pbuf_take buf dataptr n = Some (ERR_OK, buf') \<and> wf_chain buf' \<and>
      pbuf_copy_partial buf' dst n 0 = (n, dataptr)
    else pbuf_take buf dataptr n = Some (ERR_MEM, buf)"
proof (cases "unat n \<le> length (bytes buf)")
  case True
  then obtain qs where qs: "pbuf_take buf dataptr n = Some (ERR_OK, qs)" "same_shape buf qs"
    "bytes qs = overwrite 0 dataptr (bytes buf)"
    using pbuf_take_spec [OF assms(1,2), of n dataptr] assms(3) by auto
  have "wf_chain qs" using same_shape_wf [OF qs(2) assms(1)] .
  moreover have "take (unat n) (bytes qs) = dataptr" using qs(3) assms(3) by (simp add: overwrite_def)
  ultimately show ?thesis
    using True qs(1) assms(3,4) pbuf_copy_partial_spec [of qs n dst 0] by (simp add: overwrite_def)
next
  case False
  then show ?thesis using pbuf_take_spec [OF assms(1,2), of n dataptr] assms(3) by simp
qed

theorem pbuf_take_copy_roundtrip_witness:
  "\<exists>buf'. pbuf_take hello [1, 2, 3, 4] 4 = Some (ERR_OK, buf') \<and> wf_chain buf' \<and>
     pbuf_copy_partial buf' [0, 0, 0, 0] 4 0 = (4, [1, 2, 3, 4])"
  using pbuf_take_copy_roundtrip [of hello "[1, 2, 3, 4]" 4 "[0, 0, 0, 0]"] by simp

text \<open>
  \<^verbatim>\<open>pbuf_take_at\<close> overwrites exactly the bytes from \<^verbatim>\<open>offset\<close> on when they fit, and refuses with
  \<^verbatim>\<open>ERR_MEM\<close> otherwise; \<^verbatim>\<open>pbuf_get_at\<close> then reads the new byte at every position written and the old
  one at every other position.
\<close>

theorem pbuf_take_at_get_at:
  assumes "wf_chain buf" "0 < n" "length dataptr = unat n"
  shows "if unat offset + unat n \<le> length (bytes buf)
    then \<exists>buf'. pbuf_take_at buf dataptr n offset = Some (ERR_OK, buf') \<and> wf_chain buf' \<and>
      (\<forall>i. pbuf_get_at buf' i = (if unat offset \<le> unat i \<and> unat i < unat offset + unat n
         then dataptr ! (unat i - unat offset) else pbuf_get_at buf i))
    else pbuf_take_at buf dataptr n offset = Some (ERR_MEM, buf)"
proof (cases "unat offset + unat n \<le> length (bytes buf)")
  case True
  have "0 < unat n" using assms(2) by (simp add: word_less_nat_alt)
  then obtain qs where qs: "pbuf_take_at buf dataptr n offset = Some (ERR_OK, qs)" "same_shape buf qs"
    "bytes qs = overwrite (unat offset) dataptr (bytes buf)"
    using pbuf_take_at_spec [OF assms(1), of n dataptr offset] assms(3) True by auto
  have wf: "wf_chain qs" using same_shape_wf [OF qs(2) assms(1)] .
  have "pbuf_get_at qs i = (if unat offset \<le> unat i \<and> unat i < unat offset + unat n
      then dataptr ! (unat i - unat offset) else pbuf_get_at buf i)" for i
    using True assms(3) same_shape_bytes [OF qs(2)]
    by (auto simp: pbuf_get_at_spec wf assms(1) qs(3) overwrite_def nth_append min_def)
  then show ?thesis using True qs(1) wf by auto
next
  case False
  then show ?thesis
    using pbuf_take_at_spec [OF assms(1), of n dataptr offset] assms(2,3) by (simp add: word_less_nat_alt)
qed

theorem pbuf_take_at_get_at_witness:
  "\<exists>buf'. pbuf_take_at hello [7, 8] 2 1 = Some (ERR_OK, buf') \<and> pbuf_get_at buf' 0 = 104 \<and>
     pbuf_get_at buf' 1 = 7 \<and> pbuf_get_at buf' 2 = 8"
proof -
  from pbuf_take_at_get_at [of hello 2 "[7, 8]" 1] obtain buf' where
    "pbuf_take_at hello [7, 8] 2 1 = Some (ERR_OK, buf')"
    and get: "\<And>i. pbuf_get_at buf' i = (if unat (1 :: u16) \<le> unat i \<and> unat i < unat (1 :: u16) + unat (2 :: u16)
      then [7, 8] ! (unat i - unat (1 :: u16)) else pbuf_get_at hello i)"
    by (auto simp: word_less_nat_alt)
  then show ?thesis using get [of 0] get [of 1] get [of 2] by (simp add: pbuf_get_at_spec)
qed

text \<open>
  \<^verbatim>\<open>pbuf_memfind\<close> returns, and with the first position at or after \<^verbatim>\<open>start_offset\<close> at which the
  chain holds the pattern, or \<^verbatim>\<open>0xFFFF\<close> when there is none.
\<close>

theorem pbuf_memfind_first:
  assumes "wf_chain p" "p \<noteq> []" "length mem = unat mem_len"
  shows "\<exists>r. pbuf_memfind p mem mem_len start_offset = Some r \<and>
    (if \<exists>j\<ge>unat start_offset. occurs_at mem j (bytes p)
     then unat start_offset \<le> unat r \<and> occurs_at mem (unat r) (bytes p) \<and>
       (\<forall>j. unat start_offset \<le> j \<and> j < unat r \<longrightarrow> \<not> occurs_at mem j (bytes p))
     else r = 0xFFFF)"
  by (rule pbuf_memfind_spec [OF assms])

theorem pbuf_memfind_first_witness: "pbuf_memfind hello [108] 1 0 = Some 2"
proof -
  have at: "occurs_at [x] j xs \<longleftrightarrow> j < length xs \<and> xs ! j = x" for x :: u8 and j xs
    by (cases "j < length xs") (auto simp: occurs_at_def take_Suc hd_drop_conv_nth)
  have "occurs_at [108] 2 (bytes hello)" by (simp add: at)
  then obtain r where r: "pbuf_memfind hello [108] 1 0 = Some r" "occurs_at [108] (unat r) (bytes hello)"
    "\<forall>j < unat r. \<not> occurs_at [108] j (bytes hello)"
    using pbuf_memfind_first [of hello "[108]" 1 0] by (auto split: if_splits)
  have "unat r \<le> 2" using r(3) \<open>occurs_at [108] 2 (bytes hello)\<close> by (meson not_less)
  moreover have "\<not> occurs_at [108] 0 (bytes hello)" "\<not> occurs_at [108] 1 (bytes hello)"
    by (simp_all add: at)
  then have "unat r \<noteq> 0" "unat r \<noteq> 1" using r(2) by metis+
  ultimately have "r = 2" by (simp add: word_unat_eq_iff)
  with r(1) show ?thesis by simp
qed

text \<open>
  \<^verbatim>\<open>pbuf_memcmp\<close> returns \<^verbatim>\<open>0xffff\<close> when the chain is too short, 0 exactly when the chain holds
  the memory's bytes at \<^verbatim>\<open>offset\<close>, and otherwise one more than the index of the first difference.
\<close>

theorem pbuf_memcmp_exact:
  assumes "wf_chain p" "p \<noteq> []" "length s2 = unat n" "pbuf_memcmp p offset s2 n = r"
  shows "if length (bytes p) < unat offset + unat n then r = 0xffff
    else (r = 0 \<longleftrightarrow> occurs_at s2 (unat offset) (bytes p)) \<and>
      (r \<noteq> 0 \<longrightarrow> unat r \<le> unat n \<and> bytes p ! (unat offset + unat r - 1) \<noteq> s2 ! (unat r - 1) \<and>
        take (unat r - 1) (drop (unat offset) (bytes p)) = take (unat r - 1) s2)"
  by (rule pbuf_memcmp_spec [OF assms])

theorem pbuf_memcmp_exact_witness: "pbuf_memcmp hello 1 [101, 108] 2 = 0"
  using pbuf_memcmp_exact [of hello "[101, 108]" 2 1, OF _ _ _ refl] by (simp add: occurs_at_def)

text \<open>
  \<^verbatim>\<open>pbuf_cat\<close> puts the bytes of the tail behind those of the head; the total lengths it computes
  are right exactly when the sum fits in 16 bits.
\<close>

theorem pbuf_cat_bytes:
  assumes "wf_chain h" "wf_chain t" "h \<noteq> []" "t \<noteq> []"
  shows "bytes (pbuf_cat h t) = bytes h @ bytes t \<and>
    (wf_chain (pbuf_cat h t) \<longleftrightarrow> length (bytes h) + length (bytes t) < 65536)"
  using cat_bytes [OF assms(3,4)] cat_wf [OF assms] by blast

theorem pbuf_cat_bytes_witness:
  "wf_chain (pbuf_cat hello hello) \<and> length (bytes (pbuf_cat hello hello)) = 10"
  using pbuf_cat_bytes [of hello hello] by simp

text \<open>
  \<^verbatim>\<open>pbuf_realloc\<close> to a smaller length keeps exactly that many bytes from the front, with correct
  length fields, and never runs off the chain; it never enlarges.
\<close>

theorem pbuf_realloc_truncates:
  assumes "wf_chain p" "p \<noteq> []"
  shows "\<exists>k s. pbuf_realloc p new_len = Some (k, s) \<and> wf_chain k \<and> k \<noteq> [] \<and>
    bytes k = take (unat new_len) (bytes p) \<and> tot_len (hd k) = min new_len (tot_len (hd p))"
proof -
  obtain q qs where "p = q # qs" using assms(2) by (cases p) auto
  then show ?thesis using pbuf_realloc_spec [of q qs new_len] assms(1) by (metis list.distinct(1) list.sel(1))
qed

theorem pbuf_realloc_truncates_witness:
  "\<exists>k s. pbuf_realloc hello 3 = Some (k, s) \<and> bytes k = [104, 101, 108]"
  using pbuf_realloc_truncates [of hello 3] by auto

text \<open>
  Hiding a header with \<^verbatim>\<open>pbuf_header\<close> takes exactly that many bytes off the front of the packet and
  keeps the chain's invariant, and revealing it again with \<^verbatim>\<open>pbuf_header_force\<close> restores the pbuf; a
  header longer than the first pbuf is refused.
\<close>

theorem pbuf_header_roundtrip:
  assumes "wf_chain (p # ps)" "0 < n"
  shows "if n \<le> length (payload p)
    then \<exists>p'. pbuf_header p (- int n) = Some (0, p') \<and> wf_chain (p' # ps) \<and>
      bytes (p' # ps) = drop n (bytes (p # ps)) \<and> pbuf_header_force p' (int n) = Some (0, p)
    else pbuf_header p (- int n) = Some (1, p)"
proof (cases "n \<le> length (payload p)")
  case True
  have "unat (len p) = length (payload p)" using wf_small [OF assms(1)] by (simp add: unat_len)
  then have "pbuf_header p (- int n) = Some (0, hide n p)"
    using True assms(2) by (simp add: pbuf_header_def pbuf_header_impl_def Let_def)
  moreover have "pbuf_header_force (hide n p) (int n) = Some (0, p)"
    using True assms(2) hide_reveal [OF True]
    by (simp add: pbuf_header_force_def pbuf_header_impl_def Let_def) (simp add: hide_def)
  moreover have "bytes (hide n p # ps) = drop n (bytes (p # ps))" using True by (simp add: hide_def)
  ultimately show ?thesis using True header_wf(1) [OF assms(1) True] by auto
next
  case False
  then show ?thesis using assms wf_small [OF assms(1)]
    by (simp add: pbuf_header_def pbuf_header_impl_def Let_def unat_len)
qed

theorem pbuf_header_roundtrip_witness:
  "\<exists>p'. pbuf_header (hd hello) (- 2) = Some (0, p') \<and> pbuf_header_force p' 2 = Some (0, hd hello)"
  using pbuf_header_roundtrip [of "hd hello" "tl hello" 2] by (auto simp: hello_def seg_def)

text \<open>
  A pbuf that \<^verbatim>\<open>pbuf_alloc\<close> returns for a layer, from the pool or from the heap, is well formed and
  of the requested length, with one reference, and has room for the headers of the layers below:
  \<^verbatim>\<open>pbuf_header\<close> succeeds for their size.
\<close>

theorem pbuf_alloc_has_header_room:
  assumes "pool_ok memp_malloc" "heap_ok mem_malloc" "type = PBUF_POOL \<or> type = PBUF_RAM"
    and "pbuf_alloc memp_malloc mem_malloc memp_pbuf ext layer n type = Some ps"
  shows "wf_chain ps \<and> length (bytes ps) = unat n \<and> (\<forall>p\<in>set ps. ref p = 1) \<and>
    (\<exists>p'. pbuf_header (hd ps) (int (layer_offset layer)) = Some (0, p'))"
proof -
  have ps: "wf_chain ps \<and> length (bytes ps) = unat n \<and> (\<forall>p\<in>set ps. ref p = 1) \<and>
      ptype (hd ps) = type \<and> length (front (hd ps)) = mem_align (layer_offset layer)"
    using assms(3)
  proof
    assume "type = PBUF_POOL"
    then have "alloc_pool memp_malloc layer n = Some ps" using assms(4) by (simp add: pbuf_alloc_def)
    from alloc_pool_spec [OF assms(1) this] show ?thesis using \<open>type = PBUF_POOL\<close> by simp
  next
    assume "type = PBUF_RAM"
    then have "alloc_ram mem_malloc layer n = Some ps" using assms(4) by (simp add: pbuf_alloc_def)
    from alloc_ram_spec [OF assms(2) this] show ?thesis using \<open>type = PBUF_RAM\<close> by auto
  qed
  moreover have "layer_offset layer \<le> mem_align (layer_offset layer)" by (auto simp: mem_align_def)
  ultimately show ?thesis using assms(3) by (auto simp: pbuf_header_def pbuf_header_impl_def Let_def)
qed

theorem pbuf_alloc_has_header_room_witness:
  "\<exists>ps. pbuf_alloc (\<lambda>_. None) (\<lambda>n. Some (replicate (unat n) 0)) False [] PBUF_IP 5 PBUF_RAM = Some ps \<and>
     wf_chain ps \<and> length (bytes ps) = 5"
proof -
  let ?h = "\<lambda>n :: u16. Some (replicate (unat n) (0 :: u8))"
  obtain ps where ps: "pbuf_alloc (\<lambda>_. None) ?h False [] PBUF_IP 5 PBUF_RAM = Some ps"
    by (simp add: pbuf_alloc_def alloc_ram_def Let_def size_defs)
  from pbuf_alloc_has_header_room [OF _ _ _ ps] show ?thesis using ps
    by (auto simp: pool_ok_def heap_ok_def)
qed

text \<open>
  \<^verbatim>\<open>pbuf_coalesce\<close> keeps the bytes of the packet, whether or not memory for the single pbuf can be
  had.
\<close>

theorem pbuf_coalesce_keeps_bytes:
  assumes "heap_ok mem_malloc" "wf_chain p" "packet p" "p \<noteq> []"
  shows "bytes (fst (pbuf_coalesce mem_malloc p layer)) = bytes p \<and>
    wf_chain (fst (pbuf_coalesce mem_malloc p layer))"
  by (rule coalesce_spec [OF assms])

theorem pbuf_coalesce_keeps_bytes_witness:
  "bytes (fst (pbuf_coalesce (\<lambda>n. Some (replicate (unat n) 0)) hello PBUF_RAW)) = [104, 101, 108, 108, 111]"
  using pbuf_coalesce_keeps_bytes [of "\<lambda>n. Some (replicate (unat n) 0)" hello PBUF_RAW]
  by (simp add: heap_ok_def)

text \<open>
  Chaining a tail behind a pbuf and dechaining it gives both back, reference count included, as
  long as the caller still holds its reference to the tail.
\<close>

theorem pbuf_chain_dechain:
  assumes "wf_chain [p]" "wf_chain t" "t \<noteq> []" "length (payload p) + length (bytes t) < 65536"
    and "0 < ref (hd t)" "ref (hd t) < 0xFFFF"
  shows "pbuf_dechain (pbuf_chain [p] t) = ([p], t)"
  by (rule chain_dechain [OF assms])

theorem pbuf_chain_dechain_witness:
  "pbuf_dechain (pbuf_chain [seg [1, 2] 2] hello) = ([seg [1, 2] 2], hello)"
  by (rule pbuf_chain_dechain) (simp_all add: hello_def seg_def)

end
