(* ===== verification/Chksum_Props.thy ===== *)
theory Chksum_Props
  imports Chksum Pbuf_Props
begin

text \<open>
  The checksum functions on buffers, chains and pseudo headers, for every routine that returns the
  word sum, and the interpretations on the three versions of \<^verbatim>\<open>lwip_standard_chksum\<close>.
\<close>

section \<open>Bytes in memory\<close>

lemma sum16_mem16: "sum16 (mem16 w @ xs) = unat w + sum16 xs"
  using unat_u16_bound [of w] by (simp add: mem16_def unat_drop_bit)

lemma sum16_mem32: "sum16 (mem32 w @ xs) = unat w mod 65536 + unat w div 65536 + sum16 xs"
proof -
  have "unat w < 2 ^ 32" using unsigned_less [of w] by simp
  then have "unat w div 16777216 mod 256 = unat w div 65536 div 256" by simp
  moreover have "unat w mod 65536 = unat w mod 256 + 256 * (unat w div 256 mod 256)"
    using mod_mult2_eq [of "unat w" 256 256] by simp
  ultimately show ?thesis by (simp add: mem32_def unat_drop_bit)
qed

lemma mem16_htons: "mem16 (lwip_htons w) = [ucast (drop_bit 8 w), ucast w]"
  using unat_u16_bound [of w]
  by (simp add: mem16_def word_unat_eq_iff unat_drop_bit unat_htons)

lemma load16_mem16 [simp]: "load16 (ucast w) (ucast (drop_bit 8 w)) = w"
  using unat_u16_bound [of w] by (simp add: word_unat_eq_iff unat_load16 unat_drop_bit)

lemma htons_htons [simp]: "lwip_htons (lwip_htons w) = w"
  using unat_u16_bound [of w] by (simp add: word_unat_eq_iff unat_htons)

section \<open>Clients of the checksum routine\<close>

definition weight :: "bool \<Rightarrow> nat" where
  "weight swapped = (if swapped then 256 else 1)"

lemma weight_twice: "oceq (weight (\<not> sw) * (256 * n)) (weight sw * n)"
  using oceq_65536 [of n 0] by (simp add: weight_def)

lemma weight_pos [simp]: "0 < weight sw"
  by (simp add: weight_def)

lemma unswap_oceq:
  assumes "unat acc < 65536"
  shows "oceq (unat (unswap (acc, sw))) (weight sw * unat acc)" "unat (unswap (acc, sw)) < 65536"
  using swap_oceq [OF assms] assms by (simp_all add: unswap_def weight_def)

definition chain_ok :: "chain \<Rightarrow> bool" where
  "chain_ok p \<longleftrightarrow> list_all (\<lambda>q. length (payload q) < 65536) p"

lemma len_parity: "length (payload q) < 65536 \<Longrightarrow> (len q mod 2 \<noteq> 0) = odd (length (payload q))"
  by (simp add: len_def word_unat_eq_iff unat_mod unat_of_nat_u16 odd_iff_mod_2_eq_one)

lemma u16_of_low: "unat w < 65536 \<Longrightarrow> ucast (NOT (w AND 0xffff)) = NOT (ucast (w :: u32) :: u16)"
  by (rule bit_eqI) (auto simp: bit_simps and_masks)

lemma add_sum_step:
  fixes c :: u16
  assumes "unat acc < 65536"
  defines "s \<equiv> FOLD_U32T (acc + ucast c)"
  shows "oceq (unat s) (unat acc + unat c)" "unat s < 65536"
proof -
  have "unat (acc + ucast c) = unat acc + unat c"
    using assms(1) unat_u16_bound [of c] by (subst unat_plus) auto
  moreover from this have "unat (acc + ucast c) \<le> 0x1fffe" using assms(1) unat_u16_bound [of c] by simp
  ultimately show "oceq (unat s) (unat acc + unat c)" "unat s < 65536"
    unfolding s_def using fold_oceq fold_bound by metis+
qed

lemma weight_swap:
  assumes "unat s < 65536"
  shows "oceq (weight (\<not> sw) * unat (SWAP_BYTES_IN_WORD s)) (weight sw * unat s)"
  by (rule oceq_trans [OF oceq_mult [OF weight_pos swap_oceq(1) [OF assms]] weight_twice])

lemma sum16_append_weight:
  "oceq (weight sw * sum16 (xs @ ys)) (weight sw * sum16 xs + weight (sw \<noteq> odd (length xs)) * sum16 ys)"
proof -
  have a: "oceq (weight sw * sum16 (xs @ ys))
      (weight sw * (sum16 xs + (if even (length xs) then sum16 ys else 256 * sum16 ys)))"
    by (rule oceq_mult [OF weight_pos sum16_append])
  show ?thesis
  proof (cases "even (length xs)")
    case True
    then show ?thesis using a by (simp add: distrib_left)
  next
    case False
    have "oceq (weight sw * (256 * sum16 ys)) (weight (\<not> sw) * sum16 ys)"
      using weight_twice [of "\<not> sw"] by simp
    from oceq_add [OF oceq_refl this] show ?thesis
      using a False oceq_trans by (fastforce simp: distrib_left)
  qed
qed

text \<open>One round of the loops over a chain: add, fold, and swap after an odd number of bytes.\<close>

lemma chain_step:
  fixes c :: u16 and sw :: bool
  assumes "unat acc < 65536" "oceq (unat c) (sum16 xs)"
  defines "s \<equiv> FOLD_U32T (acc + ucast c)" and "sw' \<equiv> sw \<noteq> odd (length xs)"
  defines "s' \<equiv> if odd (length xs) then SWAP_BYTES_IN_WORD s else s"
  shows "unat s' < 65536" "oceq (weight sw' * (unat s' + sum16 ys)) (weight sw * (unat acc + sum16 (xs @ ys)))"
proof -
  have s: "unat s < 65536" "oceq (unat s) (unat acc + sum16 xs)"
    using add_sum_step [OF assms(1), of c] oceq_trans [OF _ oceq_add [OF oceq_refl assms(2)]]
    unfolding s_def by blast+
  show "unat s' < 65536" using s(1) swap_oceq(2) [OF s(1)] by (simp add: s'_def)
  have "oceq (weight sw' * unat s') (weight sw * unat s)"
    using weight_swap [OF s(1)] by (simp add: s'_def sw'_def)
  then have "oceq (weight sw' * unat s') (weight sw * (unat acc + sum16 xs))"
    by (rule oceq_trans [OF _ oceq_mult [OF weight_pos s(2)]])
  from oceq_add [OF this oceq_refl [of "weight sw' * sum16 ys"]]
  have 1: "oceq (weight sw' * (unat s' + sum16 ys))
      (weight sw * unat acc + (weight sw * sum16 xs + weight sw' * sum16 ys))"
    by (simp add: distrib_left add.assoc)
  have 2: "oceq (weight sw * sum16 xs + weight sw' * sum16 ys) (weight sw * sum16 (xs @ ys))"
    unfolding sw'_def by (rule oceq_sym [OF sum16_append_weight])
  show "oceq (weight sw' * (unat s' + sum16 ys)) (weight sw * (unat acc + sum16 (xs @ ys)))"
    using oceq_trans [OF 1 oceq_add [OF oceq_refl 2]] by (simp add: distrib_left)
qed

locale chksum_routine =
  fixes LWIP_CHKSUM :: chksum
  assumes chk_sum: "length data \<le> 0x20000 \<Longrightarrow> oceq (unat (LWIP_CHKSUM a data)) (sum16 data)"
begin

text \<open>The alignment of the data does not matter.\<close>

lemma chk_align: "length data \<le> 0x20000 \<Longrightarrow> LWIP_CHKSUM a data = LWIP_CHKSUM b data"
  using oceq_unique [OF oceq_trans [OF chk_sum oceq_sym [OF chk_sum]]] unat_u16_bound
  by (simp add: word_unat_eq_iff)

lemma chk_unique:
  "length data \<le> 0x20000 \<Longrightarrow> oceq n (sum16 data) \<Longrightarrow> n < 65536 \<Longrightarrow> unat (LWIP_CHKSUM a data) = n"
  using oceq_unique [OF oceq_trans [OF chk_sum oceq_sym]] unat_u16_bound by simp

lemma chain_sum_spec:
  assumes "chain_ok p" "unat acc < 65536" "chain_sum LWIP_CHKSUM addr_of p acc sw = (acc', sw')"
  shows "unat acc' < 65536 \<and> oceq (weight sw' * unat acc') (weight sw * (unat acc + sum16 (bytes p)))"
  using assms
proof (induction p arbitrary: acc sw)
  case Nil
  then show ?case by (simp add: bytes_def)
next
  case (Cons q qs)
  have q: "length (payload q) < 65536" "chain_ok qs" using Cons.prems(1) by (auto simp: chain_ok_def)
  have c: "oceq (unat (LWIP_CHKSUM (addr_of q) (payload q))) (sum16 (payload q))" using chk_sum q(1) by simp
  note step = chain_step(1) [OF Cons.prems(2) c] chain_step(2) [OF Cons.prems(2) c, where sw = sw and ys = "bytes qs"]
  have "chain_sum LWIP_CHKSUM addr_of qs (if odd (length (payload q))
      then SWAP_BYTES_IN_WORD (FOLD_U32T (acc + ucast (LWIP_CHKSUM (addr_of q) (payload q))))
      else FOLD_U32T (acc + ucast (LWIP_CHKSUM (addr_of q) (payload q)))) (sw \<noteq> odd (length (payload q))) = (acc', sw')"
    using Cons.prems(3) len_parity [OF q(1)]
    by (cases "odd (length (payload q))") (simp_all add: Let_def split: if_splits)
  from Cons.IH [OF q(2) step(1) this] show ?case
    using oceq_trans [OF _ step(2)] by (simp add: bytes_def)
qed

end

text \<open>The pseudo header the protocol sums over, and the tail of the pseudo sums.\<close>

definition pseudo_header :: "(u32 \<times> u32) list \<Rightarrow> u8 \<Rightarrow> u16 \<Rightarrow> u8 list" where
  "pseudo_header as proto proto_len =
    concat (map (\<lambda>(src, dest). mem32 src @ mem32 dest) as) @ mem16 (lwip_htons (ucast proto)) @ mem16 (lwip_htons proto_len)"

lemma addr_acc_spec:
  assumes "unat acc + 131070 < 2 ^ 32"
  shows "unat (addr_acc acc a) = unat acc + sum16 (mem32 a)"
proof -
  have lt: "unat a < 2 ^ 32" using unsigned_less [of a] by simp
  have h: "unat (a AND 0xffff) = unat a mod 65536" "unat (drop_bit 16 a AND 0xffff) = unat a div 65536"
    using lt unfolding and_masks unsigned_take_bit_eq by (simp_all add: take_bit_eq_mod unat_drop_bit)
  have b: "unat a mod 65536 \<le> 65535" "unat a div 65536 \<le> 65535" using lt by auto
  have "unat (acc + (a AND 0xffff)) = unat acc + unat a mod 65536"
    using assms h b by (subst unat_plus) auto
  then have "unat (addr_acc acc a) = unat acc + unat a mod 65536 + unat a div 65536"
    unfolding addr_acc_def using assms h b by (subst unat_plus) auto
  then show ?thesis using sum16_mem32 [of a "[]"] by simp
qed

lemma sum16_mem32_bound: "sum16 (mem32 a) \<le> 131070"
  using sum16_bound [of "mem32 a"] by (simp add: mem32_def)

lemma sum16_mem32_append: "sum16 (mem32 a @ xs) = sum16 (mem32 a) + sum16 xs"
  using sum16_mem32 [of a xs] sum16_mem32 [of a "[]"] by simp

lemma addr_loop_spec:
  "unat acc + 262140 * length as < 2 ^ 32 \<Longrightarrow>
     unat (addr_loop as acc) + sum16 xs = unat acc + sum16 (concat (map (\<lambda>(src, dest). mem32 src @ mem32 dest) as) @ xs)"
proof (induction as acc rule: addr_loop.induct)
  case (2 src dest as acc)
  have 1: "unat (addr_acc acc src) = unat acc + sum16 (mem32 src)"
    using "2.prems" by (intro addr_acc_spec) simp
  have 2: "unat (addr_acc (addr_acc acc src) dest) = unat acc + sum16 (mem32 src) + sum16 (mem32 dest)"
    using "2.prems" 1 sum16_mem32_bound [of src] by (subst addr_acc_spec) simp_all
  show ?case
    using "2.IH" "2.prems" 2 sum16_mem32_bound [of src] sum16_mem32_bound [of dest]
    by (simp add: sum16_mem32_append)
qed simp

lemma addr_sum_spec:
  assumes "length as \<le> 4"
  shows "unat (addr_sum as) < 65536"
    "oceq (unat (addr_sum as) + sum16 xs) (sum16 (concat (map (\<lambda>(src, dest). mem32 src @ mem32 dest) as) @ xs))"
proof -
  show "unat (addr_sum as) < 65536" unfolding addr_sum_def by (rule fold_fold_bound)
  have "oceq (unat (addr_sum as)) (unat (addr_loop as 0))"
    unfolding addr_sum_def by (rule oceq_trans [OF fold_oceq fold_oceq])
  from oceq_add [OF this oceq_refl [of "sum16 xs"]]
  show "oceq (unat (addr_sum as) + sum16 xs) (sum16 (concat (map (\<lambda>(src, dest). mem32 src @ mem32 dest) as) @ xs))"
    using addr_loop_spec [of 0 as xs] assms by simp
qed

lemma pseudo_tail_spec:
  assumes "unat acc < 65536"
  shows "\<exists>n. pseudo_tail proto proto_len acc = NOT n \<and>
    oceq (unat n) (unat acc + unat (lwip_htons (ucast proto)) + unat (lwip_htons proto_len))"
proof -
  define w where "w = acc + ucast (lwip_htons (ucast proto)) + ucast (lwip_htons proto_len)"
  have h: "unat (lwip_htons (ucast proto)) < 65536" "unat (lwip_htons proto_len) < 65536"
    by (rule unat_u16_bound)+
  have "unat (acc + ucast (lwip_htons (ucast proto))) = unat acc + unat (lwip_htons (ucast proto))"
    using assms h by (subst unat_plus) auto
  then have w: "unat w = unat acc + unat (lwip_htons (ucast proto)) + unat (lwip_htons proto_len)"
    unfolding w_def using assms h by (subst unat_plus) auto
  have "unat (FOLD_U32T (FOLD_U32T w)) < 65536" by (rule fold_fold_bound)
  moreover from this have "pseudo_tail proto proto_len acc = NOT (ucast (FOLD_U32T (FOLD_U32T w)))"
    unfolding pseudo_tail_def Let_def w_def [symmetric] by (rule u16_of_low)
  moreover have "oceq (unat (FOLD_U32T (FOLD_U32T w))) (unat w)" by (rule oceq_trans [OF fold_oceq fold_oceq])
  ultimately show ?thesis using w by (auto simp: unat_ucast_down)
qed

lemma sum16_even_append: "even (length xs) \<Longrightarrow> sum16 (xs @ ys) = sum16 xs + sum16 ys"
  by (induction xs rule: sum16.induct) auto

lemma take_len:
  "length (payload q) < 65536 \<Longrightarrow>
     take (unat (if len q > n then n else len q)) (payload q) = take (unat n) (payload q)"
  by (auto simp: len_def word_less_nat_alt unat_of_nat_u16)

context chksum_routine
begin

lemma chain_sum_unswapped:
  assumes "chain_ok p" "unat acc < 65536"
  shows "unat (unswap (chain_sum LWIP_CHKSUM addr_of p acc False)) < 65536"
    "oceq (unat (unswap (chain_sum LWIP_CHKSUM addr_of p acc False))) (unat acc + sum16 (bytes p))"
proof -
  obtain acc' sw' where run: "chain_sum LWIP_CHKSUM addr_of p acc False = (acc', sw')" by fastforce
  from chain_sum_spec [OF assms run]
  have "unat acc' < 65536" "oceq (weight sw' * unat acc') (unat acc + sum16 (bytes p))" by (simp_all add: weight_def)
  then show "unat (unswap (chain_sum LWIP_CHKSUM addr_of p acc False)) < 65536"
    "oceq (unat (unswap (chain_sum LWIP_CHKSUM addr_of p acc False))) (unat acc + sum16 (bytes p))"
    unfolding run using unswap_oceq oceq_trans by blast+
qed

text \<open>The scattered sum is the sum of the bytes, as if they were contiguous at any address.\<close>

lemma inet_chksum_pbuf_contiguous:
  assumes "chain_ok p" "length (bytes p) < 65536"
  shows "inet_chksum_pbuf LWIP_CHKSUM addr_of p = inet_chksum LWIP_CHKSUM a (bytes p)"
proof -
  let ?u = "unswap (chain_sum LWIP_CHKSUM addr_of p 0 False)"
  have u: "unat ?u < 65536" "oceq (unat ?u) (sum16 (bytes p))"
    using chain_sum_unswapped [OF assms(1), of 0] by simp_all
  then have "unat (LWIP_CHKSUM a (bytes p)) = unat ?u" using assms(2) by (intro chk_unique) simp_all
  then have "LWIP_CHKSUM a (bytes p) = ucast ?u" using u(1) by (simp add: word_unat_eq_iff unat_ucast_down)
  then show ?thesis using u16_of_low [OF u(1)] by (simp add: inet_chksum_pbuf_def inet_chksum_def)
qed

lemma pseudo_tail_contiguous:
  assumes "length as \<le> 4" "unat u < 65536" "oceq (unat u) (unat (addr_sum as) + sum16 data)"
    and "length (pseudo_header as proto proto_len @ data) < 65536"
  shows "pseudo_tail proto proto_len u = inet_chksum LWIP_CHKSUM a (pseudo_header as proto proto_len @ data)"
proof -
  let ?P = "lwip_htons (ucast proto) :: u16" and ?L = "lwip_htons proto_len"
  obtain n where n: "pseudo_tail proto proto_len u = NOT n" "oceq (unat n) (unat u + unat ?P + unat ?L)"
    using pseudo_tail_spec [OF assms(2)] by blast
  have "oceq (unat u + unat ?P + unat ?L) (unat (addr_sum as) + sum16 (mem16 ?P @ mem16 ?L @ data))"
    using oceq_add [OF assms(3) oceq_refl [of "unat ?P + unat ?L"]] by (simp add: sum16_mem16 ac_simps)
  then have "oceq (unat n) (sum16 (pseudo_header as proto proto_len @ data))"
    using oceq_trans [OF n(2)] oceq_trans [OF _ addr_sum_spec(2) [OF assms(1)]] by (simp add: pseudo_header_def)
  then have "unat (LWIP_CHKSUM a (pseudo_header as proto proto_len @ data)) = unat n"
    using assms(4) unat_u16_bound [of n] by (intro chk_unique) simp_all
  then have "LWIP_CHKSUM a (pseudo_header as proto proto_len @ data) = n" by (simp add: word_unat_eq_iff)
  then show ?thesis using n(1) by (simp add: inet_chksum_def)
qed

lemma pseudo_base_contiguous:
  assumes "chain_ok p" "length as \<le> 4" "length (pseudo_header as proto proto_len @ bytes p) < 65536"
  shows "inet_cksum_pseudo_base LWIP_CHKSUM addr_of p proto proto_len (addr_sum as) =
    inet_chksum LWIP_CHKSUM a (pseudo_header as proto proto_len @ bytes p)"
  unfolding inet_cksum_pseudo_base_def
  using chain_sum_unswapped [OF assms(1) addr_sum_spec(1) [OF assms(2)]] assms
  by (intro pseudo_tail_contiguous) simp_all

text \<open>A message with its checksum stored in a field at an even offset sums to zero.\<close>

lemma inet_chksum_verifies:
  fixes a b :: nat
  assumes "even (length pre)" "length (pre @ mem16 0 @ post) < 65536"
  defines "c \<equiv> inet_chksum LWIP_CHKSUM a (pre @ mem16 0 @ post)"
  shows "inet_chksum LWIP_CHKSUM b (pre @ mem16 c @ post) = 0"
proof -
  let ?s = "LWIP_CHKSUM a (pre @ mem16 0 @ post)"
  have s: "oceq (unat ?s) (sum16 (pre @ mem16 0 @ post))" using assms(2) by (intro chk_sum) simp
  have "c = - 1 - ?s" unfolding c_def inet_chksum_def by (simp add: not_eq_complement)
  then have c: "unat c = 65535 - unat ?s" by (simp add: unat_minus unsigned_minus_1_eq_mask mask_eq_exp_minus_1)
  have "sum16 (pre @ mem16 c @ post) = unat c + sum16 (pre @ mem16 0 @ post)"
    using assms(1) by (simp add: sum16_even_append sum16_mem16)
  moreover have "oceq (unat c + unat ?s) (unat c + sum16 (pre @ mem16 0 @ post))"
    by (rule oceq_add [OF oceq_refl s])
  ultimately have "oceq 65535 (sum16 (pre @ mem16 c @ post))"
    using c unat_u16_bound [of ?s] by simp
  then have "unat (LWIP_CHKSUM b (pre @ mem16 c @ post)) = 65535"
    using assms(2) by (intro chk_unique) (simp_all add: mem16_def)
  then have "LWIP_CHKSUM b (pre @ mem16 c @ post) = - 1"
    by (simp add: word_unat_eq_iff unsigned_minus_1_eq_mask mask_eq_exp_minus_1)
  then show ?thesis by (simp add: inet_chksum_def)
qed

end

lemma chain_sum_partial_0 [simp]: "chain_sum_partial C addr_of qs 0 acc sw = Some (acc, sw)"
  by (cases qs) simp_all

text \<open>The last buffer of a partial sum: swapping by the parity of the whole buffer is undone at the end.\<close>

lemma last_step:
  fixes c :: u16 and n :: nat
  assumes "unat acc < 65536" "oceq (unat c) (sum16 xs)"
  defines "s \<equiv> FOLD_U32T (acc + ucast c)"
  defines "s' \<equiv> if odd n then SWAP_BYTES_IN_WORD s else s"
  shows "unat s' < 65536" "oceq (weight (sw \<noteq> odd n) * unat s') (weight sw * (unat acc + sum16 xs))"
proof -
  have s: "unat s < 65536" "oceq (unat s) (unat acc + sum16 xs)"
    using add_sum_step [OF assms(1), of c] oceq_trans [OF _ oceq_add [OF oceq_refl assms(2)]]
    unfolding s_def by blast+
  then show "unat s' < 65536" using swap_oceq(2) by (simp add: s'_def)
  have "oceq (weight (sw \<noteq> odd n) * unat s') (weight sw * unat s)"
    using weight_swap [OF s(1)] by (simp add: s'_def)
  then show "oceq (weight (sw \<noteq> odd n) * unat s') (weight sw * (unat acc + sum16 xs))"
    by (rule oceq_trans [OF _ oceq_mult [OF weight_pos s(2)]])
qed

context chksum_routine
begin

lemma chain_sum_partial_spec:
  assumes "chain_ok p" "unat acc < 65536" "unat n < 0x7fff"
  shows "\<exists>acc' sw'. chain_sum_partial LWIP_CHKSUM addr_of p n acc sw = Some (acc', sw') \<and> unat acc' < 65536 \<and>
    oceq (weight sw' * unat acc') (weight sw * (unat acc + sum16 (take (unat n) (bytes p))))"
  using assms
proof (induction p arbitrary: acc sw n)
  case Nil
  then show ?case by (simp add: bytes_def)
next
  case (Cons q qs)
  let ?xs = "take (unat n) (payload q)"
  define s where "s = FOLD_U32T (acc + ucast (LWIP_CHKSUM (addr_of q) ?xs))"
  define sw1 where "sw1 \<longleftrightarrow> sw \<noteq> odd (length (payload q))"
  define s1 where "s1 = (if odd (length (payload q)) then SWAP_BYTES_IN_WORD s else s)"
  have q: "length (payload q) < 65536" "chain_ok qs" using Cons.prems(1) by (auto simp: chain_ok_def)
  have l: "unat (len q) = length (payload q)" using q(1) by (simp add: len_def unat_of_nat_u16)
  have c: "oceq (unat (LWIP_CHKSUM (addr_of q) ?xs)) (sum16 ?xs)" using chk_sum q(1) by simp
  have left: "unat (n - (if len q > n then n else len q)) = unat n - length (payload q)"
    using l by (auto simp: word_less_nat_alt unat_minus word_le_nat_alt)
  have run: "chain_sum_partial LWIP_CHKSUM addr_of (q # qs) n acc sw =
      chain_sum_partial LWIP_CHKSUM addr_of qs (n - (if len q > n then n else len q)) s1 sw1" if "n > 0"
    using that len_parity [OF q(1)] left Cons.prems(3) take_len [OF q(1), of n]
    by (cases "odd (length (payload q))") (auto simp: Let_def s1_def sw1_def s_def word_less_nat_alt)
  consider "n = 0" | "n > 0" "length (payload q) \<le> unat n" | "n > 0" "unat n < length (payload q)"
    by (metis word_neq_0_conv not_le)
  then show ?case
  proof cases
    case 1
    then show ?thesis using Cons.prems(2) by simp
  next
    case 2
    let ?ys = "take (unat n - length (payload q)) (bytes qs)"
    have st: "unat s1 < 65536" "oceq (weight sw1 * (unat s1 + sum16 ?ys)) (weight sw * (unat acc + sum16 (?xs @ ?ys)))"
      using chain_step(1) [OF Cons.prems(2) c] chain_step(2) [OF Cons.prems(2) c, of sw ?ys] 2
      unfolding s1_def sw1_def s_def by simp_all
    have "unat (n - (if len q > n then n else len q)) < 0x7fff" unfolding left using Cons.prems(3) by simp
    from Cons.IH [OF q(2) st(1) this, of sw1] show ?thesis
      unfolding run [OF 2(1)] left using oceq_trans [OF _ st(2)] by (auto simp: bytes_def)
  next
    case 3
    then have "n - (if len q > n then n else len q) = 0" using l by (simp add: word_less_nat_alt)
    moreover have "unat s1 < 65536" "oceq (weight sw1 * unat s1) (weight sw * (unat acc + sum16 ?xs))"
      using last_step(1) [OF Cons.prems(2) c, of "length (payload q)"]
        last_step(2) [OF Cons.prems(2) c, of sw "length (payload q)"]
      unfolding s1_def sw1_def s_def by simp_all
    ultimately show ?thesis unfolding run [OF 3(1)] using 3(2) by (simp add: bytes_def)
  qed
qed

lemma pseudo_partial_contiguous:
  assumes "chain_ok p" "length as \<le> 4" "unat n < 0x7fff"
  shows "inet_cksum_pseudo_partial_base LWIP_CHKSUM addr_of p proto proto_len n (addr_sum as) =
    Some (inet_chksum LWIP_CHKSUM a (pseudo_header as proto proto_len @ take (unat n) (bytes p)))"
proof -
  obtain acc' sw' where run: "chain_sum_partial LWIP_CHKSUM addr_of p n (addr_sum as) False = Some (acc', sw')"
    "unat acc' < 65536" "oceq (weight sw' * unat acc') (unat (addr_sum as) + sum16 (take (unat n) (bytes p)))"
    using chain_sum_partial_spec [OF assms(1) addr_sum_spec(1) [OF assms(2)] assms(3), of addr_of False]
    by (auto simp: weight_def)
  have "length (pseudo_header as proto proto_len) \<le> 8 * length as + 4"
    by (induction as) (auto simp: pseudo_header_def mem16_def mem32_def)
  then have "length (pseudo_header as proto proto_len @ take (unat n) (bytes p)) < 65536"
    using assms(2,3) by simp
  then show ?thesis
    unfolding inet_cksum_pseudo_partial_base_def run(1)
    using unswap_oceq(2) [OF run(2)] oceq_trans [OF unswap_oceq(1) [OF run(2)] run(3)] assms(2)
    by (auto intro!: pseudo_tail_contiguous)
qed

end

section \<open>The three versions\<close>

interpretation v1: chksum_routine lwip_standard_chksum_1
  by unfold_locales (rule lwip_standard_chksum_1_sum)

interpretation v2: chksum_routine lwip_standard_chksum
  by unfold_locales (rule lwip_standard_chksum_sum)

interpretation v3: chksum_routine lwip_standard_chksum_3
  by unfold_locales (rule lwip_standard_chksum_3_sum)

lemma wf_chain_ok: "wf_chain p \<Longrightarrow> chain_ok p"
proof (induction p)
  case (Cons q qs)
  then show ?case using unat_u16_bound [of "tot_len q"] by (simp add: chain_ok_def)
qed (simp add: chain_ok_def)

lemma wf_chain_length: "wf_chain p \<Longrightarrow> length (bytes p) < 65536"
  using unat_u16_bound [of "tot_len (hd p)"] by (cases p) (simp_all add: bytes_def)

text \<open>The address words that the pseudo header of the destination's protocol version holds.\<close>

definition addr_words :: "ip_addr \<Rightarrow> ip_addr \<Rightarrow> (u32 \<times> u32) list" where
  "addr_words src dest = (if is_v6 dest then addr_pairs src dest else [(addr0 src, addr0 dest)])"

text \<open>
  C38: The three implementations of \<^verbatim>\<open>lwip_standard_chksum\<close> that \<^verbatim>\<open>LWIP_CHKSUM_ALGORITHM\<close> selects
  (byte-wise in network order, word-wise with an alignment fix, eight bytes a round with the carries
  added back) return the same 16 bits for every data of at most 0x20000 bytes at every three
  addresses, aligned or not.
\<close>

theorem chksum_versions_agree:
  assumes "length data \<le> 0x20000"
  shows "lwip_standard_chksum_1 a data = lwip_standard_chksum b data \<and>
    lwip_standard_chksum_3 c data = lwip_standard_chksum b data"
  unfolding word_unat_eq_iff
  using v2.chk_unique [OF assms lwip_standard_chksum_1_sum [OF assms, of a] unat_u16_bound, of b]
    v2.chk_unique [OF assms lwip_standard_chksum_3_sum [of c] unat_u16_bound, of b]
  by simp

theorem chksum_versions_agree_witness:
  "length [1 :: u8, 2, 3] \<le> 0x20000 \<and> lwip_standard_chksum_1 0 [1, 2, 3] = lwip_standard_chksum 1 [1, 2, 3] \<and>
    lwip_standard_chksum_3 3 [1, 2, 3] = lwip_standard_chksum 1 [1, 2, 3]"
  using chksum_versions_agree [of "[1, 2, 3]" 0 1 3] by simp

text \<open>
  C39: The checksum of a pbuf chain is the checksum of its bytes laid out contiguously, wherever the
  chain is cut, odd lengths and misaligned payloads included.
\<close>

theorem inet_chksum_pbuf_is_inet_chksum:
  assumes "wf_chain p"
  shows "inet_chksum_pbuf lwip_standard_chksum addr_of p = inet_chksum lwip_standard_chksum a (bytes p)"
  using v2.inet_chksum_pbuf_contiguous [OF wf_chain_ok wf_chain_length] assms by simp

theorem inet_chksum_pbuf_is_inet_chksum_witness:
  "inet_chksum_pbuf lwip_standard_chksum (\<lambda>q. 1) hello = inet_chksum lwip_standard_chksum 0 (bytes hello)"
  using inet_chksum_pbuf_is_inet_chksum [of hello "\<lambda>q. 1" 0] by simp

text \<open>
  A message into whose checksum field, at an even offset and zero before, \<^verbatim>\<open>inet_chksum\<close> of the
  message is stored has checksum zero, which is the test the receiver makes.
\<close>

theorem inet_chksum_accepts:
  assumes "even (length pre)" "length (pre @ mem16 0 @ post) < 65536"
  shows "inet_chksum lwip_standard_chksum b
    (pre @ mem16 (inet_chksum lwip_standard_chksum a (pre @ mem16 0 @ post)) @ post) = 0"
  using v2.inet_chksum_verifies [OF assms] .

theorem inet_chksum_accepts_witness:
  "even (length [0x45 :: u8, 0]) \<and> length ([0x45, 0] @ mem16 0 @ [7]) < 65536 \<and>
   inet_chksum lwip_standard_chksum 1
    ([0x45, 0] @ mem16 (inet_chksum lwip_standard_chksum 0 ([0x45, 0] @ mem16 0 @ [7])) @ [7]) = 0"
  using inet_chksum_accepts [of "[0x45, 0]" "[7]" 1 0] by (simp add: mem16_def)

text \<open>
  The TCP and UDP checksum of a chain, full or over its first \<^verbatim>\<open>chksum_len\<close> bytes, IPv4 or IPv6,
  is the checksum of the pseudo header followed by those bytes; the partial sums never fail their
  assertion for fewer than 0x7fff bytes.
\<close>

theorem ip_chksum_pseudo_contiguous:
  assumes "wf_chain p" "unat n < 0x7fff" "length (pseudo_header (addr_words src dest) proto proto_len @ bytes p) < 65536"
  shows "ip_chksum_pseudo lwip_standard_chksum addr_of p proto proto_len src dest =
      inet_chksum lwip_standard_chksum a (pseudo_header (addr_words src dest) proto proto_len @ bytes p) \<and>
    ip_chksum_pseudo_partial lwip_standard_chksum addr_of p proto proto_len n src dest =
      Some (inet_chksum lwip_standard_chksum a
        (pseudo_header (addr_words src dest) proto proto_len @ take (unat n) (bytes p)))"
proof -
  have "length (addr_words src dest) \<le> 4" by (simp add: addr_words_def addr_pairs_def)
  from v2.pseudo_base_contiguous [OF wf_chain_ok [OF assms(1)] this assms(3), of addr_of a]
    v2.pseudo_partial_contiguous [OF wf_chain_ok [OF assms(1)] this assms(2), of addr_of proto proto_len a]
  show ?thesis
    by (cases "is_v6 dest") (simp_all add: addr_words_def ip_chksum_pseudo_def ip_chksum_pseudo_partial_def ip6_chksum_pseudo_def
      inet_chksum_pseudo_def ip6_chksum_pseudo_partial_def inet_chksum_pseudo_partial_def)
qed

theorem ip_chksum_pseudo_contiguous_witness:
  "ip_chksum_pseudo_partial lwip_standard_chksum (\<lambda>q. 0) hello 17 13 2
      \<lparr>addr0 = 0x0100000a, addr1 = 0, addr2 = 0, addr3 = 0, is_v6 = False\<rparr>
      \<lparr>addr0 = 0x0200000a, addr1 = 0, addr2 = 0, addr3 = 0, is_v6 = False\<rparr> =
    Some (inet_chksum lwip_standard_chksum 1 ([10, 0, 0, 1, 10, 0, 0, 2, 0, 17, 0, 13] @ take 2 (bytes hello)))"
proof -
  let ?src = "\<lparr>addr0 = 0x0100000a, addr1 = 0, addr2 = 0, addr3 = 0, is_v6 = False\<rparr>"
  let ?dest = "\<lparr>addr0 = 0x0200000a, addr1 = 0, addr2 = 0, addr3 = 0, is_v6 = False\<rparr>"
  have h: "pseudo_header (addr_words ?src ?dest) 17 13 = [10, 0, 0, 1, 10, 0, 0, 2, 0, 17, 0, 13]"
    by (simp add: pseudo_header_def addr_words_def mem16_htons mem32_def)
  show ?thesis using ip_chksum_pseudo_contiguous [of hello 2 ?src ?dest 17 13 "\<lambda>q. 0" 1] by (simp add: h)
qed

end
