(* ===== verification/Ip4_Addr.thy ===== *)
theory Ip4_Addr
  imports Lwip_Def Chksum_Props
begin

text \<open>
  IPv4 addresses, \<^verbatim>\<open>lwip/src/core/ipv4/ip4_addr.c\<close> and the macros of \<^verbatim>\<open>ip4_addr.h\<close>. An address is
  kept in network byte order, so the first byte in memory is the low byte of the word.
\<close>

section \<open>Masks and broadcast\<close>

definition IPADDR_NONE :: u32 where "IPADDR_NONE = 0xffffffff"
definition IPADDR_ANY :: u32 where "IPADDR_ANY = 0"
definition IPADDR_BROADCAST :: u32 where "IPADDR_BROADCAST = 0xffffffff"

definition LWIP_MAKEU32 :: "u32 \<Rightarrow> u32 \<Rightarrow> u32 \<Rightarrow> u32 \<Rightarrow> u32" where
  "LWIP_MAKEU32 a b c d =
    push_bit 24 (a AND 0xff) OR push_bit 16 (b AND 0xff) OR push_bit 8 (c AND 0xff) OR (d AND 0xff)"

definition IP4_ADDR :: "u32 \<Rightarrow> u32 \<Rightarrow> u32 \<Rightarrow> u32 \<Rightarrow> u32" where
  "IP4_ADDR a b c d = lwip_htonl (LWIP_MAKEU32 a b c d)"

definition ip4_addr_netcmp :: "u32 \<Rightarrow> u32 \<Rightarrow> u32 \<Rightarrow> bool" where
  "ip4_addr_netcmp a b netmask = (a AND netmask = b AND netmask)"

definition ip4_addr_isloopback :: "u32 \<Rightarrow> bool" where
  "ip4_addr_isloopback addr = (addr AND lwip_htonl 0xff000000 = lwip_htonl (push_bit 24 127))"

definition ip4_addr_ismulticast :: "u32 \<Rightarrow> bool" where
  "ip4_addr_ismulticast addr = (addr AND lwip_htonl 0xf0000000 = lwip_htonl 0xe0000000)"

definition ip4_addr_islinklocal :: "u32 \<Rightarrow> bool" where
  "ip4_addr_islinklocal addr = (addr AND lwip_htonl 0xffff0000 = lwip_htonl 0xa9fe0000)"

text \<open>What the IPv4 code reads of \<^verbatim>\<open>struct netif\<close>: three of its flags, its addresses and its MTU.\<close>

record netif4 =
  can_broadcast :: bool
  netif_is_up :: bool
  netif_is_link_up :: bool
  ip_addr4 :: u32
  netmask4 :: u32
  gw4 :: u32
  mtu :: u16

definition ip4_addr_isbroadcast_u32 :: "u32 \<Rightarrow> netif4 \<Rightarrow> bool" where
  "ip4_addr_isbroadcast_u32 addr netif =
    (if NOT addr = IPADDR_ANY \<or> addr = IPADDR_ANY then True
     else if \<not> can_broadcast netif then False
     else if addr = ip_addr4 netif then False
     else if ip4_addr_netcmp addr (ip_addr4 netif) (netmask4 netif) \<and>
             addr AND NOT (netmask4 netif) = IPADDR_BROADCAST AND NOT (netmask4 netif) then True
     else False)"

function first_zero :: "u32 \<Rightarrow> u32 \<Rightarrow> u32" where
  "first_zero nm_hostorder m =
    (if m \<noteq> 0 then if nm_hostorder AND m = 0 then m else first_zero nm_hostorder (drop_bit 1 m) else m)"
  by pat_completeness auto
termination
  by (relation "measure (\<lambda>(n, m). unat m)")
    (simp_all add: drop_bit_eq_div unat_div unat_gt_0)

function no_one_left :: "u32 \<Rightarrow> u32 \<Rightarrow> bool" where
  "no_one_left nm_hostorder m =
    (if m \<noteq> 0 then if nm_hostorder AND m \<noteq> 0 then False else no_one_left nm_hostorder (drop_bit 1 m) else True)"
  by pat_completeness auto
termination
  by (relation "measure (\<lambda>(n, m). unat m)")
    (simp_all add: drop_bit_eq_div unat_div unat_gt_0)

definition ip4_addr_netmask_valid :: "u32 \<Rightarrow> bool" where
  "ip4_addr_netmask_valid netmask =
    (let nm_hostorder = lwip_htonl netmask in no_one_left nm_hostorder (first_zero nm_hostorder (push_bit 31 1)))"

section \<open>Parsing\<close>

definition in_range :: "char \<Rightarrow> nat \<Rightarrow> nat \<Rightarrow> bool" where
  "in_range c lo up = (lo \<le> of_char c \<and> of_char c \<le> up)"

definition isdigit :: "char \<Rightarrow> bool" where "isdigit c = in_range c 48 57"
definition isxdigit :: "char \<Rightarrow> bool" where "isxdigit c = (isdigit c \<or> in_range c 97 102 \<or> in_range c 65 70)"
definition islower :: "char \<Rightarrow> bool" where "islower c = in_range c 97 122"
definition isspace :: "char \<Rightarrow> bool" where
  "isspace c = (c = CHR 0x20 \<or> c = CHR 0x0C \<or> c = CHR 0x0A \<or> c = CHR 0x0D \<or> c = CHR 0x09 \<or> c = CHR 0x0B)"

text \<open>The digits of one part; a base of 10, 8 or 16.\<close>

fun collect_number :: "u32 \<Rightarrow> u32 \<Rightarrow> string \<Rightarrow> u32 \<times> string" where
  "collect_number val base [] = (val, [])"
| "collect_number val base (c # cp) =
    (if isdigit c then collect_number (val * base + (of_char c - 48)) base cp
     else if base = 16 \<and> isxdigit c
     then collect_number (push_bit 4 val OR (of_char c + 10 - (if islower c then 97 else 65))) base cp
     else (val, c # cp))"

definition one_part :: "string \<Rightarrow> u32 \<times> string" where
  "one_part cp =
    (if cur cp = CHR ''0'' then
       let cp = tl cp in
       if cur cp = CHR ''x'' \<or> cur cp = CHR ''X'' then collect_number 0 16 (tl cp) else collect_number 0 8 cp
     else collect_number 0 10 cp)"

function collect_parts :: "string \<Rightarrow> u32 list \<Rightarrow> (u32 list \<times> u32 \<times> string) option" where
  "collect_parts cp parts =
    (if \<not> isdigit (cur cp) then None
     else case one_part cp of (val, cp) \<Rightarrow>
       if cur cp = CHR ''.'' then
         if length parts \<ge> 3 then None else collect_parts (tl cp) (parts @ [val])
       else Some (parts, val, cp))"
  by pat_completeness auto
termination
  by (relation "measure (\<lambda>(cp, parts). 3 - length parts)") auto

definition concoct :: "u32 list \<Rightarrow> u32 \<Rightarrow> u32 option" where
  "concoct parts val = (case parts of
      [] \<Rightarrow> Some val
    | [a] \<Rightarrow> if val > 0xffffff then None else if a > 0xff then None else Some (val OR push_bit 24 a)
    | [a, b] \<Rightarrow> if val > 0xffff then None else if a > 0xff \<or> b > 0xff then None
        else Some (val OR (push_bit 24 a OR push_bit 16 b))
    | a # b # c # _ \<Rightarrow> if val > 0xff then None else if a > 0xff \<or> b > 0xff \<or> c > 0xff then None
        else Some (val OR (push_bit 24 a OR push_bit 16 b OR push_bit 8 c)))"

text \<open>\<open>None\<close> is the result 0, \<open>Some addr\<close> the result 1 with the address stored.\<close>

definition ip4addr_aton :: "string \<Rightarrow> u32 option" where
  "ip4addr_aton cp = (case collect_parts cp [] of
      None \<Rightarrow> None
    | Some (parts, val, cp) \<Rightarrow>
        if cur cp \<noteq> nul \<and> \<not> isspace (cur cp) then None else map_option lwip_htonl (concoct parts val))"

definition ipaddr_addr :: "string \<Rightarrow> u32" where
  "ipaddr_addr cp = (case ip4addr_aton cp of Some v \<Rightarrow> v | None \<Rightarrow> IPADDR_NONE)"

section \<open>Printing\<close>

text \<open>The digits of a byte, last digit first, as they are put into \<^verbatim>\<open>inv\<close>.\<close>

function inv_digits :: "u8 \<Rightarrow> string" where
  "inv_digits ap =
    (let rem = ap mod 10; ap = ap div 10 in char_of (48 + unat rem) # (if ap \<noteq> 0 then inv_digits ap else []))"
  by pat_completeness auto
termination
  by (relation "measure unat") (auto simp: unat_div unat_gt_0 intro!: div_less_dividend)

text \<open>\<^verbatim>\<open>Inl\<close> is the result NULL, with what has been written to \<^verbatim>\<open>buf\<close> by then.\<close>

definition put_char :: "int \<Rightarrow> char \<Rightarrow> string \<Rightarrow> string + string" where
  "put_char buflen c rp = (if int (length rp) \<ge> buflen then Inl rp else Inr (rp @ [c]))"

fun put_chars :: "int \<Rightarrow> string \<Rightarrow> string \<Rightarrow> string + string" where
  "put_chars buflen [] rp = Inr rp"
| "put_chars buflen (c # cs) rp = (case put_char buflen c rp of Inl e \<Rightarrow> Inl e | Inr rp \<Rightarrow> put_chars buflen cs rp)"

fun put_octets :: "int \<Rightarrow> u8 list \<Rightarrow> string \<Rightarrow> string + string" where
  "put_octets buflen [] rp = Inr rp"
| "put_octets buflen (ap # aps) rp =
    (case put_chars buflen (rev (inv_digits ap)) rp of Inl e \<Rightarrow> Inl e
     | Inr rp \<Rightarrow> case put_char buflen (CHR ''.'') rp of Inl e \<Rightarrow> Inl e
     | Inr rp \<Rightarrow> put_octets buflen aps rp)"

definition ip4addr_ntoa_r :: "u32 \<Rightarrow> int \<Rightarrow> string + string" where
  "ip4addr_ntoa_r addr buflen = (case put_octets buflen (mem32 addr) [] of Inl e \<Rightarrow> Inl e | Inr rp \<Rightarrow> Inr (butlast rp))"

definition ip4addr_ntoa :: "u32 \<Rightarrow> string + string" where
  "ip4addr_ntoa addr = ip4addr_ntoa_r addr 16"

section \<open>Printing\<close>

declare inv_digits.simps [simp del]

lemma inv_digits_decimal: "rev (inv_digits a) = decimal (unat a)"
proof (induction a rule: inv_digits.induct)
  case (1 a)
  have d: "unat (a div 10) = unat a div 10" "unat (a mod 10) = unat a mod 10" by (simp_all add: unat_div unat_mod)
  show ?case
  proof (cases "a div 10 = 0")
    case True
    then have "unat a < 10" using d by simp
    then show ?thesis using True d by (subst inv_digits.simps) (simp add: Let_def decimal_small digit_def)
  next
    case False
    then have "0 < unat a div 10" using d by (metis unat_gt_0)
    then show ?thesis using False d "1.IH" decimal_step [of "unat a div 10" "unat a mod 10"]
      by (subst inv_digits.simps) (simp add: Let_def digit_def)
  qed
qed

text \<open>The characters are written one by one until the buffer is full.\<close>

lemma put_chars_spec:
  "int (length rp) \<le> buflen \<Longrightarrow> put_chars buflen cs rp =
     (if int (length (rp @ cs)) \<le> buflen then Inr (rp @ cs) else Inl (take (nat buflen) (rp @ cs)))"
proof (induction cs arbitrary: rp)
  case (Cons c cs)
  show ?case
  proof (cases "buflen \<le> int (length rp)")
    case True
    then show ?thesis using Cons.prems by (simp add: put_char_def)
  next
    case False
    then show ?thesis using Cons.IH [of "rp @ [c]"] by (simp add: put_char_def)
  qed
qed simp

definition dotted :: "u8 list \<Rightarrow> string" where
  "dotted aps = concat (map (\<lambda>a. decimal (unat a) @ ''.'') aps)"

lemma put_octets_spec:
  "int (length rp) \<le> buflen \<Longrightarrow> put_octets buflen aps rp =
     (if int (length (rp @ dotted aps)) \<le> buflen then Inr (rp @ dotted aps)
      else Inl (take (nat buflen) (rp @ dotted aps)))"
proof (induction aps arbitrary: rp)
  case Nil
  then show ?case by (simp add: dotted_def)
next
  case (Cons a aps)
  let ?d = "decimal (unat a)"
  have "put_octets buflen (a # aps) rp =
      (case put_chars buflen (?d @ ''.'') rp of Inl e \<Rightarrow> Inl e | Inr rp \<Rightarrow> put_octets buflen aps rp)"
    using Cons.prems put_chars_spec [of "rp @ ?d" buflen "''.''"]
    by (auto simp: put_chars_spec inv_digits_decimal put_char_def)
  then show ?case
    using Cons.prems Cons.IH [of "rp @ ?d @ ''.''"] put_chars_spec [of rp buflen "?d @ ''.''"]
    by (auto simp: dotted_def)
qed

section \<open>Parsing what was printed\<close>

lemma digit_val:
  assumes "d < 10"
  shows "isdigit (digit d)" "(of_char (digit d) :: u32) - 48 = of_nat d" "digit d = CHR ''0'' \<longleftrightarrow> d = 0"
proof -
  have "of_char (digit d) = 48 + d" using assms by (simp add: digit_def)
  moreover from this have "(of_char (digit d) :: u32) = of_nat (48 + d)" by (metis of_nat_of_char)
  moreover have "of_char CHR ''0'' = (48 :: nat)" by simp
  ultimately show "isdigit (digit d)" "(of_char (digit d) :: u32) - 48 = of_nat d" "digit d = CHR ''0'' \<longleftrightarrow> d = 0"
    using assms by (auto simp: isdigit_def in_range_def of_char_eq_iff [symmetric, where 'a = nat] simp del: of_char_eq_iff)
qed

lemma collect_decimal: "collect_number 0 10 (decimal n @ rest) = collect_number (of_nat n) 10 rest"
proof (induction n arbitrary: rest rule: decimal.induct)
  case (1 n)
  show ?case
  proof (cases "n < 10")
    case True
    then show ?thesis using digit_val [of n] by (simp add: decimal_small)
  next
    case False
    have "of_nat n = of_nat (n div 10) * 10 + (of_nat (n mod 10) :: u32)"
      by (metis (mono_tags) of_nat_add of_nat_mult of_nat_numeral div_mult_mod_eq)
    then show ?thesis
      using False 1 [of "digit (n mod 10) # rest"] digit_val [of "n mod 10"] by (subst decimal.simps) simp
  qed
qed

lemma decimal_hd: "0 < n \<Longrightarrow> \<exists>d cs. decimal n = digit d # cs \<and> 0 < d \<and> d < 10"
proof (induction n rule: decimal.induct)
  case (1 n)
  show ?case
  proof (cases "n < 10")
    case True
    then show ?thesis using "1.prems" by (auto simp: decimal_small)
  next
    case False
    then have "0 < n div 10" by (simp add: div_greater_zero_iff)
    then show ?thesis using "1.IH" False by (fastforce simp: decimal.simps [of n])
  qed
qed

lemma decimal_cur: "isdigit (cur (decimal n @ rest))"
proof (cases "n = 0")
  case True
  then show ?thesis using digit_val(1) [of 0] by (simp add: decimal_small cur_def)
next
  case False
  then show ?thesis using decimal_hd [of n] digit_val(1) by (auto simp: cur_def)
qed

lemma one_part_decimal:
  assumes "rest = [] \<or> cur rest = CHR ''.''"
  shows "one_part (decimal n @ rest) = (of_nat n, rest)"
proof -
  have stop: "collect_number v b rest = (v, rest)" for v b
    using assms by (cases rest) (auto simp: cur_def isdigit_def isxdigit_def in_range_def)
  show ?thesis
  proof (cases "n = 0")
    case True
    then show ?thesis using assms stop digit_val(3) [of 0] by (auto simp: one_part_def decimal_small cur_def)
  next
    case False
    then obtain d cs where "decimal n = digit d # cs" "0 < d" "d < 10" using decimal_hd by blast
    then show ?thesis using stop digit_val(3) [of d] collect_decimal [of n rest] by (simp add: one_part_def cur_def)
  qed
qed

declare collect_parts.simps [simp del]

lemma collect_parts_dot:
  "length parts < 3 \<Longrightarrow> collect_parts (decimal n @ CHR ''.'' # rest) parts = collect_parts rest (parts @ [of_nat n])"
  using decimal_cur one_part_decimal [of "CHR ''.'' # rest" n]
  by (subst collect_parts.simps) (simp add: cur_def)

lemma collect_parts_last: "collect_parts (decimal n) parts = Some (parts, of_nat n, [])"
  using decimal_cur [of n "[]"] one_part_decimal [of "[]" n]
  by (subst collect_parts.simps) (simp add: cur_def)

lemma collect_dotted:
  "collect_parts (butlast (dotted [a, b, c, d])) [] = Some ([ucast a, ucast b, ucast c], ucast d, [])"
proof -
  have "butlast (dotted [a, b, c, d]) = decimal (unat a) @ CHR ''.'' # decimal (unat b) @ CHR ''.'' # decimal (unat c) @ CHR ''.'' # decimal (unat d)"
    by (simp add: dotted_def butlast_append)
  then show ?thesis by (simp add: collect_parts_dot collect_parts_last unsigned_of_nat [symmetric])
qed

lemma htonl_bits: "bit (lwip_htonl a) n \<longleftrightarrow>
    (if n < 8 then bit a (24 + n) else if n < 16 then bit a (8 + n) else if n < 24 then bit a (n - 8) else n < 32 \<and> bit a (n - 24))"
proof -
  have m: "(0xff :: u32) = mask 8" "(0xff00 :: u32) = push_bit 8 (mask 8)" "(0xff0000 :: u32) = push_bit 16 (mask 8)"
    "(0xff000000 :: u32) = push_bit 24 (mask 8)" by (simp_all add: mask_eq_exp_minus_1)
  show ?thesis unfolding lwip_htonl_def m
    by (auto simp: bit_simps)
qed

lemma htonl_involutive: "lwip_htonl (lwip_htonl a) = a"
  by (rule bit_eqI) (auto simp: htonl_bits)

lemma concoct_mem32:
  "concoct [ucast (ucast a :: u8), ucast (ucast (drop_bit 8 a) :: u8), ucast (ucast (drop_bit 16 a) :: u8)]
     (ucast (ucast (drop_bit 24 a) :: u8)) = Some (lwip_htonl a)" for a :: u32
proof -
  have "ucast (b :: u8) \<le> (0xff :: u32)" for b using unat_u8_bound [of b] by (simp add: word_le_nat_alt)
  moreover have "ucast (ucast (drop_bit 24 a) :: u8) OR (push_bit 24 (ucast (ucast a :: u8)) OR
      push_bit 16 (ucast (ucast (drop_bit 8 a) :: u8)) OR push_bit 8 (ucast (ucast (drop_bit 16 a) :: u8))) = lwip_htonl a"
    by (rule bit_eqI) (auto simp: htonl_bits bit_simps)
  ultimately show ?thesis by (simp add: concoct_def not_less)
qed

lemma ip4addr_aton_dotted: "ip4addr_aton (butlast (dotted (mem32 a))) = Some a"
  by (simp add: ip4addr_aton_def mem32_def collect_dotted concoct_mem32 htonl_involutive cur_def)

section \<open>Netmasks\<close>

declare first_zero.simps [simp del] no_one_left.simps [simp del]

lemma mask_step:
  fixes i :: nat and nm :: u32
  assumes "i < 32"
  shows "push_bit i 1 \<noteq> (0 :: u32)" "nm AND push_bit i 1 = 0 \<longleftrightarrow> \<not> bit nm i"
    "drop_bit 1 (push_bit i 1) = (if i = 0 then 0 else push_bit (i - 1) 1 :: u32)"
proof -
  show "push_bit i 1 \<noteq> (0 :: u32)" using assms by auto
  show "nm AND push_bit i 1 = 0 \<longleftrightarrow> \<not> bit nm i" by (simp add: bit_iff_and_push_bit_not_eq_0)
  show "drop_bit 1 (push_bit i 1) = (if i = 0 then 0 else push_bit (i - 1) 1 :: u32)"
    using assms by (intro bit_eqI) (auto simp: bit_simps bit_1_iff)
qed

lemma no_one_left_spec: "i < 32 \<Longrightarrow> no_one_left nm (push_bit i 1) \<longleftrightarrow> (\<forall>j \<le> i. \<not> bit nm j)"
proof (induction i)
  case 0
  have "drop_bit 1 (push_bit 0 1) = (0 :: u32)" "no_one_left nm 0" using mask_step(3) [of 0]
    by (simp_all add: no_one_left.simps)
  then show ?case unfolding no_one_left.simps [of _ "push_bit 0 1"] using mask_step(1,2) [of 0] by simp
next
  case (Suc i)
  then show ?case using mask_step [of "Suc i"]
    by (subst no_one_left.simps) (auto simp: le_Suc_eq)
qed

lemma netmask_loops:
  "i < 32 \<Longrightarrow> no_one_left nm (first_zero nm (push_bit i 1)) \<longleftrightarrow> (\<exists>k \<le> Suc i. \<forall>j \<le> i. bit nm j \<longleftrightarrow> k \<le> j)"
proof (induction i)
  case 0
  have step: "push_bit 0 1 \<noteq> (0 :: u32)" "nm AND push_bit 0 1 = 0 \<longleftrightarrow> \<not> bit nm 0"
    "drop_bit 1 (push_bit 0 1) = (0 :: u32)" using mask_step [of 0] by simp_all
  have z: "no_one_left nm 0" "first_zero nm 0 = 0" by (simp_all add: no_one_left.simps first_zero.simps)
  have "first_zero nm (push_bit 0 1) = (if bit nm 0 then 0 else push_bit 0 1)"
    unfolding first_zero.simps [of _ "push_bit 0 1"] step(2,3) using step(1) z by simp
  then have "no_one_left nm (first_zero nm (push_bit 0 1))" using z no_one_left_spec [of 0 nm] by simp
  moreover have "\<exists>k \<le> Suc 0. \<forall>j \<le> 0. bit nm j \<longleftrightarrow> k \<le> j"
    by (rule exI [of _ "if bit nm 0 then 0 else 1"]) simp
  ultimately show ?case by simp
next
  case (Suc i)
  note step = mask_step [OF Suc.prems]
  show ?case
  proof (cases "bit nm (Suc i)")
    case True
    then have "first_zero nm (push_bit (Suc i) 1) = first_zero nm (push_bit i 1)"
      using step by (subst first_zero.simps) simp
    moreover have "(\<exists>k \<le> Suc i. \<forall>j \<le> i. bit nm j \<longleftrightarrow> k \<le> j) \<longleftrightarrow> (\<exists>k \<le> Suc (Suc i). \<forall>j \<le> Suc i. bit nm j \<longleftrightarrow> k \<le> j)"
      using True by (metis le_Suc_eq)
    ultimately show ?thesis using Suc by simp
  next
    case False
    then have "first_zero nm (push_bit (Suc i) 1) = push_bit (Suc i) 1"
      using step by (subst first_zero.simps) simp
    moreover have "(\<forall>j \<le> Suc i. \<not> bit nm j) \<longleftrightarrow> (\<exists>k \<le> Suc (Suc i). \<forall>j \<le> Suc i. bit nm j \<longleftrightarrow> k \<le> j)"
      using False by (metis le_Suc_eq not_less_eq_eq order_refl)
    ultimately show ?thesis using no_one_left_spec [OF Suc.prems] by simp
  qed
qed

lemma netmask_valid_iff: "ip4_addr_netmask_valid netmask \<longleftrightarrow> (\<exists>k \<le> 32. lwip_htonl netmask = NOT (mask k))"
proof -
  have "lwip_htonl netmask = NOT (mask k) \<longleftrightarrow> (\<forall>j \<le> 31. bit (lwip_htonl netmask) j \<longleftrightarrow> k \<le> j)" if "k \<le> 32" for k
  proof -
    have "lwip_htonl netmask = NOT (mask k) \<longleftrightarrow> (\<forall>j < 32. bit (lwip_htonl netmask) j \<longleftrightarrow> bit (NOT (mask k) :: u32) j)"
      using bit_word_eqI [of "lwip_htonl netmask" "NOT (mask k)"] by auto
    then show ?thesis using that by (auto simp: bit_simps not_less)
  qed
  then show ?thesis using netmask_loops [of 31 "lwip_htonl netmask"] by (auto simp: ip4_addr_netmask_valid_def Let_def)
qed

section \<open>Properties\<close>

lemma length_decimal: "n < 256 \<Longrightarrow> length (decimal n) \<le> 3"
  by (simp add: decimal.simps [of n] decimal.simps [of "n div 10"] decimal_small less_mult_imp_div_less div_mult2_eq [symmetric])

lemma length_dotted: "length (dotted aps) \<le> 4 * length aps"
proof (induction aps)
  case (Cons a aps)
  then show ?case using length_decimal [OF unat_u8_bound [of a]] by (simp add: dotted_def)
qed (simp add: dotted_def)

text \<open>
  C40: Printing and parsing an address are inverse: \<^verbatim>\<open>ip4addr_ntoa_r\<close> writes the dotted decimal
  notation when it fits with its terminator, fails exactly when the buffer is too small, having
  written nothing outside it, and \<^verbatim>\<open>ip4addr_aton\<close> and \<^verbatim>\<open>ipaddr_addr\<close> give the address back. The 16
  bytes of \<^verbatim>\<open>ip4addr_ntoa\<close> are enough for every address.
\<close>

theorem ip4_ntoa_aton:
  assumes "0 \<le> buflen"
  shows "(\<exists>s. ip4addr_ntoa a = Inr s \<and> ip4addr_aton s = Some a \<and> ipaddr_addr s = a \<and>
      ip4addr_ntoa_r a buflen = (if int (length s) < buflen then Inr s else Inl (take (nat buflen) (s @ ''.''))))"
proof -
  obtain s where d: "dotted (mem32 a) = s @ ''.''"
    by (rule that [of "butlast (dotted (mem32 a))"]) (simp add: dotted_def mem32_def butlast_append)
  have "ip4addr_ntoa_r a n = (if int (length s) < n then Inr s else Inl (take (nat n) (s @ ''.'')))" if "0 \<le> n" for n
    using put_octets_spec [of "[]" n "mem32 a"] that d by (auto simp: ip4addr_ntoa_r_def)
  then show ?thesis
    using assms length_dotted [of "mem32 a"] d ip4addr_aton_dotted [of a]
    by (intro exI [of _ s]) (simp add: ip4addr_ntoa_def ipaddr_addr_def mem32_def)
qed

theorem ip4_ntoa_aton_witness:
  "ip4addr_aton ''192.168.2.1'' = Some 0x0102a8c0 \<and> ip4addr_ntoa_r 0x0102a8c0 4 = Inl ''192.''"
proof -
  have "ip4addr_ntoa 0x0102a8c0 = Inr ''192.168.2.1''" by code_simp
  then show ?thesis using ip4_ntoa_aton [of 4 "0x0102a8c0"] by auto
qed

text \<open>
  A netmask is valid exactly when in host order it is a block of ones followed by a block of
  zeros; an address is a broadcast address exactly when it is all ones, all zeros, or, on an interface
  with broadcast, the directed broadcast of the subnet and not the address of the interface.
\<close>

theorem ip4_netmask_broadcast:
  "(ip4_addr_netmask_valid netmask \<longleftrightarrow> (\<exists>k \<le> 32. lwip_htonl netmask = NOT (mask k))) \<and>
   (ip4_addr_isbroadcast_u32 addr netif \<longleftrightarrow> addr = 0xffffffff \<or> addr = 0 \<or>
      can_broadcast netif \<and> addr \<noteq> ip_addr4 netif \<and>
      addr = (ip_addr4 netif AND netmask4 netif) OR NOT (netmask4 netif))"
proof -
  have split: "addr = (addr AND m) OR (addr AND NOT m)" for m :: u32 by (simp flip: bit.conj_disj_distrib)
  have m1: "(0xffffffff :: u32) = - 1" by simp
  have "ip4_addr_netcmp addr ip m \<and> addr AND NOT m = - 1 AND NOT m \<longleftrightarrow> addr = (ip AND m) OR NOT m" for ip m :: u32
  proof
    assume "ip4_addr_netcmp addr ip m \<and> addr AND NOT m = - 1 AND NOT m"
    then show "addr = (ip AND m) OR NOT m" using split [of m] by (simp add: ip4_addr_netcmp_def)
  next
    assume "addr = (ip AND m) OR NOT m"
    then show "ip4_addr_netcmp addr ip m \<and> addr AND NOT m = - 1 AND NOT m"
      by (auto simp: ip4_addr_netcmp_def bit_eq_iff bit_simps)
  qed
  moreover have "NOT addr = 0 \<longleftrightarrow> addr = - 1" by (metis bit.compl_zero bit.double_compl)
  ultimately show ?thesis
    using netmask_valid_iff by (auto simp: ip4_addr_isbroadcast_u32_def IPADDR_ANY_def IPADDR_BROADCAST_def m1)
qed

end
