(* ===== verification/Pit_Dac.thy ===== *)
theory Pit_Dac
  imports Prelude
begin

text \<open>
  The periodic interrupt timer and the digital-to-analog converter: \<^verbatim>\<open>drivers/fsl_pit.c\<close>,
  \<^verbatim>\<open>fsl_pit.h\<close>, \<^verbatim>\<open>fsl_dac.c\<close> and \<^verbatim>\<open>fsl_dac.h\<close>. A register is the record of the bit fields that the
  drivers name, so a mask of the device header becomes a field; the clock gate of a peripheral is the
  field \<open>clocked\<close>. The instance lookups of the drivers find the single instance of the device.
\<close>

section \<open>PIT\<close>

datatype pit_chnl = kPIT_Chnl_0 | kPIT_Chnl_1 | kPIT_Chnl_2 | kPIT_Chnl_3

record pit_channel =
  LDVAL :: u32
  CVAL :: u32
  TEN :: bool
  TIE :: bool
  CHN :: bool
  TIF :: bool

record pit_regs =
  pit_clocked :: bool
  MDIS :: bool
  FRZ :: bool
  channel :: "pit_chnl \<Rightarrow> pit_channel"

record pit_config =
  enableRunInDebug :: bool

definition upd_channel :: "pit_chnl \<Rightarrow> (pit_channel \<Rightarrow> pit_channel) \<Rightarrow> pit_regs \<Rightarrow> pit_regs" where
  "upd_channel c f b = b\<lparr>channel := (channel b)(c := f (channel b c))\<rparr>"

definition PIT_Init :: "pit_config \<Rightarrow> pit_regs \<Rightarrow> pit_regs" where
  "PIT_Init config b =
    (let b = b\<lparr>pit_clocked := True\<rparr>; b = b\<lparr>MDIS := False\<rparr> in
     if enableRunInDebug config then b\<lparr>FRZ := False\<rparr> else b\<lparr>FRZ := True\<rparr>)"

definition PIT_Deinit :: "pit_regs \<Rightarrow> pit_regs" where
  "PIT_Deinit b = b\<lparr>MDIS := True, pit_clocked := False\<rparr>"

definition PIT_GetDefaultConfig :: pit_config where
  "PIT_GetDefaultConfig = \<lparr>enableRunInDebug = False\<rparr>"

definition PIT_SetTimerChainMode :: "pit_chnl \<Rightarrow> bool \<Rightarrow> pit_regs \<Rightarrow> pit_regs" where
  "PIT_SetTimerChainMode c enable = upd_channel c (\<lambda>r. if enable then r\<lparr>CHN := True\<rparr> else r\<lparr>CHN := False\<rparr>)"

text \<open>The interrupt and flag masks have the single bit of their enumeration.\<close>

definition PIT_EnableInterrupts :: "pit_chnl \<Rightarrow> bool \<Rightarrow> pit_regs \<Rightarrow> pit_regs" where
  "PIT_EnableInterrupts c m = upd_channel c (\<lambda>r. r\<lparr>TIE := TIE r \<or> m\<rparr>)"

definition PIT_DisableInterrupts :: "pit_chnl \<Rightarrow> bool \<Rightarrow> pit_regs \<Rightarrow> pit_regs" where
  "PIT_DisableInterrupts c m = upd_channel c (\<lambda>r. r\<lparr>TIE := TIE r \<and> \<not> m\<rparr>)"

definition PIT_GetEnabledInterrupts :: "pit_chnl \<Rightarrow> pit_regs \<Rightarrow> bool" where
  "PIT_GetEnabledInterrupts c b = TIE (channel b c)"

definition PIT_GetStatusFlags :: "pit_chnl \<Rightarrow> pit_regs \<Rightarrow> bool" where
  "PIT_GetStatusFlags c b = TIF (channel b c)"

text \<open>The flag register is cleared by writing ones to it.\<close>

definition PIT_ClearStatusFlags :: "pit_chnl \<Rightarrow> bool \<Rightarrow> pit_regs \<Rightarrow> pit_regs" where
  "PIT_ClearStatusFlags c m = upd_channel c (\<lambda>r. r\<lparr>TIF := TIF r \<and> \<not> m\<rparr>)"

definition PIT_SetTimerPeriod :: "pit_chnl \<Rightarrow> u32 \<Rightarrow> pit_regs \<Rightarrow> pit_regs" where
  "PIT_SetTimerPeriod c count = upd_channel c (\<lambda>r. r\<lparr>LDVAL := count\<rparr>)"

definition PIT_GetCurrentTimerCount :: "pit_chnl \<Rightarrow> pit_regs \<Rightarrow> u32" where
  "PIT_GetCurrentTimerCount c b = CVAL (channel b c)"

definition PIT_StartTimer :: "pit_chnl \<Rightarrow> pit_regs \<Rightarrow> pit_regs" where
  "PIT_StartTimer c = upd_channel c (\<lambda>r. r\<lparr>TEN := True\<rparr>)"

definition PIT_StopTimer :: "pit_chnl \<Rightarrow> pit_regs \<Rightarrow> pit_regs" where
  "PIT_StopTimer c = upd_channel c (\<lambda>r. r\<lparr>TEN := False\<rparr>)"

text \<open>The count macros of \<^verbatim>\<open>fsl_common.h\<close> compute in 64 bits.\<close>

type_synonym u64 = "64 word"

definition USEC_TO_COUNT :: "u32 \<Rightarrow> u32 \<Rightarrow> u64" where
  "USEC_TO_COUNT us clockFreqInHz = ucast us * ucast clockFreqInHz div 1000000"

definition MSEC_TO_COUNT :: "u32 \<Rightarrow> u32 \<Rightarrow> u64" where
  "MSEC_TO_COUNT ms clockFreqInHz = ucast ms * ucast clockFreqInHz div 1000"

section \<open>DAC\<close>

datatype dac_reference = kDAC_ReferenceVoltageSourceVref1 | kDAC_ReferenceVoltageSourceVref2
datatype dac_trigger = kDAC_BufferTriggerByHardwareMode | kDAC_BufferTriggerBySoftwareMode
datatype dac_watermark = kDAC_BufferWatermark1Word | kDAC_BufferWatermark2Word
  | kDAC_BufferWatermark3Word | kDAC_BufferWatermark4Word
datatype dac_work_mode = kDAC_BufferWorkAsNormalMode | kDAC_BufferWorkAsSwingMode | kDAC_BufferWorkAsOneTimeScanMode

text \<open>The three buffer events: watermark, top position, bottom position.\<close>

record dac_events =
  watermark_ev :: bool
  top_ev :: bool
  bottom_ev :: bool

record dac_regs =
  dac_clocked :: bool
  DACEN :: bool
  DACRFS :: bool
  LPEN :: bool
  DACTRGSEL :: bool
  DACSWTRG :: bool
  C0_IEN :: dac_events
  DACBFEN :: bool
  DMAEN :: bool
  DACBFMD :: dac_work_mode
  DACBFWM :: dac_watermark
  DACBFUP :: u8
  DACBFRP :: u8
  SR :: dac_events
  DAT :: "(u8 \<times> u8) list"

record dac_config =
  referenceVoltageSource :: dac_reference
  enableLowPowerMode :: bool

record dac_buffer_config =
  triggerMode :: dac_trigger
  watermark :: dac_watermark
  workMode :: dac_work_mode
  upperLimit :: u8

definition DAC_Enable :: "bool \<Rightarrow> dac_regs \<Rightarrow> dac_regs" where
  "DAC_Enable enable b = (if enable then b\<lparr>DACEN := True\<rparr> else b\<lparr>DACEN := False\<rparr>)"

definition DAC_Init :: "dac_config \<Rightarrow> dac_regs \<Rightarrow> dac_regs" where
  "DAC_Init config b =
    (let
       b = b\<lparr>dac_clocked := True\<rparr>;
       tmp8 = b\<lparr>DACRFS := False, LPEN := False\<rparr>;
       tmp8 = (if kDAC_ReferenceVoltageSourceVref2 = referenceVoltageSource config then tmp8\<lparr>DACRFS := True\<rparr> else tmp8)
     in if enableLowPowerMode config then tmp8\<lparr>LPEN := True\<rparr> else tmp8)"

definition DAC_Deinit :: "dac_regs \<Rightarrow> dac_regs" where
  "DAC_Deinit b = (DAC_Enable False b)\<lparr>dac_clocked := False\<rparr>"

definition DAC_GetDefaultConfig :: dac_config where
  "DAC_GetDefaultConfig = \<lparr>referenceVoltageSource = kDAC_ReferenceVoltageSourceVref2, enableLowPowerMode = False\<rparr>"

definition DAC_EnableBuffer :: "bool \<Rightarrow> dac_regs \<Rightarrow> dac_regs" where
  "DAC_EnableBuffer enable b = (if enable then b\<lparr>DACBFEN := True\<rparr> else b\<lparr>DACBFEN := False\<rparr>)"

definition DAC_EnableBufferDMA :: "bool \<Rightarrow> dac_regs \<Rightarrow> dac_regs" where
  "DAC_EnableBufferDMA enable b = (if enable then b\<lparr>DMAEN := True\<rparr> else b\<lparr>DMAEN := False\<rparr>)"

text \<open>The limit and pointer fields are four bits wide.\<close>

definition DAC_SetBufferConfig :: "dac_buffer_config \<Rightarrow> dac_regs \<Rightarrow> dac_regs" where
  "DAC_SetBufferConfig config b =
    (let
       b = b\<lparr>DACTRGSEL := (kDAC_BufferTriggerBySoftwareMode = triggerMode config)\<rparr>;
       b = b\<lparr>DACBFWM := watermark config, DACBFMD := workMode config\<rparr>
     in b\<lparr>DACBFUP := upperLimit config AND 0xf\<rparr>)"

definition DAC_GetDefaultBufferConfig :: "dac_regs \<Rightarrow> dac_buffer_config" where
  "DAC_GetDefaultBufferConfig b =
    \<lparr>triggerMode = kDAC_BufferTriggerBySoftwareMode, watermark = kDAC_BufferWatermark1Word,
     workMode = kDAC_BufferWorkAsNormalMode, upperLimit = word_of_nat (length (DAT b)) - 1\<rparr>"

text \<open>\<open>None\<close> is the failed assertion \<^verbatim>\<open>index < DAC_DATL_COUNT\<close>, the number of data registers.\<close>

definition DAC_SetBufferValue :: "u8 \<Rightarrow> u16 \<Rightarrow> dac_regs \<Rightarrow> dac_regs option" where
  "DAC_SetBufferValue index v b =
    (if unat index < length (DAT b)
     then Some (b\<lparr>DAT := (DAT b)[unat index := (ucast (0xFF AND v), ucast (drop_bit 8 (0xF00 AND v)))]\<rparr>)
     else None)"

definition DAC_DoSoftwareTriggerBuffer :: "dac_regs \<Rightarrow> dac_regs" where
  "DAC_DoSoftwareTriggerBuffer b = b\<lparr>DACSWTRG := True\<rparr>"

definition DAC_GetBufferReadPointer :: "dac_regs \<Rightarrow> u8" where
  "DAC_GetBufferReadPointer b = DACBFRP b"

definition DAC_SetBufferReadPointer :: "u8 \<Rightarrow> dac_regs \<Rightarrow> dac_regs option" where
  "DAC_SetBufferReadPointer index b = (if unat index < length (DAT b) then Some (b\<lparr>DACBFRP := index AND 0xf\<rparr>) else None)"

definition DAC_EnableBufferInterrupts :: "dac_events \<Rightarrow> dac_regs \<Rightarrow> dac_regs" where
  "DAC_EnableBufferInterrupts m b = b\<lparr>C0_IEN := \<lparr>watermark_ev = watermark_ev (C0_IEN b) \<or> watermark_ev m,
     top_ev = top_ev (C0_IEN b) \<or> top_ev m, bottom_ev = bottom_ev (C0_IEN b) \<or> bottom_ev m\<rparr>\<rparr>"

definition DAC_DisableBufferInterrupts :: "dac_events \<Rightarrow> dac_regs \<Rightarrow> dac_regs" where
  "DAC_DisableBufferInterrupts m b = b\<lparr>C0_IEN := \<lparr>watermark_ev = watermark_ev (C0_IEN b) \<and> \<not> watermark_ev m,
     top_ev = top_ev (C0_IEN b) \<and> \<not> top_ev m, bottom_ev = bottom_ev (C0_IEN b) \<and> \<not> bottom_ev m\<rparr>\<rparr>"

definition DAC_GetBufferStatusFlags :: "dac_regs \<Rightarrow> dac_events" where
  "DAC_GetBufferStatusFlags b = SR b"

text \<open>Flags are cleared by writing zeros to them.\<close>

definition DAC_ClearBufferStatusFlags :: "dac_events \<Rightarrow> dac_regs \<Rightarrow> dac_regs" where
  "DAC_ClearBufferStatusFlags m b = b\<lparr>SR := \<lparr>watermark_ev = watermark_ev (SR b) \<and> \<not> watermark_ev m,
     top_ev = top_ev (SR b) \<and> \<not> top_ev m, bottom_ev = bottom_ev (SR b) \<and> \<not> bottom_ev m\<rparr>\<rparr>"

section \<open>Audio output\<close>

end
