(* ===== verification/Audio.thy ===== *)
theory Audio
  imports Pit_Dac
begin

text \<open>
  Sound output: \<^verbatim>\<open>source/Audio.c\<close>, \<^verbatim>\<open>source/pit.c\<close> and \<^verbatim>\<open>source/DAC.c\<close>. Timer 0 interrupts once per
  sample; its handler writes the next sample of the selected buffer to the DAC. The sample buffers,
  arrays of 750 halfwords filled by the UDP thread, are kept as their 1500 bytes; \<open>idx\<close> is the global
  \<^verbatim>\<open>i\<close>. The record is extended by the state of the threads.
\<close>

section \<open>State\<close>

definition audio_buffer_sizes :: nat where
  "audio_buffer_sizes = 750"

record audio =
  PIT :: pit_regs
  DAC0 :: dac_regs
  nvic_pit0 :: bool
  nvic_pit1 :: bool
  prio_pit1 :: nat
  buffer1 :: "u8 list"
  buffer2 :: "u8 list"
  idx :: u16
  buffer_flag :: bool

text \<open>The element of a buffer at an index; \<open>None\<close> is a read outside the array.\<close>

definition sample :: "u8 list \<Rightarrow> u16 \<Rightarrow> u16 option" where
  "sample buf k = (if 2 * unat k + 1 < length buf then Some (load16 (buf ! (2 * unat k)) (buf ! (2 * unat k + 1))) else None)"

definition playing :: "'a audio_scheme \<Rightarrow> u8 list" where
  "playing s = (if \<not> buffer_flag s then buffer1 s else buffer2 s)"

section \<open>Operations\<close>

definition PIT0_IRQHandler :: "'a audio_scheme \<Rightarrow> 'a audio_scheme option" where
  "PIT0_IRQHandler s =
    (let s = s\<lparr>PIT := PIT_ClearStatusFlags kPIT_Chnl_0 True (PIT s)\<rparr> in
     case sample (playing s) (idx s) of None \<Rightarrow> None
     | Some v \<Rightarrow> (case DAC_SetBufferValue 0 v (DAC0 s) of None \<Rightarrow> None
       | Some d \<Rightarrow> Some (s\<lparr>DAC0 := d, idx := (if unat (idx s) < audio_buffer_sizes - 1 then idx s + 1 else 0)\<rparr>)))"

definition DAC_Config :: "dac_regs \<Rightarrow> dac_regs" where
  "DAC_Config b = DAC_Enable True (DAC_Init DAC_GetDefaultConfig b)"

text \<open>\<open>bus\<close> is \<^verbatim>\<open>CLOCK_GetFreq(kCLOCK_BusClk)\<close>; the count is truncated to the 32 bits of the register.\<close>

definition PIT_ConfigAndStart :: "u32 \<Rightarrow> u8 \<Rightarrow> u32 \<Rightarrow> 'a audio_scheme \<Rightarrow> 'a audio_scheme" where
  "PIT_ConfigAndStart bus chan usecs s =
    (let s = s\<lparr>PIT := PIT_Init PIT_GetDefaultConfig (PIT s)\<rparr> in
     if chan = 0 then
       let
         s = s\<lparr>PIT := PIT_SetTimerPeriod kPIT_Chnl_0 (ucast (USEC_TO_COUNT usecs bus)) (PIT s)\<rparr>;
         s = s\<lparr>PIT := PIT_EnableInterrupts kPIT_Chnl_0 True (PIT s)\<rparr>;
         s = s\<lparr>nvic_pit0 := True\<rparr>
       in s\<lparr>PIT := PIT_StartTimer kPIT_Chnl_0 (PIT s)\<rparr>
     else if chan = 1 then
       let
         s = s\<lparr>PIT := PIT_SetTimerPeriod kPIT_Chnl_1 (ucast (MSEC_TO_COUNT usecs bus)) (PIT s)\<rparr>;
         s = s\<lparr>PIT := PIT_EnableInterrupts kPIT_Chnl_1 True (PIT s)\<rparr>;
         s = s\<lparr>nvic_pit1 := True\<rparr>;
         s = s\<lparr>prio_pit1 := 3\<rparr>
       in s\<lparr>PIT := PIT_StartTimer kPIT_Chnl_1 (PIT s)\<rparr>
     else s)"

definition AudioConfig :: "u32 \<Rightarrow> u32 \<Rightarrow> 'a audio_scheme \<Rightarrow> 'a audio_scheme" where
  "AudioConfig bus Tx s =
    PIT_ConfigAndStart bus 1 1000 (PIT_ConfigAndStart bus 0 Tx (s\<lparr>DAC0 := DAC_Config (DAC0 s)\<rparr>))"

definition AudioOutput :: "u8 \<Rightarrow> 'a audio_scheme \<Rightarrow> 'a audio_scheme option" where
  "AudioOutput ON_OFF s =
    (if ON_OFF = 1 then Some (s\<lparr>PIT := PIT_StartTimer kPIT_Chnl_0 (PIT s)\<rparr>)
     else let s = s\<lparr>PIT := PIT_StopTimer kPIT_Chnl_0 (PIT s)\<rparr> in
       case DAC_SetBufferValue 0 0 (DAC0 s) of None \<Rightarrow> None | Some d \<Rightarrow> Some (s\<lparr>DAC0 := d\<rparr>))"

section \<open>Invariant\<close>

definition audio_ok :: "'a audio_scheme \<Rightarrow> bool" where
  "audio_ok s \<longleftrightarrow> length (buffer1 s) = 2 * audio_buffer_sizes \<and> length (buffer2 s) = 2 * audio_buffer_sizes \<and>
     unat (idx s) < audio_buffer_sizes \<and> DAT (DAC0 s) \<noteq> []"

text \<open>The code the DAC converts: twelve bits of the first data register.\<close>

definition dac_code :: "dac_regs \<Rightarrow> nat" where
  "dac_code b = unat (fst (hd (DAT b))) + 256 * unat (snd (hd (DAT b)))"

lemma set_value_0:
  assumes "DAT b \<noteq> []"
  shows "\<exists>b'. DAC_SetBufferValue 0 v b = Some b' \<and> DAT b' \<noteq> [] \<and> dac_code b' = unat v mod 4096"
proof -
  have "0xFF AND v = take_bit 8 v" by (simp add: take_bit_eq_mask mask_eq_exp_minus_1 and.commute)
  then have l: "unat (ucast (0xFF AND v) :: u8) = unat v mod 256" by (simp add: take_bit_eq_mod unat_mod)
  have "drop_bit 8 (0xF00 AND v) = take_bit 4 (drop_bit 8 v)"
    by (simp add: drop_bit_and take_bit_eq_mask mask_eq_exp_minus_1 and.commute)
  then have h: "unat (ucast (drop_bit 8 (0xF00 AND v)) :: u8) = unat v div 256 mod 16"
    using mod_less [of "unat v div 256 mod 16" 256] by (simp add: take_bit_eq_mod unat_drop_bit unat_mod)
  have "unat v mod 4096 = unat v mod 256 + 256 * (unat v div 256 mod 16)"
    using mod_mult2_eq [of "unat v" 256 16] by simp
  then show ?thesis using assms l h
    by (cases "DAT b") (auto simp: DAC_SetBufferValue_def dac_code_def)
qed

lemma sample_in_range: "length buf = 2 * audio_buffer_sizes \<Longrightarrow> unat k < audio_buffer_sizes \<Longrightarrow> \<exists>v. sample buf k = Some v"
  by (simp add: sample_def)

lemma length_playing: "audio_ok s \<Longrightarrow> length (playing s) = 2 * audio_buffer_sizes"
  by (simp add: playing_def audio_ok_def)

lemma unat_next: "unat k < audio_buffer_sizes \<Longrightarrow>
    unat (if unat k < audio_buffer_sizes - 1 then k + 1 else 0 :: u16) = (unat k + 1) mod audio_buffer_sizes"
proof (cases "unat k < audio_buffer_sizes - 1")
  case True
  then show ?thesis by (simp add: audio_buffer_sizes_def unat_plus)
next
  case False
  moreover assume "unat k < audio_buffer_sizes"
  ultimately have "unat k = 749" by (simp add: audio_buffer_sizes_def)
  then show ?thesis by (simp add: audio_buffer_sizes_def)
qed

lemma playing_PIT [simp]: "playing (s\<lparr>PIT := x\<rparr>) = playing s"
  by (simp add: playing_def)

text \<open>One interrupt: never outside the buffer, the sample at the index goes to the DAC, the index moves on.\<close>

lemma isr_step:
  assumes "audio_ok s"
  shows "\<exists>s'. PIT0_IRQHandler s = Some s' \<and> audio_ok s' \<and> playing s' = playing s \<and>
    unat (idx s') = (unat (idx s) + 1) mod audio_buffer_sizes \<and>
    dac_code (DAC0 s') = unat (the (sample (playing s) (idx s))) mod 4096 \<and>
    \<not> TIF (channel (PIT s') kPIT_Chnl_0)"
proof -
  obtain v where v: "sample (playing s) (idx s) = Some v"
    using sample_in_range [OF length_playing [OF assms]] assms by (auto simp: audio_ok_def)
  obtain d where d: "DAC_SetBufferValue 0 v (DAC0 s) = Some d" "DAT d \<noteq> []" "dac_code d = unat v mod 4096"
    using set_value_0 assms unfolding audio_ok_def by blast
  define k where "k = (if unat (idx s) < audio_buffer_sizes - 1 then idx s + 1 else 0)"
  define s' where "s' = s\<lparr>PIT := PIT_ClearStatusFlags kPIT_Chnl_0 True (PIT s), DAC0 := d, idx := k\<rparr>"
  have k: "unat k = (unat (idx s) + 1) mod audio_buffer_sizes" "unat k < audio_buffer_sizes"
    using unat_next [of "idx s"] assms by (simp_all add: k_def audio_ok_def audio_buffer_sizes_def)
  have "PIT0_IRQHandler s = Some s'"
    using v d(1) by (simp add: PIT0_IRQHandler_def Let_def s'_def k_def)
  moreover have "audio_ok s'" using assms d(2) k(2) by (simp add: audio_ok_def s'_def)
  moreover have "playing s' = playing s" "unat (idx s') = (unat (idx s) + 1) mod audio_buffer_sizes"
    "dac_code (DAC0 s') = unat (the (sample (playing s) (idx s))) mod 4096" "\<not> TIF (channel (PIT s') kPIT_Chnl_0)"
    using k(1) d(3) v by (simp_all add: s'_def playing_def PIT_ClearStatusFlags_def upd_channel_def)
  ultimately show ?thesis by blast
qed

fun isr_run :: "nat \<Rightarrow> 'a audio_scheme \<Rightarrow> 'a audio_scheme option" where
  "isr_run 0 s = Some s"
| "isr_run (Suc n) s = (case isr_run n s of None \<Rightarrow> None | Some s \<Rightarrow> PIT0_IRQHandler s)"

lemma isr_run_spec:
  assumes "audio_ok s"
  shows "\<exists>s'. isr_run n s = Some s' \<and> audio_ok s' \<and> playing s' = playing s \<and>
    unat (idx s') = (unat (idx s) + n) mod audio_buffer_sizes"
proof (induction n)
  case 0
  then show ?case using assms by (simp add: audio_ok_def)
next
  case (Suc n)
  then obtain t where t: "isr_run n s = Some t" "audio_ok t" "playing t = playing s"
    "unat (idx t) = (unat (idx s) + n) mod audio_buffer_sizes" by blast
  from isr_step [OF t(2)] show ?case using t by (auto simp: mod_Suc_eq)
qed

lemmas audio_config_simps = AudioConfig_def PIT_ConfigAndStart_def DAC_Config_def DAC_Init_def DAC_Enable_def
  DAC_GetDefaultConfig_def PIT_Init_def PIT_GetDefaultConfig_def PIT_SetTimerPeriod_def PIT_EnableInterrupts_def
  PIT_StartTimer_def upd_channel_def Let_def

lemma u64_product: "unat (ucast (a :: u32) * ucast (b :: u32) :: u64) = unat a * unat b"
proof -
  have "unat a * unat b < 2 ^ 32 * 2 ^ 32"
    using unsigned_less [of a] unsigned_less [of b] by (intro mult_strict_mono') simp_all
  moreover have "unat (ucast w :: u64) = unat w" for w :: u32
    using unsigned_less [of w, where 'a = nat] by (simp add: unsigned_ucast_eq take_bit_nat_eq_self)
  ultimately show ?thesis by (simp add: unat_word_ariths)
qed

lemma usec_count_fits:
  assumes "unat Tx \<le> 1000000"
  shows "unat (ucast (USEC_TO_COUNT Tx bus) :: u32) = unat Tx * unat bus div 1000000"
proof -
  have "unat Tx * unat bus div 1000000 \<le> 1000000 * unat bus div 1000000"
    using assms by (intro div_le_mono mult_right_mono) simp_all
  also have "\<dots> < 2 ^ 32" using unsigned_less [of bus] by simp
  finally show ?thesis
    by (simp add: USEC_TO_COUNT_def unsigned_ucast_eq unat_div u64_product take_bit_nat_eq_self)
qed

lemma one_second_count: "ucast (MSEC_TO_COUNT 1000 bus) = bus"
proof -
  have "unat (MSEC_TO_COUNT 1000 bus) = unat bus"
    unfolding MSEC_TO_COUNT_def unat_div using u64_product [of 1000 bus] by simp
  then show ?thesis using unsigned_less [of bus, where 'a = nat]
    by (simp add: word_unat_eq_iff unsigned_ucast_eq take_bit_nat_eq_self)
qed

section \<open>Properties\<close>

text \<open>
  C7: The interrupt handler plays the selected buffer cyclically: started from any state with
  full buffers and a valid index it never reads outside the buffers, and the interrupt after \<open>n\<close> others
  puts sample \<open>(i + n) mod 750\<close>, cut to twelve bits, on the DAC and acknowledges the timer.
\<close>

theorem isr_plays_cyclically:
  assumes "audio_ok s"
  shows "\<exists>s' v. isr_run (Suc n) s = Some s' \<and> audio_ok s' \<and> \<not> TIF (channel (PIT s') kPIT_Chnl_0) \<and>
    sample (playing s) (word_of_nat ((unat (idx s) + n) mod audio_buffer_sizes)) = Some v \<and>
    dac_code (DAC0 s') = unat v mod 4096"
proof -
  obtain t where t: "isr_run n s = Some t" "audio_ok t" "playing t = playing s"
    "unat (idx t) = (unat (idx s) + n) mod audio_buffer_sizes" using isr_run_spec [OF assms] by blast
  have "idx t = word_of_nat ((unat (idx s) + n) mod audio_buffer_sizes)" unfolding t(4) [symmetric] by simp
  moreover obtain v where "sample (playing t) (idx t) = Some v"
    using sample_in_range [OF length_playing [OF t(2)]] t(2) by (auto simp: audio_ok_def)
  ultimately show ?thesis using isr_step [OF t(2)] t(1,3) by fastforce
qed

definition pit0 :: pit_regs where
  "pit0 = \<lparr>pit_clocked = False, MDIS = True, FRZ = False,
     channel = (\<lambda>_. \<lparr>LDVAL = 0, CVAL = 0, TEN = False, TIE = False, CHN = False, TIF = False\<rparr>)\<rparr>"

definition dac0 :: dac_regs where
  "dac0 = \<lparr>dac_clocked = False, DACEN = False, DACRFS = False, LPEN = False, DACTRGSEL = False, DACSWTRG = False,
     C0_IEN = \<lparr>watermark_ev = False, top_ev = False, bottom_ev = False\<rparr>, DACBFEN = False, DMAEN = False,
     DACBFMD = kDAC_BufferWorkAsNormalMode, DACBFWM = kDAC_BufferWatermark1Word, DACBFUP = 15, DACBFRP = 0,
     SR = \<lparr>watermark_ev = False, top_ev = False, bottom_ev = False\<rparr>, DAT = replicate 16 (0, 0)\<rparr>"

text \<open>The state at reset; the initialisers of the buffers give a value to their first element only.\<close>

definition audio0 :: audio where
  "audio0 = \<lparr>PIT = pit0, DAC0 = dac0, nvic_pit0 = False, nvic_pit1 = False, prio_pit1 = 0,
     buffer1 = mem16 2045 @ replicate 1498 0, buffer2 = mem16 2045 @ replicate 1498 0, idx = 0, buffer_flag = False\<rparr>"

lemma audio0_ok: "audio_ok audio0"
  by (simp add: audio_ok_def audio0_def dac0_def mem16_def audio_buffer_sizes_def)

theorem isr_plays_cyclically_witness: "\<exists>s'. isr_run 1 audio0 = Some s' \<and> dac_code (DAC0 s') = 2045"
proof -
  have "sample (playing audio0) 0 = Some 2045"
    by (simp add: sample_def playing_def audio0_def mem16_def word_unat_eq_iff unat_load16)
  then show ?thesis using isr_plays_cyclically [OF audio0_ok, of 0] by (auto simp: audio0_def)
qed

text \<open>
  C12: \<^verbatim>\<open>AudioConfig\<close> leaves both timers running with their interrupts enabled and the DAC on with the
  second reference, and the truncation of the 64-bit counts to the 32-bit load registers loses
  nothing for a sample period of less than a second: timer 0 counts \<open>Tx\<close> microseconds of the bus
  clock, timer 1 one second.
\<close>

theorem audio_config_exact:
  assumes "unat Tx \<le> 1000000"
  shows "let s' = AudioConfig bus Tx s in
    unat (LDVAL (channel (PIT s') kPIT_Chnl_0)) = unat Tx * unat bus div 1000000 \<and>
    LDVAL (channel (PIT s') kPIT_Chnl_1) = bus \<and>
    (\<forall>c. c = kPIT_Chnl_0 \<or> c = kPIT_Chnl_1 \<longrightarrow> TEN (channel (PIT s') c) \<and> TIE (channel (PIT s') c)) \<and>
    nvic_pit0 s' \<and> nvic_pit1 s' \<and> \<not> MDIS (PIT s') \<and> pit_clocked (PIT s') \<and>
    DACEN (DAC0 s') \<and> DACRFS (DAC0 s') \<and> \<not> LPEN (DAC0 s') \<and> (audio_ok s \<longrightarrow> audio_ok s')"
proof -
  let ?t = "AudioConfig bus Tx s"
  have c0: "channel (PIT ?t) kPIT_Chnl_0 =
      (channel (PIT s) kPIT_Chnl_0)\<lparr>LDVAL := ucast (USEC_TO_COUNT Tx bus), TIE := True, TEN := True\<rparr>"
    and c1: "channel (PIT ?t) kPIT_Chnl_1 =
      (channel (PIT s) kPIT_Chnl_1)\<lparr>LDVAL := ucast (MSEC_TO_COUNT 1000 bus), TIE := True, TEN := True\<rparr>"
    by (simp_all add: audio_config_simps)
  have "unat (ucast (USEC_TO_COUNT Tx bus) :: u32) = unat Tx * unat bus div 1000000"
    using assms by (rule usec_count_fits)
  moreover have "ucast (MSEC_TO_COUNT 1000 bus) = bus" by (rule one_second_count)
  moreover have "nvic_pit0 ?t \<and> nvic_pit1 ?t \<and> \<not> MDIS (PIT ?t) \<and> pit_clocked (PIT ?t) \<and> DACEN (DAC0 ?t) \<and>
      DACRFS (DAC0 ?t) \<and> \<not> LPEN (DAC0 ?t) \<and> (audio_ok s \<longrightarrow> audio_ok ?t)"
    by (simp add: audio_config_simps audio_ok_def)
  ultimately show ?thesis using c0 c1 by (auto simp: Let_def)
qed

theorem audio_config_exact_witness:
  "unat (LDVAL (channel (PIT (AudioConfig 60000000 45 audio0)) kPIT_Chnl_0)) = 2700"
  using audio_config_exact [of 45 60000000 audio0] by (simp add: Let_def)

end
