(* ===== verification/Netbuf.thy ===== *)
theory Netbuf
  imports Pbuf_Props
begin

text \<open>
  Network buffers, \<^verbatim>\<open>lwip/src/api/netbuf.c\<close>: a packet with a cursor. \<open>nb_p\<close> is the chain \<^verbatim>\<open>buf->p\<close> and
  \<open>nb_ptr\<close> the chain from \<^verbatim>\<open>buf->ptr\<close> on, \<open>[]\<close> for \<^verbatim>\<open>NULL\<close>; the address and port fields are not
  modelled, as the operations below do not touch them after clearing. An argument \<open>None\<close> is \<^verbatim>\<open>NULL\<close>.
\<close>

record netbuf =
  nb_p :: chain
  nb_ptr :: chain

section \<open>Operations\<close>

definition netbuf_new :: "bool \<Rightarrow> netbuf option" where
  "netbuf_new memp_ok = (if memp_ok then Some \<lparr>nb_p = [], nb_ptr = []\<rparr> else None)"

text \<open>The result is what other references keep of the packet.\<close>

definition netbuf_delete :: "netbuf option \<Rightarrow> chain" where
  "netbuf_delete buf = (case buf of None \<Rightarrow> [] | Some b \<Rightarrow> if nb_p b \<noteq> [] then snd (pbuf_free (nb_p b)) else [])"

text \<open>
  The payload that \<^verbatim>\<open>netbuf_alloc\<close> points to, the new netbuf and what is left of the old packet.
  \<open>alloc\<close> is \<^verbatim>\<open>pbuf_alloc\<close> with the state of the memory pools; \<open>None\<close> is the failed assertion.
\<close>

definition netbuf_alloc :: "(pbuf_layer \<Rightarrow> u16 \<Rightarrow> pbuf_type \<Rightarrow> chain option) \<Rightarrow> netbuf option \<Rightarrow> u16 \<Rightarrow>
    (u8 list option \<times> netbuf option \<times> chain) option" where
  "netbuf_alloc alloc buf n = (case buf of
     None \<Rightarrow> Some (None, None, [])
   | Some b \<Rightarrow>
       let left = (if nb_p b \<noteq> [] then snd (pbuf_free (nb_p b)) else []) in
       case alloc PBUF_TRANSPORT n PBUF_RAM of
         None \<Rightarrow> Some (None, Some (b\<lparr>nb_p := []\<rparr>), left)
       | Some q \<Rightarrow> if len (hd q) \<ge> n
           then Some (Some (payload (hd q)), Some (b\<lparr>nb_p := q, nb_ptr := q\<rparr>), left) else None)"

definition netbuf_free :: "netbuf option \<Rightarrow> netbuf option \<times> chain" where
  "netbuf_free buf = (case buf of
     None \<Rightarrow> (None, [])
   | Some b \<Rightarrow> (Some (b\<lparr>nb_p := [], nb_ptr := []\<rparr>), if nb_p b \<noteq> [] then snd (pbuf_free (nb_p b)) else []))"

text \<open>\<open>dataptr\<close> holds the bytes referenced, \<open>n\<close> of them.\<close>

definition netbuf_ref :: "bool \<Rightarrow> netbuf option \<Rightarrow> u8 list \<Rightarrow> u16 \<Rightarrow> err \<times> netbuf option \<times> chain" where
  "netbuf_ref memp_pbuf buf dataptr n = (case buf of
     None \<Rightarrow> (ERR_ARG, None, [])
   | Some b \<Rightarrow>
       let left = (if nb_p b \<noteq> [] then snd (pbuf_free (nb_p b)) else []) in
       case pbuf_alloc (\<lambda>_. None) (\<lambda>_. None) memp_pbuf dataptr PBUF_TRANSPORT 0 PBUF_REF of
         None \<Rightarrow> (ERR_MEM, Some (b\<lparr>nb_p := [], nb_ptr := []\<rparr>), left)
       | Some q \<Rightarrow>
           let q = [(hd q)\<lparr>payload := take (unat n) dataptr, tot_len := n\<rparr>] in
           (ERR_OK, Some (b\<lparr>nb_p := q, nb_ptr := q\<rparr>), left))"

definition netbuf_chain :: "netbuf option \<Rightarrow> netbuf option \<Rightarrow> netbuf option" where
  "netbuf_chain h t = (case (h, t) of
     (Some hb, Some tb) \<Rightarrow> let q = pbuf_cat (nb_p hb) (nb_p tb) in Some (hb\<lparr>nb_p := q, nb_ptr := q\<rparr>)
   | _ \<Rightarrow> h)"

definition netbuf_data :: "netbuf option \<Rightarrow> err \<times> (u8 list \<times> u16) option" where
  "netbuf_data buf = (case buf of
     None \<Rightarrow> (ERR_ARG, None)
   | Some b \<Rightarrow> if nb_ptr b = [] then (ERR_BUF, None)
       else (ERR_OK, Some (payload (hd (nb_ptr b)), len (hd (nb_ptr b)))))"

text \<open>\<open>None\<close> is the access through a \<^verbatim>\<open>NULL\<close> cursor.\<close>

definition netbuf_next :: "netbuf option \<Rightarrow> (int \<times> netbuf option) option" where
  "netbuf_next buf = (case buf of
     None \<Rightarrow> Some (- 1, None)
   | Some b \<Rightarrow> (case nb_ptr b of
       [] \<Rightarrow> None
     | q # qs \<Rightarrow> if qs = [] then Some (- 1, Some b)
         else if tl qs = [] then Some (1, Some (b\<lparr>nb_ptr := qs\<rparr>)) else Some (0, Some (b\<lparr>nb_ptr := qs\<rparr>))))"

definition netbuf_first :: "netbuf option \<Rightarrow> netbuf option" where
  "netbuf_first buf = (case buf of None \<Rightarrow> None | Some b \<Rightarrow> Some (b\<lparr>nb_ptr := nb_p b\<rparr>))"

text \<open>The macro \<^verbatim>\<open>netbuf_copy\<close>: \<^verbatim>\<open>pbuf_copy_partial\<close> from the start of the packet.\<close>

definition netbuf_copy :: "netbuf \<Rightarrow> u8 list \<Rightarrow> u16 \<Rightarrow> u16 \<times> u8 list" where
  "netbuf_copy b dataptr n = pbuf_copy_partial (nb_p b) dataptr n 0"

section \<open>The cursor\<close>

definition netbuf_ok :: "netbuf \<Rightarrow> bool" where
  "netbuf_ok b \<longleftrightarrow> wf_chain (nb_p b) \<and> (\<exists>before. nb_p b = before @ nb_ptr b)"

lemma netbuf_first_ok: "netbuf_ok b \<Longrightarrow> \<exists>b'. netbuf_first (Some b) = Some b' \<and> netbuf_ok b' \<and> nb_ptr b' = nb_p b"
  by (auto simp: netbuf_first_def netbuf_ok_def)

lemma netbuf_next_ok:
  "netbuf_ok b \<Longrightarrow> netbuf_next (Some b) = Some (r, b') \<Longrightarrow>
     \<exists>c. b' = Some c \<and> netbuf_ok c \<and> nb_p c = nb_p b \<and> (0 \<le> r \<longrightarrow> nb_ptr c = tl (nb_ptr b))"
  by (auto simp: netbuf_next_def netbuf_ok_def split: list.splits if_splits)

text \<open>The loop \<^verbatim>\<open>do ... while (netbuf_next(buf) >= 0)\<close> visits every pbuf from the cursor on.\<close>

fun netbuf_walk :: "nat \<Rightarrow> netbuf \<Rightarrow> (u8 list list) option" where
  "netbuf_walk 0 b = None"
| "netbuf_walk (Suc fuel) b = (case netbuf_data (Some b) of
     (ERR_OK, Some (d, n)) \<Rightarrow> (case netbuf_next (Some b) of
         Some (r, Some c) \<Rightarrow> if r \<ge> 0 then map_option (Cons d) (netbuf_walk fuel c) else Some [d]
       | _ \<Rightarrow> None)
   | _ \<Rightarrow> None)"

lemma netbuf_walk_all:
  "nb_ptr b \<noteq> [] \<Longrightarrow> length (nb_ptr b) \<le> fuel \<Longrightarrow> netbuf_walk fuel b = Some (map payload (nb_ptr b))"
proof (induction fuel arbitrary: b)
  case (Suc fuel)
  then obtain q qs where q: "nb_ptr b = q # qs" by (cases "nb_ptr b") auto
  show ?case
  proof (cases qs)
    case Nil
    then show ?thesis using q by (simp add: netbuf_data_def netbuf_next_def)
  next
    case (Cons a list)
    then have "netbuf_walk fuel (b\<lparr>nb_ptr := qs\<rparr>) = Some (map payload qs)" using Suc q by simp
    then show ?thesis using q Cons by (auto simp: netbuf_data_def netbuf_next_def)
  qed
qed simp

lemma netbuf_walk_bytes:
  "nb_p b \<noteq> [] \<Longrightarrow> netbuf_first (Some b) = Some b' \<Longrightarrow>
     \<exists>parts. netbuf_walk (length (nb_p b)) b' = Some parts \<and> concat parts = bytes (nb_p b)"
  using netbuf_walk_all [of "b\<lparr>nb_ptr := nb_p b\<rparr>" "length (nb_p b)"] by (auto simp: netbuf_first_def bytes_def)

text \<open>A failed \<^verbatim>\<open>netbuf_alloc\<close> frees the packet and leaves the cursor in it.\<close>

lemma netbuf_alloc_dangles:
  "alloc PBUF_TRANSPORT n PBUF_RAM = None \<Longrightarrow> nb_ptr b \<noteq> [] \<Longrightarrow>
     \<exists>left c. netbuf_alloc alloc (Some b) n = Some (None, Some c, left) \<and> \<not> netbuf_ok c"
  by (auto simp: netbuf_alloc_def netbuf_ok_def Let_def)

end
