(* ===== verification/Apps.thy ===== *)
theory Apps
  imports Audio Netbuf
begin

text \<open>
  The two application threads: \<^verbatim>\<open>lwip/contrib/apps/UDP/UDP.c\<close> receives sound and
  \<^verbatim>\<open>lwip/contrib/apps/TCP/TCP.c\<close> serves the control menu. Each thread is cut at its blocking calls
  into operations; what a blocking call returns is an argument of the operation that follows it.
  A result \<open>None\<close> is an access through an invalid pointer or outside an array.
\<close>

section \<open>Shared state\<close>

datatype menus = main_menu | port_selector | comm_status

record UDP_val =
  losses :: u16
  received :: u16
  relation :: u16

datatype udp_pc = Udp_Top | Udp_Recv | Udp_Ended
datatype tcp_pc = Tcp_Accept | Tcp_Recv | Tcp_Data netbuf | Tcp_Port | Tcp_Send nat netbuf | Tcp_Status netbuf

text \<open>
  \<open>heap\<close> holds the halfwords allocated with \<^verbatim>\<open>pvPortMalloc\<close> by their address, the queues of length one
  are options, \<open>sent\<close> and \<open>echoed\<close> collect what is handed to \<^verbatim>\<open>netconn_write\<close> and \<^verbatim>\<open>netconn_send\<close>, and
  \<open>bound_port\<close> is the port of the last successful \<^verbatim>\<open>netconn_bind\<close>.
\<close>

record app = audio +
  heap :: "nat \<rightharpoonup> u16"
  port_selection :: "nat option"
  UDP_status_values :: "UDP_val option"
  on_udp_menu :: bool
  at_udp :: udp_pc
  udp_conn :: bool
  received_port :: nat
  udp_port :: u16
  bound_port :: "u16 option"
  echoed :: "u8 list list"
  at_tcp :: tcp_pc
  current_menu :: menus
  MusicState :: u8
  sent :: "u8 list list"

section \<open>UDP thread\<close>

text \<open>
  \<^verbatim>\<open>i\<close> is declared \<^verbatim>\<open>uint16_t\<close> in \<^verbatim>\<open>Audio.c\<close> and \<^verbatim>\<open>extern uint8_t\<close> in \<^verbatim>\<open>UDP.c\<close>: the store \<^verbatim>\<open>i = 0\<close> there is a
  byte store that clears the low byte only.
\<close>

definition reset_index :: "u16 \<Rightarrow> u16" where
  "reset_index k = k AND 0xFF00"

text \<open>
  From the top of the outer loop to the first \<^verbatim>\<open>netconn_recv\<close>; \<open>at0\<close> is what the read through \<^verbatim>\<open>NULL\<close> in
  the first round gives: the halfword at address 0, or \<open>None\<close> when that read faults. \<open>bus\<close> is the bus clock.
\<close>

definition udp_top :: "u32 \<Rightarrow> u16 option \<Rightarrow> bool \<Rightarrow> app \<Rightarrow> app option" where
  "udp_top bus at0 bind_ok s =
    (case (if received_port s = 0 then at0 else heap s (received_port s)) of
       None \<Rightarrow> None
     | Some v \<Rightarrow>
         let s = (if v \<noteq> 0 then s\<lparr>udp_port := v, heap := (if received_port s = 0 then heap s else (heap s)(received_port s := None))\<rparr> else s)
         in if \<not> udp_conn s then Some (s\<lparr>at_udp := Udp_Ended\<rparr>)
            else let s = (if bind_ok then s\<lparr>bound_port := Some (udp_port s)\<rparr> else s)
              in Some ((AudioConfig bus 45 s)\<lparr>at_udp := Udp_Recv\<rparr>))"

text \<open>One received packet: copied into the buffer that \<^verbatim>\<open>buffer_flag\<close> names, echoed when it fitted.\<close>

definition udp_packet :: "netbuf \<Rightarrow> app \<Rightarrow> app option" where
  "udp_packet buf s =
    (if nb_p buf = [] then None
     else if \<not> buffer_flag s then
       case netbuf_copy buf (buffer1 s) 1500 of (n, b) \<Rightarrow>
         let
           s = s\<lparr>buffer1 := b\<rparr>;
           s = (if n \<noteq> tot_len (hd (nb_p buf)) then s\<lparr>idx := reset_index (idx s)\<rparr>
                else s\<lparr>echoed := echoed s @ [bytes (nb_p buf)]\<rparr>)
         in Some (s\<lparr>buffer_flag := True, idx := reset_index (idx s)\<rparr>)
     else
       case netbuf_copy buf (buffer2 s) 1500 of (n, b) \<Rightarrow>
         let
           s = s\<lparr>buffer2 := b\<rparr>;
           s = (if n \<noteq> tot_len (hd (nb_p buf)) then s\<lparr>idx := reset_index (idx s)\<rparr>
                else s\<lparr>echoed := echoed s @ [bytes (nb_p buf)]\<rparr>)
         in Some (s\<lparr>buffer_flag := False, idx := reset_index (idx s)\<rparr>))"

text \<open>One round of the inner loop; \<open>r\<close> is what \<^verbatim>\<open>netconn_recv\<close> gave.\<close>

definition udp_recv :: "netbuf option \<Rightarrow> app \<Rightarrow> app option" where
  "udp_recv r s =
    (case (case r of None \<Rightarrow> Some s | Some buf \<Rightarrow> udp_packet buf s) of
       None \<Rightarrow> None
     | Some s \<Rightarrow> (case port_selection s of
         None \<Rightarrow> Some s
       | Some a \<Rightarrow> Some (s\<lparr>port_selection := None, received_port := a, at_udp := Udp_Top\<rparr>)))"

section \<open>TCP thread\<close>

definition str :: "string \<Rightarrow> u8 list" where
  "str = map of_char"

definition netconn_write :: "u8 list \<Rightarrow> nat \<Rightarrow> app \<Rightarrow> app" where
  "netconn_write d n s = s\<lparr>sent := sent s @ [take n d]\<rparr>"

definition lines :: "nat \<Rightarrow> string" where
  "lines n = replicate n (CHR 0x0A)"

definition menu1 :: string where
  "menu1 = ''WIRELESS K64 SPEAKERS'' @ lines 2 @ ''1)Mute/Unmute audio'' @ lines 1 @ ''2)Select music source device'' @
    lines 1 @ ''3)Deploy comms stats'' @ lines 1"

definition menu2 :: string where
  "menu2 = ''Type in the port'' @ lines 1 @ ''you want to listen to:''"

definition menu3_1 :: string where
  "menu3_1 = ''comms stats'' @ lines 1 @ ''UDP packs received per second: ''"

definition menu3_2 :: string where
  "menu3_2 = lines 1 @ ''UDP packs lost per second: ''"

definition menu3_3 :: string where
  "menu3_3 = lines 1 @ ''UDP comm quality: ''"

definition tcp_printMenu :: "app \<Rightarrow> app" where
  "tcp_printMenu s =
    netconn_write (str (lines 5)) 5 (netconn_write (str menu1) 93 (s\<lparr>on_udp_menu := False\<rparr>))"

definition tcp_printSelector :: "app \<Rightarrow> app" where
  "tcp_printSelector s = netconn_write (str (lines 9)) 9 (netconn_write (str menu2) 39 s)"

text \<open>The five digits of a value, each stored in a byte and read back for the next.\<close>

definition digits5 :: "u16 \<Rightarrow> u8 list" where
  "digits5 w =
    (let
       v = int (unat w);
       d = (\<lambda>b :: u8. int (unat b) - 48);
       v0 = word_of_int (v sdiv 10000 + 48);
       v1 = word_of_int ((v - d v0 * 10000) sdiv 1000 + 48);
       v2 = word_of_int ((v - d v0 * 10000 - d v1 * 1000) sdiv 100 + 48);
       v3 = word_of_int ((v - d v0 * 10000 - d v1 * 1000 - d v2 * 100) sdiv 10 + 48);
       v4 = word_of_int (v - d v0 * 10000 - d v1 * 1000 - d v2 * 100 - d v3 * 10 + 48)
     in [v0, v1, v2, v3, v4])"

text \<open>\<^verbatim>\<open>tcp_printUDPstatus\<close> before and after its wait for the values.\<close>

definition udp_status_begin :: "app \<Rightarrow> app" where
  "udp_status_begin s = s\<lparr>on_udp_menu := True\<rparr>"

definition udp_status_print :: "UDP_val \<Rightarrow> app \<Rightarrow> app" where
  "udp_status_print v s =
    (let
       s = netconn_write (str menu3_1) 43 s;
       s = netconn_write (digits5 (received v)) 5 s;
       s = netconn_write (str menu3_2) 28 s;
       s = netconn_write (digits5 (losses v)) 5 s;
       s = netconn_write (str menu3_3) 19 s;
       s = netconn_write (digits5 (relation v)) 5 s
     in netconn_write (str (lines 7)) 7 s)"

text \<open>The end of the loop body: the next part of the buffer, or the next buffer.\<close>

definition tcp_next :: "netbuf \<Rightarrow> app \<Rightarrow> app option" where
  "tcp_next buf s =
    (case netbuf_next (Some buf) of
       Some (r, Some b) \<Rightarrow> Some (s\<lparr>at_tcp := (if r \<ge> 0 then Tcp_Data b else Tcp_Recv)\<rparr>)
     | _ \<Rightarrow> None)"

definition tcp_accept :: "bool \<Rightarrow> app \<Rightarrow> app" where
  "tcp_accept ok s = (if ok then (tcp_printMenu s)\<lparr>at_tcp := Tcp_Recv\<rparr> else s)"

definition tcp_recv :: "netbuf option \<Rightarrow> app \<Rightarrow> app" where
  "tcp_recv r s = s\<lparr>at_tcp := (case r of None \<Rightarrow> Tcp_Accept | Some buf \<Rightarrow> Tcp_Data buf)\<rparr>"

definition tcp_mute :: "app \<Rightarrow> app option" where
  "tcp_mute s =
    (if MusicState s = 1 then (case AudioOutput 1 s of None \<Rightarrow> None | Some s \<Rightarrow> Some (s\<lparr>MusicState := 0\<rparr>))
     else if MusicState s = 0 then (case AudioOutput 0 s of None \<Rightarrow> None | Some s \<Rightarrow> Some (s\<lparr>MusicState := 1\<rparr>))
     else Some s)"

definition tcp_data :: "netbuf \<Rightarrow> app \<Rightarrow> app option" where
  "tcp_data buf s =
    (case netbuf_data (Some buf) of
       (ERR_OK, Some (c # _, n)) \<Rightarrow>
         if c = 120 then tcp_next buf (tcp_printMenu (s\<lparr>current_menu := main_menu\<rparr>))
         else if c = 49 then (case tcp_mute s of None \<Rightarrow> None | Some s \<Rightarrow> tcp_next buf s)
         else if c = 50 then
           if current_menu s = main_menu \<or> current_menu s = port_selector
           then Some ((tcp_printSelector (s\<lparr>current_menu := port_selector\<rparr>))\<lparr>at_tcp := Tcp_Port\<rparr>)
           else tcp_next buf s
         else if c = 51 then
           if current_menu s = main_menu
           then Some ((udp_status_begin (s\<lparr>current_menu := comm_status\<rparr>))\<lparr>at_tcp := Tcp_Status buf\<rparr>)
           else tcp_next buf s
         else tcp_next buf s
     | _ \<Rightarrow> None)"

definition parse_port :: "u8 list \<Rightarrow> u16" where
  "parse_port b = (let d = (\<lambda>k. int (unat (b ! k)) - 48) in
     word_of_int (d 0 * 10000 + d 1 * 1000 + d 2 * 100 + d 3 * 10 + d 4))"

definition back_to_menu :: "app \<Rightarrow> app" where
  "back_to_menu s = tcp_printMenu (s\<lparr>current_menu := main_menu\<rparr>)"

text \<open>
  After the second \<^verbatim>\<open>netconn_recv\<close>: \<open>read_port\<close> is the uninitialised array of ten bytes, \<open>a\<close> the result
  of \<^verbatim>\<open>pvPortMalloc\<close>. A failed receive leaves \<^verbatim>\<open>buf\<close> at \<^verbatim>\<open>NULL\<close>.
\<close>

definition tcp_port :: "netbuf option \<Rightarrow> u8 list \<Rightarrow> nat \<Rightarrow> app \<Rightarrow> app option" where
  "tcp_port r read_port a s =
    (case r of None \<Rightarrow> None
     | Some buf \<Rightarrow> (case netbuf_copy buf read_port 10 of (n, b) \<Rightarrow>
         if b ! 0 \<noteq> 120 then
           if a = 0 then None
           else Some (s\<lparr>heap := (heap s)(a \<mapsto> parse_port b), at_tcp := Tcp_Send a buf\<rparr>)
         else tcp_next buf (back_to_menu s)))"

text \<open>\<^verbatim>\<open>xQueueSend\<close> with a time-out: \<open>done\<close> into the empty queue, or given up on the full one.\<close>

definition tcp_send :: "nat \<Rightarrow> netbuf \<Rightarrow> app \<Rightarrow> app option" where
  "tcp_send a buf s =
    (if port_selection s = None then tcp_next buf (back_to_menu (s\<lparr>port_selection := Some a\<rparr>))
     else tcp_next buf (back_to_menu s))"

definition tcp_status :: "netbuf \<Rightarrow> app \<Rightarrow> app option" where
  "tcp_status buf s =
    (case UDP_status_values s of
       None \<Rightarrow> Some s
     | Some v \<Rightarrow> tcp_next buf (udp_status_print v (s\<lparr>UDP_status_values := None\<rparr>)))"

end
