(* ===== verification/Apps_Props.thy ===== *)
theory Apps_Props
  imports Apps
begin

text \<open>
  Properties of the application threads and of their interleaving with the sample interrupt.
\<close>

section \<open>Texts\<close>

lemma menu_lengths:
  "length (str menu1) = 93" "length (str menu2) = 39" "length (str menu3_1) = 43" "length (str menu3_2) = 28"
  "length (str menu3_3) = 19" "length (str (lines n)) = n"
  by (simp_all add: str_def menu1_def menu2_def menu3_1_def menu3_2_def menu3_3_def lines_def)

lemma digit_back: "0 \<le> k \<Longrightarrow> k \<le> 9 \<Longrightarrow> int (unat (word_of_int (k + 48) :: u8)) - 48 = k"
proof -
  assume "0 \<le> k" "k \<le> 9"
  then have "uint (word_of_int (k + 48) :: u8) = k + 48" unfolding unsigned_of_int by (simp add: take_bit_int_eq_self)
  then show ?thesis unfolding uint_nat [symmetric] by simp
qed

lemma decimal_split:
  fixes v :: int
  shows "v mod 10000 = 1000 * (v div 1000 mod 10) + v mod 1000" "v mod 1000 = 100 * (v div 100 mod 10) + v mod 100"
    "v mod 100 = 10 * (v div 10 mod 10) + v mod 10"
    "v mod 10000 div 1000 = v div 1000 mod 10" "v mod 1000 div 100 = v div 100 mod 10" "v mod 100 div 10 = v div 10 mod 10"
proof -
  have eq: "(10000 :: int) = 1000 * 10" "(1000 :: int) = 100 * 10" "(100 :: int) = 10 * 10" by simp_all
  show *: "v mod 10000 = 1000 * (v div 1000 mod 10) + v mod 1000" unfolding eq(1) by (rule zmod_zmult2_eq) simp
  show **: "v mod 1000 = 100 * (v div 100 mod 10) + v mod 100" unfolding eq(2) by (rule zmod_zmult2_eq) simp
  show ***: "v mod 100 = 10 * (v div 10 mod 10) + v mod 10" unfolding eq(3) by (rule zmod_zmult2_eq) simp
  show "v mod 10000 div 1000 = v div 1000 mod 10" unfolding * by simp
  show "v mod 1000 div 100 = v div 100 mod 10" unfolding ** by simp
  show "v mod 100 div 10 = v div 10 mod 10" unfolding *** by simp
qed

lemma digits5_value:
  "digits5 w = (let v = int (unat w) in
     [word_of_int (v div 10000 + 48), word_of_int (v div 1000 mod 10 + 48), word_of_int (v div 100 mod 10 + 48),
      word_of_int (v div 10 mod 10 + 48), word_of_int (v mod 10 + 48)])"
proof -
  define v where "v = int (unat w)"
  have v: "0 \<le> v" "v < 65536" using unsigned_less [of w, where 'a = int] by (simp_all add: v_def)
  define a b c e where "a = v div 10000" and "b = v div 1000 mod 10" and "c = v div 100 mod 10" and "e = v div 10 mod 10"
  have r: "0 \<le> a" "a \<le> 9" "0 \<le> b" "b \<le> 9" "0 \<le> c" "c \<le> 9" "0 \<le> e" "e \<le> 9"
    using v by (auto simp: a_def b_def c_def e_def)
  have m: "v - a * 10000 = v mod 10000" by (simp only: a_def minus_div_mult_eq_mod)
  have m': "v mod 10000 - b * 1000 = v mod 1000" "v mod 1000 - c * 100 = v mod 100" "v mod 100 - e * 10 = v mod 10"
    unfolding b_def c_def e_def decimal_split(1,2,3) [of v] by (simp_all only: mult.commute [of _ "numeral _"] add_diff_cancel_left')
  have m'': "v mod 10000 div 1000 = b" "v mod 1000 div 100 = c" "v mod 100 div 10 = e"
    unfolding b_def c_def e_def by (rule decimal_split)+
  have d: "int (unat (word_of_int (a + 48) :: u8)) - 48 = a" "int (unat (word_of_int (b + 48) :: u8)) - 48 = b"
    "int (unat (word_of_int (c + 48) :: u8)) - 48 = c" "int (unat (word_of_int (e + 48) :: u8)) - 48 = e"
    using r by (simp_all only: digit_back)
  have q: "v sdiv 10000 = a" using v by (simp add: sdiv_nonneg a_def)
  show ?thesis
    unfolding digits5_def Let_def v_def [symmetric] q d m m'
    by (simp only: sdiv_nonneg pos_mod_sign zero_less_numeral m m' m'' d a_def [symmetric] b_def [symmetric] c_def [symmetric] e_def [symmetric])
qed

lemma parse_port_list:
  "parse_port (x0 # x1 # x2 # x3 # x4 # rest) = word_of_int ((int (unat x0) - 48) * 10000 + (int (unat x1) - 48) * 1000 +
     (int (unat x2) - 48) * 100 + (int (unat x3) - 48) * 10 + (int (unat x4) - 48))"
  by (simp only: parse_port_def Let_def nth_Cons_0 nth_Cons_numeral) (simp add: numeral_eq_Suc)

lemma digit_le: "x mod 10 \<le> 9" for x :: int
  using pos_mod_bound [of 10 x] by simp

lemma parse_digits5: "parse_port (digits5 w @ rest) = w"
proof -
  define v where "v = int (unat w)"
  have v: "0 \<le> v" "v < 65536" using unsigned_less [of w, where 'a = int] by (simp_all add: v_def)
  have split: "v div 10000 * 10000 + v div 1000 mod 10 * 1000 + v div 100 mod 10 * 100 + v div 10 mod 10 * 10 + v mod 10 = v"
    using decimal_split [of v] div_mult_mod_eq [of v 10000] by linarith
  have top: "0 \<le> v div 10000" "v div 10000 \<le> 9" using v by auto
  have "parse_port (digits5 w @ rest) = word_of_int
      (v div 10000 * 10000 + v div 1000 mod 10 * 1000 + v div 100 mod 10 * 100 + v div 10 mod 10 * 10 + v mod 10)"
    unfolding digits5_value Let_def v_def [symmetric] append.simps parse_port_list
    by (simp only: digit_back [OF top] digit_back [OF pos_mod_sign digit_le] zero_less_numeral)
  also note split
  finally have "parse_port (digits5 w @ rest) = word_of_int v" .
  then show ?thesis by (simp add: v_def)
qed

lemma length_digits5: "length (digits5 w) = 5"
  by (simp add: digits5_value Let_def)

section \<open>Receiving sound\<close>

lemma netbuf_copy_spec:
  assumes "wf_chain (nb_p b)" "unat n \<le> length dst"
  shows "netbuf_copy b dst n = (let d = take (unat n) (bytes (nb_p b)) in
    (word_of_nat (length d), d @ drop (length d) dst))"
  unfolding netbuf_copy_def using pbuf_copy_partial_spec [OF assms, of 0] by (simp add: overwrite_def Let_def)

lemma reset_index_spec: "unat (reset_index k) = 256 * (unat k div 256)" "reset_index (reset_index k) = reset_index k"
proof -
  have m: "(0xFF00 :: u16) = NOT (mask 8)" by (simp add: mask_eq_exp_minus_1)
  have eq: "reset_index k = push_bit 8 (drop_bit 8 k)"
    unfolding reset_index_def m by (rule bit_word_eqI) (auto simp: bit_simps)
  have "256 * (unat k div 256) < 65536" using unat_u16_bound [of k] by simp
  then show "unat (reset_index k) = 256 * (unat k div 256)"
    unfolding eq unsigned_push_bit_eq unat_drop_bit by (simp add: push_bit_eq_mult take_bit_nat_eq_self)
  show "reset_index (reset_index k) = reset_index k" by (simp add: reset_index_def and.assoc)
qed

text \<open>What one packet does: it goes into the buffer being played, then the other buffer is played.\<close>

definition received_into :: "u8 list \<Rightarrow> u8 list \<Rightarrow> u8 list" where
  "received_into d old = (let d = take 1500 d in d @ drop (length d) old)"

lemma udp_packet_spec:
  assumes "audio_ok s" "nb_p buf \<noteq> []" "wf_chain (nb_p buf)"
  shows "\<exists>e. udp_packet buf s = Some (s\<lparr>
      buffer1 := (if buffer_flag s then buffer1 s else received_into (bytes (nb_p buf)) (buffer1 s)),
      buffer2 := (if buffer_flag s then received_into (bytes (nb_p buf)) (buffer2 s) else buffer2 s),
      idx := reset_index (idx s), buffer_flag := \<not> buffer_flag s, echoed := e\<rparr>) \<and>
    e = (if length (bytes (nb_p buf)) \<le> 1500 then echoed s @ [bytes (nb_p buf)] else echoed s)"
proof -
  let ?d = "bytes (nb_p buf)"
  have l: "length (buffer1 s) = 1500" "length (buffer2 s) = 1500"
    using assms(1) by (simp_all add: audio_ok_def audio_buffer_sizes_def)
  have c: "netbuf_copy buf dst 1500 = (word_of_nat (min 1500 (length ?d)), received_into ?d dst)" if "length dst = 1500" for dst
    using netbuf_copy_spec [OF assms(3), of 1500 dst] that by (simp add: received_into_def Let_def min.commute)
  have t: "unat (tot_len (hd (nb_p buf))) = length ?d" using assms(2,3) by (cases "nb_p buf") (auto simp: bytes_def)
  have "(word_of_nat (min 1500 (length ?d)) \<noteq> tot_len (hd (nb_p buf))) = (\<not> length ?d \<le> 1500)"
    unfolding word_unat_eq_iff t by (auto simp: unat_of_nat_u16 min_def)
  then show ?thesis
    using assms(2) l reset_index_spec(2)
    by (cases "buffer_flag s") (simp_all add: udp_packet_def c Let_def)
qed

section \<open>The system\<close>

text \<open>Interrupts of timer 0 are taken while it runs with its interrupt enabled everywhere.\<close>

definition timer0_on :: "app \<Rightarrow> bool" where
  "timer0_on s \<longleftrightarrow> TEN (channel (PIT s) kPIT_Chnl_0) \<and> TIE (channel (PIT s) kPIT_Chnl_0) \<and> \<not> MDIS (PIT s) \<and> nvic_pit0 s"

text \<open>
  What the network stack delivers: a well-formed packet with the cursor at its start, without empty
  parts; what the allocator delivers: a fresh address.
\<close>

definition good_packet :: "netbuf \<Rightarrow> bool" where
  "good_packet b \<longleftrightarrow> nb_p b \<noteq> [] \<and> nb_ptr b = nb_p b \<and> wf_chain (nb_p b) \<and> (\<forall>q \<in> set (nb_p b). payload q \<noteq> [])"

definition fresh :: "nat \<Rightarrow> app \<Rightarrow> bool" where
  "fresh a s \<longleftrightarrow> a \<noteq> 0 \<and> heap s a = None"

text \<open>What the port command can get: a packet or a failed receive, ten bytes of stack, a fresh block or none.\<close>

definition port_input :: "netbuf option \<Rightarrow> u8 list \<Rightarrow> nat \<Rightarrow> app \<Rightarrow> bool" where
  "port_input r read_port a s \<longleftrightarrow> pred_option good_packet r \<and> length read_port = 10 \<and> (a = 0 \<or> fresh a s)"

inductive sys_step :: "u32 \<Rightarrow> u16 option \<Rightarrow> app \<Rightarrow> app \<Rightarrow> bool" for bus at0 where
  isr: "timer0_on s \<Longrightarrow> PIT0_IRQHandler s = Some s' \<Longrightarrow> sys_step bus at0 s s'"
| udp_top: "at_udp s = Udp_Top \<Longrightarrow> udp_top bus at0 bind_ok s = Some s' \<Longrightarrow> sys_step bus at0 s s'"
| udp_recv: "at_udp s = Udp_Recv \<Longrightarrow> pred_option good_packet r \<Longrightarrow> udp_recv r s = Some s' \<Longrightarrow> sys_step bus at0 s s'"
| tcp_accept: "at_tcp s = Tcp_Accept \<Longrightarrow> sys_step bus at0 s (tcp_accept ok s)"
| tcp_recv: "at_tcp s = Tcp_Recv \<Longrightarrow> pred_option good_packet r \<Longrightarrow> sys_step bus at0 s (tcp_recv r s)"
| tcp_data: "at_tcp s = Tcp_Data b \<Longrightarrow> tcp_data b s = Some s' \<Longrightarrow> sys_step bus at0 s s'"
| tcp_port: "at_tcp s = Tcp_Port \<Longrightarrow> port_input r read_port a s \<Longrightarrow> tcp_port r read_port a s = Some s' \<Longrightarrow> sys_step bus at0 s s'"
| tcp_send: "at_tcp s = Tcp_Send a b \<Longrightarrow> tcp_send a b s = Some s' \<Longrightarrow> sys_step bus at0 s s'"
| tcp_status: "at_tcp s = Tcp_Status b \<Longrightarrow> UDP_status_values s \<noteq> None \<Longrightarrow> tcp_status b s = Some s' \<Longrightarrow> sys_step bus at0 s s'"

text \<open>An operation that a thread or the interrupt can start and that goes through an invalid pointer.\<close>

definition sys_fault :: "u32 \<Rightarrow> u16 option \<Rightarrow> app \<Rightarrow> bool" where
  "sys_fault bus at0 s \<longleftrightarrow>
    timer0_on s \<and> PIT0_IRQHandler s = None \<or>
    at_udp s = Udp_Top \<and> (\<exists>bind_ok. udp_top bus at0 bind_ok s = None) \<or>
    at_udp s = Udp_Recv \<and> (\<exists>r. pred_option good_packet r \<and> udp_recv r s = None) \<or>
    (\<exists>b. at_tcp s = Tcp_Data b \<and> tcp_data b s = None) \<or>
    at_tcp s = Tcp_Port \<and> (\<exists>r read_port a. port_input r read_port a s \<and> tcp_port r read_port a s = None) \<or>
    (\<exists>a b. at_tcp s = Tcp_Send a b \<and> tcp_send a b s = None) \<or>
    (\<exists>b. at_tcp s = Tcp_Status b \<and> tcp_status b s = None)"

section \<open>Invariant\<close>

text \<open>The addresses that the threads and the queue still have to use: all live and distinct.\<close>

definition owned :: "app \<Rightarrow> nat list" where
  "owned s = (if at_udp s = Udp_Top \<and> received_port s \<noteq> 0 then [received_port s] else []) @
    (case port_selection s of Some a \<Rightarrow> [a] | None \<Rightarrow> []) @ (case at_tcp s of Tcp_Send a b \<Rightarrow> [a] | _ \<Rightarrow> [])"

definition parts_ok :: "netbuf \<Rightarrow> bool" where
  "parts_ok b \<longleftrightarrow> nb_ptr b \<noteq> [] \<and> (\<forall>q \<in> set (nb_ptr b). payload q \<noteq> [])"

definition tcp_ok :: "app \<Rightarrow> bool" where
  "tcp_ok s \<longleftrightarrow> (case at_tcp s of Tcp_Data b \<Rightarrow> parts_ok b | Tcp_Send a b \<Rightarrow> parts_ok b | Tcp_Status b \<Rightarrow> parts_ok b | _ \<Rightarrow> True) \<and>
    (current_menu s = port_selector \<longrightarrow> at_tcp s = Tcp_Port \<or> (\<exists>a b. at_tcp s = Tcp_Send a b)) \<and>
    (MusicState s = 0 \<or> MusicState s = 1)"

definition app_ok :: "app \<Rightarrow> bool" where
  "app_ok s \<longleftrightarrow> audio_ok s \<and> distinct (owned s) \<and> (\<forall>a \<in> set (owned s). a \<noteq> 0 \<and> heap s a \<noteq> None) \<and>
    tcp_ok s \<and> UDP_status_values s = None"

lemma good_packet_parts: "good_packet b \<Longrightarrow> parts_ok b"
  by (simp add: good_packet_def parts_ok_def)

lemma owned_live: "app_ok s \<Longrightarrow> a \<in> set (owned s) \<Longrightarrow> a \<noteq> 0 \<and> (\<exists>v. heap s a = Some v)"
  by (auto simp: app_ok_def)

text \<open>Fields that the parts of the invariant do not depend on.\<close>

lemma audio_ok_frame [simp]:
  "audio_ok (s\<lparr>PIT := x0\<rparr>) = audio_ok s"
  "audio_ok (s\<lparr>nvic_pit0 := x1\<rparr>) = audio_ok s"
  "audio_ok (s\<lparr>nvic_pit1 := x2\<rparr>) = audio_ok s"
  "audio_ok (s\<lparr>prio_pit1 := x3\<rparr>) = audio_ok s"
  "audio_ok (s\<lparr>buffer_flag := x4\<rparr>) = audio_ok s"
  "audio_ok (s\<lparr>heap := x5\<rparr>) = audio_ok s"
  "audio_ok (s\<lparr>port_selection := x6\<rparr>) = audio_ok s"
  "audio_ok (s\<lparr>UDP_status_values := x7\<rparr>) = audio_ok s"
  "audio_ok (s\<lparr>on_udp_menu := x8\<rparr>) = audio_ok s"
  "audio_ok (s\<lparr>at_udp := x9\<rparr>) = audio_ok s"
  "audio_ok (s\<lparr>udp_conn := x10\<rparr>) = audio_ok s"
  "audio_ok (s\<lparr>received_port := x11\<rparr>) = audio_ok s"
  "audio_ok (s\<lparr>udp_port := x12\<rparr>) = audio_ok s"
  "audio_ok (s\<lparr>bound_port := x13\<rparr>) = audio_ok s"
  "audio_ok (s\<lparr>echoed := x14\<rparr>) = audio_ok s"
  "audio_ok (s\<lparr>at_tcp := x15\<rparr>) = audio_ok s"
  "audio_ok (s\<lparr>current_menu := x16\<rparr>) = audio_ok s"
  "audio_ok (s\<lparr>MusicState := x17\<rparr>) = audio_ok s"
  "audio_ok (s\<lparr>sent := x18\<rparr>) = audio_ok s"
  for s :: app
  by (simp_all add: audio_ok_def)

lemma owned_frame [simp]:
  "owned (s\<lparr>PIT := x0\<rparr>) = owned s"
  "owned (s\<lparr>DAC0 := x1\<rparr>) = owned s"
  "owned (s\<lparr>nvic_pit0 := x2\<rparr>) = owned s"
  "owned (s\<lparr>nvic_pit1 := x3\<rparr>) = owned s"
  "owned (s\<lparr>prio_pit1 := x4\<rparr>) = owned s"
  "owned (s\<lparr>buffer1 := x5\<rparr>) = owned s"
  "owned (s\<lparr>buffer2 := x6\<rparr>) = owned s"
  "owned (s\<lparr>idx := x7\<rparr>) = owned s"
  "owned (s\<lparr>buffer_flag := x8\<rparr>) = owned s"
  "owned (s\<lparr>heap := x9\<rparr>) = owned s"
  "owned (s\<lparr>UDP_status_values := x10\<rparr>) = owned s"
  "owned (s\<lparr>on_udp_menu := x11\<rparr>) = owned s"
  "owned (s\<lparr>udp_conn := x12\<rparr>) = owned s"
  "owned (s\<lparr>udp_port := x13\<rparr>) = owned s"
  "owned (s\<lparr>bound_port := x14\<rparr>) = owned s"
  "owned (s\<lparr>echoed := x15\<rparr>) = owned s"
  "owned (s\<lparr>current_menu := x16\<rparr>) = owned s"
  "owned (s\<lparr>MusicState := x17\<rparr>) = owned s"
  "owned (s\<lparr>sent := x18\<rparr>) = owned s"
  for s :: app
  by (simp_all add: owned_def)

lemma tcp_ok_frame [simp]:
  "tcp_ok (s\<lparr>PIT := x0\<rparr>) = tcp_ok s"
  "tcp_ok (s\<lparr>DAC0 := x1\<rparr>) = tcp_ok s"
  "tcp_ok (s\<lparr>nvic_pit0 := x2\<rparr>) = tcp_ok s"
  "tcp_ok (s\<lparr>nvic_pit1 := x3\<rparr>) = tcp_ok s"
  "tcp_ok (s\<lparr>prio_pit1 := x4\<rparr>) = tcp_ok s"
  "tcp_ok (s\<lparr>buffer1 := x5\<rparr>) = tcp_ok s"
  "tcp_ok (s\<lparr>buffer2 := x6\<rparr>) = tcp_ok s"
  "tcp_ok (s\<lparr>idx := x7\<rparr>) = tcp_ok s"
  "tcp_ok (s\<lparr>buffer_flag := x8\<rparr>) = tcp_ok s"
  "tcp_ok (s\<lparr>heap := x9\<rparr>) = tcp_ok s"
  "tcp_ok (s\<lparr>port_selection := x10\<rparr>) = tcp_ok s"
  "tcp_ok (s\<lparr>UDP_status_values := x11\<rparr>) = tcp_ok s"
  "tcp_ok (s\<lparr>on_udp_menu := x12\<rparr>) = tcp_ok s"
  "tcp_ok (s\<lparr>at_udp := x13\<rparr>) = tcp_ok s"
  "tcp_ok (s\<lparr>udp_conn := x14\<rparr>) = tcp_ok s"
  "tcp_ok (s\<lparr>received_port := x15\<rparr>) = tcp_ok s"
  "tcp_ok (s\<lparr>udp_port := x16\<rparr>) = tcp_ok s"
  "tcp_ok (s\<lparr>bound_port := x17\<rparr>) = tcp_ok s"
  "tcp_ok (s\<lparr>echoed := x18\<rparr>) = tcp_ok s"
  "tcp_ok (s\<lparr>sent := x19\<rparr>) = tcp_ok s"
  for s :: app
  by (simp_all add: tcp_ok_def)

text \<open>Audio operations leave the rest of the state alone.\<close>

lemma isr_frame: "PIT0_IRQHandler s = Some s' \<Longrightarrow> \<exists>x d k. s' = s\<lparr>PIT := x, DAC0 := d, idx := k\<rparr>"
  by (auto simp: PIT0_IRQHandler_def Let_def split: option.splits)

lemma audio_output_ok:
  assumes "audio_ok s"
  shows "\<exists>x d. AudioOutput v s = Some (s\<lparr>PIT := x, DAC0 := d\<rparr>) \<and> audio_ok (s\<lparr>PIT := x, DAC0 := d\<rparr>)"
proof (cases "v = 1")
  case True
  then have "AudioOutput v s = Some (s\<lparr>PIT := PIT_StartTimer kPIT_Chnl_0 (PIT s), DAC0 := DAC0 s\<rparr>)" by (simp add: AudioOutput_def)
  then show ?thesis using assms by (fastforce simp: audio_ok_def)
next
  case False
  obtain d where "DAC_SetBufferValue 0 0 (DAC0 s) = Some d" "DAT d \<noteq> []"
    using set_value_0 assms unfolding audio_ok_def by blast
  then have "AudioOutput v s = Some (s\<lparr>PIT := PIT_StopTimer kPIT_Chnl_0 (PIT s), DAC0 := d\<rparr>)" "DAT d \<noteq> []"
    using False by (simp_all add: AudioOutput_def Let_def)
  then show ?thesis using assms by (fastforce simp: audio_ok_def)
qed

lemma config_frame:
  "AudioConfig bus Tx s = s\<lparr>PIT := PIT (AudioConfig bus Tx s), DAC0 := DAC0 (AudioConfig bus Tx s),
     nvic_pit0 := True, nvic_pit1 := True, prio_pit1 := 3\<rparr>"
  "DAT (DAC0 (AudioConfig bus Tx s)) = DAT (DAC0 s)"
  by (simp_all add: audio_config_simps)

lemma config_ok: "app_ok ((AudioConfig bus Tx s)\<lparr>at_udp := pc\<rparr>) \<longleftrightarrow> app_ok (s\<lparr>at_udp := pc\<rparr>)"
proof -
  obtain x d where c: "AudioConfig bus Tx s = s\<lparr>PIT := x, DAC0 := d, nvic_pit0 := True, nvic_pit1 := True, prio_pit1 := 3\<rparr>"
    and d: "DAT d = DAT (DAC0 s)" using config_frame by blast
  have "audio_ok (s\<lparr>PIT := x, DAC0 := d\<rparr>) = audio_ok s" using d by (simp add: audio_ok_def)
  moreover have "owned (s\<lparr>PIT := x, DAC0 := d, nvic_pit0 := True, nvic_pit1 := True, prio_pit1 := 3, at_udp := pc\<rparr>) =
      owned (s\<lparr>at_udp := pc\<rparr>)" by (simp add: owned_def)
  ultimately show ?thesis unfolding c by (simp add: app_ok_def)
qed

lemma bound_port_ok: "app_ok (s\<lparr>bound_port := x, at_udp := pc\<rparr>) = app_ok (s\<lparr>at_udp := pc\<rparr>)"
proof -
  have "owned (s\<lparr>bound_port := x, at_udp := pc\<rparr>) = owned (s\<lparr>at_udp := pc\<rparr>)" by (simp add: owned_def)
  then show ?thesis by (simp add: app_ok_def)
qed

section \<open>Every operation keeps the invariant and succeeds\<close>

lemmas app_ok_defs = app_ok_def audio_ok_def owned_def tcp_ok_def

lemma isr_keeps: "app_ok s \<Longrightarrow> \<exists>s'. PIT0_IRQHandler s = Some s' \<and> app_ok s'"
proof -
  assume ok: "app_ok s"
  then obtain s' where s': "PIT0_IRQHandler s = Some s'" "audio_ok s'" using isr_step [of s] by (auto simp: app_ok_def)
  then obtain x d k where "s' = s\<lparr>PIT := x, DAC0 := d, idx := k\<rparr>" using isr_frame by blast
  then show ?thesis using s' ok by (simp add: app_ok_def)
qed

lemma udp_top_keeps:
  assumes "app_ok s" "at_udp s = Udp_Top" "received_port s = 0 \<Longrightarrow> at0 \<noteq> None"
  shows "\<exists>s'. udp_top bus at0 bind_ok s = Some s' \<and> app_ok s'"
proof -
  define v where "v = (if received_port s = 0 then at0 else heap s (received_port s))"
  have "\<exists>w. v = Some w"
  proof (cases "received_port s = 0")
    case False
    then have "received_port s \<in> set (owned s)" using assms(2) by (simp add: owned_def)
    then have "\<exists>w. heap s (received_port s) = Some w" using owned_live [OF assms(1)] by blast
    then show ?thesis using False by (simp add: v_def)
  next
    case True
    then show ?thesis using assms(3) by (auto simp: v_def)
  qed
  then obtain w where w: "v = Some w" by blast
  define s1 where "s1 = (if w \<noteq> 0 then s\<lparr>udp_port := w, heap := (if received_port s = 0 then heap s else (heap s)(received_port s := None))\<rparr> else s)"
  have ok1: "app_ok (s1\<lparr>at_udp := pc\<rparr>)" if "pc \<noteq> Udp_Top" for pc
  proof -
    have dist: "distinct (owned s)" using assms(1) by (simp add: app_ok_def)
    have "owned s = (if received_port s \<noteq> 0 then [received_port s] else []) @ owned (s\<lparr>at_udp := pc\<rparr>)"
      using assms(2) that by (simp add: owned_def)
    then have o: "distinct (owned (s\<lparr>at_udp := pc\<rparr>))" "set (owned (s\<lparr>at_udp := pc\<rparr>)) \<subseteq> set (owned s)"
      "received_port s \<noteq> 0 \<Longrightarrow> received_port s \<notin> set (owned (s\<lparr>at_udp := pc\<rparr>))"
      using dist by (auto split: if_splits)
    have "a \<noteq> 0 \<and> heap s1 a \<noteq> None" if "a \<in> set (owned (s\<lparr>at_udp := pc\<rparr>))" for a
    proof -
      have "a \<noteq> 0 \<and> (\<exists>v. heap s a = Some v)" using owned_live [OF assms(1)] o(2) that by blast
      moreover have "a \<noteq> received_port s" using calculation o(3) that by metis
      ultimately show ?thesis by (simp add: s1_def)
    qed
    moreover have "owned (s1\<lparr>at_udp := pc\<rparr>) = owned (s\<lparr>at_udp := pc\<rparr>)" by (simp add: s1_def owned_def)
    moreover have "audio_ok s1" "tcp_ok s1" "UDP_status_values s1 = None" using assms(1) by (simp_all add: app_ok_def s1_def)
    ultimately show ?thesis using o(1) by (simp add: app_ok_def)
  qed
  let ?s2 = "if bind_ok then s1\<lparr>bound_port := Some (udp_port s1)\<rparr> else s1"
  have run: "udp_top bus at0 bind_ok s =
      (if \<not> udp_conn s1 then Some (s1\<lparr>at_udp := Udp_Ended\<rparr>) else Some ((AudioConfig bus 45 ?s2)\<lparr>at_udp := Udp_Recv\<rparr>))"
    using w unfolding udp_top_def v_def [symmetric] by (simp add: Let_def s1_def)
  have "app_ok ((AudioConfig bus 45 ?s2)\<lparr>at_udp := Udp_Recv\<rparr>)"
    using ok1 [of Udp_Recv] bound_port_ok [where s = s1] unfolding config_ok by simp
  then show ?thesis using run ok1 [of Udp_Ended] by auto
qed

lemma udp_packet_ok:
  assumes "app_ok s" "good_packet b"
  shows "\<exists>s'. udp_packet b s = Some s' \<and> app_ok s' \<and> at_udp s' = at_udp s"
proof -
  have a: "audio_ok s" and p: "nb_p b \<noteq> []" "wf_chain (nb_p b)" using assms by (simp_all add: app_ok_def good_packet_def)
  obtain e where run: "udp_packet b s = Some (s\<lparr>
      buffer1 := (if buffer_flag s then buffer1 s else received_into (bytes (nb_p b)) (buffer1 s)),
      buffer2 := (if buffer_flag s then received_into (bytes (nb_p b)) (buffer2 s) else buffer2 s),
      idx := reset_index (idx s), buffer_flag := \<not> buffer_flag s, echoed := e\<rparr>)"
    using udp_packet_spec [OF a p] by blast
  have "length (received_into d old) = 1500" if "length old = 1500" for d old using that by (simp add: received_into_def Let_def)
  moreover have "unat (reset_index (idx s)) < 750"
  proof -
    have "unat (reset_index (idx s)) \<le> unat (idx s)"
      unfolding reset_index_spec(1) using div_times_less_eq_dividend [of "unat (idx s)" 256] by (simp only: mult.commute)
    also have "\<dots> < 750" using a by (simp add: audio_ok_def audio_buffer_sizes_def)
    finally show ?thesis .
  qed
  ultimately have "audio_ok (s\<lparr>
      buffer1 := (if buffer_flag s then buffer1 s else received_into (bytes (nb_p b)) (buffer1 s)),
      buffer2 := (if buffer_flag s then received_into (bytes (nb_p b)) (buffer2 s) else buffer2 s),
      idx := reset_index (idx s)\<rparr>)"
    using a by (simp add: audio_ok_def audio_buffer_sizes_def)
  then show ?thesis unfolding run using assms(1) by (simp add: app_ok_def)
qed

lemma udp_recv_keeps:
  assumes "app_ok s" "at_udp s = Udp_Recv" "pred_option good_packet r"
  shows "\<exists>s'. udp_recv r s = Some s' \<and> app_ok s'"
proof -
  obtain t where t: "(case r of None \<Rightarrow> Some s | Some buf \<Rightarrow> udp_packet buf s) = Some t" "app_ok t" "at_udp t = Udp_Recv"
    using assms udp_packet_ok by (cases r) fastforce+
  show ?thesis
  proof (cases "port_selection t")
    case None
    then show ?thesis using t by (simp add: udp_recv_def)
  next
    case (Some a)
    let ?t' = "t\<lparr>port_selection := None, received_port := a, at_udp := Udp_Top\<rparr>"
    have "a \<in> set (owned t)" using Some by (simp add: owned_def)
    then have "a \<noteq> 0" using owned_live [OF t(2)] by blast
    then have "owned ?t' = owned t" using Some t(3) by (simp add: owned_def)
    then have "app_ok ?t'" using t(2) by (simp add: app_ok_def)
    then show ?thesis using t(1) Some by (simp add: udp_recv_def)
  qed
qed

text \<open>Moves of the TCP thread that neither allocate nor send.\<close>

definition pc_ok :: "tcp_pc \<Rightarrow> bool" where
  "pc_ok x \<longleftrightarrow> (case x of Tcp_Data b \<Rightarrow> parts_ok b | Tcp_Send a b \<Rightarrow> False | Tcp_Status b \<Rightarrow> parts_ok b | _ \<Rightarrow> True)"

lemma tcp_move:
  assumes "app_ok s" "audio_ok s'" "heap s' = heap s" "at_udp s' = at_udp s" "received_port s' = received_port s"
    "port_selection s' = port_selection s" "UDP_status_values s' = UDP_status_values s" "pc_ok (at_tcp s')"
    "current_menu s' = port_selector \<longrightarrow> at_tcp s' = Tcp_Port" "MusicState s' = 0 \<or> MusicState s' = 1"
  shows "app_ok s'"
proof -
  have "owned s = owned s' @ (case at_tcp s of Tcp_Send a b \<Rightarrow> [a] | _ \<Rightarrow> [])"
    using assms(4-6,8) by (auto simp: owned_def pc_ok_def split: tcp_pc.splits)
  then have o: "distinct (owned s')" "set (owned s') \<subseteq> set (owned s)" using assms(1) by (simp_all add: app_ok_def)
  have live: "a \<noteq> 0 \<and> heap s' a \<noteq> None" if "a \<in> set (owned s')" for a
    using owned_live [OF assms(1), of a] o(2) that assms(3) by auto
  have t: "tcp_ok s'" using assms(8-10) by (simp add: tcp_ok_def pc_ok_def split: tcp_pc.splits)
  have u: "UDP_status_values s' = None" using assms(1,7) by (simp add: app_ok_def)
  show ?thesis unfolding app_ok_def using assms(2) o(1) live t u by blast
qed

lemma tcp_next_keeps:
  assumes "app_ok s0" "parts_ok b" "audio_ok s" "heap s = heap s0" "at_udp s = at_udp s0" "received_port s = received_port s0"
    "port_selection s = port_selection s0" "UDP_status_values s = UDP_status_values s0"
    "current_menu s \<noteq> port_selector" "MusicState s = 0 \<or> MusicState s = 1"
  shows "\<exists>s'. tcp_next b s = Some s' \<and> app_ok s'"
proof -
  obtain q qs where q: "nb_ptr b = q # qs" using assms(2) by (cases "nb_ptr b") (auto simp: parts_ok_def)
  define x where "x = (if qs = [] then Tcp_Recv else Tcp_Data (b\<lparr>nb_ptr := qs\<rparr>))"
  have "tcp_next b s = Some (s\<lparr>at_tcp := x\<rparr>)" by (simp add: tcp_next_def netbuf_next_def q x_def)
  moreover have "pc_ok x" using assms(2) q by (simp add: pc_ok_def x_def parts_ok_def)
  moreover have "app_ok (s\<lparr>at_tcp := x\<rparr>)" using assms \<open>pc_ok x\<close> by (intro tcp_move [OF assms(1)]) simp_all
  ultimately show ?thesis by blast
qed

lemmas print_defs = tcp_printMenu_def tcp_printSelector_def netconn_write_def udp_status_begin_def back_to_menu_def

lemma tcp_mute_ok:
  assumes "app_ok s"
  shows "\<exists>x d m. tcp_mute s = Some (s\<lparr>PIT := x, DAC0 := d, MusicState := m\<rparr>) \<and> audio_ok (s\<lparr>PIT := x, DAC0 := d\<rparr>) \<and> (m = 0 \<or> m = 1)"
proof -
  have a: "audio_ok s" and m: "MusicState s = 0 \<or> MusicState s = 1" using assms by (simp_all add: app_ok_def tcp_ok_def)
  obtain x0 d0 x1 d1 where "AudioOutput 0 s = Some (s\<lparr>PIT := x0, DAC0 := d0\<rparr>)" "audio_ok (s\<lparr>PIT := x0, DAC0 := d0\<rparr>)"
    "AudioOutput 1 s = Some (s\<lparr>PIT := x1, DAC0 := d1\<rparr>)" "audio_ok (s\<lparr>PIT := x1, DAC0 := d1\<rparr>)"
    using audio_output_ok [OF a] by meson
  then show ?thesis using m by (auto simp: tcp_mute_def)
qed

lemma app_ok_parts:
  assumes "app_ok s"
  shows "audio_ok s" "MusicState s = 0 \<or> MusicState s = 1"
    "current_menu s = port_selector \<Longrightarrow> at_tcp s = Tcp_Port \<or> (\<exists>a b. at_tcp s = Tcp_Send a b)"
    "at_tcp s = Tcp_Data b \<Longrightarrow> parts_ok b" "at_tcp s = Tcp_Send a b \<Longrightarrow> parts_ok b" "at_tcp s = Tcp_Status b \<Longrightarrow> parts_ok b"
    "UDP_status_values s = None" "distinct (owned s)"
  using assms by (simp_all add: app_ok_def tcp_ok_def)

lemma tcp_accept_keeps:
  assumes "app_ok s" "at_tcp s = Tcp_Accept"
  shows "app_ok (tcp_accept ok s)"
proof (cases ok)
  case True
  then show ?thesis
    using assms app_ok_parts(1-3) [OF assms(1)] by (intro tcp_move [OF assms(1)]) (auto simp: tcp_accept_def print_defs pc_ok_def)
next
  case False
  then show ?thesis using assms by (simp add: tcp_accept_def)
qed

lemma tcp_recv_keeps:
  assumes "app_ok s" "at_tcp s = Tcp_Recv" "pred_option good_packet r"
  shows "app_ok (tcp_recv r s)"
  using assms app_ok_parts(1-3) [OF assms(1)] good_packet_parts
  by (intro tcp_move [OF assms(1)]) (auto simp: tcp_recv_def pc_ok_def split: option.splits)

lemma tcp_data_keeps:
  assumes "app_ok s" "at_tcp s = Tcp_Data b"
  shows "\<exists>s'. tcp_data b s = Some s' \<and> app_ok s'"
proof -
  have ok: "parts_ok b" "current_menu s \<noteq> port_selector" "audio_ok s" "MusicState s = 0 \<or> MusicState s = 1"
    using app_ok_parts [OF assms(1)] assms(2) by auto
  then obtain c d qs q where q: "nb_ptr b = q # qs" "payload q = c # d"
    by (cases "nb_ptr b"; cases "payload (hd (nb_ptr b))") (auto simp: parts_ok_def)
  have data: "netbuf_data (Some b) = (ERR_OK, Some (c # d, len q))" using q by (simp add: netbuf_data_def)
  note stay = tcp_next_keeps [OF assms(1) ok(1)]
  have x: "\<exists>s'. tcp_next b (tcp_printMenu (s\<lparr>current_menu := main_menu\<rparr>)) = Some s' \<and> app_ok s'"
    using ok by (intro stay) (simp_all add: print_defs)
  have one: "\<exists>t s'. tcp_mute s = Some t \<and> tcp_next b t = Some s' \<and> app_ok s'"
  proof -
    obtain y e m where m: "tcp_mute s = Some (s\<lparr>PIT := y, DAC0 := e, MusicState := m\<rparr>) \<and>
        audio_ok (s\<lparr>PIT := y, DAC0 := e\<rparr>) \<and> (m = 0 \<or> m = 1)" using tcp_mute_ok [OF assms(1)] by (elim exE)
    have "\<exists>s'. tcp_next b (s\<lparr>PIT := y, DAC0 := e, MusicState := m\<rparr>) = Some s' \<and> app_ok s'"
      using ok m by (intro stay) simp_all
    then show ?thesis using m by metis
  qed
  have two: "app_ok ((tcp_printSelector (s\<lparr>current_menu := port_selector\<rparr>))\<lparr>at_tcp := Tcp_Port\<rparr>)"
    using assms(1) ok by (intro tcp_move [OF assms(1)]) (simp_all add: print_defs pc_ok_def)
  have three: "app_ok ((udp_status_begin (s\<lparr>current_menu := comm_status\<rparr>))\<lparr>at_tcp := Tcp_Status b\<rparr>)"
    using assms(1) ok by (intro tcp_move [OF assms(1)]) (simp_all add: print_defs pc_ok_def)
  have other: "\<exists>s'. tcp_next b s = Some s' \<and> app_ok s'" using ok by (intro stay) simp_all
  show ?thesis unfolding tcp_data_def data by (simp only: prod.case err.case option.case list.case) (use x one two three other in force)
qed

lemma tcp_port_keeps:
  assumes "app_ok s" "at_tcp s = Tcp_Port" "port_input r read_port a s"
  shows "tcp_port r read_port a s = Some s' \<Longrightarrow> app_ok s'" "r \<noteq> None \<Longrightarrow> a \<noteq> 0 \<Longrightarrow> tcp_port r read_port a s \<noteq> None"
proof -
  have both: "(tcp_port r read_port a s = Some s' \<longrightarrow> app_ok s') \<and> (a \<noteq> 0 \<longrightarrow> tcp_port r read_port a s \<noteq> None)" if r: "r = Some b" for b
  proof -
    obtain n d where c: "netbuf_copy b read_port 10 = (n, d)" by fastforce
    have ok: "parts_ok b" "audio_ok s" "MusicState s = 0 \<or> MusicState s = 1"
      using app_ok_parts(1,2) [OF assms(1)] good_packet_parts [of b] assms(3) r by (simp_all add: port_input_def)
    let ?t = "s\<lparr>heap := (heap s)(a \<mapsto> parse_port d), at_tcp := Tcp_Send a b\<rparr>"
    have "app_ok ?t" if f: "fresh a s"
    proof -
      have "owned ?t = owned s @ [a]" using assms(2) by (simp add: owned_def)
      moreover have "a \<notin> set (owned s)" using owned_live [OF assms(1), of a] f by (auto simp: fresh_def)
      moreover have "tcp_ok ?t" using ok assms(2) by (simp add: tcp_ok_def)
      moreover have "audio_ok ?t" "UDP_status_values ?t = None" "distinct (owned s)" using app_ok_parts [OF assms(1)] by simp_all
      ultimately show ?thesis unfolding app_ok_def using owned_live [OF assms(1)] f by (auto simp: fresh_def)
    qed
    moreover obtain u where "tcp_next b (back_to_menu s) = Some u" "app_ok u"
      using tcp_next_keeps [OF assms(1) ok(1), of "back_to_menu s"] ok by (auto simp: print_defs)
    ultimately show ?thesis using assms(3) c r by (auto simp: tcp_port_def port_input_def)
  qed
  show "tcp_port r read_port a s = Some s' \<Longrightarrow> app_ok s'" using both by (cases r) (simp_all add: tcp_port_def)
  show "r \<noteq> None \<Longrightarrow> a \<noteq> 0 \<Longrightarrow> tcp_port r read_port a s \<noteq> None" using both by blast
qed

lemma tcp_send_keeps:
  assumes "app_ok s" "at_tcp s = Tcp_Send a b"
  shows "\<exists>s'. tcp_send a b s = Some s' \<and> app_ok s'"
proof (cases "port_selection s")
  case (Some c)
  then show ?thesis
    using tcp_next_keeps [OF assms(1) app_ok_parts(5) [OF assms], of "back_to_menu s"] app_ok_parts(1,2) [OF assms(1)]
    by (simp add: tcp_send_def print_defs)
next
  case None
  let ?t = "s\<lparr>port_selection := Some a, at_tcp := Tcp_Recv, current_menu := main_menu\<rparr>"
  have "owned ?t = owned s" using assms(2) None by (simp add: owned_def)
  moreover have "tcp_ok ?t" using app_ok_parts(2) [OF assms(1)] by (simp add: tcp_ok_def)
  moreover have "audio_ok ?t" using app_ok_parts(1) [OF assms(1)] by simp
  ultimately have "app_ok ?t" using assms(1) by (simp add: app_ok_def)
  from tcp_next_keeps [OF this app_ok_parts(5) [OF assms], of "back_to_menu (s\<lparr>port_selection := Some a\<rparr>)"]
  show ?thesis using None app_ok_parts(1,2) [OF assms(1)] by (simp add: tcp_send_def print_defs)
qed

lemma tcp_status_total: "app_ok s \<Longrightarrow> tcp_status b s = Some s"
  using app_ok_parts(7) by (simp add: tcp_status_def)

section \<open>Reachable states\<close>

definition app_init :: "bool \<Rightarrow> app" where
  "app_init conn = \<lparr>PIT = pit0, DAC0 = dac0, nvic_pit0 = False, nvic_pit1 = False, prio_pit1 = 0,
     buffer1 = mem16 2045 @ replicate 1498 0, buffer2 = mem16 2045 @ replicate 1498 0, idx = 0, buffer_flag = False,
     heap = Map.empty, port_selection = None, UDP_status_values = None, on_udp_menu = False, at_udp = Udp_Top,
     udp_conn = conn, received_port = 0, udp_port = 50007, bound_port = None, echoed = [], at_tcp = Tcp_Accept,
     current_menu = main_menu, MusicState = 1, sent = []\<rparr>"

lemma app_init_ok: "app_ok (app_init conn)"
  by (simp add: app_ok_def audio_ok_def owned_def tcp_ok_def app_init_def dac0_def mem16_def audio_buffer_sizes_def)

lemma sys_step_keeps: "sys_step bus at0 s s' \<Longrightarrow> app_ok s \<Longrightarrow> app_ok s'"
proof (induction rule: sys_step.induct)
  case (isr s s') then show ?case using isr_keeps by (metis option.inject)
next
  case (udp_top s bind_ok s')
  then have "received_port s = 0 \<Longrightarrow> at0 \<noteq> None" by (auto simp: udp_top_def split: option.splits)
  then show ?case using udp_top udp_top_keeps by (metis option.inject)
next
  case (udp_recv s r s') then show ?case using udp_recv_keeps by (metis option.inject)
next
  case (tcp_accept s ok) then show ?case using tcp_accept_keeps by blast
next
  case (tcp_recv s r) then show ?case using tcp_recv_keeps by blast
next
  case (tcp_data s b s') then show ?case using tcp_data_keeps by (metis option.inject)
next
  case (tcp_port s r read_port a s') then show ?case using tcp_port_keeps(1) by blast
next
  case (tcp_send s a b s') then show ?case using tcp_send_keeps by (metis option.inject)
next
  case (tcp_status s b s') then show ?case using tcp_status_total by (metis option.inject)
qed

text \<open>The two places where the program goes through \<^verbatim>\<open>NULL\<close>, and no other.\<close>

lemma app_ok_faults:
  assumes "app_ok s"
  shows "sys_fault bus at0 s \<longleftrightarrow> at_udp s = Udp_Top \<and> received_port s = 0 \<and> at0 = None \<or> at_tcp s = Tcp_Port"
proof
  assume "sys_fault bus at0 s"
  then show "at_udp s = Udp_Top \<and> received_port s = 0 \<and> at0 = None \<or> at_tcp s = Tcp_Port"
    unfolding sys_fault_def using assms isr_keeps udp_top_keeps udp_recv_keeps tcp_data_keeps tcp_send_keeps tcp_status_total
    by (metis option.distinct(1))
next
  have "port_input None (replicate 10 0) 0 s" by (simp add: port_input_def)
  then have "\<exists>r read_port a. port_input r read_port a s \<and> tcp_port r read_port a s = None" by (intro exI conjI) (auto simp: tcp_port_def)
  then show "at_udp s = Udp_Top \<and> received_port s = 0 \<and> at0 = None \<or> at_tcp s = Tcp_Port \<Longrightarrow> sys_fault bus at0 s"
    unfolding sys_fault_def by (auto simp: udp_top_def)
qed

interpretation sys: step_invariant "\<lambda>s. \<exists>conn. s = app_init conn" "sys_step bus at0" app_ok for bus at0
  by unfold_locales (auto intro: app_init_ok sys_step_keeps)

lemma isr_run_frame: "isr_run n s = Some t \<Longrightarrow> buffer1 t = buffer1 s \<and> buffer2 t = buffer2 s \<and> buffer_flag t = buffer_flag s"
proof (induction n arbitrary: t)
  case (Suc n)
  then obtain u where u: "isr_run n s = Some u" "PIT0_IRQHandler u = Some t" by (auto split: option.splits)
  from isr_frame [OF u(2)] obtain x d k where "t = u\<lparr>PIT := x, DAC0 := d, idx := k\<rparr>" by (elim exE)
  then show ?case using Suc.IH [OF u(1)] by simp
qed simp

section \<open>What the UDP thread and the interrupt leave alone\<close>

lemma udp_packet_frame:
  assumes "udp_packet b s = Some s'"
  shows "at_tcp s' = at_tcp s" "heap s' = heap s" "port_selection s' = port_selection s" "udp_conn s' = udp_conn s"
    "udp_port s' = udp_port s" "bound_port s' = bound_port s"
  using assms by (auto simp: udp_packet_def Let_def split: if_splits prod.splits)

lemma udp_recv_frame: "udp_recv r s = Some s' \<Longrightarrow> at_tcp s' = at_tcp s"
  using udp_packet_frame(1) by (auto simp: udp_recv_def split: option.splits)

lemma config_app [simp]:
  "at_tcp (AudioConfig bus Tx s) = at_tcp s" "heap (AudioConfig bus Tx s) = heap s"
  "bound_port (AudioConfig bus Tx s) = bound_port s" "port_selection (AudioConfig bus Tx s) = port_selection s"
  "udp_port (AudioConfig bus Tx s) = udp_port s"
  by (simp_all add: audio_config_simps)

lemma config_timer0: "timer0_on ((AudioConfig bus Tx s)\<lparr>at_udp := pc\<rparr>)"
  by (simp add: timer0_on_def audio_config_simps)

lemma udp_top_frame: "udp_top bus at0 ok s = Some s' \<Longrightarrow> at_tcp s' = at_tcp s"
  by (auto simp: udp_top_def Let_def split: option.splits if_splits)

section \<open>Properties\<close>

text \<open>
  C5: In every state that the interrupt and the two threads can reach in any interleaving, whatever well-formed packets without empty
  parts arrive, whatever receives, binds and allocations fail, an operation that can start goes through an invalid pointer in two
  places only: the UDP thread in its first round, when the read through \<^verbatim>\<open>NULL\<close> faults, and the TCP thread in the
  port command, when the second receive fails or the allocator has no block. The sample index is below 750, and the port blocks in the queue and
  in the hands of the threads are live and distinct (no use after free, no double free).
\<close>

theorem system_safe:
  assumes "(sys_step bus at0)\<^sup>*\<^sup>* (app_init conn) s"
  shows "(sys_fault bus at0 s \<longleftrightarrow> at_udp s = Udp_Top \<and> received_port s = 0 \<and> at0 = None \<or> at_tcp s = Tcp_Port) \<and>
    (\<forall>r read_port a. at_tcp s = Tcp_Port \<and> port_input r read_port a s \<and> tcp_port r read_port a s = None \<longrightarrow> r = None \<or> a = 0) \<and>
    unat (idx s) < audio_buffer_sizes \<and> distinct (owned s) \<and> (\<forall>a \<in> set (owned s). a \<noteq> 0 \<and> (\<exists>v. heap s a = Some v))"
proof -
  have ok: "app_ok s" using sys.reachable_inv [OF _ assms] by blast
  then have "unat (idx s) < audio_buffer_sizes" using app_ok_parts(1) by (simp add: audio_ok_def)
  then show ?thesis using app_ok_faults [OF ok] tcp_port_keeps(2) [OF ok] app_ok_parts(8) [OF ok] owned_live [OF ok] by blast
qed

theorem system_safe_witness:
  "\<not> sys_fault 60000000 (Some 0) (the (udp_top 60000000 (Some 0) True (app_init True))) \<and> sys_fault 60000000 None (app_init True)"
proof -
  obtain s where s: "udp_top 60000000 (Some 0) True (app_init True) = Some s"
    using udp_top_keeps [OF app_init_ok, of True "Some 0" 60000000 True] by (auto simp: app_init_def)
  then have step: "sys_step 60000000 (Some 0) (app_init True) s" by (intro sys_step.udp_top) (simp_all add: app_init_def)
  moreover have "at_tcp s = Tcp_Accept" using udp_top_frame [OF s] by (simp add: app_init_def)
  ultimately have "\<not> sys_fault 60000000 (Some 0) s" using system_safe [of 60000000 "Some 0" True s] by (simp add: r_into_rtranclp)
  moreover have "sys_fault 60000000 None (app_init True)" using system_safe [of 60000000 None True "app_init True"] by (simp add: app_init_def)
  ultimately show ?thesis using s by simp
qed

text \<open>
  C6: Sound is played one packet late and the packet being received overwrites the buffer that the
  interrupt is playing: after a full packet \<open>A\<close>, any number of interrupts and a packet \<open>B\<close>, the buffer
  played is that of \<open>A\<close>, and while \<open>B\<close> was copied the interrupt read the buffer it was copied into. The
  index is rounded down to a multiple of 256 instead of being reset.
\<close>

theorem udp_one_packet_behind:
  assumes "app_ok s" "good_packet A" "good_packet B" "length (bytes (nb_p A)) = 1500"
  shows "\<exists>s1 s2 s3. udp_packet A s = Some s1 \<and> isr_run n s1 = Some s2 \<and> udp_packet B s2 = Some s3 \<and>
    playing s3 = bytes (nb_p A) \<and> playing (s3\<lparr>buffer_flag := buffer_flag s2\<rparr>) = received_into (bytes (nb_p B)) (playing s2) \<and>
    unat (idx s1) = 256 * (unat (idx s) div 256)"
proof -
  have p: "nb_p A \<noteq> []" "wf_chain (nb_p A)" "nb_p B \<noteq> []" "wf_chain (nb_p B)" using assms(2,3) by (simp_all add: good_packet_def)
  have a: "audio_ok s" using app_ok_parts(1) [OF assms(1)] .
  obtain s1 where s1: "udp_packet A s = Some s1" "app_ok s1" using udp_packet_ok [OF assms(1,2)] by blast
  have f1: "buffer_flag s1 = (\<not> buffer_flag s)" "idx s1 = reset_index (idx s)"
    "(if buffer_flag s then buffer2 s1 else buffer1 s1) = received_into (bytes (nb_p A)) (playing s)"
    using udp_packet_spec [OF a p(1,2)] s1(1) by (auto simp: playing_def)
  have full: "received_into (bytes (nb_p A)) (playing s) = bytes (nb_p A)"
    using assms(4) length_playing [OF a] by (simp add: received_into_def audio_buffer_sizes_def)
  obtain s2 where s2: "isr_run n s1 = Some s2" "audio_ok s2" using isr_run_spec [OF app_ok_parts(1) [OF s1(2)]] by blast
  note f2 = isr_run_frame [OF s2(1)]
  obtain s3 where s3: "udp_packet B s2 = Some s3" and f3: "buffer_flag s3 = (\<not> buffer_flag s2)"
    "buffer1 s3 = (if buffer_flag s2 then buffer1 s2 else received_into (bytes (nb_p B)) (buffer1 s2))"
    "buffer2 s3 = (if buffer_flag s2 then received_into (bytes (nb_p B)) (buffer2 s2) else buffer2 s2)"
    using udp_packet_spec [OF s2(2) p(3,4)] by auto
  have "playing s3 = bytes (nb_p A)" using f1 f2 f3 full by (auto simp: playing_def split: if_splits)
  moreover have "playing (s3\<lparr>buffer_flag := buffer_flag s2\<rparr>) = received_into (bytes (nb_p B)) (playing s2)"
    using f3 by (simp add: playing_def)
  ultimately show ?thesis using s1(1) s2(1) s3 f1(2) reset_index_spec(1) by auto
qed

definition ramp :: netbuf where
  "ramp = (let q = [\<lparr>front = [], payload = map word_of_nat [0..<1500], tot_len = 1500, ptype = PBUF_RAM, pflags = 0, ref = 1\<rparr>]
     in \<lparr>nb_p = q, nb_ptr = q\<rparr>)"

lemma ramp_good: "good_packet ramp" "bytes (nb_p ramp) = map word_of_nat [0..<1500]"
  by (simp_all add: good_packet_def ramp_def Let_def bytes_def)

theorem udp_one_packet_behind_witness:
  "\<exists>s1 s2 s3. udp_packet ramp (app_init True) = Some s1 \<and> isr_run 3 s1 = Some s2 \<and> udp_packet ramp s2 = Some s3 \<and>
    playing s3 = map word_of_nat [0..<1500]"
  using udp_one_packet_behind [OF app_init_ok [of True] ramp_good(1) ramp_good(1), of 3] ramp_good(2) by auto

text \<open>
  C11: The status page prints a 16-bit count as its five decimal digits, and a port typed as five
  digits is read back as the same number: reading inverts printing for every value, whatever follows
  in the buffer. Digits beyond 65535 wrap around.
\<close>

theorem port_text_roundtrip:
  assumes "\<forall>d \<in> set [d0, d1, d2, d3, d4]. d \<le> 9"
  shows "parse_port (digits5 w @ rest) = w \<and> length (digits5 w) = 5 \<and>
    parse_port (map (\<lambda>d. word_of_nat (48 + d)) [d0, d1, d2, d3, d4] @ rest) =
      word_of_nat (d0 * 10000 + d1 * 1000 + d2 * 100 + d3 * 10 + d4)"
proof -
  have d: "int (unat (word_of_nat (48 + d) :: u8)) - 48 = int d" if "d \<le> 9" for d
  proof -
    have "unat (word_of_nat (48 + d) :: u8) = 48 + d" using that by (simp only: unsigned_of_nat) (simp add: take_bit_nat_eq_self)
    then show ?thesis by (simp only:)
  qed
  have "parse_port (map (\<lambda>d. word_of_nat (48 + d)) [d0, d1, d2, d3, d4] @ rest) =
      word_of_int (int d0 * 10000 + int d1 * 1000 + int d2 * 100 + int d3 * 10 + int d4)"
    unfolding list.map append.simps parse_port_list using assms by (simp only: d list.set ball_simps)
  also have "\<dots> = word_of_nat (d0 * 10000 + d1 * 1000 + d2 * 100 + d3 * 10 + d4)"
    by (metis (mono_tags) of_int_of_nat_eq of_nat_add of_nat_mult of_nat_numeral)
  finally show ?thesis using parse_digits5 length_digits5 by simp
qed

theorem port_text_roundtrip_witness: "parse_port (map (\<lambda>d. word_of_nat (48 + d)) [7, 0, 0, 0, 0] @ []) = 4464"
  using port_text_roundtrip [of 7 0 0 0 0 0 "[]"] by simp

text \<open>
  C8: A waiting port command is served: when the receive call of the UDP thread, which has its connection, returns (a well-formed packet or an error), the
  thread takes the port from the queue at the end of that round, and in its next round asks for the port to be bound, restarts the audio clock and
  frees the block; the queue is free again. Port 0 is not taken over: the old port is asked for again, and the block of the
  command is neither freed nor kept. Without success of \<^verbatim>\<open>netconn_bind\<close> the thread goes on all the same.
\<close>

theorem port_command_served:
  assumes "app_ok s" "at_udp s = Udp_Recv" "udp_conn s" "port_selection s = Some a" "heap s a = Some v" "pred_option good_packet r"
  shows "\<exists>s1 s2. udp_recv r s = Some s1 \<and> at_udp s1 = Udp_Top \<and> udp_top bus at0 bind_ok s1 = Some s2 \<and>
    at_udp s2 = Udp_Recv \<and> udp_port s2 = (if v = 0 then udp_port s else v) \<and> bound_port s2 = (if bind_ok then Some (udp_port s2) else bound_port s) \<and>
    heap s2 a = (if v = 0 then Some 0 else None) \<and> a \<notin> set (owned s2) \<and> port_selection s2 = None \<and> timer0_on s2"
proof -
  have a: "a \<noteq> 0" using owned_live [OF assms(1), of a] assms(4) by (simp add: owned_def)
  have d: "distinct (owned s)" using assms(1) by (simp add: app_ok_def)
  obtain t where t: "(case r of None \<Rightarrow> Some s | Some buf \<Rightarrow> udp_packet buf s) = Some t"
    "heap t = heap s" "port_selection t = Some a" "udp_conn t" "at_tcp t = at_tcp s" "udp_port t = udp_port s" "bound_port t = bound_port s"
  proof (cases r)
    case None
    then show ?thesis using that [of s] assms by simp
  next
    case (Some b)
    then obtain u where "udp_packet b s = Some u" using assms(1,6) udp_packet_ok by fastforce
    then show ?thesis using that [of u] Some assms(3,4) udp_packet_frame [of b s u] by simp
  qed
  define s1 where "s1 = t\<lparr>port_selection := None, received_port := a, at_udp := Udp_Top\<rparr>"
  have "udp_recv r s = Some s1" using t(1,3) by (simp add: udp_recv_def s1_def)
  moreover define u where "u = (if v \<noteq> 0 then s1\<lparr>udp_port := v, heap := (heap s1)(a := None)\<rparr> else s1)"
  let ?w = "if bind_ok then u\<lparr>bound_port := Some (udp_port u)\<rparr> else u"
  have u: "udp_conn u" "udp_port u = (if v = 0 then udp_port s else v)" "heap u a = (if v = 0 then Some 0 else None)" "port_selection u = None"
    "bound_port u = bound_port s" "at_tcp u = at_tcp s" using t assms(5) by (simp_all add: u_def s1_def)
  have "udp_top bus at0 bind_ok s1 = Some ((AudioConfig bus 45 ?w)\<lparr>at_udp := Udp_Recv\<rparr>)"
    using a t(2,4) assms(5) u(1) by (simp add: udp_top_def s1_def u_def Let_def)
  moreover have "a \<notin> set (owned ((AudioConfig bus 45 ?w)\<lparr>at_udp := Udp_Recv\<rparr>))"
    using d assms(2,4) u(4,6) by (auto simp: owned_def split: tcp_pc.splits)
  moreover have "at_udp s1 = Udp_Top" by (simp add: s1_def)
  ultimately show ?thesis using config_timer0 [where bus = bus and Tx = 45 and s = ?w and pc = Udp_Recv] u by (intro exI [of _ s1] exI [of _ "(AudioConfig bus 45 ?w)\<lparr>at_udp := Udp_Recv\<rparr>"]) simp
qed

theorem port_command_served_witness:
  "\<exists>s1 s2. udp_recv None ((app_init True)\<lparr>at_udp := Udp_Recv, port_selection := Some 8, heap := [8 \<mapsto> 50010]\<rparr>) = Some s1 \<and>
    udp_top 60000000 None True s1 = Some s2 \<and> bound_port s2 = Some 50010 \<and> heap s2 8 = None"
proof -
  have "app_ok ((app_init True)\<lparr>at_udp := Udp_Recv, port_selection := Some 8, heap := [8 \<mapsto> 50010]\<rparr>)"
    using app_init_ok [of True] by (simp add: app_ok_def audio_ok_def owned_def tcp_ok_def app_init_def)
  then show ?thesis
    using port_command_served [of "(app_init True)\<lparr>at_udp := Udp_Recv, port_selection := Some 8, heap := [8 \<mapsto> 50010]\<rparr>"
      8 50010 None 60000000 None True] by (auto simp: app_init_def)
qed

text \<open>
  C9: Nothing in the program sends on the queue of the UDP statistics, so the status page (command
  \<^verbatim>\<open>3\<close> in the main menu) blocks the TCP thread for ever: from a reachable state in which it waits for
  the values, it waits in every later state.
\<close>

theorem status_page_blocks:
  assumes "(sys_step bus at0)\<^sup>*\<^sup>* (app_init conn) s" "at_tcp s = Tcp_Status b" "(sys_step bus at0)\<^sup>*\<^sup>* s t"
  shows "at_tcp t = Tcp_Status b"
proof (rule sys.reachable_stable [OF assms(3), where P = "\<lambda>s. at_tcp s = Tcp_Status b"])
  show "app_ok s" using sys.reachable_inv [OF _ assms(1)] by blast
  show "at_tcp s = Tcp_Status b" by (rule assms(2))
  fix u v
  assume ok: "app_ok u" and at: "at_tcp u = Tcp_Status b" and "sys_step bus at0 u v"
  from this(3) show "at_tcp v = Tcp_Status b"
  proof cases
    case isr
    from isr_frame [OF isr(2)] obtain x d k where "v = u\<lparr>PIT := x, DAC0 := d, idx := k\<rparr>" by (elim exE)
    then show ?thesis using at by simp
  next
    case (tcp_status c)
    then show ?thesis using app_ok_parts(7) [OF ok] by simp
  qed (use at udp_top_frame udp_recv_frame in auto)
qed

definition three :: netbuf where
  "three = (let q = [\<lparr>front = [], payload = [51], tot_len = 1, ptype = PBUF_RAM, pflags = 0, ref = 1\<rparr>]
     in \<lparr>nb_p = q, nb_ptr = q\<rparr>)"

theorem status_page_blocks_witness:
  "\<exists>s. (sys_step 60000000 (Some 0))\<^sup>*\<^sup>* (app_init True) s \<and> at_tcp s = Tcp_Status three \<and>
     (\<forall>t. (sys_step 60000000 (Some 0))\<^sup>*\<^sup>* s t \<longrightarrow> at_tcp t = Tcp_Status three)"
proof -
  define s1 where "s1 = tcp_accept True (app_init True)"
  define s2 where "s2 = tcp_recv (Some three) s1"
  have a1: "at_tcp s1 = Tcp_Recv" "current_menu s1 = main_menu" by (simp_all add: s1_def tcp_accept_def print_defs app_init_def)
  have a2: "at_tcp s2 = Tcp_Data three" "current_menu s2 = main_menu" using a1 by (simp_all add: s2_def tcp_recv_def)
  have three: "netbuf_data (Some three) = (ERR_OK, Some ([51], 1))" by (simp add: three_def Let_def netbuf_data_def len_def)
  obtain s3 where s3: "tcp_data three s2 = Some s3" "at_tcp s3 = Tcp_Status three"
    using a2 by (simp add: tcp_data_def three)
  have "sys_step 60000000 (Some 0) (app_init True) s1" unfolding s1_def by (rule sys_step.tcp_accept) (simp add: app_init_def)
  moreover have "sys_step 60000000 (Some 0) s1 s2" unfolding s2_def
    by (rule sys_step.tcp_recv [OF a1(1)]) (simp add: good_packet_def three_def Let_def bytes_def)
  moreover have "sys_step 60000000 (Some 0) s2 s3" by (rule sys_step.tcp_data [OF a2(1) s3(1)])
  ultimately have "(sys_step 60000000 (Some 0))\<^sup>*\<^sup>* (app_init True) s3" by (meson rtranclp.rtrancl_into_rtrancl rtranclp.rtrancl_refl)
  then show ?thesis using s3(2) status_page_blocks by blast
qed

text \<open>
  C10: The mute command is inverted with respect to its state variable: when the state says that
  the sound is on it starts the sample timer and records \<^verbatim>\<open>off\<close>; when it says off, it stops the timer,
  silences the output and records \<^verbatim>\<open>on\<close>. The state is on at the start, so the first command mutes
  nothing, and it takes a second one to mute.
\<close>

theorem mute_inverted:
  assumes "app_ok s"
  shows "\<exists>s'. tcp_mute s = Some s' \<and> MusicState s' = 1 - MusicState s \<and>
    (TEN (channel (PIT s') kPIT_Chnl_0) \<longleftrightarrow> MusicState s = 1) \<and>
    (MusicState s = 0 \<longrightarrow> dac_code (DAC0 s') = 0 \<and> \<not> timer0_on s')"
proof -
  have a: "audio_ok s" and m: "MusicState s = 0 \<or> MusicState s = 1" using app_ok_parts [OF assms] by auto
  obtain d where d: "DAC_SetBufferValue 0 0 (DAC0 s) = Some d" "dac_code d = 0"
    using set_value_0 [of "DAC0 s" 0] a unfolding audio_ok_def by auto
  show ?thesis using m d
    by (auto simp: tcp_mute_def AudioOutput_def Let_def PIT_StartTimer_def PIT_StopTimer_def upd_channel_def timer0_on_def)
qed

theorem mute_inverted_witness:
  "\<exists>s'. tcp_mute (app_init True) = Some s' \<and> MusicState s' = 0 \<and> TEN (channel (PIT s') kPIT_Chnl_0)"
  using mute_inverted [OF app_init_ok [of True]] by (auto simp: app_init_def)

end
