(* ===== verification/Mem.thy ===== *)
theory Mem
  imports Pbuf_Chain
begin

text \<open>
  The lwIP heap, \<^verbatim>\<open>lwip/src/core/mem.c\<close> in the configuration of the build (no C library malloc, no
  pools, no freeing from interrupts, no statistics). The memory \<^verbatim>\<open>ram\<close> is a function from offsets to
  bytes; a \<^verbatim>\<open>struct mem\<close> is read from and written to its six bytes there, among the data of the
  callers. A pointer is its distance from \<^verbatim>\<open>ram\<close>, negative below it, and \<^verbatim>\<open>NULL\<close> is \<open>None\<close>. A result
  \<open>None\<close> of an operation is a failed assertion (the program is aborted) or an endless loop.
\<close>

section \<open>Structures in memory\<close>

type_synonym ram = "nat \<Rightarrow> u8"

definition nxt :: "ram \<Rightarrow> nat \<Rightarrow> nat" where
  "nxt r p = unat (load16 (r p) (r (p + 1)))"

definition prv :: "ram \<Rightarrow> nat \<Rightarrow> nat" where
  "prv r p = unat (load16 (r (p + 2)) (r (p + 3)))"

definition used :: "ram \<Rightarrow> nat \<Rightarrow> bool" where
  "used r p \<longleftrightarrow> r (p + 4) \<noteq> 0"

definition put16 :: "nat \<Rightarrow> nat \<Rightarrow> ram \<Rightarrow> ram" where
  "put16 p v r = r(p := word_of_nat v, p + 1 := word_of_nat (v div 256))"

definition set_next :: "nat \<Rightarrow> nat \<Rightarrow> ram \<Rightarrow> ram" where
  "set_next p v r = put16 p v r"

definition set_prev :: "nat \<Rightarrow> nat \<Rightarrow> ram \<Rightarrow> ram" where
  "set_prev p v r = put16 (p + 2) v r"

definition set_used :: "nat \<Rightarrow> bool \<Rightarrow> ram \<Rightarrow> ram" where
  "set_used p u r = r(p + 4 := (if u then 1 else 0))"

record mem_heap =
  ram :: ram
  lfree :: nat

definition MEM_SIZE_ALIGNED :: nat where "MEM_SIZE_ALIGNED = mem_align (22 * 1024)"
definition SIZEOF_STRUCT_MEM :: nat where "SIZEOF_STRUCT_MEM = mem_align 6"
definition MIN_SIZE_ALIGNED :: nat where "MIN_SIZE_ALIGNED = mem_align 12"

lemma mem_consts [simp]: "MEM_SIZE_ALIGNED = 22528" "SIZEOF_STRUCT_MEM = 8" "MIN_SIZE_ALIGNED = 12"
  by (simp_all add: MEM_SIZE_ALIGNED_def SIZEOF_STRUCT_MEM_def MIN_SIZE_ALIGNED_def mem_align_def)

section \<open>Operations\<close>

definition mem_init :: "ram \<Rightarrow> mem_heap" where
  "mem_init r =
    (let
       r = set_used 0 False (set_prev 0 0 (set_next 0 MEM_SIZE_ALIGNED r));
       e = MEM_SIZE_ALIGNED
     in \<lparr>ram = set_prev e MEM_SIZE_ALIGNED (set_next e MEM_SIZE_ALIGNED (set_used e True r)), lfree = 0\<rparr>)"

definition plug_forward :: "nat \<Rightarrow> mem_heap \<Rightarrow> mem_heap" where
  "plug_forward mem h =
    (let nmem = nxt (ram h) mem in
     if mem \<noteq> nmem \<and> \<not> used (ram h) nmem \<and> nmem \<noteq> MEM_SIZE_ALIGNED then
       let
         h = (if lfree h = nmem then h\<lparr>lfree := mem\<rparr> else h);
         h = h\<lparr>ram := set_next mem (nxt (ram h) nmem) (ram h)\<rparr>
       in h\<lparr>ram := set_prev (nxt (ram h) nmem) mem (ram h)\<rparr>
     else h)"

definition plug_backward :: "nat \<Rightarrow> mem_heap \<Rightarrow> mem_heap" where
  "plug_backward mem h =
    (let pmem = prv (ram h) mem in
     if pmem \<noteq> mem \<and> \<not> used (ram h) pmem then
       let
         h = (if lfree h = mem then h\<lparr>lfree := pmem\<rparr> else h);
         h = h\<lparr>ram := set_next pmem (nxt (ram h) mem) (ram h)\<rparr>
       in h\<lparr>ram := set_prev (nxt (ram h) mem) pmem (ram h)\<rparr>
     else h)"

definition plug_holes :: "nat \<Rightarrow> mem_heap \<Rightarrow> mem_heap option" where
  "plug_holes mem h =
    (if mem < MEM_SIZE_ALIGNED \<and> \<not> used (ram h) mem \<and> nxt (ram h) mem \<le> MEM_SIZE_ALIGNED
     then Some (plug_backward mem (plug_forward mem h)) else None)"

text \<open>The assertions on the pointer come before the guards that repeat them.\<close>

definition mem_free :: "int option \<Rightarrow> mem_heap \<Rightarrow> mem_heap option" where
  "mem_free rmem h =
    (case rmem of
       None \<Rightarrow> Some h
     | Some a \<Rightarrow>
         if a mod 4 \<noteq> 0 \<or> a < 0 \<or> a \<ge> int MEM_SIZE_ALIGNED then None
         else if a < int SIZEOF_STRUCT_MEM then None
         else
           let mem = nat (a - int SIZEOF_STRUCT_MEM) in
           if \<not> used (ram h) mem then None
           else
             let
               h = h\<lparr>ram := set_used mem False (ram h)\<rparr>;
               h = (if mem < lfree h then h\<lparr>lfree := mem\<rparr> else h)
             in plug_holes mem h)"

text \<open>Rounding up to the alignment wraps around at 16 bits when it is stored in a \<^verbatim>\<open>mem_size_t\<close>.\<close>

definition rounded_size :: "nat \<Rightarrow> nat" where
  "rounded_size sz =
    (let sz = mem_align sz mod 65536
     in if sz < MIN_SIZE_ALIGNED then MIN_SIZE_ALIGNED else sz)"

text \<open>Differences of offsets are taken in 32 bits.\<close>

definition sub32 :: "nat \<Rightarrow> nat \<Rightarrow> nat" where
  "sub32 a b = (a + 4294967296 - b) mod 4294967296"

definition mem_trim :: "int \<Rightarrow> nat \<Rightarrow> mem_heap \<Rightarrow> (int option \<times> mem_heap) option" where
  "mem_trim rmem newsize h =
    (let newsize = rounded_size newsize in
     if newsize > MEM_SIZE_ALIGNED then Some (None, h)
     else if rmem < 0 \<or> rmem \<ge> int MEM_SIZE_ALIGNED then None
     else if rmem < int SIZEOF_STRUCT_MEM then None
     else
       let
         ptr = nat (rmem - int SIZEOF_STRUCT_MEM);
         sz = sub32 (sub32 (nxt (ram h) ptr) ptr) SIZEOF_STRUCT_MEM mod 65536
       in
         if newsize > sz then None
         else if newsize = sz then Some (Some rmem, h)
         else
           let mem2 = nxt (ram h) ptr in
           if \<not> used (ram h) mem2 then
             let
               next = nxt (ram h) mem2;
               ptr2 = (ptr + SIZEOF_STRUCT_MEM + newsize) mod 65536;
               lf = (if lfree h = mem2 then ptr2 else lfree h);
               r = set_next ptr ptr2 (set_prev ptr2 ptr (set_next ptr2 next (set_used ptr2 False (ram h))));
               r = (if nxt r ptr2 \<noteq> MEM_SIZE_ALIGNED then set_prev (nxt r ptr2) ptr2 r else r)
             in Some (Some rmem, \<lparr>ram = r, lfree = lf\<rparr>)
           else if newsize + SIZEOF_STRUCT_MEM + MIN_SIZE_ALIGNED \<le> sz then
             let
               ptr2 = (ptr + SIZEOF_STRUCT_MEM + newsize) mod 65536;
               lf = (if ptr2 < lfree h then ptr2 else lfree h);
               r = set_used ptr2 False (ram h);
               r = set_next ptr ptr2 (set_prev ptr2 ptr (set_next ptr2 (nxt r ptr) r));
               r = (if nxt r ptr2 \<noteq> MEM_SIZE_ALIGNED then set_prev (nxt r ptr2) ptr2 r else r)
             in Some (Some rmem, \<lparr>ram = r, lfree = lf\<rparr>)
           else Some (Some rmem, h))"

partial_function (option) malloc_search :: "ram \<Rightarrow> nat \<Rightarrow> nat \<Rightarrow> nat option option" where
  "malloc_search r sz ptr =
    (if ptr < MEM_SIZE_ALIGNED - sz then
       if \<not> used r ptr \<and> sub32 (nxt r ptr) (ptr + SIZEOF_STRUCT_MEM) \<ge> sz then Some (Some ptr)
       else malloc_search r sz (nxt r ptr)
     else Some None)"

partial_function (option) next_free :: "ram \<Rightarrow> nat \<Rightarrow> nat option" where
  "next_free r cur = (if used r cur \<and> cur \<noteq> MEM_SIZE_ALIGNED then next_free r (nxt r cur) else Some cur)"

text \<open>The block found is taken, and what is left of it is split off when it can hold data.\<close>

definition malloc_take :: "ram \<Rightarrow> nat \<Rightarrow> nat \<Rightarrow> ram" where
  "malloc_take r sz ptr =
    (if sub32 (nxt r ptr) (ptr + SIZEOF_STRUCT_MEM) \<ge> sz + SIZEOF_STRUCT_MEM + MIN_SIZE_ALIGNED then
       let
         ptr2 = (ptr + SIZEOF_STRUCT_MEM + sz) mod 65536;
         r = set_used ptr2 False r;
         r = set_prev ptr2 ptr (set_next ptr2 (nxt r ptr) r);
         r = set_used ptr True (set_next ptr ptr2 r)
       in if nxt r ptr2 \<noteq> MEM_SIZE_ALIGNED then set_prev (nxt r ptr2) ptr2 r else r
     else set_used ptr True r)"

definition mem_malloc :: "nat \<Rightarrow> mem_heap \<Rightarrow> (int option \<times> mem_heap) option" where
  "mem_malloc sz h =
    (if sz = 0 then Some (None, h)
     else
       let sz = rounded_size sz in
       if sz > MEM_SIZE_ALIGNED then Some (None, h)
       else case malloc_search (ram h) sz (lfree h) of
         None \<Rightarrow> None
       | Some None \<Rightarrow> Some (None, h)
       | Some (Some mem) \<Rightarrow>
           let r = malloc_take (ram h) sz mem in
           case (if mem = lfree h then next_free r (lfree h) else Some (lfree h)) of
             None \<Rightarrow> None
           | Some lf \<Rightarrow>
               if mem = lfree h \<and> lf \<noteq> MEM_SIZE_ALIGNED \<and> used r lf then None
               else if mem + SIZEOF_STRUCT_MEM + sz \<le> MEM_SIZE_ALIGNED \<and> mem mod 4 = 0
                 then Some (Some (int (mem + SIZEOF_STRUCT_MEM)), \<lparr>ram = r, lfree = lf\<rparr>)
                 else None)"

text \<open>The product is truncated to 16 bits for the allocation and not for the clearing.\<close>

definition mem_calloc :: "nat \<Rightarrow> nat \<Rightarrow> mem_heap \<Rightarrow> (int option \<times> mem_heap) option" where
  "mem_calloc count sz h =
    (case mem_malloc (count * sz mod 65536) h of
       Some (Some p, h) \<Rightarrow>
         Some (Some p, h\<lparr>ram := (\<lambda>i. if nat p \<le> i \<and> i < nat p + count * sz then 0 else ram h i)\<rparr>)
     | r \<Rightarrow> r)"

end
