(* ===== verification/Alloc.thy ===== *)
theory Alloc
  imports Prelude
begin

text \<open>
  The contract of a memory allocator, met by the heap (\<open>Mem_Props\<close>) and by the memory pools
  (\<open>Memp\<close>). Its clients allocate, release and store bytes in any order; as long as they keep to
  the blocks they hold, the bytes of a block belong to its holder alone.
\<close>

section \<open>Clients\<close>

datatype aop = Alloc nat | Release nat | Store nat u8

fun run_op :: "(nat \<Rightarrow> 's \<Rightarrow> (nat option \<times> 's) option) \<Rightarrow> (nat \<Rightarrow> 's \<Rightarrow> 's option) \<Rightarrow> (nat \<Rightarrow> u8 \<Rightarrow> 's \<Rightarrow> 's) \<Rightarrow>
    aop \<Rightarrow> 's \<Rightarrow> 's option" where
  "run_op alloc release store (Alloc k) s = map_option snd (alloc k s)"
| "run_op alloc release store (Release a) s = release a s"
| "run_op alloc release store (Store i v) s = Some (store i v s)"

text \<open>Operations of clients that do not hold the block at \<open>a\<close>.\<close>

fun lawful_op :: "('s \<Rightarrow> (nat \<times> nat) set) \<Rightarrow> nat \<Rightarrow> aop \<Rightarrow> 's \<Rightarrow> bool" where
  "lawful_op regions a (Alloc k) s \<longleftrightarrow> True"
| "lawful_op regions a (Release b) s \<longleftrightarrow> b \<noteq> a \<and> b \<in> fst ` regions s"
| "lawful_op regions a (Store i v) s \<longleftrightarrow> (\<exists>(b, m) \<in> regions s. b \<noteq> a \<and> b \<le> i \<and> i < b + m)"

inductive client_run :: "('s \<Rightarrow> (nat \<times> nat) set) \<Rightarrow> (aop \<Rightarrow> 's \<Rightarrow> 's option) \<Rightarrow> nat \<Rightarrow> 's \<Rightarrow> aop list \<Rightarrow> 's option \<Rightarrow> bool"
  for regions run a where
  done_run: "client_run regions run a s [] (Some s)"
| step_run: "lawful_op regions a x s \<Longrightarrow> run x s = Some t \<Longrightarrow> client_run regions run a t xs r \<Longrightarrow>
    client_run regions run a s (x # xs) r"
| fault_run: "lawful_op regions a x s \<Longrightarrow> run x s = None \<Longrightarrow> client_run regions run a s (x # xs) None"

section \<open>The contract\<close>

definition same_bytes :: "(nat \<times> nat) set \<Rightarrow> (nat \<Rightarrow> u8) \<Rightarrow> (nat \<Rightarrow> u8) \<Rightarrow> bool" where
  "same_bytes A r r' \<longleftrightarrow> (\<forall>a n i. (a, n) \<in> A \<longrightarrow> i < n \<longrightarrow> r' (a + i) = r (a + i))"

locale allocator =
  fixes inv :: "'s \<Rightarrow> bool" and regions :: "'s \<Rightarrow> (nat \<times> nat) set" and byte :: "'s \<Rightarrow> nat \<Rightarrow> u8"
    and alloc :: "nat \<Rightarrow> 's \<Rightarrow> (nat option \<times> 's) option" and release :: "nat \<Rightarrow> 's \<Rightarrow> 's option"
    and store :: "nat \<Rightarrow> u8 \<Rightarrow> 's \<Rightarrow> 's" and limit :: nat
  assumes disjoint: "inv s \<Longrightarrow> (a, n) \<in> regions s \<Longrightarrow> (b, m) \<in> regions s \<Longrightarrow> (a, n) \<noteq> (b, m) \<Longrightarrow> a + n \<le> b \<or> b + m \<le> a"
    and alloc_returns: "inv s \<Longrightarrow> \<exists>p t. alloc k s = Some (p, t)"
    and alloc_fails: "inv s \<Longrightarrow> alloc k s = Some (None, t) \<Longrightarrow> t = s"
    and alloc_fresh: "inv s \<Longrightarrow> alloc k s = Some (Some a, t) \<Longrightarrow>
      inv t \<and> (\<exists>n. (k \<le> limit \<longrightarrow> k \<le> n) \<and> regions t = insert (a, n) (regions s) \<and> a \<notin> fst ` regions s) \<and>
      same_bytes (regions s) (byte s) (byte t)"
    and release_ok: "inv s \<Longrightarrow> (a, n) \<in> regions s \<Longrightarrow>
      \<exists>t. release a s = Some t \<and> inv t \<and> regions t = regions s - {(a, n)} \<and> same_bytes (regions t) (byte s) (byte t)"
    and store_ok: "inv s \<Longrightarrow> (a, n) \<in> regions s \<Longrightarrow> a \<le> i \<Longrightarrow> i < a + n \<Longrightarrow>
      inv (store i v s) \<and> regions (store i v s) = regions s \<and> byte (store i v s) = (byte s)(i := v)"
begin

abbreviation holds :: "nat \<Rightarrow> nat \<Rightarrow> (nat \<Rightarrow> u8) \<Rightarrow> 's \<Rightarrow> bool" where
  "holds a n d s \<equiv> inv s \<and> (a, n) \<in> regions s \<and> (\<forall>i < n. byte s (a + i) = d i)"

lemma op_keeps:
  assumes "holds a n d s" "lawful_op regions a x s"
  shows "\<exists>t. run_op alloc release store x s = Some t \<and> holds a n d t"
proof (cases x)
  case (Alloc k)
  obtain p t where t: "alloc k s = Some (p, t)" using alloc_returns assms(1) by blast
  have "holds a n d t"
  proof (cases p)
    case None
    then show ?thesis using alloc_fails t assms(1) by blast
  next
    case (Some b)
    then show ?thesis using alloc_fresh [of s k b t] t assms(1) by (auto simp: same_bytes_def)
  qed
  then show ?thesis using t Alloc by simp
next
  case (Release b)
  then obtain m where m: "(b, m) \<in> regions s" "b \<noteq> a" using assms(2) by auto
  then obtain t where "release b s = Some t" "inv t" "regions t = regions s - {(b, m)}" "same_bytes (regions t) (byte s) (byte t)"
    using release_ok assms(1) by blast
  then show ?thesis using assms(1) m(2) Release by (auto simp: same_bytes_def)
next
  case (Store i v)
  then obtain b m where m: "(b, m) \<in> regions s" "b \<noteq> a" "b \<le> i" "i < b + m" using assms(2) by auto
  moreover from this have "a + n \<le> b \<or> b + m \<le> a" using disjoint [of s a n b m] assms(1) by blast
  ultimately show ?thesis using store_ok [of s b m i v] assms(1) Store by auto
qed

lemma integrity:
  assumes "client_run regions (run_op alloc release store) a s xs r" "holds a n d s"
  shows "\<exists>t. r = Some t \<and> holds a n d t"
  using assms
proof (induction rule: client_run.induct)
  case (step_run x s t xs r)
  then show ?case using op_keeps [OF step_run.prems step_run.hyps(1)] by auto
next
  case (fault_run x s xs)
  then show ?case using op_keeps [OF fault_run.prems fault_run.hyps(1)] by auto
qed simp

end

end
