(* ===== verification/Mem_Blocks.thy ===== *)
theory Mem_Blocks
  imports Mem Alloc
begin

text \<open>
  The list of blocks of the lwIP heap in memory: a doubly linked list without two free neighbours
  (\<open>mem_ok\<close>), searching it, and inserting a block between two neighbours.
\<close>

section \<open>Reading back what was written\<close>

definition apart :: "nat \<Rightarrow> nat \<Rightarrow> bool" where
  "apart p q \<longleftrightarrow> p + 8 \<le> q \<or> q + 8 \<le> p"

lemma load16_put: "unat (load16 (word_of_nat v) (word_of_nat (v div 256))) = v mod 65536"
proof -
  have "unat (word_of_nat v :: u8) = v mod 256" "unat (word_of_nat (v div 256) :: u8) = v div 256 mod 256"
    by (simp_all add: unsigned_of_nat take_bit_eq_mod)
  then show ?thesis unfolding unat_load16 using mod_mult2_eq [of v 256 256] by simp
qed

lemma get_set_same [simp]:
  "nxt (set_next p v r) p = v mod 65536" "prv (set_next p v r) p = prv r p" "used (set_next p v r) p = used r p"
  "nxt (set_prev p v r) p = nxt r p" "prv (set_prev p v r) p = v mod 65536" "used (set_prev p v r) p = used r p"
  "nxt (set_used p u r) p = nxt r p" "prv (set_used p u r) p = prv r p" "used (set_used p u r) p = u"
  using load16_put by (simp_all add: nxt_def prv_def used_def set_next_def set_prev_def set_used_def put16_def)

lemma get_set_apart [simp]:
  assumes "apart p q"
  shows "nxt (set_next p v r) q = nxt r q" "prv (set_next p v r) q = prv r q" "used (set_next p v r) q = used r q"
    "nxt (set_prev p v r) q = nxt r q" "prv (set_prev p v r) q = prv r q" "used (set_prev p v r) q = used r q"
    "nxt (set_used p u r) q = nxt r q" "prv (set_used p u r) q = prv r q" "used (set_used p u r) q = used r q"
  using assms
  by (auto simp: apart_def nxt_def prv_def used_def set_next_def set_prev_def set_used_def put16_def)

lemma nxt_bound: "nxt r p < 65536"
  unfolding nxt_def using unsigned_less [of "load16 (r p) (r (p + 1))"] by simp

text \<open>Writes to a structure leave the bytes outside of it alone.\<close>

definition writes :: "nat set \<Rightarrow> ram \<Rightarrow> ram \<Rightarrow> bool" where
  "writes P r r' \<longleftrightarrow> (\<forall>i. (\<forall>p \<in> P. i < p \<or> p + 8 \<le> i) \<longrightarrow> r' i = r i)"

lemma writes_refl [simp]: "writes P r r"
  by (simp add: writes_def)

lemma writes_set [intro]:
  assumes "writes P r r'" "p \<in> P"
  shows "writes P r (set_next p v r')" "writes P r (set_prev p v r')" "writes P r (set_used p u r')"
  using assms by (auto simp: writes_def set_next_def set_prev_def set_used_def put16_def dest!: bspec)

section \<open>The list of blocks\<close>

abbreviation heap_end :: nat where
  "heap_end \<equiv> 22528"

function blocks :: "ram \<Rightarrow> nat \<Rightarrow> nat list" where
  "blocks r p = (if p < nxt r p \<and> p < heap_end then p # blocks r (nxt r p) else [p])"
  by pat_completeness auto
termination
  by (relation "measure (\<lambda>(r, p). heap_end - p)") auto

declare blocks.simps [simp del]

definition link :: "ram \<Rightarrow> nat \<Rightarrow> nat \<Rightarrow> bool" where
  "link r p q \<longleftrightarrow> nxt r p = q \<and> p + 20 \<le> q \<and> 4 dvd p \<and> (q = heap_end \<or> prv r q = p)"

definition linked :: "ram \<Rightarrow> nat list \<Rightarrow> bool" where
  "linked r bs \<longleftrightarrow> bs \<noteq> [] \<and> successively (link r) bs \<and> last bs = heap_end \<and> used r heap_end \<and> nxt r heap_end = heap_end"

definition tight :: "ram \<Rightarrow> nat list \<Rightarrow> bool" where
  "tight r bs \<longleftrightarrow> successively (\<lambda>p q. used r p \<or> used r q) bs"

definition lowest_free :: "ram \<Rightarrow> nat list \<Rightarrow> nat" where
  "lowest_free r bs = (case find (\<lambda>p. \<not> used r p) bs of Some p \<Rightarrow> p | None \<Rightarrow> heap_end)"

definition mem_ok :: "mem_heap \<Rightarrow> bool" where
  "mem_ok h \<longleftrightarrow> (let bs = blocks (ram h) 0 in
     linked (ram h) bs \<and> tight (ram h) bs \<and> prv (ram h) 0 = 0 \<and> lfree h = lowest_free (ram h) bs)"

text \<open>Blocks in the hands of callers: offset and number of bytes.\<close>

definition extent :: "ram \<Rightarrow> nat \<Rightarrow> nat \<times> nat" where
  "extent r p = (p + 8, nxt r p - (p + 8))"

definition allocated :: "mem_heap \<Rightarrow> (nat \<times> nat) set" where
  "allocated h = extent (ram h) ` {p \<in> set (blocks (ram h) 0). used (ram h) p \<and> p \<noteq> heap_end}"

definition available :: "mem_heap \<Rightarrow> (nat \<times> nat) set" where
  "available h = extent (ram h) ` {p \<in> set (blocks (ram h) 0). \<not> used (ram h) p}"

lemma linked_single [simp]: "linked r [p] \<longleftrightarrow> p = heap_end \<and> used r heap_end \<and> nxt r heap_end = heap_end"
  by (auto simp: linked_def)

lemma linked_Cons [simp]: "linked r (p # q # bs) \<longleftrightarrow> link r p q \<and> linked r (q # bs)"
  by (auto simp: linked_def)

lemma linked_bounds: "linked r (p # bs) \<Longrightarrow> q \<in> set bs \<Longrightarrow> p + 20 \<le> q"
proof (induction bs arbitrary: p)
  case (Cons b bs)
  then have "p + 20 \<le> b" "linked r (b # bs)" by (simp_all add: link_def)
  then show ?case using Cons.IH [of b] Cons.prems(2) by (cases "q = b") auto
qed simp

lemma linked_le_end: "linked r bs \<Longrightarrow> q \<in> set bs \<Longrightarrow> q \<le> heap_end"
proof (induction bs rule: induct_list012)
  case (3 p b bs)
  moreover have "p + 20 \<le> heap_end"
    using 3 linked_bounds [of r p "b # bs" heap_end] last_in_set [of "b # bs"] by (auto simp: linked_def)
  ultimately show ?case by auto
qed auto

lemma linked_blocks: "linked r (p # bs) \<Longrightarrow> blocks r p = p # bs"
proof (induction bs arbitrary: p)
  case Nil
  then show ?case by (simp add: blocks.simps [of r heap_end])
next
  case (Cons q bs)
  then have "nxt r p = q" "p + 20 \<le> q" "blocks r q = q # bs" "q \<le> heap_end"
    using linked_le_end [of r "q # bs" q] by (auto simp: link_def)
  then show ?case by (simp add: blocks.simps [of r p])
qed


lemma linked_append:
  "linked r (xs @ p # ys) \<longleftrightarrow> successively (link r) (xs @ [p]) \<and> linked r (p # ys)"
  by (auto simp: linked_def successively_append_iff successively_Cons)

lemma linked_apart:
  assumes "linked r bs" "p \<in> set bs" "q \<in> set bs" "p \<noteq> q"
  shows "apart p q"
proof -
  have "p + 20 \<le> q \<or> q + 20 \<le> p" using assms
  proof (induction bs rule: induct_list012)
    case (3 x y zs)
    then show ?case using linked_bounds [of r x "y # zs"] by auto
  qed auto
  then show ?thesis by (auto simp: apart_def)
qed

lemma linked_distinct: "linked r bs \<Longrightarrow> distinct bs"
proof (induction bs rule: induct_list012)
  case (3 p q bs)
  then show ?case using linked_bounds [of r p "q # bs" p] by auto
qed auto

text \<open>What the links and the free neighbours depend on.\<close>

lemma linked_cong:
  assumes "\<And>p. p \<in> set bs \<Longrightarrow> nxt r' p = nxt r p \<and> prv r' p = prv r p \<and> used r' p = used r p"
  shows "linked r' bs = linked r bs" "tight r' bs = tight r bs"
proof -
  have "successively (link r') bs = successively (link r) bs"
    by (rule successively_cong) (simp_all add: link_def assms)
  moreover have "bs \<noteq> [] \<Longrightarrow> last bs = heap_end \<Longrightarrow> heap_end \<in> set bs" using last_in_set [of bs] by simp
  ultimately show "linked r' bs = linked r bs" using assms [of heap_end] unfolding linked_def by metis
  show "tight r' bs = tight r bs" unfolding tight_def by (rule successively_cong) (simp_all add: assms)
qed

lemma links_cong:
  assumes "\<And>p. p \<in> set xs \<Longrightarrow> nxt r' p = nxt r p \<and> prv r' p = prv r p" "prv r' q = prv r q"
  shows "successively (link r') (xs @ [q]) = successively (link r) (xs @ [q])"
proof -
  have "successively (link r') xs = successively (link r) xs"
    by (rule successively_cong) (simp_all add: link_def assms)
  moreover have "xs \<noteq> [] \<Longrightarrow> link r' (last xs) q = link r (last xs) q" by (simp add: link_def assms)
  ultimately show ?thesis by (auto simp: successively_append_iff)
qed

section \<open>Searching\<close>

lemma sub32_le [simp]: "b \<le> a \<Longrightarrow> a < 4294967296 \<Longrightarrow> sub32 a b = a - b"
proof -
  assume "b \<le> a" "a < 4294967296"
  then have "(a + 4294967296 - b) mod 4294967296 = (a - b + 4294967296) mod 4294967296" by simp
  also have "\<dots> = a - b" unfolding mod_add_self2 using \<open>a < 4294967296\<close> by simp
  finally show ?thesis by (simp add: sub32_def)
qed

abbreviation fits :: "ram \<Rightarrow> nat \<Rightarrow> nat \<Rightarrow> bool" where
  "fits r n p \<equiv> \<not> used r p \<and> p + 8 + n \<le> nxt r p"

lemma find_None_iff_all: "find P xs = None \<longleftrightarrow> (\<forall>x \<in> set xs. \<not> P x)"
  by (induction xs) auto

lemma none_fit_near_end:
  assumes "linked r (p # bs)" "heap_end < p + 8 + n" "q \<in> set (p # bs)"
  shows "\<not> fits r n q"
  using assms
proof (induction bs arbitrary: p)
  case (Cons b bs)
  have b: "link r p b" "linked r (b # bs)" using Cons.prems(1) by simp_all
  then have "nxt r p \<le> heap_end" using linked_le_end [of r "b # bs" b] by (simp add: link_def)
  moreover have "heap_end < b + 8 + n" using b(1) Cons.prems(2) by (simp add: link_def)
  ultimately show ?case using Cons.IH [OF b(2)] Cons.prems(2,3) by auto
qed simp

lemma malloc_search_find:
  assumes "linked r (p # bs)" "12 \<le> n" "n \<le> heap_end"
  shows "malloc_search r n p = Some (find (fits r n) (p # bs))"
  using assms(1)
proof (induction bs arbitrary: p)
  case Nil
  then show ?case using assms(2) by (simp add: malloc_search.simps [of r n heap_end])
next
  case (Cons b bs)
  then have b: "nxt r p = b" "p + 20 \<le> b" "linked r (b # bs)" "b \<le> heap_end"
    using linked_le_end [of r "b # bs" b] by (simp_all add: link_def)
  show ?case
  proof (cases "p < heap_end - n")
    case True
    then show ?thesis using b Cons.IH [OF b(3)] by (auto simp: malloc_search.simps [of r n p])
  next
    case False
    then have "\<forall>q \<in> set (p # b # bs). \<not> fits r n q" using none_fit_near_end [OF Cons.prems, of n] by auto
    then have "find (fits r n) (p # b # bs) = None" unfolding find_None_iff_all .
    then show ?thesis using False by (simp add: malloc_search.simps [of r n p])
  qed
qed

lemma next_free_lowest:
  assumes "linked r (p # bs)"
  shows "next_free r p = Some (lowest_free r (p # bs))"
  using assms
proof (induction bs arbitrary: p)
  case Nil
  then show ?case by (simp add: next_free.simps [of r heap_end] lowest_free_def)
next
  case (Cons b bs)
  then have "nxt r p = b" "p < b" "b \<le> heap_end" "linked r (b # bs)"
    using linked_le_end [of r "b # bs" b] by (auto simp: link_def)
  then show ?case using Cons.IH [of b] by (auto simp: next_free.simps [of r p] lowest_free_def)
qed

text \<open>The search may start at the lowest free block.\<close>

lemma lowest_free_suffix:
  assumes "linked r bs"
  shows "\<exists>xs ys. bs = xs @ lowest_free r bs # ys \<and> (\<forall>x \<in> set xs. used r x)"
proof (cases "find (\<lambda>p. \<not> used r p) bs")
  case None
  have bs: "bs = butlast bs @ [heap_end]" using assms append_butlast_last_id [of bs] by (simp add: linked_def)
  have "\<forall>x \<in> set (butlast bs). used r x" using None in_set_butlastD by (fastforce simp: find_None_iff_all)
  moreover have "lowest_free r bs = heap_end" using None by (simp add: lowest_free_def)
  ultimately show ?thesis using bs by metis
next
  case (Some p)
  then obtain i where i: "i < length bs" "p = bs ! i" "\<forall>j < i. used r (bs ! j)" unfolding find_Some_iff by auto
  have "bs = take i bs @ bs ! i # drop (Suc i) bs" using i(1) by (simp add: id_take_nth_drop)
  moreover have "\<forall>x \<in> set (take i bs). used r x" using i by (auto simp: in_set_conv_nth)
  moreover have "lowest_free r bs = bs ! i" using Some i(2) by (simp add: lowest_free_def)
  ultimately show ?thesis by metis
qed

lemma find_append_none: "\<forall>x \<in> set xs. \<not> P x \<Longrightarrow> find P (xs @ ys) = find P ys"
  by (induction xs) auto

lemma search_from_lowest:
  assumes "linked r bs" "12 \<le> n" "n \<le> heap_end"
  shows "malloc_search r n (lowest_free r bs) = Some (find (fits r n) bs)"
proof -
  obtain xs ys where bs: "bs = xs @ lowest_free r bs # ys" and xs: "\<forall>x \<in> set xs. used r x"
    using lowest_free_suffix [OF assms(1)] by blast
  then have l: "linked r (lowest_free r bs # ys)" using assms(1) linked_append by metis
  have "find (fits r n) bs = find (fits r n) (lowest_free r bs # ys)"
    by (subst bs) (rule find_append_none, use xs in auto)
  then show ?thesis using malloc_search_find [OF l assms(2,3)] by simp
qed

lemma linked_before:
  assumes "linked r (xs @ p # ys)" "x \<in> set xs"
  shows "x + 20 \<le> p"
proof -
  obtain as bs where "xs = as @ x # bs" using split_list [OF assms(2)] by blast
  then have "linked r (x # bs @ p # ys)" using assms(1) linked_append by fastforce
  then show ?thesis using linked_bounds by fastforce
qed

section \<open>Splitting a block\<close>

lemma apart_sym: "apart p q = apart q p"
  by (auto simp: apart_def)

text \<open>A structure written between two neighbours, as by \<^verbatim>\<open>mem_malloc\<close> and \<^verbatim>\<open>mem_trim\<close>.\<close>

definition inserted :: "ram \<Rightarrow> nat \<Rightarrow> nat \<Rightarrow> nat \<Rightarrow> bool \<Rightarrow> ram \<Rightarrow> bool" where
  "inserted r p m q u r' \<longleftrightarrow> nxt r' p = m \<and> prv r' p = prv r p \<and> used r' p = u \<and>
     nxt r' m = q \<and> prv r' m = p \<and> \<not> used r' m \<and>
     nxt r' q = nxt r q \<and> used r' q = used r q \<and> (q \<noteq> heap_end \<longrightarrow> prv r' q = m) \<and>
     (\<forall>x. apart p x \<and> apart m x \<and> apart q x \<longrightarrow> nxt r' x = nxt r x \<and> prv r' x = prv r x \<and> used r' x = used r x) \<and>
     writes {p, m, q} r r'"

lemma take_inserted:
  assumes "nxt r p = q" "p + 28 + n \<le> q" "q \<le> heap_end" "12 \<le> n"
  shows "inserted r p (p + 8 + n) q True (malloc_take r n p)"
proof -
  let ?m = "p + 8 + n"
  have a: "apart p ?m" "apart ?m p" "apart p q" "apart q p" "apart ?m q" "apart q ?m"
    using assms by (auto simp: apart_def)
  have q: "q mod 65536 = q" "?m mod 65536 = ?m" "p mod 65536 = p" using assms(2,3) by simp_all
  define r1 where "r1 = set_used p True (set_next p ?m (set_prev ?m p (set_next ?m q (set_used ?m False r))))"
  have "nxt r1 ?m = q" using a q by (simp add: r1_def)
  moreover have room: "n + 8 + 12 \<le> sub32 q (p + 8)" using assms by simp
  ultimately have take: "malloc_take r n p = (if q \<noteq> heap_end then set_prev q ?m r1 else r1)"
    using assms(1) room q a unfolding r1_def malloc_take_def by (simp add: Let_def)
  have "writes {p, ?m, q} r r1" unfolding r1_def by (intro writes_set) auto
  then have "writes {p, ?m, q} r (malloc_take r n p)" unfolding take by (auto intro: writes_set)
  then show ?thesis unfolding inserted_def using a q unfolding take r1_def by auto
qed

lemma inserted_same:
  assumes "linked r (xs @ p # q # ys)" "inserted r p m q u r'" "p + 20 \<le> m" "m + 20 \<le> q" "x \<in> set xs \<union> set ys"
  shows "nxt r' x = nxt r x" "prv r' x = prv r x" "used r' x = used r x"
proof -
  have l: "linked r (q # ys)" using assms(1) by (simp add: linked_append)
  have "apart p x" "apart q x" using linked_apart [OF assms(1)] linked_distinct [OF assms(1)] assms(5) by auto
  moreover have "apart m x"
  proof (cases "x \<in> set ys")
    case True
    then show ?thesis using linked_bounds [OF l] assms(4) by (fastforce simp: apart_def)
  next
    case False
    then have "x \<in> set xs" using assms(5) by simp
    then have "x + 20 \<le> p" using linked_before [OF assms(1)] by simp
    then show ?thesis using assms(3) by (simp add: apart_def)
  qed
  ultimately show "nxt r' x = nxt r x" "prv r' x = prv r x" "used r' x = used r x"
    using assms(2) by (simp_all add: inserted_def)
qed

lemma inserted_linked:
  assumes "linked r (xs @ p # q # ys)" "inserted r p m q u r'" "p + 20 \<le> m" "m + 20 \<le> q" "4 dvd m"
  shows "linked r' (xs @ p # m # q # ys)"
proof -
  note same = inserted_same [OF assms(1-4)]
  have l: "successively (link r) (xs @ [p])" "link r p q" "linked r (q # ys)" using assms(1) by (simp_all add: linked_append)
  have "successively (link r') (xs @ [p])"
    using l(1) links_cong [of xs r' r p] same assms(2) by (simp add: inserted_def)
  moreover have "link r' p m" "link r' m q" using l(2) assms(2-5) by (auto simp: link_def inserted_def)
  moreover have "linked r' (q # ys)"
  proof (cases ys)
    case Nil
    then show ?thesis using l(3) assms(2) by (simp add: inserted_def)
  next
    case (Cons y zs)
    have "linked r' ys = linked r ys" by (rule linked_cong(1)) (simp add: same)
    moreover have "linked r ys" using l(3) Cons by simp
    moreover have "link r' q y" using l(3) same [of y] assms(2) Cons by (simp add: link_def inserted_def)
    ultimately show ?thesis using Cons by simp
  qed
  ultimately show ?thesis by (simp add: linked_append)
qed

section \<open>Neighbours and bytes\<close>

lemma linked_next:
  assumes "linked r bs" "b \<in> set bs" "b \<noteq> heap_end"
  obtains xs ys where "bs = xs @ b # nxt r b # ys" "link r b (nxt r b)"
proof -
  obtain xs ys where bs: "bs = xs @ b # ys" using split_list [OF assms(2)] by blast
  then have "linked r (b # ys)" using assms(1) by (simp add: linked_append)
  then have "ys = nxt r b # tl ys" "link r b (nxt r b)" using assms(3) by (cases ys; simp add: link_def)+
  then show thesis using that bs by metis
qed

lemma header_outside:
  assumes "linked r bs" "b \<in> set bs" "b \<noteq> heap_end" "x \<in> set bs"
  shows "x \<le> b \<or> nxt r b \<le> x"
proof -
  obtain xs ys where bs: "bs = xs @ b # nxt r b # ys" using linked_next [OF assms(1-3)] by blast
  have l: "linked r (nxt r b # ys)" using assms(1) unfolding bs by (simp add: linked_append)
  show ?thesis using assms(4) linked_before [of r xs b] linked_bounds [OF l] assms(1) unfolding bs by fastforce
qed

lemma writes_kept:
  assumes "linked r bs" "writes P r r'" "B \<subseteq> set bs - {heap_end}"
    "\<And>x b. x \<in> P \<Longrightarrow> b \<in> B \<Longrightarrow> x \<le> b \<or> nxt r b \<le> x"
  shows "same_bytes (extent r ` B) r r'"
proof -
  have "r' (b + 8 + i) = r (b + 8 + i)" if "b \<in> B" "i < nxt r b - (b + 8)" for b i
  proof -
    have "\<forall>x \<in> P. b + 8 + i < x \<or> x + 8 \<le> b + 8 + i" using assms(4) [OF _ that(1)] that(2) by fastforce
    then show ?thesis using assms(2) by (simp add: writes_def)
  qed
  then show ?thesis by (auto simp: same_bytes_def extent_def)
qed

end
