(* ===== verification/Mem_Ops.thy ===== *)
theory Mem_Ops
  imports Mem_Blocks
begin

text \<open>
  The operations of the lwIP heap on the list of blocks: each keeps \<open>mem_ok\<close>, changes the set of
  allocated blocks as its name says and leaves the bytes of the other blocks alone.
\<close>

section \<open>Allocation\<close>

lemma mem_okI:
  assumes "linked (ram h) (0 # bs)" "tight (ram h) (0 # bs)" "prv (ram h) 0 = 0" "lfree h = lowest_free (ram h) (0 # bs)"
  shows "mem_ok h" "blocks (ram h) 0 = 0 # bs"
  using assms linked_blocks [OF assms(1)] by (simp_all add: mem_ok_def Let_def)

lemma mem_okE:
  assumes "mem_ok h"
  obtains bs where "blocks (ram h) 0 = 0 # bs" "linked (ram h) (0 # bs)" "tight (ram h) (0 # bs)" "prv (ram h) 0 = 0"
    "lfree h = lowest_free (ram h) (0 # bs)"
proof -
  have "blocks (ram h) 0 = 0 # tl (blocks (ram h) 0)" by (subst (1 2) blocks.simps) simp
  then show thesis using that [of "tl (blocks (ram h) 0)"] assms by (simp add: mem_ok_def Let_def)
qed

lemma lowest_free_append:
  "lowest_free r (xs @ ys) = (if \<forall>x \<in> set xs. used r x then lowest_free r ys else lowest_free r xs)"
  by (induction xs) (auto simp: lowest_free_def)

lemma lowest_free_cong: "(\<And>x. x \<in> set xs \<Longrightarrow> used r' x = used r x) \<Longrightarrow> lowest_free r' xs = lowest_free r xs"
proof -
  assume "\<And>x. x \<in> set xs \<Longrightarrow> used r' x = used r x"
  then have "find (\<lambda>p. \<not> used r' p) xs = find (\<lambda>p. \<not> used r p) xs" by (intro find_cong) simp_all
  then show ?thesis by (simp add: lowest_free_def)
qed

lemma tight_append:
  "tight r (xs @ p # q # ys) \<longleftrightarrow> tight r (xs @ [p]) \<and> tight r (p # q # ys)"
  by (auto simp: tight_def successively_append_iff successively_Cons)

lemma tight_Cons [simp]: "tight r [p]" "tight r (p # q # ys) \<longleftrightarrow> (used r p \<or> used r q) \<and> tight r (q # ys)"
  by (simp_all add: tight_def)

lemma tight_mono: "tight r bs \<Longrightarrow> (\<And>x. x \<in> set bs \<Longrightarrow> used r x \<Longrightarrow> used r' x) \<Longrightarrow> tight r' bs"
  unfolding tight_def by (erule successively_mono) blast

lemma linked_set_used:
  assumes "linked r bs" "p \<in> set bs" "p \<noteq> heap_end"
  shows "linked (set_used p u r) bs"
    "x \<in> set bs \<Longrightarrow> nxt (set_used p u r) x = nxt r x \<and> prv (set_used p u r) x = prv r x \<and>
      used (set_used p u r) x = (if x = p then u else used r x)"
proof -
  have get: "nxt (set_used p u r) x = nxt r x \<and> prv (set_used p u r) x = prv r x \<and>
      used (set_used p u r) x = (if x = p then u else used r x)" if "x \<in> set bs" for x
    using linked_apart [OF assms(1,2) that] by (cases "x = p") auto
  then show "x \<in> set bs \<Longrightarrow> nxt (set_used p u r) x = nxt r x \<and> prv (set_used p u r) x = prv r x \<and>
      used (set_used p u r) x = (if x = p then u else used r x)" by blast
  have "successively (link (set_used p u r)) bs = successively (link r) bs"
    by (rule successively_cong) (simp_all add: link_def get)
  moreover have "heap_end \<in> set bs" using assms(1) last_in_set [of bs] by (auto simp: linked_def)
  ultimately show "linked (set_used p u r) bs" using assms(1,3) get [of heap_end] by (simp add: linked_def)
qed

text \<open>Taking a block: what the memory is afterwards, with and without a split.\<close>

lemma take_linked:
  fixes r p n defines "r' \<equiv> malloc_take r n p"
  assumes l: "linked r (xs @ p # q # ys)" and t: "tight r (xs @ p # q # ys)"
    and n: "fits r n p" "12 \<le> n" "4 dvd n"
  obtains mid k where "linked r' (xs @ p # mid @ q # ys)" "tight r' (xs @ p # mid @ q # ys)"
    "n \<le> k" "nxt r' p = p + 8 + k" "used r' p" "prv r' p = prv r p"
    "\<forall>x \<in> set mid. \<not> used r' x \<and> p < x \<and> x < q"
    "\<forall>x \<in> set xs \<union> set (q # ys). nxt r' x = nxt r x \<and> used r' x = used r x"
    "\<forall>x \<in> set xs. prv r' x = prv r x" "writes ({p, q} \<union> set mid) r r'"
proof (cases "p + 28 + n \<le> q")
  case True
  have pq: "nxt r p = q" "q \<le> heap_end" "4 dvd p"
    using l linked_le_end [OF l, of q] by (simp_all add: linked_append link_def)
  let ?m = "p + 8 + n"
  have ins: "inserted r p ?m q True r'" unfolding r'_def using take_inserted [OF pq(1) True pq(2) n(2)] .
  have m: "p + 20 \<le> ?m" "?m + 20 \<le> q" "4 dvd ?m" using n True pq(3) by simp_all
  note same = inserted_same [OF l ins m(1,2)]
  have u: "used r x \<Longrightarrow> used r' x" if "x \<in> set (xs @ p # q # ys)" for x
    using that same(3) ins by (auto simp: inserted_def)
  have "tight r' (xs @ p # q # ys)" using tight_mono [OF t u] by blast
  moreover have "used r q" using t n(1) by (simp add: tight_append)
  ultimately have "tight r' (xs @ p # [?m] @ q # ys)" using ins by (simp add: tight_append inserted_def)
  moreover have "linked r' (xs @ p # [?m] @ q # ys)" using inserted_linked [OF l ins m] by simp
  ultimately show thesis using that [of "[?m]" n] same ins m n(2) by (simp add: inserted_def insert_commute)
next
  case False
  have pq: "nxt r p = q" "p + 8 + n \<le> q" "q \<le> heap_end"
    using l n(1) linked_le_end [OF l, of q] by (simp_all add: linked_append link_def)
  moreover have "\<not> n + 8 + 12 \<le> sub32 q (p + 8)" using pq False by simp
  ultimately have r': "r' = set_used p True r" by (simp add: r'_def malloc_take_def)
  have "p \<noteq> heap_end" using pq(2,3) by simp
  note get = linked_set_used [OF l _ this, where u = True]
  have "tight r' (xs @ p # q # ys)" unfolding r' by (rule tight_mono [OF t]) (simp add: get(2))
  moreover have "writes {p, q} r r'" unfolding r' by (intro writes_set) simp_all
  moreover have "p \<notin> set xs \<union> set (q # ys)" using linked_distinct [OF l] by simp
  moreover have "p + 8 + (q - (p + 8)) = q" using pq(2) by simp
  ultimately show thesis using that [of "[]" "q - (p + 8)"] get pq unfolding r' by auto
qed

lemma rounded_size_props: "12 \<le> rounded_size sz" "4 dvd rounded_size sz"
proof -
  have "4 dvd mem_align sz mod 65536" by (rule dvd_mod) (simp_all add: mem_align_def)
  then show "4 dvd rounded_size sz" by (simp add: rounded_size_def Let_def)
qed (simp add: rounded_size_def Let_def)

lemma lowest_free_cases: "lowest_free r bs = heap_end \<or> (\<not> used r (lowest_free r bs) \<and> lowest_free r bs \<in> set bs)"
  by (auto simp: lowest_free_def find_Some_iff split: option.split)

lemma lowest_free_in: "\<not> (\<forall>x \<in> set xs. used r x) \<Longrightarrow> lowest_free r xs \<in> set xs \<and> \<not> used r (lowest_free r xs)"
  by (induction xs) (auto simp: lowest_free_def)

text \<open>The lowest free block after taking \<open>p\<close>, as \<^verbatim>\<open>mem_malloc\<close> computes it.\<close>

lemma adjust_lfree:
  fixes r r' p xs ys zs
  defines "lf \<equiv> lowest_free r (xs @ p # ys)"
  assumes l: "linked r (xs @ p # ys)" and l': "linked r' (xs @ p # zs)" and "\<not> used r p"
    and "\<forall>x \<in> set xs. used r' x = used r x"
  shows "(if p = lf then next_free r' lf else Some lf) = Some (lowest_free r' (xs @ p # zs))"
proof (cases "\<forall>x \<in> set xs. used r x")
  case True
  then have "lf = p" using assms(4) by (simp add: lf_def lowest_free_append) (simp add: lowest_free_def)
  moreover have "linked r' (p # zs)" using l' by (simp add: linked_append)
  ultimately show ?thesis using True assms(5) next_free_lowest by (simp add: lowest_free_append)
next
  case False
  then have "lf = lowest_free r xs" "lf \<in> set xs" using lowest_free_in [OF False] by (auto simp: lf_def lowest_free_append)
  moreover have "p \<notin> set xs" using linked_distinct [OF l] by auto
  moreover have "lowest_free r' xs = lowest_free r xs" using assms(5) by (intro lowest_free_cong) simp
  ultimately show ?thesis using False assms(5) by (auto simp: lowest_free_append)
qed

lemma find_found: "find P xs = Some x \<Longrightarrow> x \<in> set xs \<and> P x"
  by (induction xs) (auto split: if_splits)

lemma mem_malloc_found:
  assumes ok: "mem_ok h" and "0 < sz" "rounded_size sz \<le> heap_end"
    and f: "find (fits (ram h) (rounded_size sz)) (blocks (ram h) 0) = Some p"
  shows "\<exists>h' k. mem_malloc sz h = Some (Some (int (p + 8)), h') \<and> mem_ok h' \<and> rounded_size sz \<le> k \<and>
    allocated h' = insert (p + 8, k) (allocated h) \<and> p + 8 \<notin> fst ` allocated h \<and> 4 dvd p \<and>
    same_bytes (allocated h) (ram h) (ram h')"
proof -
  let ?n = "rounded_size sz" and ?r = "ram h"
  obtain bs where bs: "blocks ?r 0 = 0 # bs" and l: "linked ?r (0 # bs)" and t: "tight ?r (0 # bs)"
    and z: "prv ?r 0 = 0" and lf: "lfree h = lowest_free ?r (0 # bs)" using mem_okE [OF ok] by blast
  have p: "p \<in> set (0 # bs)" "fits ?r ?n p" using find_found [OF f] bs by simp_all
  then have "p \<noteq> heap_end" using l by (auto simp: linked_def)
  then obtain xs ys where q: "0 # bs = xs @ p # nxt ?r p # ys" "link ?r p (nxt ?r p)" using linked_next [OF l p(1)] by metis
  define q where "q = nxt ?r p"
  define r' where "r' = malloc_take ?r ?n p"
  obtain mid k where m: "linked r' (xs @ p # mid @ q # ys)" "tight r' (xs @ p # mid @ q # ys)"
    "?n \<le> k" "nxt r' p = p + 8 + k" "used r' p" "prv r' p = prv ?r p"
    "\<forall>x \<in> set mid. \<not> used r' x \<and> p < x \<and> x < q"
    "\<forall>x \<in> set xs \<union> set (q # ys). nxt r' x = nxt ?r x \<and> used r' x = used ?r x"
    "\<forall>x \<in> set xs. prv r' x = prv ?r x" "writes ({p, q} \<union> set mid) ?r r'"
    unfolding r'_def using take_linked [of ?r xs p q ys ?n] l t p(2) rounded_size_props [of sz] unfolding q(1) q_def by metis
  obtain cs where cs: "xs @ p # mid @ q # ys = 0 # cs" using q(1) by (cases xs) auto
  define h' where "h' = \<lparr>ram = r', lfree = lowest_free r' (0 # cs)\<rparr>"
  have free: "\<not> used ?r p" using p(2) by blast
  have "malloc_search ?r ?n (lfree h) = Some (Some p)"
    using search_from_lowest [OF l rounded_size_props(1) assms(3)] f bs lf by simp
  moreover have lf': "(if p = lfree h then next_free r' (lfree h) else Some (lfree h)) = Some (lfree h')"
    using adjust_lfree [of ?r xs p "q # ys" r' "mid @ q # ys"] l m(1,8) free cs lf unfolding q(1) h'_def q_def by (auto split: if_splits)
  moreover have "lfree h' = heap_end \<or> \<not> used r' (lfree h')" using lowest_free_cases [of r' "0 # cs"] by (auto simp: h'_def)
  moreover have "p + 8 + ?n \<le> heap_end" "p mod 4 = 0"
    using p(2) q(2) linked_le_end [OF l, of "nxt ?r p"] q(1) by (auto simp: link_def)
  ultimately have "mem_malloc sz h = Some (Some (int (p + 8)), h')"
    using assms(2,3) by (auto simp: mem_malloc_def Let_def r'_def h'_def)
  moreover have "prv r' 0 = 0" using z m(6,9) q(1) by (cases xs) auto
  then have ok': "mem_ok h'" "blocks r' 0 = 0 # cs" using mem_okI [of h' cs] m(1,2) unfolding cs by (simp_all add: h'_def)
  moreover define B where "B = {x \<in> set xs \<union> set (q # ys). used ?r x \<and> x \<noteq> heap_end}"
  have B: "{x \<in> set (blocks ?r 0). used ?r x \<and> x \<noteq> heap_end} = B"
    unfolding bs q(1) B_def q_def using free by auto
  have B': "{x \<in> set (blocks r' 0). used r' x \<and> x \<noteq> heap_end} = insert p B"
    unfolding ok'(2) cs [symmetric] B_def using m(5,7,8) \<open>p \<noteq> heap_end\<close> by auto
  have "extent r' ` B = extent ?r ` B" using m(8) by (intro image_cong) (auto simp: B_def extent_def)
  then have "allocated h' = insert (p + 8, k) (allocated h)"
    unfolding allocated_def B h'_def mem_heap.simps B' using m(4) by (simp add: extent_def)
  moreover have "p + 8 \<notin> fst ` allocated h" using free by (auto simp: allocated_def extent_def)
  moreover have "same_bytes (allocated h) ?r (ram h')"
    unfolding allocated_def B h'_def mem_heap.simps
  proof (rule writes_kept [OF l m(10)])
    show "B \<subseteq> set (0 # bs) - {heap_end}" unfolding q(1) B_def q_def by auto
    fix x b
    assume x: "x \<in> {p, q} \<union> set mid" and "b \<in> B"
    then have b: "b \<in> set (0 # bs)" "b \<noteq> heap_end" "b \<noteq> p" unfolding q(1) B_def q_def using free by auto
    have "p \<le> b \<or> nxt ?r b \<le> p" "b \<le> p \<or> q \<le> b" "q \<le> b \<or> nxt ?r b \<le> q"
      using header_outside [OF l b(1,2), of p] header_outside [OF l p(1) \<open>p \<noteq> heap_end\<close> b(1)]
        header_outside [OF l b(1,2), of q] p(1) unfolding q(1) q_def by auto
    then show "x \<le> b \<or> nxt ?r b \<le> x" using x b(3) m(7) by fastforce
  qed
  ultimately show ?thesis using m(3) q(2) by (auto simp: link_def)
qed

section \<open>Joining blocks\<close>

definition taken :: "ram \<Rightarrow> nat list \<Rightarrow> (nat \<times> nat) set" where
  "taken r bs = extent r ` {x \<in> set bs. used r x \<and> x \<noteq> heap_end}"

lemma allocated_taken: "allocated h = taken (ram h) (blocks (ram h) 0)"
  by (simp add: allocated_def taken_def)

lemma kept_trans: "same_bytes A r s \<Longrightarrow> same_bytes A s t \<Longrightarrow> same_bytes A r t"
  by (simp add: same_bytes_def)

lemma kept_mono: "same_bytes B r s \<Longrightarrow> A \<subseteq> B \<Longrightarrow> same_bytes A r s"
  unfolding same_bytes_def by blast

lemma kept_refl [simp]: "same_bytes A r r"
  by (simp add: same_bytes_def)

lemma writes_taken:
  assumes "linked r bs" "writes P r r'" "P \<subseteq> set bs"
  shows "same_bytes (taken r bs) r r'"
  unfolding taken_def using assms header_outside [OF assms(1)] by (intro writes_kept [OF assms(1,2)]) auto

text \<open>The two stores by which \<^verbatim>\<open>plug_holes\<close> takes \<open>b\<close> out of the list.\<close>

lemma join_linked:
  fixes r a c defines "r' \<equiv> set_prev c a (set_next a c r)"
  assumes l: "linked r (xs @ a # b # c # ys)"
  shows "linked r' (xs @ a # c # ys)"
    "\<forall>x \<in> set (xs @ a # c # ys). used r' x = used r x"
    "\<forall>x \<in> set (xs @ a # c # ys). x \<noteq> a \<longrightarrow> nxt r' x = nxt r x"
    "\<forall>x \<in> set (xs @ [a]). prv r' x = prv r x"
    "same_bytes (taken r (xs @ a # b # c # ys)) r r'"
proof -
  have e: "a mod 65536 = a" "c mod 65536 = c" using linked_le_end [OF l, of a] linked_le_end [OF l, of c] by simp_all
  have far: "apart x y" if "x \<in> set (xs @ a # c # ys)" "y \<in> set (xs @ a # c # ys)" "x \<noteq> y" for x y
    using linked_apart [OF l] that by auto
  have d: "a \<noteq> c" "a \<notin> set xs \<union> set ys" "c \<notin> set xs \<union> set ys" using linked_distinct [OF l] by auto
  have get: "used r' x = used r x" "nxt r' x = (if x = a then c else nxt r x)" "prv r' x = (if x = c then a else prv r x)"
    if x: "x \<in> set (xs @ a # c # ys)" for x
  proof -
    have "apart a c" "apart c a" using far [of a c] far [of c a] d(1) by simp_all
    moreover have "x \<noteq> a \<Longrightarrow> apart a x" "x \<noteq> c \<Longrightarrow> apart c x" using far [of a x] far [of c x] x by auto
    ultimately show "used r' x = used r x" "nxt r' x = (if x = a then c else nxt r x)" "prv r' x = (if x = c then a else prv r x)"
      unfolding r'_def using e d(1) by (cases "x = a"; cases "x = c"; simp)+
  qed
  then show "\<forall>x \<in> set (xs @ a # c # ys). used r' x = used r x"
    "\<forall>x \<in> set (xs @ a # c # ys). x \<noteq> a \<longrightarrow> nxt r' x = nxt r x" by simp_all
  show "\<forall>x \<in> set (xs @ [a]). prv r' x = prv r x" using get(3) d by auto
  have parts: "successively (link r) (xs @ [a])" "link r a b" "link r b c" "linked r (c # ys)"
    using l by (simp_all add: linked_append)
  have "successively (link r') (xs @ [a]) = successively (link r) (xs @ [a])"
    using get d by (intro links_cong) auto
  moreover have "link r' a c" using parts(2,3) get(2) [of a] get(3) [of c] by (simp add: link_def)
  moreover have "linked r' (c # ys)"
  proof (cases ys)
    case Nil
    then show ?thesis using parts(4) get [of c] d(1) by simp
  next
    case (Cons y zs)
    have "linked r' ys = linked r ys" using get d by (intro linked_cong) auto
    moreover have "link r' c y" using parts(4) get [of c] get [of y] d Cons by (simp add: link_def)
    ultimately show ?thesis using parts(4) Cons by simp
  qed
  ultimately show "linked r' (xs @ a # c # ys)" using parts(1) by (simp add: linked_append)
  have "writes {a, c} r r'" unfolding r'_def by (intro writes_set) simp_all
  then show "same_bytes (taken r (xs @ a # b # c # ys)) r r'" by (rule writes_taken [OF l]) simp
qed

lemma join_taken:
  assumes "linked r (xs @ a # b # c # ys)" "\<not> used r a" "\<not> used r b"
  shows "taken (set_prev c a (set_next a c r)) (xs @ a # c # ys) = taken r (xs @ a # b # c # ys)"
proof -
  let ?r = "set_prev c a (set_next a c r)"
  note j = join_linked [OF assms(1)]
  have "{x \<in> set (xs @ a # c # ys). used ?r x \<and> x \<noteq> heap_end} = {x \<in> set (xs @ a # b # c # ys). used r x \<and> x \<noteq> heap_end}"
    using j(2) assms(2,3) by auto
  moreover have "extent ?r x = extent r x" if "x \<in> {x \<in> set (xs @ a # c # ys). used ?r x \<and> x \<noteq> heap_end}" for x
    using that j(2,3) assms(2) by (auto simp: extent_def)
  ultimately show ?thesis unfolding taken_def by (metis (no_types, lifting) image_cong)
qed

lemma lowest_free_at: "\<not> used r p \<Longrightarrow> lowest_free r (xs @ p # ys) = lowest_free r (xs @ [p])"
  by (simp add: lowest_free_append) (simp add: lowest_free_def)


section \<open>Freeing\<close>

lemma plug_forward_ok:
  fixes p h defines "h' \<equiv> plug_forward p h"
  assumes l: "linked (ram h) (xs @ p # q # ys)" and f: "\<not> used (ram h) p" and t: "tight (ram h) (q # ys)"
    and lf: "lfree h = lowest_free (ram h) (xs @ [p])"
  shows "\<exists>q' ys'. linked (ram h') (xs @ p # q' # ys') \<and> used (ram h') q' \<and> tight (ram h') (q' # ys') \<and>
    (\<forall>x \<in> set (xs @ [p]). used (ram h') x = used (ram h) x \<and> prv (ram h') x = prv (ram h) x) \<and> lfree h' = lfree h \<and>
    taken (ram h') (xs @ p # q' # ys') = taken (ram h) (xs @ p # q # ys) \<and>
    same_bytes (taken (ram h) (xs @ p # q # ys)) (ram h) (ram h')"
proof -
  have pq: "nxt (ram h) p = q" "p + 20 \<le> q" using l by (simp_all add: linked_append link_def)
  show ?thesis
  proof (cases "used (ram h) q")
    case True
    then have "h' = h" using pq by (simp add: h'_def plug_forward_def Let_def)
    then show ?thesis using True l t by (intro exI [of _ q] exI [of _ ys]) simp
  next
    case False
    then have "q \<noteq> heap_end" using l by (auto simp: linked_def)
    then obtain c zs where ys: "ys = c # zs" "nxt (ram h) q = c" using l by (cases ys) (simp_all add: linked_append link_def)
    have far: "apart p q" using pq(2) by (simp add: apart_def)
    have "\<forall>x \<in> set (xs @ [p]). x < q" using linked_before [of "ram h" "xs @ [p]" q ys] l by fastforce
    then have "lfree h \<noteq> q" using lf lowest_free_in [of "xs @ [p]" "ram h"] f by fastforce
    then have h': "h' = h\<lparr>ram := set_prev c p (set_next p c (ram h))\<rparr>"
      using False pq ys far \<open>q \<noteq> heap_end\<close> by (simp add: h'_def plug_forward_def Let_def)
    note j = join_linked [OF l [unfolded ys]] and jt = join_taken [OF l [unfolded ys] f False]
    have u: "used (ram h') x = used (ram h) x" if "x \<in> set (c # zs)" for x using j(2) that by (auto simp: h')
    have c: "used (ram h) c" "tight (ram h) (c # zs)" using t False by (simp_all add: ys)
    have "tight (ram h') (c # zs)" by (rule tight_mono [OF c(2)]) (simp add: u)
    moreover have "used (ram h') c" using u c(1) by simp
    ultimately show ?thesis using j jt unfolding h' ys(1) by (intro exI [of _ c] exI [of _ zs]) auto
  qed
qed

lemma plug_backward_ok:
  fixes p h defines "h' \<equiv> plug_backward p h"
  assumes l: "linked (ram h) (xs @ p # q # ys)" and f: "\<not> used (ram h) p" and q: "used (ram h) q"
    and t: "tight (ram h) (q # ys)" "tight (ram h) xs"
    and lf: "lfree h = lowest_free (ram h) (xs @ [p])" and hd: "hd (xs @ [p]) = 0" "prv (ram h) 0 = 0"
  shows "mem_ok h' \<and> allocated h' = taken (ram h) (xs @ p # q # ys) \<and>
    same_bytes (taken (ram h) (xs @ p # q # ys)) (ram h) (ram h')"
proof -
  have result: "mem_ok k \<and> allocated k = taken (ram k) bs"
    if "linked (ram k) bs" "tight (ram k) bs" "hd bs = 0" "prv (ram k) 0 = 0" "lfree k = lowest_free (ram k) bs" for k bs
    using mem_okI [of k "tl bs"] that by (cases bs) (auto simp: allocated_taken linked_def)
  have end_p: "p \<noteq> heap_end" using l linked_le_end [OF l, of q] by (auto simp: linked_append link_def)
  have pq: "nxt (ram h) p = q" using l by (simp add: linked_append link_def)
  show ?thesis
  proof (cases xs rule: rev_cases)
    case Nil
    then have "h' = h" using hd by (simp add: h'_def plug_backward_def Let_def)
    then show ?thesis using result [of h "p # q # ys"] l t q lf hd f Nil lowest_free_at [of "ram h" p "[]" "q # ys"] by simp
  next
    case (snoc ws b)
    then have b: "link (ram h) b p" using l by (auto simp: linked_append successively_append_iff)
    then have prv: "prv (ram h) p = b" "b + 20 \<le> p" using end_p by (simp_all add: link_def)
    show ?thesis
    proof (cases "used (ram h) b")
      case True
      then have "h' = h" using prv by (simp add: h'_def plug_backward_def Let_def)
      moreover have "tight (ram h) (xs @ p # q # ys)" using t q True unfolding snoc tight_def
        by (auto simp: successively_append_iff successively_Cons)
      moreover have "hd (xs @ p # q # ys) = 0" using hd snoc by (cases ws) auto
      ultimately show ?thesis using result [of h "xs @ p # q # ys"] l lf hd(2) lowest_free_at [OF f, of xs "q # ys"] by simp
    next
      case False
      have l': "linked (ram h) (ws @ b # p # q # ys)" using l by (simp add: snoc)
      note j = join_linked [OF l'] and jt = join_taken [OF l' False f]
      have "p \<notin> set xs" using linked_distinct [OF l] by auto
      moreover have lfx: "lfree h = lowest_free (ram h) xs" using lf lowest_free_at [OF False, of ws "[p]"] by (simp add: snoc)
      ultimately have "lfree h \<noteq> p" using lowest_free_in [of xs "ram h"] False by (auto simp: snoc)
      moreover have "apart b p" using prv(2) by (simp add: apart_def)
      ultimately have h': "h' = h\<lparr>ram := set_prev q b (set_next b q (ram h))\<rparr>"
        using False prv pq by (simp add: h'_def plug_backward_def Let_def)
      have u: "used (ram h') x = used (ram h) x" if "x \<in> set (ws @ b # q # ys)" for x using bspec [OF j(2) that] by (simp add: h')
      have "tight (ram h) (ws @ b # q # ys)" using t q unfolding snoc tight_def
        by (auto simp: successively_append_iff successively_Cons)
      then have "tight (ram h') (ws @ b # q # ys)" by (rule tight_mono) (simp only: u)
      moreover have "lowest_free (ram h') (ws @ b # q # ys) = lfree h'"
      proof -
        have "\<not> used (ram h') b" using u False by simp
        then have "lowest_free (ram h') (ws @ b # q # ys) = lowest_free (ram h') xs"
          using lowest_free_at [of "ram h'" b ws "q # ys"] by (simp add: snoc)
        also have "\<dots> = lowest_free (ram h) xs" by (rule lowest_free_cong) (use u snoc in auto)
        finally show ?thesis using lfx h' by simp
      qed
      moreover have "hd (ws @ b # q # ys) = 0" "0 \<in> set (ws @ [b])" using hd(1) snoc by (cases ws; simp)+
      moreover from this(2) have "prv (ram h') 0 = 0" using hd(2) bspec [OF j(4)] by (simp add: h')
      ultimately show ?thesis using result [of h' "ws @ b # q # ys"] j(1,5) jt h' snoc by simp
    qed
  qed
qed


lemma lfree_after_free:
  assumes l: "linked r (xs @ p # ys)" and "used r p" "p \<noteq> heap_end"
  shows "(if p < lowest_free r (xs @ p # ys) then p else lowest_free r (xs @ p # ys)) =
    lowest_free (set_used p False r) (xs @ [p])"
proof -
  have get: "used (set_used p False r) x = (if x = p then False else used r x)" if "x \<in> set (xs @ p # ys)" for x
    using linked_set_used(2) [OF l _ assms(3) that] by simp
  have d: "p \<notin> set xs" using linked_distinct [OF l] by auto
  show ?thesis
  proof (cases "\<forall>x \<in> set xs. used r x")
    case True
    have "lowest_free r (p # ys) = lowest_free r ys" using assms(2) by (simp add: lowest_free_def)
    moreover have "p < heap_end" using assms(3) linked_le_end [OF l, of p] by simp
    moreover have "linked r (p # ys)" using l by (simp add: linked_append)
    ultimately have "p < lowest_free r (p # ys)" using lowest_free_cases [of r ys] linked_bounds [of r p ys] by fastforce
    then show ?thesis using True get d by (auto simp: lowest_free_append) (auto simp: lowest_free_def)
  next
    case False
    then have "lowest_free r xs + 20 \<le> p" using lowest_free_in [OF False] linked_before [OF l] by blast
    moreover have "lowest_free (set_used p False r) xs = lowest_free r xs" by (rule lowest_free_cong) (use get d in auto)
    moreover have "\<not> (\<forall>x \<in> set xs. used (set_used p False r) x)" using False get d by auto
    ultimately show ?thesis using False by (auto simp: lowest_free_append)
  qed
qed

lemma allocated_block:
  assumes "mem_ok h" "(a, n) \<in> allocated h"
  obtains p xs ys where "a = p + 8" "p + 8 + n = nxt (ram h) p" "blocks (ram h) 0 = xs @ p # nxt (ram h) p # ys"
    "used (ram h) p" "p + 20 \<le> nxt (ram h) p" "nxt (ram h) p \<le> heap_end" "4 dvd p"
proof -
  obtain bs where l: "blocks (ram h) 0 = 0 # bs" "linked (ram h) (0 # bs)" using mem_okE [OF assms(1)] by metis
  obtain p where p: "p \<in> set (0 # bs)" "used (ram h) p" "p \<noteq> heap_end" "(a, n) = extent (ram h) p"
    using assms(2) l by (auto simp: allocated_def)
  obtain xs ys where bs: "0 # bs = xs @ p # nxt (ram h) p # ys" "link (ram h) p (nxt (ram h) p)" using linked_next [OF l(2) p(1,3)] .
  have "nxt (ram h) p \<le> heap_end" using linked_le_end [OF l(2), of "nxt (ram h) p"] bs(1) by simp
  moreover have "p + 20 \<le> nxt (ram h) p" "4 dvd p" using bs(2) by (simp_all add: link_def)
  ultimately show thesis using that [of p xs ys] p bs l by (auto simp: extent_def)
qed

lemma mem_free_ok:
  assumes ok: "mem_ok h" and "(a, n) \<in> allocated h"
  shows "\<exists>h'. mem_free (Some (int a)) h = Some h' \<and> mem_ok h' \<and> allocated h' = allocated h - {(a, n)} \<and>
    same_bytes (allocated h - {(a, n)}) (ram h) (ram h')"
proof -
  obtain p xs ys where p: "a = p + 8" "p + 8 + n = nxt (ram h) p" "blocks (ram h) 0 = xs @ p # nxt (ram h) p # ys"
    "used (ram h) p" "p + 20 \<le> nxt (ram h) p" "nxt (ram h) p \<le> heap_end" "4 dvd p" using allocated_block [OF assms] .
  define q where "q = nxt (ram h) p"
  have l: "linked (ram h) (xs @ p # q # ys)" and t: "tight (ram h) (xs @ p # q # ys)" and z: "prv (ram h) 0 = 0" "hd (xs @ [p]) = 0"
    and lf: "lfree h = lowest_free (ram h) (xs @ p # q # ys)"
    using mem_okE [OF ok] p(3) unfolding q_def by (metis hd_append list.sel(1))+
  define r where "r = set_used p False (ram h)"
  define h0 where "h0 = \<lparr>ram = r, lfree = lowest_free r (xs @ [p])\<rparr>"
  have pe: "p \<noteq> heap_end" using p(5,6) by simp
  note get = linked_set_used [OF l _ pe, where u = False, folded r_def]
  have "mem_free (Some (int a)) h = plug_holes p h0"
    using p lfree_after_free [OF l p(4) pe] lf unfolding mem_free_def h0_def r_def q_def by (cases h) (auto simp: Let_def)
  also have "\<dots> = Some (plug_backward p (plug_forward p h0))"
    using get(2) [of p] p(5,6) by (simp add: plug_holes_def h0_def)
  finally have run: "mem_free (Some (int a)) h = Some (plug_backward p (plug_forward p h0))" .
  have u: "used r x = used (ram h) x" if "x \<in> set xs \<union> set (q # ys)" for x
    using get(2) [of x] that linked_distinct [OF l] by auto
  have tqy: "tight (ram h) (q # ys)" and txs: "tight (ram h) xs"
    using t by (auto simp: tight_def successively_append_iff successively_Cons)
  have "tight r (q # ys)" by (rule tight_mono [OF tqy]) (use u in auto)
  then obtain q' ys' where f: "linked (ram (plug_forward p h0)) (xs @ p # q' # ys')" "used (ram (plug_forward p h0)) q'"
    "tight (ram (plug_forward p h0)) (q' # ys')"
    "\<forall>x \<in> set (xs @ [p]). used (ram (plug_forward p h0)) x = used r x \<and> prv (ram (plug_forward p h0)) x = prv r x"
    "lfree (plug_forward p h0) = lfree h0" "taken (ram (plug_forward p h0)) (xs @ p # q' # ys') = taken r (xs @ p # q # ys)"
    "same_bytes (taken r (xs @ p # q # ys)) r (ram (plug_forward p h0))"
    using plug_forward_ok [of h0 xs p q ys] get by (auto simp: h0_def)
  have "tight (ram (plug_forward p h0)) xs" by (rule tight_mono [OF txs]) (use u f(4) in auto)
  moreover have "\<not> used (ram (plug_forward p h0)) p" using f(4) get(2) [of p] by simp
  moreover have "lowest_free (ram (plug_forward p h0)) (xs @ [p]) = lowest_free r (xs @ [p])"
    by (rule lowest_free_cong) (use f(4) in blast)
  then have "lfree (plug_forward p h0) = lowest_free (ram (plug_forward p h0)) (xs @ [p])" using f(5) by (simp add: h0_def)
  moreover have "0 \<in> set (xs @ [p])" using z(2) by (cases xs) auto
  then have "prv (ram (plug_forward p h0)) 0 = 0" using f(4) get(2) [of 0] z(1) by auto
  ultimately have b: "mem_ok (plug_backward p (plug_forward p h0))"
    "allocated (plug_backward p (plug_forward p h0)) = taken r (xs @ p # q # ys)"
    "same_bytes (taken r (xs @ p # q # ys)) (ram (plug_forward p h0)) (ram (plug_backward p (plug_forward p h0)))"
    using plug_backward_ok [OF f(1) _ f(2,3)] z(2) f(6) by auto
  have "extent (ram h) p = (a, n)" using p(1,2) by (auto simp: extent_def)
  then have rest: "taken r (xs @ p # q # ys) = allocated h - {(a, n)}"
    using get(2) pe unfolding allocated_taken p(3) q_def [symmetric] by (auto simp: taken_def extent_def image_iff split: if_splits)
  have "writes {p} (ram h) r" unfolding r_def by (intro writes_set) simp_all
  then have "same_bytes (allocated h) (ram h) r" unfolding allocated_taken p(3) q_def [symmetric] by (rule writes_taken [OF l]) simp
  then have "same_bytes (allocated h - {(a, n)}) (ram h) r" by (rule kept_mono) blast
  then show ?thesis using run b f(7) rest kept_trans by metis
qed

section \<open>Shrinking\<close>

lemma writes_sym: "writes P r r' \<Longrightarrow> writes P r' r"
  by (simp add: writes_def)

lemma kept_sym: "same_bytes A r r' \<Longrightarrow> same_bytes A r' r"
  by (simp add: same_bytes_def)

lemma inserted_ok:
  assumes l: "linked r (xs @ p # c # ys)" and i: "inserted r p m c True r'" and m: "p + 20 \<le> m" "m + 20 \<le> c" "4 dvd m"
    and t: "tight r (xs @ [p])" "tight r (c # ys)" and u: "used r p" "used r c" and hd: "hd (xs @ [p]) = 0" "prv r 0 = 0"
  shows "mem_ok \<lparr>ram = r', lfree = lowest_free r' (xs @ [p, m])\<rparr>" "linked r' (xs @ p # m # c # ys)"
    "taken r' (xs @ p # m # c # ys) = insert (p + 8, m - (p + 8)) (taken r (xs @ p # c # ys) - {extent r p})"
    "allocated \<lparr>ram = r', lfree = lf\<rparr> = taken r' (xs @ p # m # c # ys)"
proof -
  note same = inserted_same [OF l i m(1,2)]
  have i': "nxt r' p = m" "prv r' p = prv r p" "used r' p" "\<not> used r' m" "nxt r' c = nxt r c" "used r' c = used r c"
    using i by (simp_all add: inserted_def)
  show l': "linked r' (xs @ p # m # c # ys)" by (rule inserted_linked [OF l i m])
  obtain zs where zs: "xs @ p # m # c # ys = 0 # zs" using hd(1) by (cases xs) auto
  have "tight r' (xs @ [p])" by (rule tight_mono [OF t(1)]) (use same i' in auto)
  moreover have "tight r' (c # ys)" by (rule tight_mono [OF t(2)]) (use same i' in auto)
  ultimately have "tight r' (0 # zs)" unfolding zs [symmetric] using i' u by (simp add: tight_append)
  moreover have "0 \<in> set (xs @ [p])" using hd(1) by (cases xs) auto
  then have "prv r' 0 = 0" using same(2) [of 0] i'(2) hd(2) by auto
  moreover have "lowest_free r' (0 # zs) = lowest_free r' (xs @ [p, m])"
    using lowest_free_at [OF i'(4), of "xs @ [p]" "c # ys"] zs by simp
  ultimately show "mem_ok \<lparr>ram = r', lfree = lowest_free r' (xs @ [p, m])\<rparr>"
    using mem_okI(1) [of "\<lparr>ram = r', lfree = lowest_free r' (xs @ [p, m])\<rparr>" zs] l' zs by simp
  show "allocated \<lparr>ram = r', lfree = lf\<rparr> = taken r' (xs @ p # m # c # ys)"
    using linked_blocks [of r' 0 zs] l' zs by (simp add: allocated_taken)
  have d: "p \<notin> set xs \<union> set (c # ys)" "p \<noteq> heap_end"
    using linked_distinct [OF l] m linked_le_end [OF l, of c] by auto
  define B where "B = {x \<in> set xs \<union> set (c # ys). used r x \<and> x \<noteq> heap_end}"
  have "taken r' (xs @ p # m # c # ys) = extent r' ` insert p B"
    unfolding taken_def B_def using same(3) i' d(2) by (intro arg_cong [where f = "image _"]) auto
  moreover have "extent r' ` B = extent r ` B" using same(1) i'(5) by (intro image_cong) (auto simp: B_def extent_def)
  moreover have "taken r (xs @ p # c # ys) = extent r ` insert p B"
    unfolding taken_def B_def using u(1) d by (intro arg_cong [where f = "image _"]) auto
  moreover have "extent r p \<notin> extent r ` B" using d(1) by (auto simp: extent_def B_def)
  ultimately show "taken r' (xs @ p # m # c # ys) = insert (p + 8, m - (p + 8)) (taken r (xs @ p # c # ys) - {extent r p})"
    using i'(1) by (simp add: extent_def)
qed

text \<open>The stores of \<^verbatim>\<open>mem_trim\<close>, the same in both of its branches.\<close>

definition trim_stores :: "nat \<Rightarrow> nat \<Rightarrow> nat \<Rightarrow> ram \<Rightarrow> ram" where
  "trim_stores p m c r =
    (let r = set_next p m (set_prev m p (set_next m c (set_used m False r)))
     in if c \<noteq> heap_end then set_prev c m r else r)"

lemma trim_inserted:
  assumes "p + 20 \<le> m" "m + 20 \<le> c" "c \<le> heap_end" "used r p"
  shows "inserted r p m c True (trim_stores p m c r)"
proof -
  have a: "apart p m" "apart m p" "apart p c" "apart c p" "apart m c" "apart c m" using assms(1,2) by (simp_all add: apart_def)
  have e: "p mod 65536 = p" "m mod 65536 = m" "c mod 65536 = c" using assms(1-3) by simp_all
  have "writes {p, m, c} r (trim_stores p m c r)" unfolding trim_stores_def Let_def by (auto intro!: writes_set)
  then show ?thesis unfolding inserted_def using a e assms(4) by (auto simp: trim_stores_def Let_def)
qed

text \<open>\<^verbatim>\<open>mem_trim\<close> on a block of the list.\<close>

lemma mem_trim_run:
  assumes "nxt (ram h) p = q" "p + 8 + n = q" "q \<le> heap_end" "rounded_size sz \<le> n" "12 \<le> n"
    and "\<not> used (ram h) q \<Longrightarrow> q + 20 \<le> nxt (ram h) q \<and> nxt (ram h) q \<le> heap_end"
  shows "mem_trim (int (p + 8)) sz h = Some (Some (int (p + 8)),
    (let m = p + 8 + rounded_size sz in
     if m = q then h
     else if \<not> used (ram h) q then \<lparr>ram = trim_stores p m (nxt (ram h) q) (ram h), lfree = (if lfree h = q then m else lfree h)\<rparr>
     else if m + 20 \<le> q then \<lparr>ram = trim_stores p m q (ram h), lfree = (if m < lfree h then m else lfree h)\<rparr>
     else h))"
proof -
  define k where "k = rounded_size sz"
  define m where "m = p + 8 + k"
  have k: "12 \<le> k" "k \<le> n" using rounded_size_props(1) [of sz] assms(4) by (simp_all add: k_def)
  have a: "apart p m" "apart m p" using k(1) by (simp_all add: apart_def m_def)
  have e: "(p + 8 + k) mod 65536 = m" using assms(2,3) k(2) by (simp add: m_def)
  have stores: "(let r = set_next p m (set_prev m p (set_next m c (set_used m False (ram h))))
      in if nxt r m \<noteq> heap_end then set_prev (nxt r m) m r else r) = trim_stores p m c (ram h)" if "c \<le> heap_end" for c
    using that a by (simp add: trim_stores_def Let_def)
  have sz: "sub32 (sub32 q p) 8 mod 65536 = n" using assms(2,3) by auto
  have "(k = n) = (m = q)" "(k + 8 + 12 \<le> n) = (m + 20 \<le> q)" using assms(2) by (auto simp: m_def)
  moreover have "\<not> heap_end < k" "\<not> n < k" using assms(2,3) k(2) by simp_all
  moreover have "nat (int (p + 8) - int 8) = p" "\<not> int (p + 8) < 0" "\<not> int heap_end \<le> int (p + 8)" "\<not> int (p + 8) < int 8"
    using assms(2,3,5) by simp_all
  moreover have "nxt (set_used m False (ram h)) p = q" using a assms(1) by simp
  ultimately show ?thesis
    unfolding mem_trim_def k_def [symmetric] m_def [symmetric] mem_consts
    using assms(1,3,6) stores e sz
    by (cases "used (ram h) q"; cases "m = q"; cases "m + 20 \<le> q") (simp_all only: Let_def simp_thms if_True if_False)
qed

lemma mem_okD:
  assumes "mem_ok h" "blocks (ram h) 0 = bs"
  shows "linked (ram h) bs" "tight (ram h) bs" "prv (ram h) 0 = 0" "lfree h = lowest_free (ram h) bs" "hd bs = 0"
  using assms mem_okE [OF assms(1)] by (metis list.sel(1))+

text \<open>Both branches end with the free block \<open>m\<close> between \<open>p\<close> and \<open>c\<close>.\<close>

lemma trimmed_ok:
  assumes ok: "mem_ok h" and bs: "blocks (ram h) 0 = xs @ p # q # ys"
    and l: "linked rj (xs @ p # c # zs)" and i: "inserted rj p m c True (trim_stores p m c (ram h))"
    and m: "p + 20 \<le> m" "m + 20 \<le> c" "4 dvd m"
    and t: "tight rj (xs @ [p])" "tight rj (c # zs)" "used rj c" "used rj p" "prv rj 0 = 0"
    and tk: "taken rj (xs @ p # c # zs) - {extent rj p} = taken (ram h) (xs @ p # q # ys) - {extent (ram h) p}"
    and lf: "lf = lowest_free (trim_stores p m c (ram h)) (xs @ [p, m])"
  shows "mem_ok \<lparr>ram = trim_stores p m c (ram h), lfree = lf\<rparr>"
    "allocated \<lparr>ram = trim_stores p m c (ram h), lfree = lf\<rparr> = insert (p + 8, m - (p + 8)) (allocated h - {extent (ram h) p})"
    "same_bytes (allocated \<lparr>ram = trim_stores p m c (ram h), lfree = lf\<rparr>) (ram h) (trim_stores p m c (ram h))"
proof -
  let ?r = "trim_stores p m c (ram h)"
  have "hd (xs @ [p]) = 0" using mem_okD(5) [OF ok bs] by (cases xs) simp_all
  note r = inserted_ok [OF l i m t(1,2,4,3) this t(5)]
  have "writes {p, m, c} ?r (ram h)" unfolding trim_stores_def Let_def by (rule writes_sym) (auto intro!: writes_set)
  then have "same_bytes (taken ?r (xs @ p # m # c # zs)) ?r (ram h)" by (rule writes_taken [OF r(2)]) simp
  then show "same_bytes (allocated \<lparr>ram = ?r, lfree = lf\<rparr>) (ram h) ?r" using r(4) kept_sym by simp
  have "allocated h = taken (ram h) (xs @ p # q # ys)" by (simp add: allocated_taken bs)
  then show "allocated \<lparr>ram = ?r, lfree = lf\<rparr> = insert (p + 8, m - (p + 8)) (allocated h - {extent (ram h) p})"
    using r(3,4) tk by simp
  show "mem_ok \<lparr>ram = ?r, lfree = lf\<rparr>" using r(1) lf by simp
qed

lemma inserted_over_join:
  assumes "p + 20 \<le> m" "m + 20 \<le> c" "c \<le> heap_end" "used r p"
  shows "inserted (set_prev c p (set_next p c r)) p m c True (trim_stores p m c r)"
proof -
  have a: "apart p m" "apart m p" "apart p c" "apart c p" "apart m c" "apart c m" using assms(1,2) by (simp_all add: apart_def)
  have i: "inserted r p m c True (trim_stores p m c r)" by (rule trim_inserted [OF assms])
  have "writes {p, m, c} (set_prev c p (set_next p c r)) r" by (rule writes_sym) (auto intro!: writes_set)
  moreover have "writes {p, m, c} r (trim_stores p m c r)" using i by (simp add: inserted_def)
  ultimately have "writes {p, m, c} (set_prev c p (set_next p c r)) (trim_stores p m c r)" by (simp add: writes_def)
  then show ?thesis using i a by (simp add: inserted_def)
qed

lemma lfree_trim:
  assumes l: "linked r (xs @ p # q # ys)" and "used r p" "p + 20 \<le> m" "m < q"
    and r': "\<forall>x \<in> set xs. used r' x = used r x" "used r' p" "\<not> used r' m"
  shows "lowest_free r' (xs @ [p, m]) = (let lf = lowest_free r (xs @ p # q # ys) in
      if \<forall>x \<in> set xs. used r x then m else lf)"
    "(\<forall>x \<in> set xs. used r x) \<longleftrightarrow> m < lowest_free r (xs @ p # q # ys)"
    "\<not> used r q \<Longrightarrow> (\<forall>x \<in> set xs. used r x) \<longleftrightarrow> lowest_free r (xs @ p # q # ys) = q"
proof -
  have cong: "lowest_free r' xs = lowest_free r xs" by (rule lowest_free_cong) (use r'(1) in blast)
  have all: "(\<forall>x \<in> set xs. used r' x) = (\<forall>x \<in> set xs. used r x)" using r'(1) by blast
  have "lowest_free r' [p, m] = m" using r'(2,3) by (simp add: lowest_free_def)
  then show "lowest_free r' (xs @ [p, m]) = (let lf = lowest_free r (xs @ p # q # ys) in if \<forall>x \<in> set xs. used r x then m else lf)"
    using cong all by (simp add: lowest_free_append)
  have lq: "linked r (q # ys)" "q \<le> heap_end" using l linked_le_end [OF l, of q] by (simp_all add: linked_append)
  have "q \<le> lowest_free r (q # ys)" using lowest_free_cases [of r "q # ys"] linked_bounds [OF lq(1)] lq(2) by fastforce
  moreover have pq: "lowest_free r (p # q # ys) = lowest_free r (q # ys)" using assms(2) by (simp add: lowest_free_def)
  moreover have low: "lowest_free r xs < p" if "\<not> (\<forall>x \<in> set xs. used r x)"
    using lowest_free_in [OF that] linked_before [OF l] by fastforce
  ultimately show "(\<forall>x \<in> set xs. used r x) \<longleftrightarrow> m < lowest_free r (xs @ p # q # ys)"
    using assms(3,4) by (cases "\<forall>x \<in> set xs. used r x") (simp_all add: lowest_free_append)
  assume "\<not> used r q"
  then have "lowest_free r (q # ys) = q" by (simp add: lowest_free_def)
  then show "(\<forall>x \<in> set xs. used r x) \<longleftrightarrow> lowest_free r (xs @ p # q # ys) = q"
    using pq low assms(3,4) by (cases "\<forall>x \<in> set xs. used r x") (simp_all add: lowest_free_append)
qed

lemma trim_gets:
  assumes "p + 20 \<le> m" "m + 20 \<le> c" "c \<le> heap_end"
  shows "used (trim_stores p m c r) p = used r p" "\<not> used (trim_stores p m c r) m"
    "apart p x \<Longrightarrow> apart m x \<Longrightarrow> apart c x \<Longrightarrow> used (trim_stores p m c r) x = used r x"
proof -
  have "apart p m" "apart m p" "apart c p" "apart c m" using assms by (simp_all add: apart_def)
  then show "used (trim_stores p m c r) p = used r p" "\<not> used (trim_stores p m c r) m"
    by (simp_all add: trim_stores_def Let_def)
qed (simp add: trim_stores_def Let_def)

lemma taken_join_minus:
  assumes "linked r (xs @ p # q # c # zs)" "\<not> used r q"
  shows "taken (set_prev c p (set_next p c r)) (xs @ p # c # zs) - {extent (set_prev c p (set_next p c r)) p} =
    taken r (xs @ p # q # c # zs) - {extent r p}"
proof -
  let ?j = "set_prev c p (set_next p c r)"
  have drop: "taken s bs - {extent s p} = extent s ` {x \<in> set bs. used s x \<and> x \<noteq> heap_end \<and> x \<noteq> p}" for s bs
    by (auto simp: taken_def extent_def)
  note j = join_linked [OF assms(1)]
  have "{x \<in> set (xs @ p # c # zs). used ?j x \<and> x \<noteq> heap_end \<and> x \<noteq> p} =
      {x \<in> set (xs @ p # q # c # zs). used r x \<and> x \<noteq> heap_end \<and> x \<noteq> p}" using j(2) assms(2) by auto
  moreover have "extent ?j x = extent r x" if "x \<in> {x \<in> set (xs @ p # c # zs). used ?j x \<and> x \<noteq> heap_end \<and> x \<noteq> p}" for x
    using that j(3) by (auto simp: extent_def)
  ultimately show ?thesis unfolding drop by (metis (no_types, lifting) image_cong)
qed

lemma mem_trim_ok:
  assumes ok: "mem_ok h" and "(a, n) \<in> allocated h" and sz: "rounded_size sz \<le> n"
  shows "\<exists>h' k. mem_trim (int a) sz h = Some (Some (int a), h') \<and> mem_ok h' \<and> rounded_size sz \<le> k \<and> k \<le> n \<and>
    allocated h' = insert (a, k) (allocated h - {(a, n)}) \<and> same_bytes (allocated h') (ram h) (ram h')"
proof -
  let ?r = "ram h"
  obtain p xs ys where p: "a = p + 8" "p + 8 + n = nxt ?r p" "blocks ?r 0 = xs @ p # nxt ?r p # ys"
    "used ?r p" "p + 20 \<le> nxt ?r p" "nxt ?r p \<le> heap_end" "4 dvd p" using allocated_block [OF assms(1,2)] .
  define q where "q = nxt ?r p"
  define m where "m = p + 8 + rounded_size sz"
  have bs: "blocks ?r 0 = xs @ p # q # ys" using p(3) by (simp add: q_def)
  note D = mem_okD [OF ok bs]
  have m: "p + 20 \<le> m" "4 dvd m" "m \<le> q" using rounded_size_props [of sz] p(2,7) sz by (simp_all add: m_def q_def)
  have x: "extent ?r p = (a, n)" "m - (p + 8) = rounded_size sz" using p(1,2) by (auto simp: extent_def m_def)
  have qs: "\<exists>c zs. ys = c # zs \<and> nxt ?r q = c \<and> q + 20 \<le> c \<and> c \<le> heap_end" if "\<not> used ?r q"
  proof -
    have "linked ?r (q # ys)" using D(1) by (simp add: linked_append)
    moreover have "q \<noteq> heap_end" using D(1) that by (auto simp: linked_def)
    ultimately show ?thesis using linked_le_end [of ?r "q # ys"] by (cases ys) (auto simp: link_def)
  qed
  have run: "mem_trim (int a) sz h = Some (Some (int a),
     (if m = q then h
     else if \<not> used ?r q then \<lparr>ram = trim_stores p m (nxt ?r q) ?r, lfree = (if lfree h = q then m else lfree h)\<rparr>
     else if m + 20 \<le> q then \<lparr>ram = trim_stores p m q ?r, lfree = (if m < lfree h then m else lfree h)\<rparr>
     else h))"
    using mem_trim_run [of h p q n sz] p(1,2,5,6) sz qs unfolding m_def [symmetric] q_def [symmetric] Let_def by fastforce
  have before: "apart p y" "apart m y" "\<And>c. q \<le> c \<Longrightarrow> apart c y" if "y \<in> set xs" for y
    using linked_before [OF D(1) that] m(1,3) by (auto simp: apart_def)
  have txp: "tight ?r (xs @ [p])" "tight ?r (q # ys)" using D(2) by (simp_all add: tight_append)
  consider "m = q \<or> used ?r q \<and> \<not> m + 20 \<le> q" | "used ?r q" "m + 20 \<le> q" | "m < q" "\<not> used ?r q" using m(3) by linarith
  then show ?thesis
  proof cases
    case 1
    then have "mem_trim (int a) sz h = Some (Some (int a), h)" using run qs m(3) by auto
    then show ?thesis using ok sz assms(2) by (intro exI [of _ h] exI [of _ n]) (simp add: insert_absorb)
  next
    case 2
    have q: "q \<le> heap_end" using p(6) by (simp add: q_def)
    define lf where "lf = (if m < lfree h then m else lfree h)"
    note g = trim_gets [OF m(1) 2(2) q, where r = ?r]
    have lf: "lf = lowest_free (trim_stores p m q ?r) (xs @ [p, m])"
      using lfree_trim [OF D(1) p(4) m(1), of "trim_stores p m q ?r"] g before 2(2) p(4) D(4) by (simp add: lf_def Let_def)
    note r = trimmed_ok [OF ok bs D(1) trim_inserted [OF m(1) 2(2) q p(4)] m(1) 2(2) m(2) txp 2(1) p(4) D(3) refl lf]
    have "mem_trim (int a) sz h = Some (Some (int a), \<lparr>ram = trim_stores p m q ?r, lfree = lf\<rparr>)"
      using run 2 by (auto simp: lf_def)
    then show ?thesis using r x p(1) sz
      by (intro exI [of _ "\<lparr>ram = trim_stores p m q ?r, lfree = lf\<rparr>"] exI [of _ "rounded_size sz"]) simp
  next
    case 3
    then obtain c zs where c: "ys = c # zs" "nxt ?r q = c" "q + 20 \<le> c" "c \<le> heap_end" using qs by blast
    have mc: "m + 20 \<le> c" using 3(1) c(3) by simp
    define lf where "lf = (if lfree h = q then m else lfree h)"
    note g = trim_gets [OF m(1) mc c(4), where r = ?r]
    have "lf = lowest_free (trim_stores p m c ?r) (xs @ [p, m])"
      using lfree_trim [OF D(1) p(4) m(1) 3(1), of "trim_stores p m c ?r"] 3(2) g before c(3) p(4) D(4) by (simp add: lf_def Let_def)
    note l = D(1) [unfolded c(1)] and tr = trimmed_ok [OF ok bs [unfolded c(1)] _ inserted_over_join [OF m(1) mc c(4) p(4)] m(1) mc m(2)
        _ _ _ _ _ taken_join_minus this]
    note j = join_linked [OF l]
    have u: "used (set_prev c p (set_next p c ?r)) y = used ?r y" if "y \<in> set (xs @ p # c # zs)" for y using bspec [OF j(2) that] .
    have "0 \<in> set (xs @ [p])" using D(5) by (cases xs) auto
    then have "prv (set_prev c p (set_next p c ?r)) 0 = 0" using bspec [OF j(4)] D(3) by metis
    moreover have tc: "tight ?r (c # zs)" "used ?r c" using txp(2) 3(2) by (simp_all add: c(1))
    moreover have "tight (set_prev c p (set_next p c ?r)) (xs @ [p])" by (rule tight_mono [OF txp(1)]) (use u in auto)
    moreover have "tight (set_prev c p (set_next p c ?r)) (c # zs)" by (rule tight_mono [OF tc(1)]) (use u in auto)
    moreover have "used (set_prev c p (set_next p c ?r)) c" "used (set_prev c p (set_next p c ?r)) p"
      using u [of c] u [of p] tc(2) p(4) by simp_all
    ultimately have r: "mem_ok \<lparr>ram = trim_stores p m c ?r, lfree = lf\<rparr>"
      "allocated \<lparr>ram = trim_stores p m c ?r, lfree = lf\<rparr> = insert (p + 8, m - (p + 8)) (allocated h - {extent ?r p})"
      "same_bytes (allocated \<lparr>ram = trim_stores p m c ?r, lfree = lf\<rparr>) ?r (trim_stores p m c ?r)"
      using tr j(1) l 3(2) by blast+
    have "mem_trim (int a) sz h = Some (Some (int a), \<lparr>ram = trim_stores p m c ?r, lfree = lf\<rparr>)"
      using run 3 c(2) by (auto simp: lf_def)
    then show ?thesis using r x p(1) sz
      by (intro exI [of _ "\<lparr>ram = trim_stores p m c ?r, lfree = lf\<rparr>"] exI [of _ "rounded_size sz"]) simp
  qed
qed

end
