(* ===== verification/Mem_Props.thy ===== *)
theory Mem_Props
  imports Mem_Ops
begin

text \<open>
  Correctness of the lwIP heap: it meets the contract of an allocator (\<open>Alloc\<close>), and what its
  operations guarantee to their callers, with the two places where 16-bit sizes wrap around.
\<close>

section \<open>The heap meets the contract of an allocator\<close>

lemma mem_init_ok: "mem_ok (mem_init r)" "allocated (mem_init r) = {}" "blocks (ram (mem_init r)) 0 = [0, heap_end]"
proof -
  let ?h = "mem_init r"
  have "apart 0 heap_end" "apart heap_end 0" by (simp_all add: apart_def)
  then have get: "nxt (ram ?h) 0 = heap_end" "prv (ram ?h) 0 = 0" "\<not> used (ram ?h) 0" "nxt (ram ?h) heap_end = heap_end"
    "used (ram ?h) heap_end" "lfree ?h = 0" by (simp_all add: mem_init_def Let_def)
  then have l: "linked (ram ?h) (0 # [heap_end])" "tight (ram ?h) (0 # [heap_end])" by (simp_all add: link_def)
  have "lfree ?h = lowest_free (ram ?h) (0 # [heap_end])" using get by (simp add: lowest_free_def)
  note ok = mem_okI [OF l get(2) this]
  then show "mem_ok ?h" "blocks (ram ?h) 0 = [0, heap_end]" by simp_all
  then show "allocated ?h = {}" using get by (fastforce simp: allocated_def)
qed

lemma allocated_inside:
  assumes "mem_ok h" "(a, n) \<in> allocated h"
  shows "8 \<le> a" "12 \<le> n" "a + n \<le> heap_end" "4 dvd a"
proof -
  obtain p where "a = p + 8" "p + 8 + n = nxt (ram h) p" "p + 20 \<le> nxt (ram h) p" "nxt (ram h) p \<le> heap_end" "4 dvd p"
    using allocated_block [OF assms] by metis
  then show "8 \<le> a" "12 \<le> n" "a + n \<le> heap_end" "4 dvd a" by simp_all
qed

lemma allocated_disjoint:
  assumes "mem_ok h" "(a, n) \<in> allocated h" "(b, m) \<in> allocated h" "(a, n) \<noteq> (b, m)"
  shows "a + n \<le> b \<or> b + m \<le> a"
proof -
  let ?r = "ram h"
  note l = mem_okD(1) [OF assms(1) refl]
  obtain p where p: "a = p + 8" "p + 8 + n = nxt ?r p" "p \<in> set (blocks ?r 0)" "p + 20 \<le> nxt ?r p" "nxt ?r p \<le> heap_end"
    using allocated_block [OF assms(1,2)] by (metis in_set_conv_decomp)
  obtain q where q: "b = q + 8" "q + 8 + m = nxt ?r q" "q \<in> set (blocks ?r 0)" "q + 20 \<le> nxt ?r q" "nxt ?r q \<le> heap_end"
    using allocated_block [OF assms(1,3)] by (metis in_set_conv_decomp)
  have "p \<noteq> q" using assms(4) p(1,2) q(1,2) by auto
  then show ?thesis using header_outside [OF l p(3) _ q(3)] header_outside [OF l q(3) _ p(3)] p q by auto
qed

lemma get_outside: "i < x \<or> x + 8 \<le> i \<Longrightarrow> nxt (r(i := v)) x = nxt r x \<and> prv (r(i := v)) x = prv r x \<and> used (r(i := v)) x = used r x"
  by (auto simp: nxt_def prv_def used_def)

text \<open>A store by a caller to one of its bytes.\<close>

definition heap_store :: "nat \<Rightarrow> u8 \<Rightarrow> mem_heap \<Rightarrow> mem_heap" where
  "heap_store i v h = h\<lparr>ram := (ram h)(i := v)\<rparr>"

lemma heap_store_ok:
  assumes ok: "mem_ok h" and "(a, n) \<in> allocated h" "a \<le> i" "i < a + n"
  shows "mem_ok (heap_store i v h)" "allocated (heap_store i v h) = allocated h"
proof -
  let ?r = "ram h" and ?s = "(ram h)(i := v)"
  obtain bs where bs: "blocks ?r 0 = 0 # bs" using mem_okE [OF ok] by metis
  note D = mem_okD [OF ok bs]
  obtain p where p: "a = p + 8" "p + 8 + n = nxt ?r p" "p \<in> set (0 # bs)" "p + 20 \<le> nxt ?r p" "nxt ?r p \<le> heap_end"
    using allocated_block [OF assms(1,2)] bs by (metis in_set_conv_decomp)
  have "i < x \<or> x + 8 \<le> i" if "x \<in> set (0 # bs)" for x
    using header_outside [OF D(1) p(3) _ that] p assms(3,4) by auto
  then have get: "nxt ?s x = nxt ?r x \<and> prv ?s x = prv ?r x \<and> used ?s x = used ?r x" if "x \<in> set (0 # bs)" for x
    using that by (intro get_outside)
  have "linked ?s (0 # bs)" "tight ?s (0 # bs)" using linked_cong [OF get] D(1,2) by blast+
  moreover have "lowest_free ?s (0 # bs) = lowest_free ?r (0 # bs)" by (rule lowest_free_cong) (simp add: get)
  ultimately have "mem_ok (heap_store i v h) \<and> blocks ?s 0 = 0 # bs"
    using mem_okI [of "heap_store i v h" bs] D(3,4) get [of 0] by (simp add: heap_store_def)
  moreover have "extent ?s x = extent ?r x" if "x \<in> set (0 # bs)" for x using get [OF that] by (simp add: extent_def)
  ultimately show "mem_ok (heap_store i v h)" "allocated (heap_store i v h) = allocated h"
    using get bs by (auto simp: allocated_def heap_store_def image_iff)
qed

definition heap_alloc :: "nat \<Rightarrow> mem_heap \<Rightarrow> (nat option \<times> mem_heap) option" where
  "heap_alloc k h = map_option (\<lambda>(p, h). (map_option nat p, h)) (mem_malloc k h)"

definition heap_release :: "nat \<Rightarrow> mem_heap \<Rightarrow> mem_heap option" where
  "heap_release a = mem_free (Some (int a))"

lemma mem_malloc_cases:
  assumes "mem_ok h"
  shows "mem_malloc sz h = Some (None, h) \<and> (0 < sz \<longrightarrow> (\<forall>(a, n) \<in> available h. n < rounded_size sz)) \<or>
    (\<exists>a h' k. mem_malloc sz h = Some (Some (int a), h') \<and> mem_ok h' \<and> rounded_size sz \<le> k \<and>
      allocated h' = insert (a, k) (allocated h) \<and> a \<notin> fst ` allocated h \<and> same_bytes (allocated h) (ram h) (ram h'))"
proof (cases "0 < sz \<and> rounded_size sz \<le> heap_end")
  case True
  note l = mem_okD [OF assms refl]
  show ?thesis
  proof (cases "find (fits (ram h) (rounded_size sz)) (blocks (ram h) 0)")
    case None
    have "\<forall>x \<in> set (blocks (ram h) 0). \<not> fits (ram h) (rounded_size sz) x" using None unfolding find_None_iff_all .
    moreover have "mem_malloc sz h = Some (None, h)"
      using None True search_from_lowest [OF l(1) rounded_size_props(1)] l(4) by (simp add: mem_malloc_def Let_def)
    ultimately show ?thesis using rounded_size_props(1) [of sz] by (fastforce simp: available_def extent_def)
  next
    case (Some p)
    then show ?thesis using mem_malloc_found [OF assms _ _ Some] True by blast
  qed
next
  case False
  note l = mem_okD(1) [OF assms refl]
  have "n \<le> heap_end" if "(a, n) \<in> available h" for a n
  proof -
    obtain p where p: "p \<in> set (blocks (ram h) 0)" "\<not> used (ram h) p" "n = nxt (ram h) p - (p + 8)"
      using \<open>(a, n) \<in> available h\<close> by (auto simp: available_def extent_def)
    then have "p \<noteq> heap_end" using l by (auto simp: linked_def)
    then have "nxt (ram h) p \<in> set (blocks (ram h) 0)" using linked_next [OF l p(1)] by (metis in_set_conv_decomp list.set_intros(2) Un_iff set_append list.set_intros(1))
    then show ?thesis using linked_le_end [OF l] p(3) by fastforce
  qed
  then show ?thesis using False by (fastforce simp: mem_malloc_def Let_def)
qed

lemma rounded_size_le: "sz \<le> 65532 \<Longrightarrow> sz \<le> rounded_size sz"
proof -
  assume "sz \<le> 65532"
  moreover have "sz \<le> mem_align sz" "mem_align sz \<le> sz + 3" "4 dvd mem_align sz" by (simp_all add: mem_align_def)
  ultimately have "mem_align sz mod 65536 = mem_align sz" by (cases "sz = 65532") (auto simp: mem_align_def)
  then show ?thesis using \<open>sz \<le> mem_align sz\<close> by (simp add: rounded_size_def Let_def)
qed

lemma rounded_size_12: "rounded_size 12 = 12"
  by (simp add: rounded_size_def mem_align_def)

lemma rounded_size_wraps: "65533 \<le> sz \<Longrightarrow> sz \<le> 65535 \<Longrightarrow> rounded_size sz = 12"
proof -
  assume "65533 \<le> sz" "sz \<le> 65535"
  then have "mem_align sz = 65536" by (auto simp: mem_align_def)
  then show ?thesis by (simp add: rounded_size_def)
qed

interpretation hp: allocator mem_ok allocated ram heap_alloc heap_release heap_store 65532
proof
  fix h :: mem_heap and k
  assume ok: "mem_ok h"
  show "\<exists>p t. heap_alloc k h = Some (p, t)" using mem_malloc_cases [OF ok, of k] by (auto simp: heap_alloc_def)
  show "heap_alloc k h = Some (None, t) \<Longrightarrow> t = h" for t using mem_malloc_cases [OF ok, of k] by (auto simp: heap_alloc_def)
  show "mem_ok t \<and> (\<exists>n. (k \<le> 65532 \<longrightarrow> k \<le> n) \<and> allocated t = insert (a, n) (allocated h) \<and> a \<notin> fst ` allocated h) \<and>
      same_bytes (allocated h) (ram h) (ram t)" if run: "heap_alloc k h = Some (Some a, t)" for a t
  proof -
    obtain n where "mem_ok t" "rounded_size k \<le> n" "allocated t = insert (a, n) (allocated h)" "a \<notin> fst ` allocated h"
      "same_bytes (allocated h) (ram h) (ram t)" using mem_malloc_cases [OF ok, of k] run by (auto simp: heap_alloc_def)
    then show ?thesis using rounded_size_le [of k] by (intro conjI exI [of _ n]) auto
  qed
next
  fix h :: mem_heap and a n
  assume h: "mem_ok h" "(a, n) \<in> allocated h"
  show "\<exists>t. heap_release a h = Some t \<and> mem_ok t \<and> allocated t = allocated h - {(a, n)} \<and> same_bytes (allocated t) (ram h) (ram t)"
    using mem_free_ok [OF h] by (auto simp: heap_release_def)
  show "(b, m) \<in> allocated h \<Longrightarrow> (a, n) \<noteq> (b, m) \<Longrightarrow> a + n \<le> b \<or> b + m \<le> a" for b m using allocated_disjoint [OF h] .
  show "a \<le> i \<Longrightarrow> i < a + n \<Longrightarrow> mem_ok (heap_store i v h) \<and> allocated (heap_store i v h) = allocated h \<and>
      ram (heap_store i v h) = (ram h)(i := v)" for i v using heap_store_ok [OF h] by (simp add: heap_store_def)
qed

lemma empty_heap:
  assumes ok: "mem_ok h" and "allocated h = {}"
  shows "blocks (ram h) 0 = [0, heap_end]" "\<not> used (ram h) 0" "nxt (ram h) 0 = heap_end"
proof -
  obtain bs where bs: "blocks (ram h) 0 = 0 # bs" using mem_okE [OF ok] by metis
  note D = mem_okD [OF ok bs]
  have free: "\<not> used (ram h) x" if "x \<in> set (0 # bs)" "x \<noteq> heap_end" for x using assms(2) that bs by (auto simp: allocated_def)
  obtain q ys where q: "bs = q # ys" using D(1) by (cases bs) auto
  then have "q = heap_end" using free [of 0] free [of q] D(2) by auto
  moreover have "ys = []" using linked_bounds [of "ram h" q ys "hd ys"] linked_le_end [OF D(1), of "hd ys"] D(1) q calculation
    by (cases ys) auto
  ultimately show "blocks (ram h) 0 = [0, heap_end]" "\<not> used (ram h) 0" "nxt (ram h) 0 = heap_end"
    using bs q free [of 0] D(1) by (simp_all add: link_def)
qed

lemma empty_heap_malloc:
  assumes "mem_ok h" "allocated h = {}" "0 < sz" "rounded_size sz \<le> 22520"
  shows "\<exists>h' k. mem_malloc sz h = Some (Some 8, h') \<and> mem_ok h' \<and> rounded_size sz \<le> k \<and> allocated h' = {(8, k)}"
  using mem_malloc_found [OF assms(1,3), of 0] assms(2,4) empty_heap [OF assms(1,2)] by auto

lemma fresh_heap_malloc:
  assumes "0 < sz" "sz \<le> 1000"
  shows "\<exists>h k. mem_malloc sz (mem_init (\<lambda>_. 0)) = Some (Some 8, h) \<and> mem_ok h \<and> sz \<le> k \<and> allocated h = {(8, k)}"
proof -
  have "sz \<le> rounded_size sz" "rounded_size sz \<le> 22520" using rounded_size_le [of sz] assms(2)
    by (auto simp: rounded_size_def mem_align_def Let_def)
  then show ?thesis using empty_heap_malloc [OF mem_init_ok(1,2) assms(1), of "\<lambda>_. 0"] by (metis order_trans)
qed

section \<open>Properties\<close>

text \<open>
  C33: \<^verbatim>\<open>mem_malloc\<close> always returns. For a size between 1 and 65532 it gives a block of at least that
  size, aligned, inside the heap and disjoint from every block in use, whose bytes it leaves alone, or, only when no free
  block is large enough, \<^verbatim>\<open>NULL\<close>; a request of 0 bytes gives \<^verbatim>\<open>NULL\<close>, and one of 65533 to 65535 bytes, which wraps
  around when it is rounded up, is answered like one of twelve, with a block that is too small.
\<close>

theorem mem_malloc_spec:
  assumes "mem_ok h" "sz \<le> 65535"
  shows "if sz = 0 then mem_malloc sz h = Some (None, h)
    else if sz \<le> 65532 then
      (\<exists>a n h'. mem_malloc sz h = Some (Some (int a), h') \<and> mem_ok h' \<and> sz \<le> n \<and> 4 dvd a \<and> a + n \<le> MEM_SIZE_ALIGNED \<and>
        allocated h' = insert (a, n) (allocated h) \<and> (\<forall>(b, m) \<in> allocated h. a + n \<le> b \<or> b + m \<le> a) \<and>
        same_bytes (allocated h) (ram h) (ram h')) \<or>
      mem_malloc sz h = Some (None, h) \<and> (\<forall>(a, n) \<in> available h. n < rounded_size sz)
    else mem_malloc sz h = mem_malloc 12 h"
proof -
  have *: "\<forall>(b, m) \<in> allocated h. a + n \<le> b \<or> b + m \<le> a"
    if "mem_ok h'" "allocated h' = insert (a, n) (allocated h)" "a \<notin> fst ` allocated h" for a n h'
    using that allocated_disjoint [OF that(1), of a n] by force
  have **: "4 dvd a \<and> a + n \<le> MEM_SIZE_ALIGNED" if "mem_ok h'" "allocated h' = insert (a, n) (allocated h)" for a n h'
    using allocated_inside [OF that(1), of a n] that(2) by simp
  have mid: "(\<exists>a n h'. mem_malloc sz h = Some (Some (int a), h') \<and> mem_ok h' \<and> sz \<le> n \<and> 4 dvd a \<and> a + n \<le> MEM_SIZE_ALIGNED \<and>
        allocated h' = insert (a, n) (allocated h) \<and> (\<forall>(b, m) \<in> allocated h. a + n \<le> b \<or> b + m \<le> a) \<and>
        same_bytes (allocated h) (ram h) (ram h')) \<or>
      mem_malloc sz h = Some (None, h) \<and> (\<forall>(a, n) \<in> available h. n < rounded_size sz)" if "0 < sz" "sz \<le> 65532"
    using mem_malloc_cases [OF assms(1), of sz] that(1) rounded_size_le [OF that(2)] * ** by (meson order_trans)
  have zero: "mem_malloc 0 h = Some (None, h)" by (simp add: mem_malloc_def)
  have wrap: "mem_malloc sz h = mem_malloc 12 h" if "65533 \<le> sz"
    unfolding mem_malloc_def using rounded_size_wraps [OF that assms(2)] rounded_size_12 that by simp
  show ?thesis using mid zero wrap by simp
qed

theorem mem_malloc_spec_witness:
  "(\<exists>h' n. mem_malloc 100 (mem_init (\<lambda>_. 0)) = Some (Some 8, h') \<and> (8, n) \<in> allocated h' \<and> 100 \<le> n) \<and>
   mem_malloc 65533 (mem_init (\<lambda>_. 0)) = mem_malloc 12 (mem_init (\<lambda>_. 0))"
proof
  obtain h' k where h': "mem_malloc 100 (mem_init (\<lambda>_. 0)) = Some (Some 8, h')" "allocated h' = {(8, k)}"
    using fresh_heap_malloc [of 100] by auto
  then show "\<exists>h' n. mem_malloc 100 (mem_init (\<lambda>_. 0)) = Some (Some 8, h') \<and> (8, n) \<in> allocated h' \<and> 100 \<le> n"
    using mem_malloc_spec [OF mem_init_ok(1), of 100 "\<lambda>_. 0"] mem_init_ok(2) by fastforce
  show "mem_malloc 65533 (mem_init (\<lambda>_. 0)) = mem_malloc 12 (mem_init (\<lambda>_. 0))"
    using mem_malloc_spec [OF mem_init_ok(1), of 65533 "\<lambda>_. 0"] by simp
qed

text \<open>
  \<^verbatim>\<open>mem_free\<close> of a block in use passes its assertions, takes exactly that block out of use, leaves
  the bytes of the others alone and joins it with its free neighbours: when it was the last
  one, the whole heap can be allocated again in one piece.
\<close>

theorem mem_free_spec:
  assumes "mem_ok h" "(a, n) \<in> allocated h"
  shows "\<exists>h'. mem_free (Some (int a)) h = Some h' \<and> mem_ok h' \<and> allocated h' = allocated h - {(a, n)} \<and>
    same_bytes (allocated h') (ram h) (ram h') \<and>
    (allocated h = {(a, n)} \<longrightarrow> (\<exists>h''. mem_malloc (MEM_SIZE_ALIGNED - SIZEOF_STRUCT_MEM) h' = Some (Some (int SIZEOF_STRUCT_MEM), h'')))"
proof -
  obtain h' where h': "mem_free (Some (int a)) h = Some h'" "mem_ok h'" "allocated h' = allocated h - {(a, n)}"
    "same_bytes (allocated h - {(a, n)}) (ram h) (ram h')" using mem_free_ok [OF assms] by blast
  have "rounded_size 22520 = 22520" by (simp add: rounded_size_def mem_align_def)
  then have "\<exists>h''. mem_malloc 22520 h' = Some (Some 8, h'')" if "allocated h = {(a, n)}"
    using empty_heap_malloc [OF h'(2), of 22520] h'(3) that by auto
  then show ?thesis using h' by simp
qed

theorem mem_free_spec_witness:
  "\<exists>h h'. mem_malloc 12 (mem_init (\<lambda>_. 0)) = Some (Some 8, h) \<and> mem_free (Some 8) h = Some h' \<and> allocated h' = {} \<and>
    (\<exists>h''. mem_malloc 22520 h' = Some (Some 8, h''))"
proof -
  obtain h k where h: "mem_malloc 12 (mem_init (\<lambda>_. 0)) = Some (Some 8, h)" "mem_ok h" "allocated h = {(8, k)}"
    using fresh_heap_malloc [of 12] by auto
  then show ?thesis using mem_free_spec [OF h(2), of 8 k] by auto
qed

text \<open>
  \<^verbatim>\<open>mem_trim\<close> to a size the block can hold keeps the block at its place with at least that many
  bytes, gives the rest back (or leaves the block as it is), and changes no byte of any block.
\<close>

theorem mem_trim_spec:
  assumes "mem_ok h" "(a, n) \<in> allocated h" "rounded_size sz \<le> n" "sz \<le> 65532"
  shows "\<exists>h' k. mem_trim (int a) sz h = Some (Some (int a), h') \<and> mem_ok h' \<and> sz \<le> k \<and> k \<le> n \<and>
    allocated h' = insert (a, k) (allocated h - {(a, n)}) \<and> same_bytes (allocated h') (ram h) (ram h')"
  using mem_trim_ok [OF assms(1-3)] rounded_size_le [OF assms(4)] by (meson order_trans)

theorem mem_trim_spec_witness:
  "\<exists>h h' k. mem_malloc 100 (mem_init (\<lambda>_. 0)) = Some (Some 8, h) \<and> mem_trim 8 30 h = Some (Some 8, h') \<and> allocated h' = {(8, k)} \<and> 30 \<le> k"
proof -
  have "rounded_size 30 = 32" by (simp add: rounded_size_def mem_align_def)
  obtain h k where h: "mem_malloc 100 (mem_init (\<lambda>_. 0)) = Some (Some 8, h)" "mem_ok h" "100 \<le> k" "allocated h = {(8, k)}"
    using fresh_heap_malloc [of 100] by auto
  then show ?thesis using mem_trim_spec [OF h(2), of 8 k 30] \<open>rounded_size 30 = 32\<close> by fastforce
qed

text \<open>
  C32: A block of the heap belongs to its holder: whatever the others allocate, release and
  store into blocks they hold, in any order, no assertion fails, the list of blocks stays
  sound and the bytes of the block stay as they are.
\<close>

theorem heap_integrity:
  assumes "client_run allocated (run_op heap_alloc heap_release heap_store) a h xs r" "mem_ok h" "(a, n) \<in> allocated h"
  shows "\<exists>h'. r = Some h' \<and> mem_ok h' \<and> (a, n) \<in> allocated h' \<and> (\<forall>i < n. ram h' (a + i) = ram h (a + i))"
  using hp.integrity [OF assms(1), of n "\<lambda>i. ram h (a + i)"] assms(2,3) by auto

theorem heap_integrity_witness:
  "\<exists>h h' k. mem_malloc 12 (mem_init (\<lambda>_. 0)) = Some (Some 8, h) \<and> run_op heap_alloc heap_release heap_store (Alloc 50) h = Some h' \<and>
    mem_ok h' \<and> (8, k) \<in> allocated h'"
proof -
  obtain h k where h: "mem_malloc 12 (mem_init (\<lambda>_. 0)) = Some (Some 8, h)" "mem_ok h" "(8, k) \<in> allocated h"
    using fresh_heap_malloc [of 12] by auto
  obtain p t where t: "run_op heap_alloc heap_release heap_store (Alloc 50) h = Some t" using hp.alloc_returns [OF h(2), of 50] by auto
  then have "client_run allocated (run_op heap_alloc heap_release heap_store) 8 h [Alloc 50] (Some t)"
    by (intro step_run [where t = t] done_run) simp_all
  from heap_integrity [OF this h(2,3)] show ?thesis using h t by auto
qed


text \<open>
  A request of 65533 to 65535 bytes is not refused: rounding it up wraps around to 0 and the
  caller gets a block of twelve bytes, the smallest size, in a fresh heap.
\<close>

theorem mem_malloc_wraps:
  assumes "65533 \<le> sz" "sz \<le> 65535"
  shows "\<exists>h'. mem_malloc sz (mem_init r) = Some (Some 8, h') \<and> allocated h' = {(8, 12)}"
proof -
  have n: "rounded_size sz = 12" by (rule rounded_size_wraps [OF assms])
  let ?h = "mem_init r"
  let ?t = "malloc_take (ram ?h) 12 0"
  obtain h' k where h': "mem_malloc sz ?h = Some (Some 8, h')" "mem_ok h'" "allocated h' = {(8, k)}"
    using empty_heap_malloc [OF mem_init_ok(1,2), of sz r] n assms(1) by auto
  have "ram h' = ?t" using h'(1) n unfolding mem_malloc_def by (auto simp: Let_def split: if_splits option.splits)
  moreover have "inserted (ram ?h) 0 (0 + 8 + 12) heap_end True ?t"
    using empty_heap(3) [OF mem_init_ok(1,2), of r] by (intro take_inserted) simp_all
  ultimately have "nxt (ram h') 0 = 20" by (simp add: inserted_def)
  moreover have "(8, k) \<in> allocated h'" using h'(3) by simp
  then have "k = nxt (ram h') 0 - 8" by (auto simp: allocated_def extent_def)
  ultimately show ?thesis using h'(1,3) by simp
qed

theorem mem_malloc_wraps_witness: "\<exists>h'. mem_malloc 65535 (mem_init (\<lambda>_. 0)) = Some (Some 8, h') \<and> allocated h' = {(8, 12)}"
  using mem_malloc_wraps [of 65535] by simp

lemma heap_clear_ok:
  assumes "mem_ok h" "(a, n) \<in> allocated h" "k \<le> n"
  shows "let h' = h\<lparr>ram := (\<lambda>i. if a \<le> i \<and> i < a + k then 0 else ram h i)\<rparr> in mem_ok h' \<and> allocated h' = allocated h"
  using assms(3)
proof (induction k)
  case 0
  have "(\<lambda>i. if a \<le> i \<and> i < a + 0 then 0 else ram h i) = ram h" by (auto simp: fun_eq_iff)
  then show ?case using assms(1) by (simp add: Let_def)
next
  case (Suc k)
  let ?h = "h\<lparr>ram := (\<lambda>i. if a \<le> i \<and> i < a + k then 0 else ram h i)\<rparr>"
  have "mem_ok ?h" "(a, n) \<in> allocated ?h" using Suc assms(2) by (simp_all add: Let_def)
  note st = heap_store_ok [OF this, of "a + k" 0]
  have "(\<lambda>i. if a \<le> i \<and> i < a + Suc k then 0 else ram h i) = (\<lambda>i. if a \<le> i \<and> i < a + k then 0 else ram h i)(a + k := 0)"
    by (auto simp: fun_eq_iff less_Suc_eq)
  then have "h\<lparr>ram := (\<lambda>i. if a \<le> i \<and> i < a + Suc k then 0 else ram h i)\<rparr> = heap_store (a + k) 0 ?h" by (simp add: heap_store_def)
  then show ?case using st Suc by (simp add: Let_def)
qed

lemma mem_calloc_ok:
  assumes ok: "mem_ok h" and "0 < count * sz" "count * sz \<le> 65532" and run: "mem_calloc count sz h = Some (Some p, h')"
  shows "mem_ok h' \<and> (\<exists>n. count * sz \<le> n \<and> allocated h' = insert (nat p, n) (allocated h)) \<and>
    (\<forall>i < count * sz. ram h' (nat p + i) = 0) \<and> same_bytes (allocated h) (ram h) (ram h')"
proof -
  let ?k = "count * sz"
  obtain a g n where g: "mem_malloc ?k h = Some (Some (int a), g)" "mem_ok g" "rounded_size ?k \<le> n" "allocated g = insert (a, n) (allocated h)"
    "a \<notin> fst ` allocated h" "same_bytes (allocated h) (ram h) (ram g)"
    using mem_malloc_cases [OF ok, of ?k] run assms(3) by (auto simp: mem_calloc_def split: prod.splits option.splits)
  have h': "h' = g\<lparr>ram := (\<lambda>i. if a \<le> i \<and> i < a + ?k then 0 else ram g i)\<rparr>" "p = int a"
    using run g(1) assms(3) by (auto simp: mem_calloc_def)
  have n: "?k \<le> n" using rounded_size_le [OF assms(3)] g(3) by simp
  have "mem_ok h'" "allocated h' = allocated g" using heap_clear_ok [OF g(2), of a n ?k] g(4) n h'(1) by (simp_all add: Let_def)
  moreover have "same_bytes (allocated h) (ram g) (ram h')"
  proof -
    have "a + n \<le> b \<or> b + m \<le> a" if "(b, m) \<in> allocated h" for b m
      using allocated_disjoint [OF g(2), of a n b m] that g(4,5) by force
    then show ?thesis using n by (fastforce simp: same_bytes_def h'(1))
  qed
  ultimately show ?thesis using n g(4) h' kept_trans [OF g(6)] by auto
qed


text \<open>
  \<^verbatim>\<open>mem_calloc\<close> clears the block it allocates when the product of its arguments is representable;
  when it wraps around at 16 bits the block is too small and the clearing runs over the heap: for
  256 elements of 257 bytes it destroys the end marker.
\<close>

theorem mem_calloc_clears_or_overruns:
  "(\<forall>h count sz p h'. mem_ok h \<longrightarrow> 0 < count * sz \<longrightarrow> count * sz \<le> 65532 \<longrightarrow> mem_calloc count sz h = Some (Some p, h') \<longrightarrow>
      mem_ok h' \<and> (\<exists>n. count * sz \<le> n \<and> allocated h' = insert (nat p, n) (allocated h)) \<and>
      (\<forall>i < count * sz. ram h' (nat p + i) = 0) \<and> same_bytes (allocated h) (ram h) (ram h')) \<and>
    (\<exists>h'. mem_calloc 256 257 (mem_init r) = Some (Some 8, h') \<and> \<not> mem_ok h')"
proof
  show "\<forall>h count sz p h'. mem_ok h \<longrightarrow> 0 < count * sz \<longrightarrow> count * sz \<le> 65532 \<longrightarrow> mem_calloc count sz h = Some (Some p, h') \<longrightarrow>
      mem_ok h' \<and> (\<exists>n. count * sz \<le> n \<and> allocated h' = insert (nat p, n) (allocated h)) \<and>
      (\<forall>i < count * sz. ram h' (nat p + i) = 0) \<and> same_bytes (allocated h) (ram h) (ram h')"
    using mem_calloc_ok by blast
  obtain g where g: "mem_malloc 256 (mem_init r) = Some (Some 8, g)"
    using empty_heap_malloc [OF mem_init_ok(1,2), of 256 r] by (auto simp: rounded_size_def mem_align_def)
  define h' where "h' = g\<lparr>ram := (\<lambda>i. if 8 \<le> i \<and> i < 8 + 65792 then 0 else ram g i)\<rparr>"
  have "\<not> used (ram h') heap_end" by (simp add: used_def h'_def)
  then have "\<not> mem_ok h'" using mem_okD(1) [OF _ refl, of h'] by (auto simp: linked_def)
  moreover have "mem_calloc 256 257 (mem_init r) = Some (Some 8, h')" using g by (simp add: mem_calloc_def h'_def)
  ultimately show "\<exists>h'. mem_calloc 256 257 (mem_init r) = Some (Some 8, h') \<and> \<not> mem_ok h'" by blast
qed

theorem mem_calloc_clears_or_overruns_witness:
  "\<exists>h'. mem_calloc 2 6 (mem_init (\<lambda>_. 0)) = Some (Some 8, h') \<and> mem_ok h' \<and> ram h' 19 = 0"
proof -
  obtain g where "mem_malloc 12 (mem_init (\<lambda>_. 0)) = Some (Some 8, g)" using fresh_heap_malloc [of 12] by auto
  then obtain h' where h': "mem_calloc 2 6 (mem_init (\<lambda>_. 0)) = Some (Some 8, h')" by (simp add: mem_calloc_def)
  have c: "0 < (2 :: nat) * 6" "(2 :: nat) * 6 \<le> 65532" by simp_all
  have "mem_ok h' \<and> (\<forall>i < 2 * 6. ram h' (nat 8 + i) = 0)"
    using conjunct1 [OF mem_calloc_clears_or_overruns, rule_format, OF mem_init_ok(1) c h'] by blast
  then have ok: "mem_ok h'" and "\<forall>i < 12. ram h' (8 + i) = 0" by simp_all
  from this(2) have "ram h' (8 + 11) = 0" by (elim allE [of _ 11]) simp
  then show ?thesis using h' ok by simp
qed

end
