(* ===== verification/Memp.thy ===== *)
theory Memp
  imports Alloc Pbuf_Chain
begin

text \<open>
  Memory pools, \<^verbatim>\<open>lwip/src/core/memp.c\<close> as built (no overflow or sanity checks, no statistics, so that
  \<^verbatim>\<open>MEMP_SIZE\<close> is 0). A pool is an array of elements; its free elements form a list through a
  pointer in their first four bytes, whose head is the variable \<^verbatim>\<open>*desc->tab\<close>. Pointers are addresses,
  0 is \<^verbatim>\<open>NULL\<close>, and the table \<^verbatim>\<open>memp_pools\<close>, generated by the preprocessor, is an argument. A
  result \<open>None\<close> is a failed assertion.
\<close>

section \<open>Data and operations\<close>

record memp_desc =
  elem_size :: nat
  num :: nat
  base :: nat
  tab :: nat

record memp_state =
  mbytes :: "nat \<Rightarrow> u8"
  tabs :: "nat \<Rightarrow> nat"

definition get32 :: "(nat \<Rightarrow> u8) \<Rightarrow> nat \<Rightarrow> nat" where
  "get32 m p = unat (m p) + 256 * unat (m (p + 1)) + 65536 * unat (m (p + 2)) + 16777216 * unat (m (p + 3))"

definition put32 :: "nat \<Rightarrow> nat \<Rightarrow> (nat \<Rightarrow> u8) \<Rightarrow> nat \<Rightarrow> u8" where
  "put32 p v m = m(p := word_of_nat v, p + 1 := word_of_nat (v div 256), p + 2 := word_of_nat (v div 65536),
     p + 3 := word_of_nat (v div 16777216))"

text \<open>\<^verbatim>\<open>memp->next = *desc->tab; *desc->tab = memp;\<close>\<close>

definition push_elem :: "memp_desc \<Rightarrow> nat \<Rightarrow> memp_state \<Rightarrow> memp_state" where
  "push_elem desc memp s =
    s\<lparr>mbytes := put32 memp (tabs s (tab desc)) (mbytes s), tabs := (tabs s)(tab desc := memp)\<rparr>"

fun memp_init_loop :: "memp_desc \<Rightarrow> nat \<Rightarrow> nat \<Rightarrow> memp_state \<Rightarrow> memp_state" where
  "memp_init_loop desc 0 memp s = s"
| "memp_init_loop desc (Suc i) memp s = memp_init_loop desc i (memp + elem_size desc) (push_elem desc memp s)"

definition memp_init_pool :: "memp_desc \<Rightarrow> memp_state \<Rightarrow> memp_state" where
  "memp_init_pool desc s =
    memp_init_loop desc (num desc) (mem_align (base desc)) (s\<lparr>tabs := (tabs s)(tab desc := 0)\<rparr>)"

definition memp_init :: "memp_desc list \<Rightarrow> memp_state \<Rightarrow> memp_state" where
  "memp_init memp_pools s = fold memp_init_pool memp_pools s"

definition do_memp_malloc_pool :: "memp_desc \<Rightarrow> memp_state \<Rightarrow> (nat option \<times> memp_state) option" where
  "do_memp_malloc_pool desc s =
    (let memp = tabs s (tab desc) in
     if memp \<noteq> 0 then
       let s = s\<lparr>tabs := (tabs s)(tab desc := get32 (mbytes s) memp)\<rparr>
       in if memp mod 4 = 0 then Some (Some memp, s) else None
     else Some (None, s))"

definition memp_malloc_pool :: "memp_desc option \<Rightarrow> memp_state \<Rightarrow> (nat option \<times> memp_state) option" where
  "memp_malloc_pool desc s = (case desc of None \<Rightarrow> None | Some d \<Rightarrow> do_memp_malloc_pool d s)"

definition memp_malloc :: "memp_desc list \<Rightarrow> nat \<Rightarrow> memp_state \<Rightarrow> (nat option \<times> memp_state) option" where
  "memp_malloc memp_pools type s =
    (if type < length memp_pools then do_memp_malloc_pool (memp_pools ! type) s else Some (None, s))"

definition do_memp_free_pool :: "memp_desc \<Rightarrow> nat \<Rightarrow> memp_state \<Rightarrow> memp_state option" where
  "do_memp_free_pool desc mem s = (if mem mod 4 = 0 then Some (push_elem desc mem s) else None)"

definition memp_free_pool :: "memp_desc option \<Rightarrow> nat option \<Rightarrow> memp_state \<Rightarrow> memp_state option" where
  "memp_free_pool desc mem s =
    (case desc of None \<Rightarrow> None | Some d \<Rightarrow> (case mem of None \<Rightarrow> Some s | Some m \<Rightarrow> do_memp_free_pool d m s))"

definition memp_free :: "memp_desc list \<Rightarrow> nat \<Rightarrow> nat option \<Rightarrow> memp_state \<Rightarrow> memp_state option" where
  "memp_free memp_pools type mem s =
    (if type < length memp_pools then
       case mem of None \<Rightarrow> Some s | Some m \<Rightarrow> do_memp_free_pool (memp_pools ! type) m s
     else Some s)"

section \<open>Pools and their free lists\<close>

definition elements :: "memp_desc \<Rightarrow> nat list" where
  "elements d = map (\<lambda>i. mem_align (base d) + i * elem_size d) [0..<num d]"

definition pool_wf :: "memp_desc \<Rightarrow> bool" where
  "pool_wf d \<longleftrightarrow> 0 < base d \<and> 4 \<le> elem_size d \<and> 4 dvd elem_size d \<and> mem_align (base d) + num d * elem_size d \<le> 4294967296"

text \<open>The list is followed for at most as many steps as the pool has elements.\<close>

fun free_list :: "(nat \<Rightarrow> u8) \<Rightarrow> nat \<Rightarrow> nat \<Rightarrow> nat list" where
  "free_list m 0 p = []"
| "free_list m (Suc k) p = (if p = 0 then [] else p # free_list m k (get32 m p))"

fun free_path :: "(nat \<Rightarrow> u8) \<Rightarrow> nat \<Rightarrow> nat list \<Rightarrow> bool" where
  "free_path m p [] \<longleftrightarrow> p = 0"
| "free_path m p (x # fs) \<longleftrightarrow> p = x \<and> p \<noteq> 0 \<and> free_path m (get32 m x) fs"

definition pool_free :: "memp_desc \<Rightarrow> memp_state \<Rightarrow> nat list" where
  "pool_free d s = free_list (mbytes s) (num d) (tabs s (tab d))"

definition pool_ok :: "memp_desc \<Rightarrow> memp_state \<Rightarrow> bool" where
  "pool_ok d s \<longleftrightarrow> pool_wf d \<and> (let fs = pool_free d s in
     free_path (mbytes s) (tabs s (tab d)) fs \<and> distinct fs \<and> set fs \<subseteq> set (elements d))"

definition pool_regions :: "memp_desc \<Rightarrow> memp_state \<Rightarrow> (nat \<times> nat) set" where
  "pool_regions d s = (\<lambda>e. (e, elem_size d)) ` (set (elements d) - set (pool_free d s))"

lemma get_put32 [simp]: "get32 (put32 p v m) p = v mod 4294967296"
proof -
  have b: "unat (word_of_nat w :: u8) = w mod 256" for w by (simp add: unsigned_of_nat take_bit_eq_mod)
  have "v mod 4294967296 = v mod 256 + 256 * (v div 256 mod 256) + 65536 * (v div 65536 mod 256) + 16777216 * (v div 16777216 mod 256)"
    using mod_mult2_eq [of v 256 16777216] mod_mult2_eq [of "v div 256" 256 65536] mod_mult2_eq [of "v div 65536" 256 256]
    by (simp add: div_mult2_eq [symmetric])
  then show ?thesis by (simp add: get32_def put32_def b)
qed

lemma get32_outside:
  assumes "\<And>i. p \<le> i \<Longrightarrow> i < p + 4 \<Longrightarrow> m' i = m i"
  shows "get32 m' p = get32 m p"
  using assms by (simp add: get32_def)

lemma put32_outside: "i < p \<or> p + 4 \<le> i \<Longrightarrow> put32 p v m i = m i"
  by (auto simp: put32_def)

lemma free_path_list: "free_path m p fs \<Longrightarrow> length fs \<le> k \<Longrightarrow> free_list m k p = fs"
proof (induction fs arbitrary: p k)
  case Nil
  then show ?case by (cases k) simp_all
next
  case (Cons x fs)
  then show ?case by (cases k) simp_all
qed

lemma elements_props:
  assumes "pool_wf d" "e \<in> set (elements d)"
  shows "e \<noteq> 0" "4 dvd e" "e + elem_size d \<le> 4294967296" "mem_align (base d) \<le> e"
    "e + elem_size d \<le> mem_align (base d) + num d * elem_size d"
proof -
  obtain i where i: "i < num d" "e = mem_align (base d) + i * elem_size d" using assms(2) by (auto simp: elements_def)
  have "Suc i * elem_size d \<le> num d * elem_size d" using i(1) by (intro mult_le_mono1) simp
  then show "e + elem_size d \<le> mem_align (base d) + num d * elem_size d" using i(2) by simp
  then show "e + elem_size d \<le> 4294967296" using assms(1) by (simp add: pool_wf_def)
  have "base d \<le> mem_align (base d)" "4 dvd mem_align (base d)" by (simp_all add: mem_align_def)
  then show "e \<noteq> 0" "4 dvd e" "mem_align (base d) \<le> e" using assms(1) i(2) by (auto simp: pool_wf_def)
qed

lemma elements_apart:
  assumes "e \<in> set (elements d)" "f \<in> set (elements d)" "e \<noteq> f"
  shows "e + elem_size d \<le> f \<or> f + elem_size d \<le> e"
proof -
  obtain i j where ij: "e = mem_align (base d) + i * elem_size d" "f = mem_align (base d) + j * elem_size d"
    using assms(1,2) by (auto simp: elements_def)
  have "Suc i * elem_size d \<le> j * elem_size d \<or> Suc j * elem_size d \<le> i * elem_size d"
    using ij assms(3) mult_le_mono1 [of "Suc i" j "elem_size d"] mult_le_mono1 [of "Suc j" i "elem_size d"] by (cases i j rule: linorder_cases) auto
  then show ?thesis using ij by auto
qed

lemma pool_okI:
  assumes "pool_wf d" "free_path (mbytes s) (tabs s (tab d)) fs" "distinct fs" "set fs \<subseteq> set (elements d)"
  shows "pool_ok d s" "pool_free d s = fs"
proof -
  have "length fs \<le> card (set (elements d))" using assms(3,4) by (metis List.finite_set card_mono distinct_card)
  also have "\<dots> \<le> num d" using card_length [of "elements d"] by (simp add: elements_def)
  finally show fs: "pool_free d s = fs" unfolding pool_free_def by (rule free_path_list [OF assms(2)])
  then show "pool_ok d s" using assms by (simp add: pool_ok_def Let_def)
qed

lemma pool_okD:
  assumes "pool_ok d s"
  shows "pool_wf d" "free_path (mbytes s) (tabs s (tab d)) (pool_free d s)" "distinct (pool_free d s)"
    "set (pool_free d s) \<subseteq> set (elements d)"
  using assms by (simp_all add: pool_ok_def Let_def)

lemma free_path_cong: "(\<And>x. x \<in> set fs \<Longrightarrow> get32 m' x = get32 m x) \<Longrightarrow> free_path m' p fs = free_path m p fs"
  by (induction fs arbitrary: p) auto

lemma elements_distinct: "pool_wf d \<Longrightarrow> distinct (elements d)"
  by (auto simp: elements_def distinct_map inj_on_def pool_wf_def)

lemma malloc_pool_ok:
  assumes ok: "pool_ok d s"
  shows "pool_free d s = [] \<and> do_memp_malloc_pool d s = Some (None, s) \<or>
    (\<exists>e fs s'. pool_free d s = e # fs \<and> do_memp_malloc_pool d s = Some (Some e, s') \<and> mbytes s' = mbytes s \<and>
      tabs s' = (tabs s)(tab d := get32 (mbytes s) e) \<and> pool_ok d s' \<and> pool_free d s' = fs \<and>
      pool_regions d s' = insert (e, elem_size d) (pool_regions d s) \<and> e \<notin> fst ` pool_regions d s)"
proof (cases "pool_free d s")
  case Nil
  then show ?thesis using pool_okD(2) [OF ok] by (simp add: do_memp_malloc_pool_def)
next
  case (Cons e fs)
  note D = pool_okD [OF ok, unfolded Cons]
  define s' where "s' = s\<lparr>tabs := (tabs s)(tab d := get32 (mbytes s) e)\<rparr>"
  have run: "do_memp_malloc_pool d s = Some (Some e, s')"
    using D elements_props(2) [OF D(1), of e] by (auto simp: do_memp_malloc_pool_def s'_def Let_def)
  have "pool_ok d s'" "pool_free d s' = fs" using pool_okI [OF D(1), of s' fs] D by (simp_all add: s'_def)
  then show ?thesis using run D Cons by (auto simp: pool_regions_def s'_def)
qed

text \<open>Putting an element on the list of its pool, and what that means for other pools.\<close>

lemma push_ok:
  assumes ok: "pool_ok d s" and e: "e \<in> set (elements d)" "e \<notin> set (pool_free d s)"
  shows "pool_ok d (push_elem d e s)" "pool_free d (push_elem d e s) = e # pool_free d s"
proof -
  note D = pool_okD [OF ok]
  have head: "tabs s (tab d) < 4294967296"
    using D(2) elements_props(3) [OF D(1)] D(4) D(1) by (cases "pool_free d s") (fastforce simp: pool_wf_def)+
  have "get32 (put32 e v (mbytes s)) x = get32 (mbytes s) x" if "x \<in> set (pool_free d s)" for x v
  proof -
    have "e + elem_size d \<le> x \<or> x + elem_size d \<le> e" using elements_apart [OF e(1), of x] that D(4) e(2) by blast
    then show ?thesis using D(1) by (intro get32_outside put32_outside) (auto simp: pool_wf_def)
  qed
  then have "free_path (put32 e v (mbytes s)) p (pool_free d s) = free_path (mbytes s) p (pool_free d s)" for p v
    by (intro free_path_cong)
  then have "free_path (mbytes (push_elem d e s)) (tabs (push_elem d e s) (tab d)) (e # pool_free d s)"
    using D(2) head elements_props(1) [OF D(1) e(1)] by (simp add: push_elem_def)
  then show "pool_ok d (push_elem d e s)" "pool_free d (push_elem d e s) = e # pool_free d s"
    using pool_okI [OF D(1), of "push_elem d e s" "e # pool_free d s"] D e by simp_all
qed

lemma free_pool_ok:
  assumes ok: "pool_ok d s" and "(e, n) \<in> pool_regions d s"
  shows "do_memp_free_pool d e s = Some (push_elem d e s)" "pool_ok d (push_elem d e s)"
    "pool_free d (push_elem d e s) = e # pool_free d s"
    "pool_regions d (push_elem d e s) = pool_regions d s - {(e, n)}"
proof -
  have e: "e \<in> set (elements d)" "e \<notin> set (pool_free d s)" "n = elem_size d" using assms(2) by (auto simp: pool_regions_def)
  show "do_memp_free_pool d e s = Some (push_elem d e s)"
    using elements_props(2) [OF pool_okD(1) [OF ok] e(1)] by (simp add: do_memp_free_pool_def)
  show "pool_ok d (push_elem d e s)" "pool_free d (push_elem d e s) = e # pool_free d s" using push_ok [OF ok e(1,2)] by simp_all
  then show "pool_regions d (push_elem d e s) = pool_regions d s - {(e, n)}" using e by (auto simp: pool_regions_def)
qed

definition area :: "memp_desc \<Rightarrow> nat set" where
  "area d = {mem_align (base d)..<mem_align (base d) + num d * elem_size d}"

lemma elem_in_area: "pool_wf d \<Longrightarrow> e \<in> set (elements d) \<Longrightarrow> e \<le> i \<Longrightarrow> i < e + elem_size d \<Longrightarrow> i \<in> area d"
  using elements_props(4,5) [of d e] by (auto simp: area_def)

lemma other_pool:
  assumes "pool_ok d' s" "tabs s' (tab d') = tabs s (tab d')" "\<And>i. i \<in> area d' \<Longrightarrow> mbytes s' i = mbytes s i"
  shows "pool_ok d' s'" "pool_free d' s' = pool_free d' s"
proof -
  note D = pool_okD [OF assms(1)]
  have "get32 (mbytes s') x = get32 (mbytes s) x" if "x \<in> set (pool_free d' s)" for x
  proof (rule get32_outside)
    fix i assume "x \<le> i" "i < x + 4"
    then have "i \<in> area d'" using elem_in_area [OF D(1), of x i] that D(1,4) by (auto simp: pool_wf_def)
    then show "mbytes s' i = mbytes s i" by (rule assms(3))
  qed
  then have "free_path (mbytes s') p (pool_free d' s) = free_path (mbytes s) p (pool_free d' s)" for p by (intro free_path_cong)
  then show "pool_ok d' s'" "pool_free d' s' = pool_free d' s" using pool_okI [OF D(1), of s' "pool_free d' s"] D assms(2) by simp_all
qed

interpretation pl: allocator "pool_ok d" "pool_regions d" mbytes "\<lambda>k. do_memp_malloc_pool d" "do_memp_free_pool d"
  "\<lambda>i v s. s\<lparr>mbytes := (mbytes s)(i := v)\<rparr>" "elem_size d" for d
proof
  fix s k
  assume ok: "pool_ok d s"
  show "\<exists>p t. do_memp_malloc_pool d s = Some (p, t)" using malloc_pool_ok [OF ok] by auto
  show "do_memp_malloc_pool d s = Some (None, t) \<Longrightarrow> t = s" for t using malloc_pool_ok [OF ok] by auto
  show "pool_ok d t \<and> (\<exists>n. (k \<le> elem_size d \<longrightarrow> k \<le> n) \<and> pool_regions d t = insert (a, n) (pool_regions d s) \<and> a \<notin> fst ` pool_regions d s) \<and>
      same_bytes (pool_regions d s) (mbytes s) (mbytes t)" if "do_memp_malloc_pool d s = Some (Some a, t)" for a t
    using malloc_pool_ok [OF ok] that by (auto simp: same_bytes_def)
next
  fix s a n
  assume s: "pool_ok d s" "(a, n) \<in> pool_regions d s"
  then have a: "a \<in> set (elements d)" "a \<notin> set (pool_free d s)" "n = elem_size d" by (auto simp: pool_regions_def)
  note wf = pool_okD(1) [OF s(1)]
  have bytes: "mbytes (push_elem d a s) i = mbytes s i" if "i < a \<or> a + elem_size d \<le> i" for i
    using that wf by (auto simp: push_elem_def pool_wf_def intro!: put32_outside)
  have "same_bytes (pool_regions d s - {(a, n)}) (mbytes s) (mbytes (push_elem d a s))"
    unfolding same_bytes_def
  proof (intro allI impI)
    fix b m i
    assume b: "(b, m) \<in> pool_regions d s - {(a, n)}" "i < m"
    then have "b \<in> set (elements d)" "b \<noteq> a" "m = elem_size d" using a(3) by (auto simp: pool_regions_def)
    then show "mbytes (push_elem d a s) (b + i) = mbytes s (b + i)" using elements_apart [OF a(1), of b] b(2) bytes by force
  qed
  then show "\<exists>t. do_memp_free_pool d a s = Some t \<and> pool_ok d t \<and> pool_regions d t = pool_regions d s - {(a, n)} \<and>
      same_bytes (pool_regions d t) (mbytes s) (mbytes t)" using free_pool_ok [OF s] by simp
  show "a + n \<le> b \<or> b + m \<le> a" if "(b, m) \<in> pool_regions d s" "(a, n) \<noteq> (b, m)" for b m
    using that a elements_apart [OF a(1), of b] by (auto simp: pool_regions_def)
  fix i v
  assume i: "a \<le> i" "i < a + n"
  let ?t = "s\<lparr>mbytes := (mbytes s)(i := v)\<rparr>"
  have "get32 (mbytes ?t) x = get32 (mbytes s) x" if "x \<in> set (pool_free d s)" for x
  proof (rule get32_outside)
    fix j assume "x \<le> j" "j < x + 4"
    moreover have "a + elem_size d \<le> x \<or> x + elem_size d \<le> a" using elements_apart [OF a(1), of x] that a(2) pool_okD(4) [OF s(1)] by blast
    ultimately show "mbytes ?t j = mbytes s j" using i a(3) wf by (auto simp: pool_wf_def)
  qed
  then have "free_path (mbytes ?t) p (pool_free d s) = free_path (mbytes s) p (pool_free d s)" for p by (intro free_path_cong)
  then have "pool_ok d ?t" "pool_free d ?t = pool_free d s" using pool_okI [OF wf, of ?t "pool_free d s"] pool_okD [OF s(1)] by simp_all
  then show "pool_ok d ?t \<and> pool_regions d ?t = pool_regions d s \<and> mbytes ?t = (mbytes s)(i := v)" by (simp add: pool_regions_def)
qed

section \<open>All pools\<close>

definition pools_wf :: "memp_desc list \<Rightarrow> bool" where
  "pools_wf ps \<longleftrightarrow> (\<forall>d \<in> set ps. pool_wf d) \<and>
     (\<forall>i < length ps. \<forall>j < length ps. i \<noteq> j \<longrightarrow> tab (ps ! i) \<noteq> tab (ps ! j) \<and> area (ps ! i) \<inter> area (ps ! j) = {})"

definition memp_ok :: "memp_desc list \<Rightarrow> memp_state \<Rightarrow> bool" where
  "memp_ok ps s \<longleftrightarrow> pools_wf ps \<and> (\<forall>d \<in> set ps. pool_ok d s)"

lemma push_frame:
  assumes "pool_wf d" "e \<in> set (elements d)"
  shows "i \<notin> area d \<Longrightarrow> mbytes (push_elem d e s) i = mbytes s i" "t \<noteq> tab d \<Longrightarrow> tabs (push_elem d e s) t = tabs s t"
proof -
  have "i \<notin> area d \<Longrightarrow> i < e \<or> e + 4 \<le> i" using elem_in_area [OF assms, of i] assms(1) by (fastforce simp: pool_wf_def)
  then show "i \<notin> area d \<Longrightarrow> mbytes (push_elem d e s) i = mbytes s i" by (simp add: push_elem_def put32_outside)
qed (simp add: push_elem_def)

lemma init_loop_ok:
  assumes "pool_ok d s" "pool_free d s = rev (take k (elements d))" "k + i = num d"
  shows "pool_ok d (memp_init_loop d i (mem_align (base d) + k * elem_size d) s) \<and>
    pool_free d (memp_init_loop d i (mem_align (base d) + k * elem_size d) s) = rev (elements d) \<and>
    (\<forall>j. j \<notin> area d \<longrightarrow> mbytes (memp_init_loop d i (mem_align (base d) + k * elem_size d) s) j = mbytes s j) \<and>
    (\<forall>t. t \<noteq> tab d \<longrightarrow> tabs (memp_init_loop d i (mem_align (base d) + k * elem_size d) s) t = tabs s t)"
  using assms
proof (induction i arbitrary: k s)
  case 0
  then show ?case by (simp add: elements_def)
next
  case (Suc i)
  let ?e = "mem_align (base d) + k * elem_size d"
  note wf = pool_okD(1) [OF Suc.prems(1)]
  have k: "k < length (elements d)" "elements d ! k = ?e" using Suc.prems(3) by (simp_all add: elements_def)
  then have e: "?e \<in> set (elements d)" using nth_mem by metis
  have tk: "take (Suc k) (elements d) = take k (elements d) @ [?e]" using k by (simp add: take_Suc_conv_app_nth)
  then have "?e \<notin> set (take k (elements d))" using distinct_take [OF elements_distinct [OF wf], of "Suc k"] by auto
  then have "?e \<notin> set (pool_free d s)" using Suc.prems(2) by simp
  note p = push_ok [OF Suc.prems(1) e this]
  have "pool_free d (push_elem d ?e s) = rev (take (Suc k) (elements d))" using p(2) Suc.prems(2) tk by simp
  from Suc.IH [OF p(1) this] Suc.prems(3) show ?case using push_frame [OF wf e] by (simp add: ac_simps)
qed


lemma init_pool_ok:
  assumes "pool_wf d"
  shows "pool_ok d (memp_init_pool d s)" "pool_free d (memp_init_pool d s) = rev (elements d)"
    "j \<notin> area d \<Longrightarrow> mbytes (memp_init_pool d s) j = mbytes s j" "t \<noteq> tab d \<Longrightarrow> tabs (memp_init_pool d s) t = tabs s t"
proof -
  let ?s = "s\<lparr>tabs := (tabs s)(tab d := 0)\<rparr>"
  have "pool_ok d ?s" "pool_free d ?s = []" using pool_okI [OF assms, of ?s "[]"] by simp_all
  then show "pool_ok d (memp_init_pool d s)" "pool_free d (memp_init_pool d s) = rev (elements d)"
    "j \<notin> area d \<Longrightarrow> mbytes (memp_init_pool d s) j = mbytes s j" "t \<noteq> tab d \<Longrightarrow> tabs (memp_init_pool d s) t = tabs s t"
    using init_loop_ok [of d ?s 0 "num d"] by (auto simp: memp_init_pool_def)
qed

lemma pools_wf_snoc:
  assumes "pools_wf (ps @ [d])"
  shows "pools_wf ps" "pool_wf d" "\<forall>d' \<in> set ps. tab d' \<noteq> tab d \<and> area d' \<inter> area d = {}"
proof -
  note wf = assms [unfolded pools_wf_def]
  have get: "(ps @ [d]) ! i = ps ! i" if "i < length ps" for i using that by (simp add: nth_append)
  show "pool_wf d" using wf by simp
  show "pools_wf ps" unfolding pools_wf_def
  proof (intro conjI allI impI)
    fix i j assume ij: "i < length ps" "j < length ps" "i \<noteq> j"
    from conjunct2 [OF wf, rule_format, of i j] show "tab (ps ! i) \<noteq> tab (ps ! j)" "area (ps ! i) \<inter> area (ps ! j) = {}"
      using ij get by simp_all
  qed (use wf in simp)
  show "\<forall>d' \<in> set ps. tab d' \<noteq> tab d \<and> area d' \<inter> area d = {}"
  proof
    fix d' assume "d' \<in> set ps"
    then obtain i where i: "i < length ps" "d' = ps ! i" by (auto simp: in_set_conv_nth)
    show "tab d' \<noteq> tab d \<and> area d' \<inter> area d = {}"
      using conjunct2 [OF wf, rule_format, of i "length ps"] i get [of i] by simp
  qed
qed

lemma memp_init_ok:
  assumes "pools_wf ps"
  shows "memp_ok ps (memp_init ps s) \<and> (\<forall>d \<in> set ps. pool_free d (memp_init ps s) = rev (elements d))"
  using assms
proof (induction ps rule: rev_induct)
  case Nil
  then show ?case by (simp add: memp_ok_def)
next
  case (snoc d ps)
  note wf = pools_wf_snoc [OF snoc.prems]
  let ?s = "memp_init ps s"
  have init: "memp_init (ps @ [d]) s = memp_init_pool d ?s" by (simp add: memp_init_def)
  note IH = snoc.IH [OF wf(1)] and new = init_pool_ok [OF wf(2), where s = ?s]
  have old: "pool_ok d' (memp_init_pool d ?s)" "pool_free d' (memp_init_pool d ?s) = rev (elements d')" if "d' \<in> set ps" for d'
  proof -
    have "pool_ok d' ?s" "pool_free d' ?s = rev (elements d')" using IH that by (auto simp: memp_ok_def)
    moreover have "tab d' \<noteq> tab d" "area d' \<inter> area d = {}" using wf(3) that by auto
    ultimately show "pool_ok d' (memp_init_pool d ?s)" "pool_free d' (memp_init_pool d ?s) = rev (elements d')"
      using other_pool [of d' ?s "memp_init_pool d ?s"] new(3,4) by auto
  qed
  show ?case unfolding init memp_ok_def using snoc.prems new(1,2) old by auto
qed

text \<open>An operation on one pool leaves the others alone.\<close>

lemma other_pools:
  assumes "memp_ok ps s" "t < length ps" "pool_ok (ps ! t) s'" "\<And>i. i \<notin> area (ps ! t) \<Longrightarrow> mbytes s' i = mbytes s i"
    "\<And>k. k \<noteq> tab (ps ! t) \<Longrightarrow> tabs s' k = tabs s k"
  shows "memp_ok ps s'" "u < length ps \<Longrightarrow> u \<noteq> t \<Longrightarrow> pool_free (ps ! u) s' = pool_free (ps ! u) s"
proof -
  have other: "pool_ok (ps ! u) s' \<and> pool_free (ps ! u) s' = pool_free (ps ! u) s" if "u < length ps" "u \<noteq> t" for u
  proof -
    have "pool_ok (ps ! u) s" using assms(1) that(1) by (simp add: memp_ok_def)
    moreover have "tab (ps ! u) \<noteq> tab (ps ! t)" "area (ps ! u) \<inter> area (ps ! t) = {}"
      using assms(1,2) that by (auto simp: memp_ok_def pools_wf_def)
    ultimately show ?thesis using other_pool [of "ps ! u" s s'] assms(4,5) by auto
  qed
  then show "u < length ps \<Longrightarrow> u \<noteq> t \<Longrightarrow> pool_free (ps ! u) s' = pool_free (ps ! u) s" by blast
  have "pool_ok (ps ! u) s'" if "u < length ps" for u using other [OF that] assms(3) by (cases "u = t") auto
  then show "memp_ok ps s'" using assms(1) by (auto simp: memp_ok_def in_set_conv_nth)
qed

lemma pool_count: "pool_ok d s \<Longrightarrow> length (pool_free d s) + card (pool_regions d s) = num d"
proof -
  assume "pool_ok d s"
  note D = pool_okD [OF this]
  have "card (pool_regions d s) = card (set (elements d) - set (pool_free d s))"
    unfolding pool_regions_def by (rule card_image) (simp add: inj_on_def)
  also have "\<dots> = num d - length (pool_free d s)"
    using D(3,4) elements_distinct [OF D(1)] by (simp add: card_Diff_subset distinct_card) (simp add: elements_def)
  finally show ?thesis
    using D(3,4) elements_distinct [OF D(1)] card_mono [OF _ D(4)] by (simp add: distinct_card) (simp add: elements_def)
qed

section \<open>Results of the allocator\<close>

lemma memp_malloc_result:
  assumes "memp_ok ps s" "t < length ps"
  obtains "memp_malloc ps t s = Some (None, s)" "card (pool_regions (ps ! t) s) = num (ps ! t)"
    | e s' where "memp_malloc ps t s = Some (Some e, s')" "card (pool_regions (ps ! t) s) \<noteq> num (ps ! t)" "memp_ok ps s'"
      "mbytes s' = mbytes s" "e \<in> set (elements (ps ! t))" "4 dvd e" "e \<notin> fst ` pool_regions (ps ! t) s"
      "pool_regions (ps ! t) s' = insert (e, elem_size (ps ! t)) (pool_regions (ps ! t) s)"
      "\<forall>u < length ps. u \<noteq> t \<longrightarrow> pool_regions (ps ! u) s' = pool_regions (ps ! u) s"
proof -
  let ?d = "ps ! t"
  have ok: "pool_ok ?d s" using assms by (simp add: memp_ok_def)
  have full: "(card (pool_regions ?d s) = num ?d) = (pool_free ?d s = [])" using pool_count [OF ok] by auto
  have run: "memp_malloc ps t s = do_memp_malloc_pool ?d s" using assms(2) by (simp add: memp_malloc_def)
  consider "pool_free ?d s = []" "do_memp_malloc_pool ?d s = Some (None, s)"
    | e fs s' where "pool_free ?d s = e # fs" "do_memp_malloc_pool ?d s = Some (Some e, s')" "mbytes s' = mbytes s"
      "tabs s' = (tabs s)(tab ?d := get32 (mbytes s) e)" "pool_ok ?d s'"
      "pool_regions ?d s' = insert (e, elem_size ?d) (pool_regions ?d s)" "e \<notin> fst ` pool_regions ?d s"
    using malloc_pool_ok [OF ok] by blast
  then show thesis
  proof cases
    case 1
    then show thesis using that(1) full run by simp
  next
    case 2
    note o = other_pools [OF assms 2(5)]
    have e: "e \<in> set (elements ?d)" using 2(1) pool_okD(4) [OF ok] by simp
    moreover have "4 dvd e" using elements_props(2) [OF pool_okD(1) [OF ok] e] .
    moreover have "memp_ok ps s'" "\<forall>u < length ps. u \<noteq> t \<longrightarrow> pool_regions (ps ! u) s' = pool_regions (ps ! u) s"
      using o 2(3,4) by (auto simp: pool_regions_def)
    ultimately show thesis using that(2) 2 full run by simp
  qed
qed

lemma memp_free_result:
  assumes "memp_ok ps s" "t < length ps" "(e, n) \<in> pool_regions (ps ! t) s"
  shows "memp_free ps t (Some e) s = Some (push_elem (ps ! t) e s)" "memp_ok ps (push_elem (ps ! t) e s)"
    "pool_regions (ps ! t) (push_elem (ps ! t) e s) = pool_regions (ps ! t) s - {(e, n)}"
    "u < length ps \<Longrightarrow> u \<noteq> t \<Longrightarrow> pool_free (ps ! u) (push_elem (ps ! t) e s) = pool_free (ps ! u) s"
proof -
  let ?d = "ps ! t"
  have ok: "pool_ok ?d s" using assms by (simp add: memp_ok_def)
  note f = free_pool_ok [OF ok assms(3)]
  have wf: "pool_wf ?d" and e: "e \<in> set (elements ?d)" using pool_okD(1) [OF ok] assms(3) by (auto simp: pool_regions_def)
  note o = other_pools [OF assms(1,2) f(2) push_frame [OF wf e]]
  show "memp_free ps t (Some e) s = Some (push_elem ?d e s)" using assms(2) f(1) by (simp add: memp_free_def)
  show "memp_ok ps (push_elem ?d e s)" "u < length ps \<Longrightarrow> u \<noteq> t \<Longrightarrow> pool_free (ps ! u) (push_elem ?d e s) = pool_free (ps ! u) s"
    using o by auto
  show "pool_regions ?d (push_elem ?d e s) = pool_regions ?d s - {(e, n)}" using f(4) .
qed

section \<open>Properties\<close>

text \<open>
  C34: \<^verbatim>\<open>memp_malloc\<close> on initialised pools passes its assertion and returns an element of the asked pool
  that nobody holds, without writing to memory or touching another pool, and \<^verbatim>\<open>NULL\<close> exactly when
  all elements of the pool are held; a pool hands out exactly as many elements as it has.
\<close>

theorem memp_malloc_spec:
  assumes "memp_ok ps s" "t < length ps"
  shows "(if card (pool_regions (ps ! t) s) = num (ps ! t) then memp_malloc ps t s = Some (None, s)
    else \<exists>e s'. memp_malloc ps t s = Some (Some e, s') \<and> memp_ok ps s' \<and> mbytes s' = mbytes s \<and> 4 dvd e \<and>
      e \<in> set (elements (ps ! t)) \<and> e \<notin> fst ` pool_regions (ps ! t) s \<and>
      pool_regions (ps ! t) s' = insert (e, elem_size (ps ! t)) (pool_regions (ps ! t) s) \<and>
      (\<forall>u < length ps. u \<noteq> t \<longrightarrow> pool_regions (ps ! u) s' = pool_regions (ps ! u) s))"
  by (rule memp_malloc_result [OF assms]) auto

text \<open>
  An element given back to its pool is the next one that pool hands out, and the exchange
  restores who holds what in every pool and changes no byte of an element in use.
\<close>

theorem memp_free_malloc:
  assumes "memp_ok ps s" "t < length ps" "(e, n) \<in> pool_regions (ps ! t) s"
  shows "\<exists>s1 s2. memp_free ps t (Some e) s = Some s1 \<and> memp_ok ps s1 \<and> pool_regions (ps ! t) s1 = pool_regions (ps ! t) s - {(e, n)} \<and>
    memp_malloc ps t s1 = Some (Some e, s2) \<and> memp_ok ps s2 \<and>
    (\<forall>u < length ps. pool_regions (ps ! u) s2 = pool_regions (ps ! u) s \<and>
      same_bytes (pool_regions (ps ! u) s - {(e, n)}) (mbytes s) (mbytes s2))"
proof -
  let ?d = "ps ! t" and ?s1 = "push_elem (ps ! t) e s"
  have ok: "pool_ok ?d s" using assms by (simp add: memp_ok_def)
  note f = free_pool_ok [OF ok assms(3)]
  have wf: "pool_wf ?d" and e: "e \<in> set (elements ?d)" using pool_okD(1) [OF ok] assms(3) by (auto simp: pool_regions_def)
  note r = memp_free_result [OF assms]
  obtain s2 where s2: "memp_malloc ps t ?s1 = Some (Some e, s2)" "mbytes s2 = mbytes ?s1" "pool_ok ?d s2" "pool_free ?d s2 = pool_free ?d s"
    "tabs s2 = (tabs ?s1)(tab ?d := get32 (mbytes ?s1) e)"
    using malloc_pool_ok [OF f(2)] f(3) assms(2) by (auto simp: memp_malloc_def)
  note o2 = other_pools [OF r(2) assms(2) s2(3)]
  have same: "memp_ok ps s2" "\<forall>u < length ps. pool_free (ps ! u) s2 = pool_free (ps ! u) s"
    using o2 r(4) s2(2,4,5) by (auto simp: nth_eq_iff_index_eq)
  have bytes: "same_bytes (pool_regions (ps ! u) s - {(e, n)}) (mbytes s) (mbytes ?s1)" if u: "u < length ps" for u
  proof (cases "u = t")
    case True
    then show ?thesis using pl.release_ok [OF ok assms(3)] f by (auto simp: f(4))
  next
    case False
    then have d: "area (ps ! u) \<inter> area ?d = {}" and wfu: "pool_wf (ps ! u)" using assms(1,2) u by (auto simp: memp_ok_def pools_wf_def)
    show ?thesis unfolding same_bytes_def
    proof (intro allI impI)
      fix b m i assume "(b, m) \<in> pool_regions (ps ! u) s - {(e, n)}" "i < m"
      then have "b + i \<in> area (ps ! u)" using elem_in_area [OF wfu, of b "b + i"] by (auto simp: pool_regions_def)
      then show "mbytes ?s1 (b + i) = mbytes s (b + i)" using push_frame(1) [OF wf e] d by blast
    qed
  qed
  show ?thesis using r(1-3) s2 same bytes by (intro exI [of _ ?s1] exI [of _ s2]) (simp add: pool_regions_def)
qed

text \<open>
  \<^verbatim>\<open>memp_init\<close> on any memory makes every pool of the table sound, with all of its elements free.
\<close>

theorem memp_init_spec:
  assumes "pools_wf ps"
  shows "memp_ok ps (memp_init ps s) \<and> (\<forall>d \<in> set ps. pool_regions d (memp_init ps s) = {} \<and> length (pool_free d (memp_init ps s)) = num d)"
  using memp_init_ok [OF assms, of s] by (auto simp: pool_regions_def elements_def)

definition two_pools :: "memp_desc list" where
  "two_pools = [\<lparr>elem_size = 8, num = 2, base = 16, tab = 0\<rparr>, \<lparr>elem_size = 12, num = 1, base = 33, tab = 1\<rparr>]"

lemma two_pools_wf: "pools_wf two_pools"
  by (auto simp: pools_wf_def two_pools_def pool_wf_def mem_align_def area_def less_Suc_eq)

definition blank :: memp_state where
  "blank = \<lparr>mbytes = (\<lambda>_. 7), tabs = (\<lambda>_. 1)\<rparr>"

theorem memp_init_spec_witness: "memp_ok two_pools (memp_init two_pools blank)"
  using memp_init_spec [OF two_pools_wf] by blast

theorem memp_malloc_spec_witness: "\<exists>e s. memp_malloc two_pools 0 (memp_init two_pools blank) = Some (Some e, s) \<and> e \<in> {16, 24}"
proof -
  let ?s = "memp_init two_pools blank"
  have "memp_ok two_pools ?s" "pool_regions (two_pools ! 0) ?s = {}"
    using memp_init_ok [OF two_pools_wf, of blank] by (auto simp: pool_regions_def two_pools_def)
  then show ?thesis using memp_malloc_spec [of two_pools ?s 0] by (auto simp: two_pools_def elements_def mem_align_def upt_rec)
qed


theorem memp_free_malloc_witness:
  "\<exists>e s s1 s2. memp_malloc two_pools 0 (memp_init two_pools blank) = Some (Some e, s) \<and> memp_free two_pools 0 (Some e) s = Some s1 \<and>
    memp_malloc two_pools 0 s1 = Some (Some e, s2)"
proof -
  let ?s = "memp_init two_pools blank"
  have ok: "memp_ok two_pools ?s" "pool_ok (two_pools ! 0) ?s" "pool_free (two_pools ! 0) ?s = [24, 16]"
    using memp_init_ok [OF two_pools_wf, of blank]
    by (auto simp: memp_ok_def two_pools_def elements_def mem_align_def upt_rec)
  then obtain s where s: "do_memp_malloc_pool (two_pools ! 0) ?s = Some (Some 24, s)" "mbytes s = mbytes ?s"
    "tabs s = (tabs ?s)(tab (two_pools ! 0) := get32 (mbytes ?s) 24)" "pool_ok (two_pools ! 0) s"
    "(24, elem_size (two_pools ! 0)) \<in> pool_regions (two_pools ! 0) s"
    using malloc_pool_ok [OF ok(2)] by auto
  have t: "0 < length two_pools" by (simp add: two_pools_def)
  have "memp_ok two_pools s" using other_pools(1) [OF ok(1) t s(4)] s(2,3) by auto
  from memp_free_malloc [OF this t s(5)] show ?thesis using s(1) t by (auto simp: memp_malloc_def)
qed

end
