(* ===== verification/Udp.thy ===== *)
theory Udp
  imports Ip4_Addr Memp
begin

text \<open>
  The UDP layer, \<^verbatim>\<open>lwip/src/core/udp.c\<close>, as built: IPv4 only, checksums in software, no UDP-Lite, no
  \<^verbatim>\<open>SO_REUSE\<close>, no multicast options, no broadcast filter. Protocol control blocks live in a store
  indexed by their address, the list \<^verbatim>\<open>udp_pcbs\<close> linked by \<^verbatim>\<open>next\<close> is a list of addresses; they are
  allocated in the memory pools of the theory \<^verbatim>\<open>Memp\<close>. What the lower layers return (\<^verbatim>\<open>ip_route\<close>,
  \<^verbatim>\<open>ip_output_if_src\<close>) and the heap are arguments, what is handed to them is part of the result. A result
  \<open>None\<close> is a failed assertion.
\<close>

section \<open>Data\<close>

record udp_pcb =
  local_ip :: u32
  remote_ip :: u32
  so_options :: u8
  tos :: u8
  ttl :: u8
  flags :: u8
  local_port :: u16
  remote_port :: u16
  recv :: "nat option"
  recv_arg :: nat

text \<open>A callback is the address of its function and its argument.\<close>

record udp_state =
  pcb_at :: "nat \<Rightarrow> udp_pcb"
  udp_pcbs :: "nat list"
  udp_port :: u16

definition UDP_HLEN :: nat where "UDP_HLEN = 8"
definition UDP_FLAGS_NOCHKSUM :: u8 where "UDP_FLAGS_NOCHKSUM = 0x01"
definition UDP_FLAGS_CONNECTED :: u8 where "UDP_FLAGS_CONNECTED = 0x04"
definition UDP_TTL :: u8 where "UDP_TTL = 255"
definition IP_PROTO_UDP :: u8 where "IP_PROTO_UDP = 17"
definition UDP_LOCAL_PORT_RANGE_START :: u16 where "UDP_LOCAL_PORT_RANGE_START = 0xc000"
definition UDP_LOCAL_PORT_RANGE_END :: u16 where "UDP_LOCAL_PORT_RANGE_END = 0xffff"

definition upd_pcb :: "nat \<Rightarrow> (udp_pcb \<Rightarrow> udp_pcb) \<Rightarrow> udp_state \<Rightarrow> udp_state" where
  "upd_pcb a f s = s\<lparr>pcb_at := (pcb_at s)(a := f (pcb_at s a))\<rparr>"

text \<open>The header as stored in the packet: four halfwords, of which three are in network byte order.\<close>

definition hdr_bytes :: "u16 \<Rightarrow> u16 \<Rightarrow> u16 \<Rightarrow> u16 \<Rightarrow> u8 list" where
  "hdr_bytes src dest n chksum = mem16 (lwip_htons src) @ mem16 (lwip_htons dest) @ mem16 (lwip_htons n) @ mem16 chksum"

definition put_hdr :: "u8 list \<Rightarrow> pbuf \<Rightarrow> pbuf" where
  "put_hdr h p = p\<lparr>payload := h @ drop (length h) (payload p)\<rparr>"

definition get16 :: "u8 list \<Rightarrow> nat \<Rightarrow> u16" where
  "get16 d i = load16 (d ! i) (d ! (i + 1))"

section \<open>Ports and control blocks\<close>

text \<open>The argument \<open>k\<close> counts \<^verbatim>\<open>n\<close> down from the size of the range.\<close>

fun new_port_loop :: "u16 list \<Rightarrow> nat \<Rightarrow> u16 \<Rightarrow> u16 \<times> u16" where
  "new_port_loop used k port =
    (let port = (if port = UDP_LOCAL_PORT_RANGE_END then UDP_LOCAL_PORT_RANGE_START else port + 1) in
     if port \<in> set used then (case k of 0 \<Rightarrow> (0, port) | Suc j \<Rightarrow> new_port_loop used j port)
     else (port, port))"

definition local_ports :: "udp_state \<Rightarrow> u16 list" where
  "local_ports s = map (\<lambda>a. local_port (pcb_at s a)) (udp_pcbs s)"

definition udp_new_port :: "udp_state \<Rightarrow> u16 \<times> udp_state" where
  "udp_new_port s =
    (let k = unat (UDP_LOCAL_PORT_RANGE_END - UDP_LOCAL_PORT_RANGE_START)
     in case new_port_loop (local_ports s) k (udp_port s) of (port, ctr) \<Rightarrow> (port, s\<lparr>udp_port := ctr\<rparr>))"

definition udp_bind :: "nat option \<Rightarrow> u32 option \<Rightarrow> u16 \<Rightarrow> udp_state \<Rightarrow> err \<times> udp_state" where
  "udp_bind pcb ipaddr port s =
    (let ipaddr = (case ipaddr of None \<Rightarrow> IPADDR_ANY | Some a \<Rightarrow> a) in
     case pcb of None \<Rightarrow> (ERR_VAL, s)
     | Some pcb \<Rightarrow>
         let
           rebind = (pcb \<in> set (udp_pcbs s));
           bind = (\<lambda>port s.
             let s = upd_pcb pcb (\<lambda>u. u\<lparr>local_ip := ipaddr, local_port := port\<rparr>) s
             in (ERR_OK, if rebind then s else s\<lparr>udp_pcbs := pcb # udp_pcbs s\<rparr>))
         in if port = 0 then
              case udp_new_port s of (port, s) \<Rightarrow> if port = 0 then (ERR_USE, s) else bind port s
            else if \<exists>i \<in> set (udp_pcbs s). i \<noteq> pcb \<and> local_port (pcb_at s i) = port \<and> local_ip (pcb_at s i) = ipaddr
              then (ERR_USE, s)
            else bind port s)"

text \<open>\<^verbatim>\<open>udp_connect\<close> and \<^verbatim>\<open>udp_sendto_if_src\<close> bind a control block that has no port yet.\<close>

definition ensure_bound :: "nat \<Rightarrow> udp_state \<Rightarrow> err \<times> udp_state" where
  "ensure_bound pcb s =
    (if local_port (pcb_at s pcb) = 0
     then udp_bind (Some pcb) (Some (local_ip (pcb_at s pcb))) (local_port (pcb_at s pcb)) s else (ERR_OK, s))"

definition udp_connect :: "nat option \<Rightarrow> u32 option \<Rightarrow> u16 \<Rightarrow> udp_state \<Rightarrow> err \<times> udp_state" where
  "udp_connect pcb ipaddr port s =
    (case (pcb, ipaddr) of
       (Some pcb, Some ipaddr) \<Rightarrow>
         (case ensure_bound pcb s of (err, s) \<Rightarrow>
            if err \<noteq> ERR_OK then (err, s)
            else
              let s = upd_pcb pcb (\<lambda>u. u\<lparr>remote_ip := ipaddr, remote_port := port, flags := flags u OR UDP_FLAGS_CONNECTED\<rparr>) s
              in (ERR_OK, if pcb \<in> set (udp_pcbs s) then s else s\<lparr>udp_pcbs := pcb # udp_pcbs s\<rparr>))
     | _ \<Rightarrow> (ERR_VAL, s))"

definition udp_disconnect :: "nat \<Rightarrow> udp_state \<Rightarrow> udp_state" where
  "udp_disconnect pcb = upd_pcb pcb (\<lambda>u. u\<lparr>remote_ip := IPADDR_ANY, remote_port := 0, flags := flags u AND NOT UDP_FLAGS_CONNECTED\<rparr>)"

definition udp_recv :: "nat \<Rightarrow> nat option \<Rightarrow> nat \<Rightarrow> udp_state \<Rightarrow> udp_state" where
  "udp_recv pcb fn arg = upd_pcb pcb (\<lambda>u. u\<lparr>recv := fn, recv_arg := arg\<rparr>)"

text \<open>The first pool of the build is that of the UDP control blocks (\<^verbatim>\<open>LWIP_RAW\<close> is 0).\<close>

definition MEMP_UDP_PCB :: nat where "MEMP_UDP_PCB = 0"

definition udp_remove :: "memp_desc list \<Rightarrow> nat \<Rightarrow> udp_state \<times> memp_state \<Rightarrow> (udp_state \<times> memp_state) option" where
  "udp_remove memp_pools pcb = (\<lambda>(s, m).
     map_option (\<lambda>m. (s\<lparr>udp_pcbs := remove1 pcb (udp_pcbs s)\<rparr>, m)) (memp_free memp_pools MEMP_UDP_PCB (Some pcb) m))"

definition new_pcb :: udp_pcb where
  "new_pcb = \<lparr>local_ip = 0, remote_ip = 0, so_options = 0, tos = 0, ttl = UDP_TTL, flags = 0,
     local_port = 0, remote_port = 0, recv = None, recv_arg = 0\<rparr>"

definition udp_new :: "memp_desc list \<Rightarrow> udp_state \<times> memp_state \<Rightarrow> (nat option \<times> udp_state \<times> memp_state) option" where
  "udp_new memp_pools = (\<lambda>(s, m).
     case memp_malloc memp_pools MEMP_UDP_PCB m of
       None \<Rightarrow> None
     | Some (None, m) \<Rightarrow> Some (None, s, m)
     | Some (Some pcb, m) \<Rightarrow> Some (Some pcb, upd_pcb pcb (\<lambda>_. new_pcb) s, m))"

definition udp_netif_ip_addr_changed :: "u32 \<Rightarrow> u32 \<Rightarrow> udp_state \<Rightarrow> udp_state" where
  "udp_netif_ip_addr_changed old_addr new_addr s =
    (if old_addr \<noteq> IPADDR_ANY \<and> new_addr \<noteq> IPADDR_ANY then
       s\<lparr>pcb_at := (\<lambda>a. if a \<in> set (udp_pcbs s) \<and> local_ip (pcb_at s a) = old_addr
           then (pcb_at s a)\<lparr>local_ip := new_addr\<rparr> else pcb_at s a)\<rparr>
     else s)"

section \<open>Input\<close>

definition udp_input_local_match :: "udp_pcb \<Rightarrow> netif4 \<Rightarrow> u32 \<Rightarrow> bool \<Rightarrow> bool" where
  "udp_input_local_match pcb inp dest_ip broadcast =
    (if broadcast then
       local_ip pcb = IPADDR_ANY \<or> dest_ip = IPADDR_BROADCAST \<or> ip4_addr_netcmp (local_ip pcb) dest_ip (netmask4 inp)
     else local_ip pcb = IPADDR_ANY \<or> local_ip pcb = dest_ip)"

text \<open>The search for a fully matching control block; on the way, the first unconnected one is kept.\<close>

fun udp_search :: "(nat \<Rightarrow> udp_pcb) \<Rightarrow> (udp_pcb \<Rightarrow> bool) \<Rightarrow> u32 \<Rightarrow> u16 \<Rightarrow> nat list \<Rightarrow> nat option \<Rightarrow> nat option \<times> nat option" where
  "udp_search st loc src_ip src [] uncon = (None, uncon)"
| "udp_search st loc src_ip src (a # as) uncon =
    (if loc (st a) then
       let uncon = (if flags (st a) AND UDP_FLAGS_CONNECTED = 0 \<and> uncon = None then Some a else uncon) in
       if remote_port (st a) = src \<and> (remote_ip (st a) = IPADDR_ANY \<or> remote_ip (st a) = src_ip) then (Some a, uncon)
       else udp_search st loc src_ip src as uncon
     else udp_search st loc src_ip src as uncon)"

text \<open>A full match is moved to the front of the list; without one, the first unconnected match is taken.\<close>

definition udp_find :: "netif4 \<Rightarrow> bool \<Rightarrow> u32 \<Rightarrow> u32 \<Rightarrow> u16 \<Rightarrow> u16 \<Rightarrow> udp_state \<Rightarrow> nat option \<times> udp_state" where
  "udp_find inp broadcast src_ip dest_ip src dest s =
    (let loc = (\<lambda>u. local_port u = dest \<and> udp_input_local_match u inp dest_ip broadcast) in
     case udp_search (pcb_at s) loc src_ip src (udp_pcbs s) None of
       (Some pcb, _) \<Rightarrow> (Some pcb, s\<lparr>udp_pcbs := pcb # remove1 pcb (udp_pcbs s)\<rparr>)
     | (None, uncon) \<Rightarrow> (uncon, s))"

text \<open>
  What becomes of the packet: \<open>Deliver\<close> has the callback, its argument, the control block, the packet and
  its sender, \<open>Port_Unreach\<close> the packet that \<^verbatim>\<open>icmp_port_unreach\<close> gets (it is freed afterwards), and
  \<open>Discard\<close> frees it. The interface \<open>netif\<close> is \<^verbatim>\<open>ip_current_netif()\<close>, which accepted the packet, and \<open>inp\<close> the one
  it came in on.
\<close>

datatype udp_event = Deliver nat nat nat chain u32 u16 | Port_Unreach chain | Discard

definition udp_accept :: "pbuf \<Rightarrow> chain \<Rightarrow> bool \<Rightarrow> u32 \<Rightarrow> u32 \<Rightarrow> u16 \<Rightarrow> nat \<Rightarrow> nat option \<Rightarrow> udp_state \<Rightarrow> udp_event option" where
  "udp_accept ph ps broadcast src_ip dest_ip src ip_hdr_len pcb s =
    (case pbuf_header ph (- int UDP_HLEN) of
       None \<Rightarrow> None
     | Some (r, ph) \<Rightarrow>
         if r \<noteq> 0 then None
         else (case pcb of
             Some a \<Rightarrow> Some (case recv (pcb_at s a) of None \<Rightarrow> Discard
               | Some fn \<Rightarrow> Deliver fn (recv_arg (pcb_at s a)) a (ph # ps) src_ip src)
           | None \<Rightarrow>
               if \<not> broadcast \<and> \<not> ip4_addr_ismulticast dest_ip then
                 map_option (\<lambda>(_, ph). Port_Unreach (ph # ps)) (pbuf_header_force ph (int (ip_hdr_len + UDP_HLEN)))
               else Some Discard))"

definition udp_input :: "chksum \<Rightarrow> (pbuf \<Rightarrow> nat) \<Rightarrow> chain \<Rightarrow> netif4 \<Rightarrow> netif4 \<Rightarrow> u32 \<Rightarrow> u32 \<Rightarrow> nat \<Rightarrow> udp_state \<Rightarrow> (udp_event \<times> udp_state) option" where
  "udp_input LWIP_CHKSUM addr_of p netif inp src_ip dest_ip ip_hdr_len s =
    (case p of [] \<Rightarrow> None
     | ph # ps \<Rightarrow>
       if unat (len ph) < UDP_HLEN then Some (Discard, s)
       else
         let
           broadcast = ip4_addr_isbroadcast_u32 dest_ip netif;
           src = lwip_htons (get16 (payload ph) 0);
           dest = lwip_htons (get16 (payload ph) 2)
         in case udp_find inp broadcast src_ip dest_ip src dest s of (pcb, s) \<Rightarrow>
           if pcb \<noteq> None \<or> ip_addr4 inp = dest_ip then
             if get16 (payload ph) 6 \<noteq> 0 \<and>
                inet_chksum_pseudo LWIP_CHKSUM addr_of p IP_PROTO_UDP (tot_len ph) src_ip dest_ip \<noteq> 0 then Some (Discard, s)
             else map_option (\<lambda>ev. (ev, s)) (udp_accept ph ps broadcast src_ip dest_ip src ip_hdr_len pcb s)
           else Some (Discard, s))"

section \<open>Output\<close>

text \<open>What is handed to \<^verbatim>\<open>ip_output_if_src\<close>: the packet, its addresses, time to live, type of service, protocol
  and interface.\<close>

type_synonym ip_out = "chain \<times> u32 \<times> u32 \<times> u8 \<times> u8 \<times> u8 \<times> netif4"

text \<open>The packet with eight more bytes in front, in its first buffer when there is room, else in a new one.\<close>

definition udp_add_header :: "(u16 \<Rightarrow> u8 list option) \<Rightarrow> pbuf \<Rightarrow> chain \<Rightarrow> chain option option" where
  "udp_add_header mem_malloc ph ps =
    (case pbuf_header ph (int UDP_HLEN) of
       None \<Rightarrow> None
     | Some (r, ph') \<Rightarrow>
         if r \<noteq> 0 then
           (case alloc_ram mem_malloc PBUF_IP (word_of_nat UDP_HLEN) of None \<Rightarrow> Some None
            | Some q \<Rightarrow> Some (Some (if tot_len ph \<noteq> 0 then pbuf_chain q (ph # ps) else q)))
         else Some (Some (ph' # ps)))"

text \<open>
  The result has the error code, what was handed to IP, the state, and the packet of the caller
  afterwards: with the header in front when there was room for it, else as before.
\<close>

definition udp_sendto_if_src :: "chksum \<Rightarrow> (pbuf \<Rightarrow> nat) \<Rightarrow> (u16 \<Rightarrow> u8 list option) \<Rightarrow> (ip_out \<Rightarrow> err) \<Rightarrow>
    nat option \<Rightarrow> chain \<Rightarrow> u32 option \<Rightarrow> u16 \<Rightarrow> netif4 \<Rightarrow> u32 \<Rightarrow> udp_state \<Rightarrow> (err \<times> ip_out option \<times> udp_state \<times> chain) option" where
  "udp_sendto_if_src LWIP_CHKSUM addr_of mem_malloc ip_output pcb p dst_ip dst_port netif src_ip s =
    (case (pcb, dst_ip) of
       (Some a, Some dst_ip) \<Rightarrow>
         (case ensure_bound a s of (err, s) \<Rightarrow>
           if err \<noteq> ERR_OK then Some (err, None, s, p)
           else (case p of [] \<Rightarrow> None | ph # ps \<Rightarrow>
             (case udp_add_header mem_malloc ph ps of
                None \<Rightarrow> None
              | Some None \<Rightarrow> Some (ERR_MEM, None, s, p)
              | Some (Some q) \<Rightarrow>
                  (case q of [] \<Rightarrow> None | qh # qs \<Rightarrow>
                    if unat (len qh) < UDP_HLEN then None
                    else
                      let
                        u = pcb_at s a;
                        q0 = put_hdr (hdr_bytes (local_port u) dst_port (tot_len qh) 0) qh # qs;
                        c = inet_chksum_pseudo LWIP_CHKSUM addr_of q0 IP_PROTO_UDP (tot_len qh) src_ip dst_ip;
                        chksum = (if flags u AND UDP_FLAGS_NOCHKSUM = 0 then if c = 0 then 0xffff else c else 0);
                        q1 = put_hdr (hdr_bytes (local_port u) dst_port (tot_len qh) chksum) qh # qs;
                        out = (q1, src_ip, dst_ip, ttl u, tos u, IP_PROTO_UDP, netif)
                      in Some (ip_output out, Some out, s,
                           if pbuf_header ph (int UDP_HLEN) = Some (0, qh) then q1 else p)))))
     | _ \<Rightarrow> Some (ERR_VAL, None, s, p))"

definition udp_sendto_if :: "chksum \<Rightarrow> (pbuf \<Rightarrow> nat) \<Rightarrow> (u16 \<Rightarrow> u8 list option) \<Rightarrow> (ip_out \<Rightarrow> err) \<Rightarrow>
    nat option \<Rightarrow> chain \<Rightarrow> u32 option \<Rightarrow> u16 \<Rightarrow> netif4 \<Rightarrow> udp_state \<Rightarrow> (err \<times> ip_out option \<times> udp_state \<times> chain) option" where
  "udp_sendto_if LWIP_CHKSUM addr_of mem_malloc ip_output pcb p dst_ip dst_port netif s =
    (case (pcb, dst_ip) of
       (Some a, Some _) \<Rightarrow>
         let l = local_ip (pcb_at s a) in
         if l = IPADDR_ANY \<or> ip4_addr_ismulticast l then
           udp_sendto_if_src LWIP_CHKSUM addr_of mem_malloc ip_output pcb p dst_ip dst_port netif (ip_addr4 netif) s
         else if l \<noteq> ip_addr4 netif then Some (ERR_RTE, None, s, p)
         else udp_sendto_if_src LWIP_CHKSUM addr_of mem_malloc ip_output pcb p dst_ip dst_port netif l s
     | _ \<Rightarrow> Some (ERR_VAL, None, s, p))"

definition udp_sendto :: "chksum \<Rightarrow> (pbuf \<Rightarrow> nat) \<Rightarrow> (u16 \<Rightarrow> u8 list option) \<Rightarrow> (ip_out \<Rightarrow> err) \<Rightarrow> (u32 \<Rightarrow> u32 \<Rightarrow> netif4 option) \<Rightarrow>
    nat option \<Rightarrow> chain \<Rightarrow> u32 option \<Rightarrow> u16 \<Rightarrow> udp_state \<Rightarrow> (err \<times> ip_out option \<times> udp_state \<times> chain) option" where
  "udp_sendto LWIP_CHKSUM addr_of mem_malloc ip_output ip_route pcb p dst_ip dst_port s =
    (case (pcb, dst_ip) of
       (Some a, Some d) \<Rightarrow>
         (case ip_route (local_ip (pcb_at s a)) d of
            None \<Rightarrow> Some (ERR_RTE, None, s, p)
          | Some netif \<Rightarrow> udp_sendto_if LWIP_CHKSUM addr_of mem_malloc ip_output pcb p dst_ip dst_port netif s)
     | _ \<Rightarrow> Some (ERR_VAL, None, s, p))"

definition udp_send :: "chksum \<Rightarrow> (pbuf \<Rightarrow> nat) \<Rightarrow> (u16 \<Rightarrow> u8 list option) \<Rightarrow> (ip_out \<Rightarrow> err) \<Rightarrow> (u32 \<Rightarrow> u32 \<Rightarrow> netif4 option) \<Rightarrow>
    nat option \<Rightarrow> chain \<Rightarrow> udp_state \<Rightarrow> (err \<times> ip_out option \<times> udp_state \<times> chain) option" where
  "udp_send LWIP_CHKSUM addr_of mem_malloc ip_output ip_route pcb p s =
    (case pcb of None \<Rightarrow> Some (ERR_VAL, None, s, p)
     | Some a \<Rightarrow> udp_sendto LWIP_CHKSUM addr_of mem_malloc ip_output ip_route pcb p
         (Some (remote_ip (pcb_at s a))) (remote_port (pcb_at s a)) s)"

end
