(* ===== verification/Udp_Inv.thy ===== *)
theory Udp_Inv
  imports Udp
begin

text \<open>
  What every run of the UDP layer keeps: the list holds exactly the allocated control blocks that have a
  port, each once, and, while no interface takes over an address in use, no two of them have the same local address and port. The search for a free
  port finds one whenever there is one.
\<close>

declare new_port_loop.simps [simp del]

section \<open>Ports\<close>

definition port_after :: "nat \<Rightarrow> u16 \<Rightarrow> u16" where
  "port_after j port = word_of_nat (0xc000 + (unat port - 0xc000 + j) mod 0x4000)"

lemma unat_range: "UDP_LOCAL_PORT_RANGE_START \<le> port \<longleftrightarrow> 0xc000 \<le> unat port"
  by (simp add: UDP_LOCAL_PORT_RANGE_START_def word_le_nat_alt)

lemma unat_port_after: "unat (port_after j port) = 0xc000 + (unat port - 0xc000 + j) mod 0x4000"
proof -
  have "0xc000 + (unat port - 0xc000 + j) mod 0x4000 < 65536" using mod_less_divisor [of "0x4000" "unat port - 0xc000 + j"] by linarith
  then show ?thesis by (simp only: port_after_def unat_of_nat_u16)
qed

lemma port_after_range: "UDP_LOCAL_PORT_RANGE_START \<le> port_after j port"
  by (simp add: unat_range unat_port_after)

lemma port_after_add: "port_after j (port_after k port) = port_after (k + j) port"
  by (simp add: word_unat_eq_iff unat_port_after) (simp add: mod_add_left_eq add.assoc)

lemma port_after_1:
  assumes "UDP_LOCAL_PORT_RANGE_START \<le> port"
  shows "(if port = UDP_LOCAL_PORT_RANGE_END then UDP_LOCAL_PORT_RANGE_START else port + 1) = port_after 1 port"
proof (cases "unat port = 65535")
  case True
  then show ?thesis by (simp add: word_unat_eq_iff UDP_LOCAL_PORT_RANGE_END_def unat_port_after UDP_LOCAL_PORT_RANGE_START_def)
next
  case False
  then have "unat port + 1 < 65536" using unat_u16_bound [of port] by simp
  then have "unat (port + 1) = unat port + 1" by (subst unat_plus) simp_all
  moreover have "(unat port - 49152 + 1) mod 16384 = unat port - 49152 + 1" using \<open>unat port + 1 < 65536\<close> by simp
  ultimately show ?thesis using False assms
    by (simp add: word_unat_eq_iff UDP_LOCAL_PORT_RANGE_END_def unat_port_after unat_range)
qed

lemma new_port_loop_spec:
  assumes "UDP_LOCAL_PORT_RANGE_START \<le> port" "new_port_loop used k port = (r, ctr)"
  shows "UDP_LOCAL_PORT_RANGE_START \<le> ctr \<and>
    (r = 0 \<and> (\<forall>j \<in> {1..Suc k}. port_after j port \<in> set used) \<or> r \<noteq> 0 \<and> r = ctr \<and> r \<notin> set used)"
  using assms
proof (induction k arbitrary: port)
  case 0
  have "port_after 1 port \<noteq> 0" using unat_port_after [of 1 port] by auto
  then show ?case using "0.prems" port_after_range [of 1 port]
    by (auto simp: new_port_loop.simps [of used 0] port_after_1 Let_def split: if_splits)
next
  case (Suc k)
  let ?p = "port_after 1 port"
  have p: "?p \<noteq> 0" "UDP_LOCAL_PORT_RANGE_START \<le> ?p" using unat_port_after [of 1 port] port_after_range by auto
  show ?case
  proof (cases "?p \<in> set used")
    case True
    then have "new_port_loop used k ?p = (r, ctr)" using Suc.prems by (simp add: new_port_loop.simps [of used "Suc k"] port_after_1)
    note IH = Suc.IH [OF p(2) this]
    have "port_after j port \<in> set used" if "r = 0" "j \<in> {1..Suc (Suc k)}" for j
    proof (cases "j = 1")
      case False
      define i where "i = j - 1"
      have "j = 1 + i" "i \<in> {1..Suc k}" using that(2) False by (auto simp: i_def)
      moreover from this have "port_after i ?p \<in> set used" using IH that(1) by blast
      ultimately show ?thesis by (simp add: port_after_add)
    qed (use True in simp)
    then show ?thesis using IH by auto
  next
    case False
    then show ?thesis using Suc.prems p by (auto simp: new_port_loop.simps [of used "Suc k"] port_after_1 Let_def)
  qed
qed

lemma port_after_surj:
  assumes "UDP_LOCAL_PORT_RANGE_START \<le> port" "UDP_LOCAL_PORT_RANGE_START \<le> q"
  shows "\<exists>j \<in> {1..0x4000}. port_after j port = q"
proof -
  define d where "d = (unat q + 0x4000 - unat port) mod 0x4000"
  have b: "unat port < 65536" "unat q < 65536" "0xc000 \<le> unat port" "0xc000 \<le> unat q"
    using assms unat_u16_bound by (auto simp: unat_range)
  let ?j = "if d = 0 then 0x4000 else d"
  have "(unat port - 0xc000 + d) mod 0x4000 = (unat port - 0xc000 + (unat q + 0x4000 - unat port)) mod 0x4000"
    by (simp add: d_def mod_add_right_eq)
  also have "unat port - 0xc000 + (unat q + 0x4000 - unat port) = unat q - 0xc000 + 0x4000" using b by simp
  also have "(unat q - 0xc000 + 0x4000) mod 0x4000 = unat q - 0xc000" by (subst mod_add_self2) (use b in simp)
  finally have "(unat port - 0xc000 + ?j) mod 0x4000 = unat q - 0xc000" by auto
  then have "port_after ?j port = q" using b by (simp add: word_unat_eq_iff unat_port_after)
  moreover have "d < 0x4000" by (simp add: d_def)
  ultimately show ?thesis by (intro bexI [of _ ?j]) auto
qed

lemma udp_new_port_cases:
  assumes "UDP_LOCAL_PORT_RANGE_START \<le> udp_port s" "udp_new_port s = (port, s')"
  shows "\<exists>ctr. s' = s\<lparr>udp_port := ctr\<rparr> \<and> UDP_LOCAL_PORT_RANGE_START \<le> ctr"
    "port = 0 \<longleftrightarrow> {UDP_LOCAL_PORT_RANGE_START..} \<subseteq> set (local_ports s)"
    "port \<noteq> 0 \<Longrightarrow> UDP_LOCAL_PORT_RANGE_START \<le> port \<and> port \<notin> set (local_ports s)"
proof -
  obtain ctr where run: "new_port_loop (local_ports s) 0x3fff (udp_port s) = (port, ctr)" "s' = s\<lparr>udp_port := ctr\<rparr>"
    using assms(2) by (auto simp: udp_new_port_def UDP_LOCAL_PORT_RANGE_START_def UDP_LOCAL_PORT_RANGE_END_def Let_def split: prod.splits)
  note sp = new_port_loop_spec [OF assms(1) run(1)]
  then show "\<exists>ctr. s' = s\<lparr>udp_port := ctr\<rparr> \<and> UDP_LOCAL_PORT_RANGE_START \<le> ctr"
    "port \<noteq> 0 \<Longrightarrow> UDP_LOCAL_PORT_RANGE_START \<le> port \<and> port \<notin> set (local_ports s)" using run(2) by auto
  show "port = 0 \<longleftrightarrow> {UDP_LOCAL_PORT_RANGE_START..} \<subseteq> set (local_ports s)"
  proof
    assume "port = 0"
    then have "\<forall>j \<in> {1..0x4000}. port_after j (udp_port s) \<in> set (local_ports s)" using sp by auto
    then show "{UDP_LOCAL_PORT_RANGE_START..} \<subseteq> set (local_ports s)" using port_after_surj [OF assms(1)] by fastforce
  next
    assume "{UDP_LOCAL_PORT_RANGE_START..} \<subseteq> set (local_ports s)"
    then show "port = 0" using sp by auto
  qed
qed

lemma ports_card: "card {UDP_LOCAL_PORT_RANGE_START..} = 0x4000"
proof -
  have "unat ` {UDP_LOCAL_PORT_RANGE_START..} = {0xc000..<0x10000}"
  proof (intro set_eqI iffI)
    fix n assume n: "n \<in> {0xc000..<0x10000 :: nat}"
    then have "n = unat (word_of_nat n :: u16)" by (simp add: unat_of_nat_u16)
    then show "n \<in> unat ` {UDP_LOCAL_PORT_RANGE_START..}" using n by (intro image_eqI [of _ _ "word_of_nat n"]) (auto simp: unat_range)
  qed (use unat_u16_bound in \<open>auto simp: unat_range\<close>)
  then have "card (unat ` {UDP_LOCAL_PORT_RANGE_START..}) = 0x4000" by simp
  moreover have "inj_on unat {UDP_LOCAL_PORT_RANGE_START..}" by (simp add: inj_on_def word_unat_eq_iff)
  ultimately show ?thesis by (metis card_image)
qed

section \<open>The invariant\<close>

definition held_pcbs :: "memp_desc list \<Rightarrow> memp_state \<Rightarrow> nat set" where
  "held_pcbs memp_pools m = fst ` pool_regions (memp_pools ! MEMP_UDP_PCB) m"

definition local_end :: "udp_state \<Rightarrow> nat \<Rightarrow> u32 \<times> u16" where
  "local_end s a = (local_ip (pcb_at s a), local_port (pcb_at s a))"

text \<open>With \<open>uq\<close> also the uniqueness of local ends, which a change of an address can break.\<close>

definition pcbs_ok :: "bool \<Rightarrow> nat set \<Rightarrow> udp_state \<Rightarrow> bool" where
  "pcbs_ok uq held s \<longleftrightarrow> UDP_LOCAL_PORT_RANGE_START \<le> udp_port s \<and> distinct (udp_pcbs s) \<and>
     set (udp_pcbs s) = {a \<in> held. local_port (pcb_at s a) \<noteq> 0} \<and> (uq \<longrightarrow> inj_on (local_end s) (set (udp_pcbs s)))"

definition udp_ok :: "bool \<Rightarrow> memp_desc list \<Rightarrow> udp_state \<times> memp_state \<Rightarrow> bool" where
  "udp_ok uq memp_pools = (\<lambda>(s, m). memp_pools \<noteq> [] \<and> memp_ok memp_pools m \<and> pcbs_ok uq (held_pcbs memp_pools m) s)"

definition bound_as :: "nat \<Rightarrow> u32 \<Rightarrow> u16 \<Rightarrow> udp_state \<Rightarrow> udp_state" where
  "bound_as pcb ipaddr port s = (upd_pcb pcb (\<lambda>u. u\<lparr>local_ip := ipaddr, local_port := port\<rparr>) s)
     \<lparr>udp_pcbs := if pcb \<in> set (udp_pcbs s) then udp_pcbs s else pcb # udp_pcbs s\<rparr>"

text \<open>A control block other than \<open>pcb\<close> has this local end.\<close>

definition end_taken :: "nat \<Rightarrow> u32 \<Rightarrow> u16 \<Rightarrow> udp_state \<Rightarrow> bool" where
  "end_taken pcb ipaddr port s \<longleftrightarrow> (\<exists>i \<in> set (udp_pcbs s). i \<noteq> pcb \<and> local_end s i = (ipaddr, port))"

lemma new_port_end: "port \<notin> set (local_ports s) \<Longrightarrow> \<not> end_taken pcb ip port s"
  by (auto simp: end_taken_def local_ports_def local_end_def)

lemma pcbs_ok_same_ends:
  assumes "pcbs_ok uq held s" "UDP_LOCAL_PORT_RANGE_START \<le> udp_port s'" "distinct (udp_pcbs s')"
    "set (udp_pcbs s') = set (udp_pcbs s)" "\<And>a. local_end s' a = local_end s a"
  shows "pcbs_ok uq held s'"
proof -
  have "local_port (pcb_at s' a) = local_port (pcb_at s a)" "local_end s' = local_end s" for a
    using assms(5) by (auto simp: local_end_def)
  then show ?thesis using assms(1-4) by (auto simp: pcbs_ok_def)
qed

lemma udp_bind_cases:
  assumes "udp_bind (Some pcb) (Some ipaddr) port s = (err, s')" "UDP_LOCAL_PORT_RANGE_START \<le> udp_port s"
  obtains ctr where "err = ERR_USE" "s' = s\<lparr>udp_port := ctr\<rparr>" "UDP_LOCAL_PORT_RANGE_START \<le> ctr"
      "if port = 0 then {UDP_LOCAL_PORT_RANGE_START..} \<subseteq> set (local_ports s) else end_taken pcb ipaddr port s"
    | ctr q where "err = ERR_OK" "s' = bound_as pcb ipaddr q (s\<lparr>udp_port := ctr\<rparr>)" "UDP_LOCAL_PORT_RANGE_START \<le> ctr"
      "q \<noteq> 0" "\<not> end_taken pcb ipaddr q s" "if port = 0 then UDP_LOCAL_PORT_RANGE_START \<le> q \<and> q \<notin> set (local_ports s) else q = port"
proof (cases "port = 0")
  case True
  obtain q s1 where np: "udp_new_port s = (q, s1)" by fastforce
  note c = udp_new_port_cases [OF assms(2) np]
  then obtain ctr where ctr: "s1 = s\<lparr>udp_port := ctr\<rparr>" "UDP_LOCAL_PORT_RANGE_START \<le> ctr" by blast
  show thesis
  proof (cases "q = 0")
    case q: True
    then show thesis using assms(1) True np ctr c(2) by (intro that(1) [of ctr]) (auto simp: udp_bind_def)
  next
    case q: False
    then show thesis using assms(1) True np ctr c(3) new_port_end [of q s pcb ipaddr]
      by (intro that(2) [of q ctr]) (auto simp: udp_bind_def bound_as_def upd_pcb_def Let_def split: if_splits)
  qed
next
  case False
  have t: "(\<exists>i \<in> set (udp_pcbs s). i \<noteq> pcb \<and> local_port (pcb_at s i) = port \<and> local_ip (pcb_at s i) = ipaddr) = end_taken pcb ipaddr port s"
    by (auto simp: end_taken_def local_end_def)
  have "s = s\<lparr>udp_port := udp_port s\<rparr>" by simp
  then show thesis
  proof (cases "end_taken pcb ipaddr port s")
    case True
    then show thesis using assms False by (intro that(1) [of "udp_port s"]) (simp_all add: udp_bind_def Let_def t)
  next
    case nt: False
    then show thesis using assms False by (intro that(2) [of port "udp_port s"]) (auto simp add: udp_bind_def Let_def t bound_as_def upd_pcb_def)
  qed
qed

lemma bound_as_ok:
  assumes "pcbs_ok uq held s" "pcb \<in> held" "q \<noteq> 0" "\<not> end_taken pcb ipaddr q s"
  shows "pcbs_ok uq held (bound_as pcb ipaddr q s)"
proof -
  let ?s = "bound_as pcb ipaddr q s"
  have e: "local_end ?s a = (if a = pcb then (ipaddr, q) else local_end s a)" for a by (simp add: local_end_def bound_as_def upd_pcb_def)
  have l: "set (udp_pcbs ?s) = insert pcb (set (udp_pcbs s))" by (auto simp: bound_as_def)
  have "uq \<longrightarrow> inj_on (local_end ?s) (set (udp_pcbs ?s))"
    using assms(1,4) unfolding l by (auto simp: inj_on_def e pcbs_ok_def end_taken_def)
  moreover have "set (udp_pcbs ?s) = {a \<in> held. local_port (pcb_at ?s a) \<noteq> 0}"
    using assms(1-3) unfolding l by (auto simp: pcbs_ok_def bound_as_def upd_pcb_def)
  ultimately show ?thesis using assms(1) by (auto simp: pcbs_ok_def bound_as_def upd_pcb_def)
qed

lemma udp_bind_ok:
  assumes "udp_bind (Some pcb) ipaddr port s = (err, s')" "pcbs_ok uq held s" "pcb \<in> held"
  shows "pcbs_ok uq held s'" "err = ERR_OK \<Longrightarrow> pcb \<in> set (udp_pcbs s')"
proof -
  let ?ip = "case ipaddr of None \<Rightarrow> IPADDR_ANY | Some a \<Rightarrow> a"
  have b: "udp_bind (Some pcb) (Some ?ip) port s = (err, s')" using assms(1) by (simp add: udp_bind_def)
  have r: "UDP_LOCAL_PORT_RANGE_START \<le> udp_port s" using assms(2) by (simp add: pcbs_ok_def)
  have ctr: "pcbs_ok uq held (s\<lparr>udp_port := c\<rparr>)" if "UDP_LOCAL_PORT_RANGE_START \<le> c" for c
    using assms(2) that by (intro pcbs_ok_same_ends [OF assms(2)]) (simp_all add: pcbs_ok_def local_end_def)
  have t: "end_taken pcb ip q (s\<lparr>udp_port := c\<rparr>) = end_taken pcb ip q s" for ip q c by (simp add: end_taken_def local_end_def)
  have "pcbs_ok uq held s' \<and> (err = ERR_OK \<longrightarrow> pcb \<in> set (udp_pcbs s'))"
    by (rule udp_bind_cases [OF b r]) (simp_all add: ctr bound_as_ok [OF ctr assms(3)] t, simp add: bound_as_def)
  then show "pcbs_ok uq held s'" "err = ERR_OK \<Longrightarrow> pcb \<in> set (udp_pcbs s')" by blast+
qed

lemma ensure_bound_ok:
  assumes "ensure_bound pcb s = (err, s')" "pcbs_ok uq held s" "pcb \<in> held"
  shows "pcbs_ok uq held s'" "err = ERR_OK \<Longrightarrow> pcb \<in> set (udp_pcbs s')"
  using assms udp_bind_ok [of pcb "Some (local_ip (pcb_at s pcb))" 0 s err s' uq held]
  by (auto simp: ensure_bound_def pcbs_ok_def split: if_splits)

text \<open>An update of a control block that leaves its local end alone, and a reordering of the list.\<close>

lemma upd_pcb_ok:
  assumes "pcbs_ok uq held s" "\<And>u. local_ip (f u) = local_ip u \<and> local_port (f u) = local_port u"
  shows "pcbs_ok uq held (upd_pcb a f s)"
  using assms by (intro pcbs_ok_same_ends [OF assms(1)]) (simp_all add: pcbs_ok_def local_end_def upd_pcb_def)

lemma front_ok:
  assumes "pcbs_ok uq held s" "a \<in> set (udp_pcbs s)"
  shows "pcbs_ok uq held (s\<lparr>udp_pcbs := a # remove1 a (udp_pcbs s)\<rparr>)"
proof (rule pcbs_ok_same_ends [OF assms(1)])
  have "distinct (udp_pcbs s)" using assms(1) by (simp add: pcbs_ok_def)
  then show "distinct (udp_pcbs (s\<lparr>udp_pcbs := a # remove1 a (udp_pcbs s)\<rparr>))"
    "set (udp_pcbs (s\<lparr>udp_pcbs := a # remove1 a (udp_pcbs s)\<rparr>)) = set (udp_pcbs s)" using assms(2) by auto
qed (use assms(1) in \<open>simp_all add: pcbs_ok_def local_end_def\<close>)

lemma udp_connect_ok:
  assumes "udp_connect (Some pcb) ipaddr port s = (err, s')" "pcbs_ok uq held s" "pcb \<in> held"
  shows "pcbs_ok uq held s'"
proof (cases ipaddr)
  case None
  then show ?thesis using assms by (simp add: udp_connect_def)
next
  case (Some ip)
  let ?f = "\<lambda>u. u\<lparr>remote_ip := ip, remote_port := port, flags := flags u OR UDP_FLAGS_CONNECTED\<rparr>"
  obtain e s1 where e: "ensure_bound pcb s = (e, s1)" by fastforce
  note b = ensure_bound_ok [OF e assms(2,3)]
  have "pcbs_ok uq held (upd_pcb pcb ?f s1)" by (rule upd_pcb_ok [OF b(1)]) simp
  then show ?thesis using assms(1) e b Some by (auto simp: udp_connect_def upd_pcb_def Let_def split: if_splits)
qed

lemma udp_disconnect_ok: "pcbs_ok uq held s \<Longrightarrow> pcbs_ok uq held (udp_disconnect pcb s)"
  by (simp add: udp_disconnect_def upd_pcb_ok)

lemma udp_recv_ok: "pcbs_ok uq held s \<Longrightarrow> pcbs_ok uq held (udp_recv pcb fn arg s)"
  by (simp add: udp_recv_def upd_pcb_ok)

lemma udp_addr_changed_ok:
  assumes "pcbs_ok uq held s" "uq \<Longrightarrow> new \<noteq> IPADDR_ANY \<Longrightarrow> \<forall>b\<in>set (udp_pcbs s). local_ip (pcb_at s b) \<noteq> new"
  shows "pcbs_ok uq held (udp_netif_ip_addr_changed old new s)"
proof -
  let ?s = "udp_netif_ip_addr_changed old new s"
  have "local_port (pcb_at ?s a) = local_port (pcb_at s a)" "udp_pcbs ?s = udp_pcbs s" "udp_port ?s = udp_port s" for a
    by (simp_all add: udp_netif_ip_addr_changed_def)
  moreover have "a = b" if "uq" and l: "a \<in> set (udp_pcbs s)" "b \<in> set (udp_pcbs s)" and e: "local_end ?s a = local_end ?s b" for a b
  proof -
    have "local_end s a = local_end s b"
      using assms(2) [OF that(1)] l e by (auto simp: udp_netif_ip_addr_changed_def local_end_def split: if_splits)
    then show ?thesis using assms(1) that(1) l by (auto simp: pcbs_ok_def inj_on_def)
  qed
  ultimately show ?thesis using assms(1) by (simp add: pcbs_ok_def inj_on_def)
qed

lemma search_listed: "udp_search st loc src_ip src as uncon = (Some a, u) \<Longrightarrow> a \<in> set as"
  by (induction as arbitrary: uncon) (auto simp: Let_def split: if_splits)

lemma udp_find_state:
  assumes "udp_find inp broadcast src_ip dest_ip src dest s = (pcb, s')"
  obtains "s' = s" | a where "pcb = Some a" "a \<in> set (udp_pcbs s)" "s' = s\<lparr>udp_pcbs := a # remove1 a (udp_pcbs s)\<rparr>"
  using assms search_listed by (fastforce simp: udp_find_def Let_def split: prod.splits option.splits)

lemma udp_input_ok:
  assumes "udp_input C addr_of p netif inp src_ip dest_ip hl s = Some (ev, s')" "pcbs_ok uq held s"
  shows "pcbs_ok uq held s'"
proof -
  have "s' = s \<or> (\<exists>inp bc src dest. s' = snd (udp_find inp bc src_ip dest_ip src dest s))"
    using assms(1) by (auto simp: udp_input_def Let_def split: list.splits if_splits prod.splits) (metis snd_conv)+
  then show ?thesis using assms(2) front_ok by (metis udp_find_state prod.collapse)
qed


lemma udp_sendto_if_src_ok:
  assumes "udp_sendto_if_src C addr_of mm out (Some pcb) p dst_ip dst_port netif src_ip s = Some (err, o', s', p')"
    "pcbs_ok uq held s" "pcb \<in> held"
  shows "pcbs_ok uq held s'"
proof -
  have "s' = s \<or> s' = snd (ensure_bound pcb s)"
    using assms(1) by (auto simp: udp_sendto_if_src_def Let_def split: list.splits if_splits prod.splits option.splits)
  then show ?thesis using ensure_bound_ok(1) [OF _ assms(2,3)] assms(2) by (metis prod.collapse)
qed

lemma udp_send_ok:
  assumes "udp_send C addr_of mm out route (Some pcb) p s = Some (err, o', s', p')" "pcbs_ok uq held s" "pcb \<in> held"
  shows "pcbs_ok uq held s'"
  using assms udp_sendto_if_src_ok [OF _ assms(2,3)]
  by (auto simp: udp_send_def udp_sendto_def udp_sendto_if_def Let_def split: option.splits if_splits)

section \<open>Runs of the layer\<close>

text \<open>
  The calls that the users of the layer and the layer below it make, in any order and with any
  arguments, on control blocks that are allocated. With \<open>uq\<close> an interface takes no address over that a control block is bound to.
\<close>

inductive udp_step :: "bool \<Rightarrow> memp_desc list \<Rightarrow> udp_state \<times> memp_state \<Rightarrow> udp_state \<times> memp_state \<Rightarrow> bool" for uq memp_pools where
  new: "udp_new memp_pools sm = Some (r, sm') \<Longrightarrow> udp_step uq memp_pools sm sm'"
| remove: "pcb \<in> held_pcbs memp_pools m \<Longrightarrow> udp_remove memp_pools pcb (s, m) = Some sm' \<Longrightarrow> udp_step uq memp_pools (s, m) sm'"
| bind: "pcb \<in> held_pcbs memp_pools m \<Longrightarrow> udp_bind (Some pcb) ipaddr port s = (err, s') \<Longrightarrow> udp_step uq memp_pools (s, m) (s', m)"
| connect: "pcb \<in> held_pcbs memp_pools m \<Longrightarrow> udp_connect (Some pcb) ipaddr port s = (err, s') \<Longrightarrow> udp_step uq memp_pools (s, m) (s', m)"
| disconnect: "udp_step uq memp_pools (s, m) (udp_disconnect pcb s, m)"
| recv: "udp_step uq memp_pools (s, m) (udp_recv pcb fn arg s, m)"
| send: "pcb \<in> held_pcbs memp_pools m \<Longrightarrow> udp_send C addr_of mm out route (Some pcb) p s = Some (err, o', s', p') \<Longrightarrow>
    udp_step uq memp_pools (s, m) (s', m)"
| sendto: "pcb \<in> held_pcbs memp_pools m \<Longrightarrow>
    udp_sendto_if_src C addr_of mm out (Some pcb) p dst_ip dst_port netif src_ip s = Some (err, o', s', p') \<Longrightarrow>
    udp_step uq memp_pools (s, m) (s', m)"
| input: "udp_input C addr_of p netif inp src_ip dest_ip hl s = Some (ev, s') \<Longrightarrow> udp_step uq memp_pools (s, m) (s', m)"
| addr: "(uq \<Longrightarrow> new_addr \<noteq> IPADDR_ANY \<Longrightarrow> \<forall>b\<in>set (udp_pcbs s). local_ip (pcb_at s b) \<noteq> new_addr) \<Longrightarrow>
    udp_step uq memp_pools (s, m) (udp_netif_ip_addr_changed old_addr new_addr s, m)"

lemma udp_new_ok:
  assumes "udp_ok uq memp_pools (s, m)" "udp_new memp_pools (s, m) = Some (r, s', m')"
  shows "udp_ok uq memp_pools (s', m')" "r = Some a \<Longrightarrow> a \<notin> set (udp_pcbs s) \<and> a \<in> held_pcbs memp_pools m'"
proof -
  have ok: "memp_ok memp_pools m" "MEMP_UDP_PCB < length memp_pools" "pcbs_ok uq (held_pcbs memp_pools m) s"
    using assms(1) by (auto simp: udp_ok_def MEMP_UDP_PCB_def)
  have "udp_ok uq memp_pools (s', m') \<and> (r = Some a \<longrightarrow> a \<notin> set (udp_pcbs s) \<and> a \<in> held_pcbs memp_pools m')"
  proof (rule memp_malloc_result [OF ok(1,2)])
    assume "memp_malloc memp_pools MEMP_UDP_PCB m = Some (None, m)"
    then show ?thesis using assms by (simp add: udp_new_def)
  next
    fix e m1 assume m: "memp_malloc memp_pools MEMP_UDP_PCB m = Some (Some e, m1)" "memp_ok memp_pools m1"
      "e \<notin> fst ` pool_regions (memp_pools ! MEMP_UDP_PCB) m"
      "pool_regions (memp_pools ! MEMP_UDP_PCB) m1 = insert (e, elem_size (memp_pools ! MEMP_UDP_PCB)) (pool_regions (memp_pools ! MEMP_UDP_PCB) m)"
    have h: "held_pcbs memp_pools m1 = insert e (held_pcbs memp_pools m)" "e \<notin> held_pcbs memp_pools m"
      using m(3,4) by (auto simp: held_pcbs_def)
    have r: "r = Some e" "s' = upd_pcb e (\<lambda>_. new_pcb) s" "m' = m1" using assms(2) m(1) by (auto simp: udp_new_def)
    have "e \<notin> set (udp_pcbs s)" using h ok(3) by (auto simp: pcbs_ok_def)
    moreover from this have "pcbs_ok uq (insert e (held_pcbs memp_pools m)) (upd_pcb e (\<lambda>_. new_pcb) s)"
      using ok(3) h(2) by (auto simp: pcbs_ok_def upd_pcb_def new_pcb_def local_end_def inj_on_def)
    ultimately show ?thesis using m(2) h r ok(2) by (auto simp: udp_ok_def)
  qed
  then show "udp_ok uq memp_pools (s', m')" "r = Some a \<Longrightarrow> a \<notin> set (udp_pcbs s) \<and> a \<in> held_pcbs memp_pools m'" by blast+
qed

lemma udp_remove_ok:
  assumes "udp_ok uq memp_pools (s, m)" "pcb \<in> held_pcbs memp_pools m"
  shows "\<exists>s' m'. udp_remove memp_pools pcb (s, m) = Some (s', m') \<and> udp_ok uq memp_pools (s', m') \<and>
    held_pcbs memp_pools m' = held_pcbs memp_pools m - {pcb} \<and> set (udp_pcbs s') = set (udp_pcbs s) - {pcb}"
proof -
  let ?d = "memp_pools ! MEMP_UDP_PCB" and ?m = "push_elem (memp_pools ! MEMP_UDP_PCB) pcb m" and ?s = "s\<lparr>udp_pcbs := remove1 pcb (udp_pcbs s)\<rparr>"
  have ok: "memp_ok memp_pools m" "MEMP_UDP_PCB < length memp_pools" "pcbs_ok uq (held_pcbs memp_pools m) s"
    using assms(1) by (auto simp: udp_ok_def MEMP_UDP_PCB_def)
  obtain n where n: "(pcb, n) \<in> pool_regions ?d m" using assms(2) by (auto simp: held_pcbs_def)
  note f = memp_free_result [OF ok(1,2) n]
  have h: "held_pcbs memp_pools ?m = held_pcbs memp_pools m - {pcb}" using f(3) n unfolding held_pcbs_def by (auto simp: pool_regions_def)
  have l: "distinct (udp_pcbs s)" using ok(3) by (simp add: pcbs_ok_def)
  then have "set (udp_pcbs ?s) = set (udp_pcbs s) - {pcb}" "distinct (udp_pcbs ?s)" by simp_all
  moreover have "local_end ?s = local_end s" by (auto simp: local_end_def)
  ultimately have "pcbs_ok uq (held_pcbs memp_pools m - {pcb}) ?s"
    using ok(3) unfolding pcbs_ok_def by (auto intro: inj_on_subset)
  moreover have "memp_pools \<noteq> []" using ok(2) by auto
  ultimately show ?thesis using f(1,2) h l
    by (intro exI [of _ ?s] exI [of _ ?m]) (simp add: udp_remove_def udp_ok_def)
qed

lemma udp_step_ok: "udp_step uq memp_pools sm sm' \<Longrightarrow> udp_ok uq memp_pools sm \<Longrightarrow> udp_ok uq memp_pools sm'"
proof (induction rule: udp_step.induct)
  case (new sm r sm')
  then show ?case using udp_new_ok(1) by (metis prod.collapse)
next
  case (remove pcb m s sm')
  then show ?case using udp_remove_ok by fastforce
next
  case (addr new_addr s m old_addr)
  then show ?case using udp_addr_changed_ok [of uq _ s new_addr old_addr] by (simp add: udp_ok_def)
qed (auto simp: udp_ok_def udp_disconnect_ok udp_recv_ok
    intro: udp_bind_ok(1) udp_connect_ok udp_send_ok udp_sendto_if_src_ok udp_input_ok)

end
