(* ===== verification/Udp_Props.thy ===== *)
theory Udp_Props
  imports Udp_Inv
begin

text \<open>
  The UDP layer is correct: its invariant over all runs, binding, demultiplexing, and the round trip of
  a datagram from one station to the next.
\<close>

section \<open>The header\<close>

lemma length_hdr_bytes [simp]: "length (hdr_bytes src dest n c) = 8"
  by (simp add: hdr_bytes_def mem16_def)

lemma get16_hdr:
  "get16 (hdr_bytes src dest n c @ d) 0 = lwip_htons src" "get16 (hdr_bytes src dest n c @ d) 2 = lwip_htons dest"
  "get16 (hdr_bytes src dest n c @ d) 6 = c"
  by (simp_all add: get16_def hdr_bytes_def mem16_def)

lemma put_hdr_wf:
  assumes "wf_chain (q # qs)" "length h \<le> length (payload q)"
  shows "wf_chain (put_hdr h q # qs)" "bytes (put_hdr h q # qs) = h @ drop (length h) (bytes (q # qs))"
    "tot_len (put_hdr h q) = tot_len q" "length (payload (put_hdr h q)) = length (payload q)"
  using assms by (auto simp: put_hdr_def bytes_def)

section \<open>The checksum field\<close>

context chksum_routine
begin

lemma inet_chksum_ones:
  fixes a b :: nat
  assumes "even (length pre)" "length (pre @ mem16 0 @ post) < 65536" "inet_chksum LWIP_CHKSUM a (pre @ mem16 0 @ post) = 0"
  shows "inet_chksum LWIP_CHKSUM b (pre @ mem16 0xffff @ post) = 0"
proof -
  let ?s = "LWIP_CHKSUM a (pre @ mem16 0 @ post)"
  have "NOT ?s = 0" using assms(3) by (simp add: inet_chksum_def)
  then have "NOT (NOT ?s) = - 1" by simp
  then have "?s = - 1" by (simp only: bit.double_compl)
  then have s: "unat ?s = 65535" by (simp add: unsigned_minus_1_eq_mask mask_eq_exp_minus_1)
  then have "oceq 65535 (sum16 (pre @ mem16 0 @ post))" using assms(2) chk_sum [of "pre @ mem16 0 @ post" a] by simp
  moreover have "sum16 (pre @ mem16 0xffff @ post) = 65535 + sum16 (pre @ mem16 0 @ post)"
    using assms(1) by (simp add: sum16_even_append sum16_mem16)
  ultimately have "oceq (65535 + 65535) (sum16 (pre @ mem16 0xffff @ post))" using oceq_add [OF oceq_refl [of 65535]] by metis
  then have "oceq 65535 (sum16 (pre @ mem16 0xffff @ post))" by (rule oceq_trans [rotated]) (simp add: oceq_def)
  then have "unat (LWIP_CHKSUM b (pre @ mem16 0xffff @ post)) = 65535"
    using assms(2) by (intro chk_unique) (simp_all add: mem16_def)
  then have "LWIP_CHKSUM b (pre @ mem16 0xffff @ post) = - 1"
    by (simp add: word_unat_eq_iff unsigned_minus_1_eq_mask mask_eq_exp_minus_1)
  then show ?thesis by (simp add: inet_chksum_def)
qed

text \<open>A datagram with the checksum of its zeroed header verifies, also where zero is replaced by all ones.\<close>

lemma datagram_verifies:
  fixes src dest n :: u16 and s t :: u32 and addr_of :: "pbuf \<Rightarrow> nat"
  assumes "wf_chain q" "wf_chain q'" "bytes q = hdr_bytes src dest n 0 @ d" "bytes q' = hdr_bytes src dest n c' @ d"
    "length (bytes q) + 12 < 65536"
  defines "c \<equiv> inet_chksum_pseudo LWIP_CHKSUM addr_of q IP_PROTO_UDP n s t"
  assumes "c' = (if c = 0 then 0xffff else c)"
  shows "inet_chksum_pseudo LWIP_CHKSUM addr_of' q' IP_PROTO_UDP n s t = 0"
proof -
  let ?ph = "pseudo_header [(s, t)] IP_PROTO_UDP n" and ?h = "mem16 (lwip_htons src) @ mem16 (lwip_htons dest) @ mem16 (lwip_htons n)"
  have l: "length ?ph = 12" by (simp add: pseudo_header_def mem16_def mem32_def)
  have e: "even (length (?ph @ ?h))" by (simp add: l mem16_def)
  have b: "length (bytes q') = length (bytes q)" using assms(3,4) by simp
  have c: "c = inet_chksum LWIP_CHKSUM 0 ((?ph @ ?h) @ mem16 0 @ d)"
    unfolding c_def inet_chksum_pseudo_def using assms(1,3,5) l
    by (subst pseudo_base_contiguous [OF wf_chain_ok, where a = 0]) (simp_all add: hdr_bytes_def)
  have v: "inet_chksum_pseudo LWIP_CHKSUM addr_of' q' IP_PROTO_UDP n s t = inet_chksum LWIP_CHKSUM 0 ((?ph @ ?h) @ mem16 c' @ d)"
    unfolding inet_chksum_pseudo_def using assms(2,4,5) l b
    by (subst pseudo_base_contiguous [OF wf_chain_ok, where a = 0]) (simp_all add: hdr_bytes_def)
  have len: "length ((?ph @ ?h) @ mem16 0 @ d) < 65536" using assms(3,5) l by (simp add: hdr_bytes_def)
  show ?thesis
    unfolding v assms(7) using inet_chksum_ones [OF e len, of 0 0] inet_chksum_verifies [OF e len, of 0 0] c by simp
qed

end


section \<open>Output\<close>

lemma pbuf_header_room: "0 < n \<Longrightarrow> \<exists>r. pbuf_header p (int n) = Some r \<and> (r = (1, p) \<or> n \<le> length (front p) \<and> r = (0, reveal n p))"
  by (auto simp: pbuf_header_def pbuf_header_impl_def Let_def)

lemma udp_add_header_spec:
  assumes "wf_chain (ph # ps)" "length (bytes (ph # ps)) + 20 < 65536" "heap_ok mem_malloc"
  obtains "udp_add_header mem_malloc ph ps = Some None" "\<forall>r. pbuf_header ph 8 \<noteq> Some (0, r)"
    | qh qs where "udp_add_header mem_malloc ph ps = Some (Some (qh # qs))" "wf_chain (qh # qs)" "8 \<le> length (payload qh)"
      "drop 8 (bytes (qh # qs)) = bytes (ph # ps)" "length (bytes (qh # qs)) = 8 + length (bytes (ph # ps))"
proof -
  obtain r where r: "pbuf_header ph (int 8) = Some r" "r = (1, ph) \<or> 8 \<le> length (front ph) \<and> r = (0, reveal 8 ph)"
    using pbuf_header_room [of 8 ph] by auto
  from r(2) show thesis
  proof
    assume r': "8 \<le> length (front ph) \<and> r = (0, reveal 8 ph)"
    then have "wf_chain (reveal 8 ph # ps)" using header_wf(2) [OF assms(1), of 8] assms(2) by simp
    then show thesis using r r' by (intro that(2) [of "reveal 8 ph" ps]) (auto simp: udp_add_header_def UDP_HLEN_def reveal_def Let_def)
  next
    assume r': "r = (1, ph)"
    show thesis
    proof (cases "alloc_ram mem_malloc PBUF_IP 8")
      case None
      then show thesis using r(1) r' by (intro that(1)) (simp_all add: udp_add_header_def UDP_HLEN_def)
    next
      case (Some q)
      from alloc_ram_spec [OF assms(3) this] obtain h where h: "q = [h]" "wf_chain [h]" "length (payload h) = 8" by auto
      have t: "unat (tot_len ph) = length (bytes (ph # ps))" using assms(1) by simp
      show thesis
      proof (cases "tot_len ph = 0")
        case True
        then have "bytes (ph # ps) = []" using t by simp
        then show thesis using r(1) r' Some h True
          by (intro that(2) [of h "[]"]) (simp_all add: udp_add_header_def UDP_HLEN_def bytes_def)
      next
        case False
        let ?h = "h\<lparr>tot_len := tot_len h + tot_len ph\<rparr>" and ?p = "ph\<lparr>ref := ref ph + 1\<rparr>"
        have "unat (tot_len h + tot_len ph) = unat (tot_len h) + unat (tot_len ph)"
          using h(2,3) t assms(2) by (subst unat_plus) (simp_all add: bytes_def)
        then have "wf_chain (?h # ?p # ps)" using h(2,3) t assms(1) by (simp add: bytes_def)
        then show thesis using r(1) r' Some h False
          by (intro that(2) [of ?h "?p # ps"]) (simp_all add: udp_add_header_def UDP_HLEN_def bytes_def pbuf_chain_def)
      qed
    qed
  qed
qed

text \<open>A packet that is handed to IP has the header in front of the data, and its checksum verifies.\<close>

lemma udp_sendto_packet:
  assumes "udp_sendto_if_src lwip_standard_chksum addr_of mem_malloc out (Some a) p (Some dst_ip) dst_port netif src_ip s =
      Some (err, Some (q, src', dst', t, ts, proto, nif), s', p')"
    "wf_chain p" "length (bytes p) + 20 < 65536" "heap_ok mem_malloc"
  obtains c where "wf_chain q" "bytes q = hdr_bytes (local_port (pcb_at s' a)) dst_port (8 + word_of_nat (length (bytes p))) c @ bytes p"
    "unat (tot_len (hd q)) = 8 + length (bytes p)" "8 \<le> length (payload (hd q))"
    "src' = src_ip" "dst' = dst_ip" "proto = IP_PROTO_UDP" "nif = netif" "t = ttl (pcb_at s' a)" "ts = tos (pcb_at s' a)"
    "c = 0 \<longleftrightarrow> flags (pcb_at s' a) AND UDP_FLAGS_NOCHKSUM \<noteq> 0"
    "c \<noteq> 0 \<Longrightarrow> inet_chksum_pseudo lwip_standard_chksum addr_of' q IP_PROTO_UDP (tot_len (hd q)) src_ip dst_ip = 0"
proof -
  obtain ph ps where p: "p = ph # ps" "ensure_bound a s = (ERR_OK, s')"
    using assms(1) by (auto simp: udp_sendto_if_src_def Let_def split: prod.splits if_splits list.splits option.splits)
  let ?u = "pcb_at s' a"
  show thesis
  proof (rule udp_add_header_spec [OF assms(2-4) [unfolded p(1)]])
    assume "udp_add_header mem_malloc ph ps = Some None"
    then show thesis using assms(1) p by (simp add: udp_sendto_if_src_def)
  next
    fix qh qs assume h: "udp_add_header mem_malloc ph ps = Some (Some (qh # qs))" "wf_chain (qh # qs)" "8 \<le> length (payload qh)"
      "drop 8 (bytes (qh # qs)) = bytes (ph # ps)" "length (bytes (qh # qs)) = 8 + length (bytes (ph # ps))"
    have n: "\<not> unat (len qh) < UDP_HLEN" using h(3) wf_small [OF h(2)] by (simp add: unat_len UDP_HLEN_def)
    have t: "unat (tot_len qh) = 8 + length (bytes p)" using h(2,5) p(1) by simp
    have "tot_len qh = word_of_nat (8 + length (bytes p))" using t assms(3) by (simp only: word_unat_eq_iff unat_of_nat_u16)
    then have tl: "tot_len qh = 8 + word_of_nat (length (bytes p))" by simp
    let ?hdr = "hdr_bytes (local_port ?u) dst_port (tot_len qh)"
    define c0 where "c0 = inet_chksum_pseudo lwip_standard_chksum addr_of (put_hdr (?hdr 0) qh # qs) IP_PROTO_UDP (tot_len qh) src_ip dst_ip"
    define c where "c = (if flags ?u AND UDP_FLAGS_NOCHKSUM = 0 then if c0 = 0 then 0xffff else c0 else 0)"
    have q: "q = put_hdr (?hdr c) qh # qs" and o: "src' = src_ip" "dst' = dst_ip" "proto = IP_PROTO_UDP" "nif = netif" "t = ttl ?u" "ts = tos ?u"
      using assms(1) p h(1) n by (auto simp: udp_sendto_if_src_def Let_def c_def c0_def)
    have w: "wf_chain (put_hdr (?hdr x) qh # qs)" "length (payload (put_hdr (?hdr x) qh)) = length (payload qh)"
      "tot_len (put_hdr (?hdr x) qh) = tot_len qh" for x using put_hdr_wf [OF h(2), of "?hdr x"] h(3) by auto
    have b: "bytes (put_hdr (?hdr x) qh # qs) = ?hdr x @ bytes p" for x using put_hdr_wf(2) [OF h(2), of "?hdr x"] h(3,4) p(1) by simp
    have l: "length (bytes (put_hdr (?hdr 0) qh # qs)) + 12 < 65536" unfolding b using assms(3) by simp
    have cc: "c = (if c0 = 0 then 0xffff else c0)" if "c \<noteq> 0" using that by (simp add: c_def split: if_splits)
    have v: "inet_chksum_pseudo lwip_standard_chksum addr_of' q IP_PROTO_UDP (tot_len (hd q)) src_ip dst_ip = 0" if "c \<noteq> 0"
      unfolding q list.sel w(3) by (rule v2.datagram_verifies [OF w(1) w(1) b b l cc [OF that, unfolded c0_def]])
    have "wf_chain q" "bytes q = hdr_bytes (local_port ?u) dst_port (8 + word_of_nat (length (bytes p))) c @ bytes p"
      unfolding q using w(1) b tl by simp_all
    moreover have "unat (tot_len (hd q)) = 8 + length (bytes p)" "8 \<le> length (payload (hd q))" using w(2,3) t h(3) by (simp_all add: q)
    moreover have "c = 0 \<longleftrightarrow> flags ?u AND UDP_FLAGS_NOCHKSUM \<noteq> 0" by (simp add: c_def)
    ultimately show thesis by (intro that [OF _ _ _ _ o _ v])
  qed
qed


section \<open>Input\<close>

definition local_hit :: "udp_state \<Rightarrow> netif4 \<Rightarrow> bool \<Rightarrow> u32 \<Rightarrow> u16 \<Rightarrow> nat \<Rightarrow> bool" where
  "local_hit s inp broadcast dest_ip dest a \<longleftrightarrow>
     local_port (pcb_at s a) = dest \<and> udp_input_local_match (pcb_at s a) inp dest_ip broadcast"

definition peer_hit :: "udp_state \<Rightarrow> u32 \<Rightarrow> u16 \<Rightarrow> nat \<Rightarrow> bool" where
  "peer_hit s src_ip src a \<longleftrightarrow>
     remote_port (pcb_at s a) = src \<and> (remote_ip (pcb_at s a) = IPADDR_ANY \<or> remote_ip (pcb_at s a) = src_ip)"

definition unconnected :: "udp_state \<Rightarrow> nat \<Rightarrow> bool" where
  "unconnected s a \<longleftrightarrow> flags (pcb_at s a) AND UDP_FLAGS_CONNECTED = 0"

lemma search_find:
  assumes "\<And>a. hit a = loc (st a)" "\<And>a. peer a = (remote_port (st a) = src \<and> (remote_ip (st a) = IPADDR_ANY \<or> remote_ip (st a) = src_ip))"
    "\<And>a. unc a = (flags (st a) AND UDP_FLAGS_CONNECTED = 0)"
  shows "fst (udp_search st loc src_ip src as u) = find (\<lambda>a. hit a \<and> peer a) as"
    "find (\<lambda>a. hit a \<and> peer a) as = None \<Longrightarrow>
      snd (udp_search st loc src_ip src as u) = (if u = None then find (\<lambda>a. hit a \<and> unc a) as else u)"
  by (induction as arbitrary: u) (auto simp: assms Let_def)

lemma udp_find_spec:
  "udp_find inp broadcast src_ip dest_ip src dest s =
    (case find (\<lambda>a. local_hit s inp broadcast dest_ip dest a \<and> peer_hit s src_ip src a) (udp_pcbs s) of
       Some a \<Rightarrow> (Some a, s\<lparr>udp_pcbs := a # remove1 a (udp_pcbs s)\<rparr>)
     | None \<Rightarrow> (find (\<lambda>a. local_hit s inp broadcast dest_ip dest a \<and> unconnected s a) (udp_pcbs s), s))"
proof -
  let ?loc = "\<lambda>u. local_port u = dest \<and> udp_input_local_match u inp dest_ip broadcast"
  note f = search_find [of "local_hit s inp broadcast dest_ip dest" ?loc "pcb_at s" "peer_hit s src_ip src" src src_ip "unconnected s",
    OF local_hit_def peer_hit_def unconnected_def, of "udp_pcbs s" None]
  obtain x y where "udp_search (pcb_at s) ?loc src_ip src (udp_pcbs s) None = (x, y)" by fastforce
  then show ?thesis using f by (auto simp: udp_find_def split: option.splits)
qed

lemma udp_input_cases:
  assumes "wf_chain (ph # ps)" "bytes (ph # ps) = hdr_bytes sp dp n c @ d" "8 \<le> length (payload ph)"
    "c = 0 \<or> inet_chksum_pseudo C addr_of (ph # ps) IP_PROTO_UDP (tot_len ph) src_ip dest_ip = 0"
    "udp_find inp (ip4_addr_isbroadcast_u32 dest_ip netif) src_ip dest_ip sp dp s = (pcb, s')"
  shows "udp_input C addr_of (ph # ps) netif inp src_ip dest_ip hl s =
    (if pcb \<noteq> None \<or> ip_addr4 inp = dest_ip
     then map_option (\<lambda>ev. (ev, s')) (udp_accept ph ps (ip4_addr_isbroadcast_u32 dest_ip netif) src_ip dest_ip sp hl pcb s')
     else Some (Discard, s'))"
proof -
  have "take 8 (payload ph) = hdr_bytes sp dp n c" using arg_cong [OF assms(2), of "take 8"] assms(3) by simp
  then have x: "payload ph = hdr_bytes sp dp n c @ drop 8 (payload ph)" by (metis append_take_drop_id)
  have "\<not> unat (len ph) < UDP_HLEN" using assms(3) wf_small [OF assms(1)] by (simp add: unat_len UDP_HLEN_def)
  moreover have "lwip_htons (get16 (payload ph) 0) = sp" "lwip_htons (get16 (payload ph) 2) = dp" "get16 (payload ph) 6 = c"
    by (subst x, simp add: get16_hdr)+
  ultimately show ?thesis using assms(4,5) by (auto simp: udp_input_def)
qed

lemma udp_accept_hide:
  assumes "wf_chain (ph # ps)" "8 \<le> length (payload ph)"
  shows "pbuf_header ph (- int UDP_HLEN) = Some (0, hide 8 ph)" "wf_chain (hide 8 ph # ps)"
    "bytes (hide 8 ph # ps) = drop 8 (bytes (ph # ps))"
  using assms header_wf(1) [OF assms] wf_small [OF assms(1)]
  by (simp_all add: pbuf_header_def pbuf_header_impl_def UDP_HLEN_def unat_len) (simp_all add: hide_def)

section \<open>Properties\<close>

text \<open>
  C14: Whatever calls are made on allocated control blocks, in any order and with any outcome of the
  allocator, the packets and the layers below, the list \<^verbatim>\<open>udp_pcbs\<close> has exactly the allocated control
  blocks that are bound to a port, each once; \<^verbatim>\<open>udp_new\<close> returns a control block that is not on it, and \<^verbatim>\<open>udp_remove\<close>
  leaves no dangling entry. If, moreover, no interface takes over an address that a control block is bound to (\<open>uq\<close>), no two control
  blocks on the list have the same local address and port.
\<close>

theorem udp_layer_invariant:
  assumes "pools_wf ps" "ps \<noteq> []"
    "(udp_step uq ps)\<^sup>*\<^sup>* (\<lparr>pcb_at = f, udp_pcbs = [], udp_port = UDP_LOCAL_PORT_RANGE_START\<rparr>, memp_init ps m0) (s, m)"
  shows "distinct (udp_pcbs s) \<and> set (udp_pcbs s) = {a \<in> held_pcbs ps m. local_port (pcb_at s a) \<noteq> 0} \<and>
    (uq \<longrightarrow> inj_on (local_end s) (set (udp_pcbs s))) \<and>
    (\<forall>a s' m'. udp_new ps (s, m) = Some (Some a, s', m') \<longrightarrow> a \<notin> set (udp_pcbs s)) \<and>
    (\<forall>a \<in> held_pcbs ps m. \<exists>s' m'. udp_remove ps a (s, m) = Some (s', m') \<and> set (udp_pcbs s') = set (udp_pcbs s) - {a})"
proof -
  let ?s0 = "(\<lparr>pcb_at = f, udp_pcbs = [], udp_port = UDP_LOCAL_PORT_RANGE_START\<rparr>, memp_init ps m0)"
  have "MEMP_UDP_PCB < length ps" using assms(2) by (simp add: MEMP_UDP_PCB_def)
  then have "memp_ok ps (memp_init ps m0)" "held_pcbs ps (memp_init ps m0) = {}"
    using memp_init_ok [OF assms(1), of m0] by (auto simp: held_pcbs_def pool_regions_def)
  then have init: "udp_ok uq ps ?s0" using assms(2) by (simp add: udp_ok_def pcbs_ok_def)
  from assms(3) have "udp_ok uq ps (s, m)" by (induction rule: rtranclp_induct) (auto intro: init udp_step_ok)
  note ok = this
  then have "pcbs_ok uq (held_pcbs ps m) s" by (simp add: udp_ok_def)
  then have 1: "distinct (udp_pcbs s)" "set (udp_pcbs s) = {a \<in> held_pcbs ps m. local_port (pcb_at s a) \<noteq> 0}"
    "uq \<longrightarrow> inj_on (local_end s) (set (udp_pcbs s))" unfolding pcbs_ok_def by blast+
  have 2: "\<forall>a s' m'. udp_new ps (s, m) = Some (Some a, s', m') \<longrightarrow> a \<notin> set (udp_pcbs s)" using udp_new_ok(2) [OF ok] by blast
  have 3: "\<forall>a \<in> held_pcbs ps m. \<exists>s' m'. udp_remove ps a (s, m) = Some (s', m') \<and> set (udp_pcbs s') = set (udp_pcbs s) - {a}"
    using udp_remove_ok [OF ok] by blast
  show ?thesis by (intro conjI 1 2 3)
qed

text \<open>
  C16: \<^verbatim>\<open>udp_bind\<close> of an allocated control block fails, with \<^verbatim>\<open>ERR_USE\<close> and no effect, exactly when a port is
  given and another control block has this address and port. Otherwise the control block has the
  address and the given port, or for port 0 a port of the dynamic range that no control block has,
  it is on the list, and no other control block has changed.
\<close>

theorem udp_bind_spec:
  assumes "udp_ok uq ps (s, m)" "pcb \<in> held_pcbs ps m" "num (ps ! MEMP_UDP_PCB) < 0x4000"
    "udp_bind (Some pcb) (Some ipaddr) port s = (err, s')"
  shows "if port \<noteq> 0 \<and> end_taken pcb ipaddr port s then err = ERR_USE \<and> s' = s
    else err = ERR_OK \<and> (\<exists>q. local_end s' pcb = (ipaddr, q) \<and> (if port = 0 then 0xc000 \<le> q \<and> q \<notin> set (local_ports s) else q = port)) \<and>
      set (udp_pcbs s') = insert pcb (set (udp_pcbs s)) \<and> (\<forall>a. a \<noteq> pcb \<longrightarrow> pcb_at s' a = pcb_at s a)"
proof -
  have ok: "pcbs_ok uq (held_pcbs ps m) s" "pool_ok (ps ! MEMP_UDP_PCB) m" using assms(1) by (auto simp: udp_ok_def memp_ok_def MEMP_UDP_PCB_def)
  have fin: "finite (pool_regions (ps ! MEMP_UDP_PCB) m)" by (simp add: pool_regions_def)
  have "set (local_ports s) = (\<lambda>a. local_port (pcb_at s a)) ` set (udp_pcbs s)" by (simp add: local_ports_def)
  also have "card \<dots> \<le> card (held_pcbs ps m)"
    using ok(1) fin by (intro order.trans [OF card_image_le card_mono]) (auto simp: pcbs_ok_def held_pcbs_def)
  also have "\<dots> \<le> num (ps ! MEMP_UDP_PCB)"
    using card_image_le [OF fin, of fst] pool_count [OF ok(2)] by (simp add: held_pcbs_def)
  finally have few: "card (set (local_ports s)) < card {UDP_LOCAL_PORT_RANGE_START..}" using assms(3) by (simp add: ports_card)
  have r: "UDP_LOCAL_PORT_RANGE_START \<le> udp_port s" using ok(1) by (simp add: pcbs_ok_def)
  show ?thesis
  proof (rule udp_bind_cases [OF assms(4) r])
    fix ctr assume e: "err = ERR_USE" "s' = s\<lparr>udp_port := ctr\<rparr>"
      "if port = 0 then {UDP_LOCAL_PORT_RANGE_START..} \<subseteq> set (local_ports s) else end_taken pcb ipaddr port s"
    have "port \<noteq> 0" using e(3) few card_mono [of "set (local_ports s)" "{UDP_LOCAL_PORT_RANGE_START..}"] by (auto split: if_splits)
    moreover have "s' = s" using assms(4) calculation e(1,3) by (auto simp: udp_bind_def Let_def split: if_splits)
    ultimately show ?thesis using e by simp
  next
    fix ctr q assume e: "err = ERR_OK" "s' = bound_as pcb ipaddr q (s\<lparr>udp_port := ctr\<rparr>)" "\<not> end_taken pcb ipaddr q s"
      "if port = 0 then UDP_LOCAL_PORT_RANGE_START \<le> q \<and> q \<notin> set (local_ports s) else q = port"
    then have "\<not> (port \<noteq> 0 \<and> end_taken pcb ipaddr port s)" by (auto split: if_splits)
    then show ?thesis using e by (auto simp: bound_as_def upd_pcb_def local_end_def UDP_LOCAL_PORT_RANGE_START_def split: if_splits)
  qed
qed


text \<open>
  C15: A datagram whose checksum verifies, or that has none, goes to the first control block of the list that matches its destination and
  its sender, and without one to the first unconnected control block that matches its destination: its
  callback gets the payload and the sender. Without such a control block it is answered with a port
  unreachable message that quotes it from the IP header on when it is addressed to the interface itself, and dropped otherwise. A full match
  moves to the front of the list; nothing else changes.
\<close>

theorem udp_input_demux:
  fixes s :: udp_state and netif inp :: netif4
  assumes "wf_chain (ph # ps)" "bytes (ph # ps) = hdr_bytes sp dp n c @ d" "8 \<le> length (payload ph)" "0 < hl" "hl \<le> length (front ph)"
    "c = 0 \<or> inet_chksum_pseudo C addr_of (ph # ps) IP_PROTO_UDP (tot_len ph) src_ip dest_ip = 0"
  defines "bc \<equiv> ip4_addr_isbroadcast_u32 dest_ip netif"
  defines "full \<equiv> find (\<lambda>a. local_hit s inp bc dest_ip dp a \<and> peer_hit s src_ip sp a) (udp_pcbs s)"
    and "open \<equiv> find (\<lambda>a. local_hit s inp bc dest_ip dp a \<and> unconnected s a) (udp_pcbs s)"
  shows "\<exists>q u. wf_chain q \<and> bytes q = d \<and> bytes u = drop (length (front ph) - hl) (front ph) @ bytes (ph # ps) \<and>
    udp_input C addr_of (ph # ps) netif inp src_ip dest_ip hl s = Some
      (case (if full = None then open else full) of
         Some a \<Rightarrow> (case recv (pcb_at s a) of None \<Rightarrow> Discard | Some fn \<Rightarrow> Deliver fn (recv_arg (pcb_at s a)) a q src_ip sp)
       | None \<Rightarrow> if ip_addr4 inp = dest_ip \<and> \<not> bc \<and> \<not> ip4_addr_ismulticast dest_ip then Port_Unreach u else Discard,
       case full of None \<Rightarrow> s | Some a \<Rightarrow> s\<lparr>udp_pcbs := a # remove1 a (udp_pcbs s)\<rparr>)"
proof -
  note h = udp_accept_hide [OF assms(1,3)]
  let ?q = "hide 8 ph # ps" and ?u = "reveal (hl + 8) (hide 8 ph) # ps"
  have f: "udp_find inp bc src_ip dest_ip sp dp s = (if full = None then open else full,
      case full of None \<Rightarrow> s | Some a \<Rightarrow> s\<lparr>udp_pcbs := a # remove1 a (udp_pcbs s)\<rparr>)"
    unfolding udp_find_spec full_def open_def by (simp split: option.split)
  have u: "pbuf_header_force (hide 8 ph) (int (hl + UDP_HLEN)) = Some (0, reveal (hl + 8) (hide 8 ph))"
    using assms(3,5) by (simp add: pbuf_header_force_def pbuf_header_impl_def UDP_HLEN_def hide_def nat_add_distrib)
  have "bytes ?u = drop (length (front ph) - hl) (front ph) @ bytes (ph # ps)"
    using assms(3,5) by (simp add: reveal_def hide_def Let_def)
  moreover have "bytes ?q = d" unfolding h(3) assms(2) by simp
  moreover have "udp_input C addr_of (ph # ps) netif inp src_ip dest_ip hl s = Some
      (case (if full = None then open else full) of
         Some a \<Rightarrow> (case recv (pcb_at s a) of None \<Rightarrow> Discard | Some fn \<Rightarrow> Deliver fn (recv_arg (pcb_at s a)) a ?q src_ip sp)
       | None \<Rightarrow> if ip_addr4 inp = dest_ip \<and> \<not> bc \<and> \<not> ip4_addr_ismulticast dest_ip then Port_Unreach ?u else Discard,
       case full of None \<Rightarrow> s | Some a \<Rightarrow> s\<lparr>udp_pcbs := a # remove1 a (udp_pcbs s)\<rparr>)"
    unfolding udp_input_cases [OF assms(1-3,6) f [unfolded bc_def]]
    using h(1) u by (auto simp: udp_accept_def bc_def split: option.splits)
  ultimately show ?thesis using h(2) by blast
qed

text \<open>
  What one station sends the other receives: whenever \<^verbatim>\<open>udp_sendto_if_src\<close> hands a packet to IP,
  \<^verbatim>\<open>udp_input\<close> of a station that gets this packet with the same addresses, and has a control block with
  a callback for it, calls that callback with exactly the bytes that were sent and the address and port of the sender, whatever
  the checksum turns out to be (a sum of zero is sent as 0xffff) and with checksums switched off.
\<close>

theorem udp_roundtrip:
  assumes "udp_sendto_if_src lwip_standard_chksum addr_of mem_malloc out (Some a) p (Some dst_ip) dst_port netif src_ip s =
      Some (err, Some (q, src', dst', t, ts, proto, nif), s', p')"
    "wf_chain p" "length (bytes p) + 20 < 65536" "heap_ok mem_malloc"
    "udp_find inp (ip4_addr_isbroadcast_u32 dst_ip netif2) src_ip dst_ip (local_port (pcb_at s' a)) dst_port r = (Some b, r')"
    "recv (pcb_at r b) = Some fn"
  shows "proto = IP_PROTO_UDP \<and> (\<exists>d. wf_chain d \<and> bytes d = bytes p \<and>
    udp_input lwip_standard_chksum addr_of' q netif2 inp src' dst' hl r =
      Some (Deliver fn (recv_arg (pcb_at r b)) b d src' (local_port (pcb_at s' a)), r'))"
proof (rule udp_sendto_packet [OF assms(1-4), of addr_of'])
  fix c assume q: "wf_chain q" "bytes q = hdr_bytes (local_port (pcb_at s' a)) dst_port (8 + word_of_nat (length (bytes p))) c @ bytes p"
    "8 \<le> length (payload (hd q))" "src' = src_ip" "dst' = dst_ip" "proto = IP_PROTO_UDP"
    "c \<noteq> 0 \<Longrightarrow> inet_chksum_pseudo lwip_standard_chksum addr_of' q IP_PROTO_UDP (tot_len (hd q)) src_ip dst_ip = 0"
  obtain ph ps where qs: "q = ph # ps" using q(2) by (cases q) (auto simp: hdr_bytes_def mem16_def)
  have wf: "wf_chain (ph # ps)" "bytes (ph # ps) = hdr_bytes (local_port (pcb_at s' a)) dst_port (8 + word_of_nat (length (bytes p))) c @ bytes p"
    "8 \<le> length (payload ph)" "c = 0 \<or> inet_chksum_pseudo lwip_standard_chksum addr_of' (ph # ps) IP_PROTO_UDP (tot_len ph) src_ip dst_ip = 0"
    using q(1-3,7) unfolding qs by (auto simp del: wf_chain.simps)
  have "pcb_at r' = pcb_at r" using assms(5) by (auto elim!: udp_find_state)
  moreover have "bytes (hide 8 ph # ps) = bytes p" unfolding udp_accept_hide(3) [OF wf(1,3)] wf(2) by simp
  ultimately show ?thesis unfolding qs q(4,5) udp_input_cases [OF wf assms(5)]
    using udp_accept_hide(1,2) [OF wf(1,3)] assms(6) q(6)
    by (intro conjI exI [of _ "hide 8 ph # ps"]) (simp_all add: udp_accept_def)
qed


section \<open>Witnesses\<close>

text \<open>A board with one control block, bound to port 8080 of any address, with a callback.\<close>

definition board :: udp_state where
  "board = \<lparr>pcb_at = (\<lambda>_. new_pcb\<lparr>local_port := 8080, recv := Some 1\<rparr>), udp_pcbs = [16], udp_port = UDP_LOCAL_PORT_RANGE_START\<rparr>"

definition eth0 :: netif4 where
  "eth0 = \<lparr>can_broadcast = True, netif_is_up = True, netif_is_link_up = True, ip_addr4 = 0x6600a8c0, netmask4 = 0x00ffffff, gw4 = 0x6400a8c0, mtu = 1500\<rparr>"

definition ping :: chain where
  "ping = [\<lparr>front = replicate 44 0, payload = [1, 2, 3], tot_len = 3, ptype = PBUF_RAM, pflags = 0, ref = 1\<rparr>]"

lemma board_find: "udp_find eth0 bc src dst sp 8080 board = (Some 16, board)" if "sp \<noteq> 0" "dst = 0x6600a8c0 \<or> \<not> bc"
  using that by (auto simp: udp_find_def board_def new_pcb_def udp_input_local_match_def IPADDR_ANY_def)

theorem udp_roundtrip_witness:
  "\<exists>q s' p' d. udp_sendto_if_src lwip_standard_chksum (\<lambda>_. 0) (\<lambda>_. None) (\<lambda>_. ERR_OK) (Some 16) ping (Some 0x6600a8c0) 8080 eth0 0x6500a8c0 board =
      Some (ERR_OK, Some (q, 0x6500a8c0, 0x6600a8c0, 255, 0, IP_PROTO_UDP, eth0), s', p') \<and>
    udp_input lwip_standard_chksum (\<lambda>_. 1) q eth0 eth0 0x6500a8c0 0x6600a8c0 20 board = Some (Deliver 1 0 16 d 0x6500a8c0 8080, board) \<and>
    bytes d = [1, 2, 3]"
proof -
  obtain q p' where s: "udp_sendto_if_src lwip_standard_chksum (\<lambda>_. 0) (\<lambda>_. None) (\<lambda>_. ERR_OK) (Some 16) ping (Some 0x6600a8c0) 8080 eth0 0x6500a8c0 board =
      Some (ERR_OK, Some (q, 0x6500a8c0, 0x6600a8c0, 255, 0, IP_PROTO_UDP, eth0), board, p')"
    by (simp add: udp_sendto_if_src_def ping_def ensure_bound_def board_def new_pcb_def udp_add_header_def pbuf_header_def pbuf_header_impl_def
        UDP_HLEN_def reveal_def len_def UDP_TTL_def Let_def)
  have "wf_chain ping" "length (bytes ping) + 20 < 65536" "heap_ok (\<lambda>_. None)" "bytes ping = [1, 2, 3]"
    by (simp_all add: ping_def heap_ok_def bytes_def)
  moreover have "udp_find eth0 (ip4_addr_isbroadcast_u32 0x6600a8c0 eth0) 0x6500a8c0 0x6600a8c0 (local_port (pcb_at board 16)) 8080 board = (Some 16, board)"
    by (rule board_find) (simp_all add: board_def)
  moreover have "recv (pcb_at board 16) = Some 1" "recv_arg (pcb_at board 16) = 0" "local_port (pcb_at board 16) = 8080"
    by (simp_all add: board_def new_pcb_def)
  ultimately show ?thesis using udp_roundtrip [OF s, of eth0 eth0 board 16 board 1 "\<lambda>_. 1" 20] s by auto
qed


definition power_up :: udp_state where
  "power_up = \<lparr>pcb_at = (\<lambda>_. new_pcb), udp_pcbs = [], udp_port = UDP_LOCAL_PORT_RANGE_START\<rparr>"

lemma first_pcb:
  obtains a m where "udp_new two_pools (power_up, memp_init two_pools blank) = Some (Some a, power_up, m)"
    "udp_ok True two_pools (power_up, m)" "a \<in> held_pcbs two_pools m"
proof -
  let ?m = "memp_init two_pools blank"
  have i: "memp_ok two_pools ?m" "MEMP_UDP_PCB < length two_pools" "pool_regions (two_pools ! MEMP_UDP_PCB) ?m = {}"
    using memp_init_ok [OF two_pools_wf, of blank] by (auto simp: two_pools_def MEMP_UDP_PCB_def pool_regions_def)
  then have ok: "udp_ok True two_pools (power_up, ?m)" by (auto simp: udp_ok_def pcbs_ok_def held_pcbs_def power_up_def two_pools_def)
  have n: "num (two_pools ! MEMP_UDP_PCB) = 2" by (simp add: two_pools_def MEMP_UDP_PCB_def)
  have same: "upd_pcb a (\<lambda>_. new_pcb) power_up = power_up" for a by (simp add: upd_pcb_def power_up_def fun_upd_def)
  show thesis
  proof (rule memp_malloc_result [OF i(1,2)])
    fix e m' assume "memp_malloc two_pools MEMP_UDP_PCB ?m = Some (Some e, m')"
    then have run: "udp_new two_pools (power_up, ?m) = Some (Some e, power_up, m')" by (simp add: udp_new_def same)
    then show thesis using udp_new_ok [OF ok run] that by blast
  qed (use i n in auto)
qed

theorem udp_bind_spec_witness:
  "\<exists>a m err s. udp_ok True two_pools (power_up, m) \<and> udp_bind (Some a) (Some 0) 0 power_up = (err, s) \<and> err = ERR_OK \<and> 0xc000 \<le> snd (local_end s a)"
proof -
  obtain a m where f: "udp_ok True two_pools (power_up, m)" "a \<in> held_pcbs two_pools m" by (rule first_pcb)
  obtain err s where b: "udp_bind (Some a) (Some 0) 0 power_up = (err, s)" by fastforce
  have "num (two_pools ! MEMP_UDP_PCB) < 0x4000" by (simp add: two_pools_def MEMP_UDP_PCB_def)
  from udp_bind_spec [OF f this b] show ?thesis using f b by (intro exI [of _ a] exI [of _ m] exI [of _ err] exI [of _ s]) auto
qed

theorem udp_layer_invariant_witness:
  "\<exists>a m s. (udp_step True two_pools)\<^sup>*\<^sup>* (power_up, memp_init two_pools blank) (s, m) \<and> udp_pcbs s = [a] \<and>
    local_end s a = (0, 8080) \<and> set (udp_pcbs s) = {a \<in> held_pcbs two_pools m. local_port (pcb_at s a) \<noteq> 0}"
proof -
  obtain a m where f: "udp_new two_pools (power_up, memp_init two_pools blank) = Some (Some a, power_up, m)" "a \<in> held_pcbs two_pools m" by (rule first_pcb)
  define s where "s = bound_as a 0 8080 power_up"
  have "udp_bind (Some a) (Some 0) 8080 power_up = (ERR_OK, s)"
    by (simp add: s_def udp_bind_def power_up_def bound_as_def upd_pcb_def)
  from udp_step.bind [where uq = True, OF f(2) this] udp_step.new [where uq = True, OF f(1)]
  have run: "(udp_step True two_pools)\<^sup>*\<^sup>* (power_up, memp_init two_pools blank) (s, m)" by simp
  have s: "udp_pcbs s = [a]" "local_end s a = (0, 8080)"
    by (simp_all add: s_def bound_as_def power_up_def upd_pcb_def local_end_def)
  have "two_pools \<noteq> []" by (simp add: two_pools_def)
  from udp_layer_invariant [OF two_pools_wf this run [unfolded power_up_def]] show ?thesis
    using run s by blast
qed

theorem udp_input_demux_witness:
  "\<exists>q. udp_input lwip_standard_chksum (\<lambda>_. 0)
      [\<lparr>front = replicate 20 0, payload = hdr_bytes 99 8080 9 0 @ [7], tot_len = 9, ptype = PBUF_POOL, pflags = 0, ref = 1\<rparr>]
      eth0 eth0 0x6500a8c0 0x6600a8c0 20 board = Some (Deliver 1 0 16 q 0x6500a8c0 99, board) \<and> bytes q = [7]"
proof -
  let ?ph = "\<lparr>front = replicate 20 (0 :: u8), payload = hdr_bytes 99 8080 9 0 @ [7], tot_len = 9, ptype = PBUF_POOL, pflags = 0, ref = 1\<rparr>"
  have "wf_chain [?ph]" "bytes [?ph] = hdr_bytes 99 8080 9 0 @ [7]" "8 \<le> length (payload ?ph)" "0 < (20 :: nat)" "20 \<le> length (front ?ph)"
    by (simp_all add: bytes_def)
  from udp_input_demux [OF this, where C = lwip_standard_chksum and addr_of = "\<lambda>_. 0" and src_ip = "0x6500a8c0" and dest_ip = "0x6600a8c0"
      and s = board and netif = eth0 and inp = eth0]
  show ?thesis by (auto simp: board_def new_pcb_def local_hit_def peer_hit_def unconnected_def udp_input_local_match_def IPADDR_ANY_def)
qed

end
