(* ===== verification/Ip4.thy ===== *)
theory Ip4
  imports Udp_Props
begin

text \<open>
  The IPv4 layer, \<^verbatim>\<open>lwip/src/core/ipv4/ip4.c\<close>, as built: no forwarding, options accepted but not sent, no IGMP,
  AutoIP, loopback or raw sockets, DHCP enabled, header checksums computed inline. Interfaces are a
  store indexed by address and the list \<^verbatim>\<open>netif_list\<close>. Reassembly (\<^verbatim>\<open>ip4_reass\<close>) is an argument; packets handed
  to the interface or to \<^verbatim>\<open>ip4_frag\<close> are part of the result, what these return is an argument. A result \<open>None\<close> is a failed assertion or a read outside the
  first buffer.
\<close>

section \<open>Data\<close>

record netifs =
  netif_at :: "nat \<Rightarrow> netif4"
  netif_list :: "nat list"
  netif_default :: "nat option"

definition IP_HLEN :: nat where "IP_HLEN = 20"
definition IP_MF :: u16 where "IP_MF = 0x2000"
definition IP_OFFMASK :: u16 where "IP_OFFMASK = 0x1fff"
definition IP_PROTO_ICMP :: u8 where "IP_PROTO_ICMP = 1"
definition IP_PROTO_TCP :: u8 where "IP_PROTO_TCP = 6"
definition DHCP_CLIENT_PORT :: u16 where "DHCP_CLIENT_PORT = 68"

text \<open>The header as stored, halfwords and addresses as they are in memory.\<close>

definition ip_hdr :: "u8 \<Rightarrow> u8 \<Rightarrow> u16 \<Rightarrow> u16 \<Rightarrow> u16 \<Rightarrow> u8 \<Rightarrow> u8 \<Rightarrow> u16 \<Rightarrow> u32 \<Rightarrow> u32 \<Rightarrow> u8 list" where
  "ip_hdr v_hl ip_tos n ident off ip_ttl proto chksum src dest =
    [v_hl, ip_tos] @ mem16 n @ mem16 ident @ mem16 off @ [ip_ttl, proto] @ mem16 chksum @ mem32 src @ mem32 dest"

definition get_addr :: "u8 list \<Rightarrow> nat \<Rightarrow> u32" where
  "get_addr d i = load32 (d ! i) (d ! (i + 1)) (d ! (i + 2)) (d ! (i + 3))"

section \<open>Routing\<close>

definition usable :: "netif4 \<Rightarrow> bool" where
  "usable n \<longleftrightarrow> netif_is_up n \<and> netif_is_link_up n \<and> ip_addr4 n \<noteq> IPADDR_ANY"

fun route_loop :: "(nat \<Rightarrow> netif4) \<Rightarrow> u32 \<Rightarrow> nat list \<Rightarrow> nat option" where
  "route_loop at dest [] = None"
| "route_loop at dest (n # ns) =
    (if usable (at n) \<and> (ip4_addr_netcmp dest (ip_addr4 (at n)) (netmask4 (at n)) \<or> \<not> can_broadcast (at n) \<and> dest = gw4 (at n))
     then Some n else route_loop at dest ns)"

definition ip4_route :: "netifs \<Rightarrow> u32 \<Rightarrow> nat option" where
  "ip4_route ns dest =
    (case route_loop (netif_at ns) dest (netif_list ns) of
       Some n \<Rightarrow> Some n
     | None \<Rightarrow> (case netif_default ns of None \<Rightarrow> None | Some d \<Rightarrow> if usable (netif_at ns d) then Some d else None))"

section \<open>Input\<close>

definition accepts :: "u32 \<Rightarrow> netif4 \<Rightarrow> bool" where
  "accepts dest n \<longleftrightarrow> netif_is_up n \<and> ip_addr4 n \<noteq> IPADDR_ANY \<and> (dest = ip_addr4 n \<or> ip4_addr_isbroadcast_u32 dest n)"

fun match_loop :: "(nat \<Rightarrow> netif4) \<Rightarrow> u32 \<Rightarrow> nat \<Rightarrow> nat list \<Rightarrow> nat option" where
  "match_loop at dest inp [] = None"
| "match_loop at dest inp (n # ns) =
    (if n = inp then match_loop at dest inp ns else if accepts dest (at n) then Some n else match_loop at dest inp ns)"

definition match_netif :: "netifs \<Rightarrow> u32 \<Rightarrow> nat \<Rightarrow> nat option" where
  "match_netif ns dest inp =
    (let i = netif_at ns inp in
     if ip4_addr_ismulticast dest then if netif_is_up i \<and> ip_addr4 i \<noteq> IPADDR_ANY then Some inp else None
     else if accepts dest i then Some inp
     else if ip4_addr_isloopback dest then None
     else match_loop (netif_at ns) dest inp (netif_list ns))"

text \<open>
  What becomes of a packet: dropped, kept for reassembly, handed to the upper layer of its protocol
  (with the interface that accepted it, the one it came in on, its addresses and the length of its IP header), or
  answered with a protocol unreachable message.
\<close>

datatype ip_event = Ip_Drop | Ip_Wait | To_Upper u8 chain netif4 netif4 u32 u32 nat | Proto_Unreach chain

definition ip4_deliver :: "netif4 \<Rightarrow> netif4 \<Rightarrow> u32 \<Rightarrow> u32 \<Rightarrow> nat \<Rightarrow> chain \<Rightarrow> ip_event option" where
  "ip4_deliver netif inp src dest iphdr_hlen p =
    (case p of [] \<Rightarrow> None
     | ph # ps \<Rightarrow>
       if length (payload ph) < IP_HLEN then None
       else
         let proto = payload ph ! 9; tot = unat (payload ph ! 0 AND 0x0f) * 4
         in (case pbuf_header ph (- int iphdr_hlen) of None \<Rightarrow> None
             | Some (_, ph) \<Rightarrow>
                 if proto = IP_PROTO_UDP \<or> proto = IP_PROTO_TCP \<or> proto = IP_PROTO_ICMP
                 then Some (To_Upper proto (ph # ps) netif inp src dest tot)
                 else if \<not> ip4_addr_isbroadcast_u32 dest netif \<and> \<not> ip4_addr_ismulticast dest
                 then map_option (\<lambda>(_, ph). Proto_Unreach (ph # ps)) (pbuf_header_force ph (int iphdr_hlen))
                 else Some Ip_Drop))"

text \<open>The header checks: \<open>Inl\<close> for a packet that is dropped, else the trimmed packet and the length of its header.\<close>

definition ip4_check :: "chksum \<Rightarrow> (pbuf \<Rightarrow> nat) \<Rightarrow> chain \<Rightarrow> (unit + pbuf \<times> chain \<times> nat) option" where
  "ip4_check LWIP_CHKSUM addr_of p =
    (case p of [] \<Rightarrow> None
     | ph # ps \<Rightarrow>
       if length (payload ph) < 4 then None
       else if drop_bit 4 (payload ph ! 0) \<noteq> 4 then Some (Inl ())
       else
         let iphdr_hlen = unat (payload ph ! 0 AND 0x0f) * 4; iphdr_len = lwip_htons (get16 (payload ph) 2)
         in (case (if iphdr_len < tot_len ph then pbuf_realloc p iphdr_len else Some (p, [])) of
               Some (ph # ps, _) \<Rightarrow>
                 if iphdr_hlen > unat (len ph) \<or> iphdr_len > tot_len ph \<or> iphdr_hlen < IP_HLEN then Some (Inl ())
                 else if inet_chksum LWIP_CHKSUM (addr_of ph) (take iphdr_hlen (payload ph)) \<noteq> 0 then Some (Inl ())
                 else Some (Inr (ph, ps, iphdr_hlen))
             | _ \<Rightarrow> None))"

definition ip4_input :: "chksum \<Rightarrow> (pbuf \<Rightarrow> nat) \<Rightarrow> (chain \<Rightarrow> chain option) \<Rightarrow> netifs \<Rightarrow> nat \<Rightarrow> chain \<Rightarrow> ip_event option" where
  "ip4_input LWIP_CHKSUM addr_of ip4_reass ns inp p =
    (case ip4_check LWIP_CHKSUM addr_of p of
       None \<Rightarrow> None
     | Some (Inl _) \<Rightarrow> Some Ip_Drop
     | Some (Inr (ph, ps, iphdr_hlen)) \<Rightarrow>
         let
           hdr = payload ph; dest = get_addr hdr 16; src = get_addr hdr 12; i = netif_at ns inp;
           netif = match_netif ns dest inp; probe = (netif = None \<and> hdr ! 9 = IP_PROTO_UDP)
         in if probe \<and> length hdr < iphdr_hlen + 4 then None
            else
              let
                dhcp = (probe \<and> get16 hdr (iphdr_hlen + 2) = lwip_htons DHCP_CLIENT_PORT);
                netif = (if dhcp then Some inp else netif)
              in if \<not> dhcp \<and> src \<noteq> IPADDR_ANY \<and> (ip4_addr_isbroadcast_u32 src i \<or> ip4_addr_ismulticast src) then Some Ip_Drop
                 else (case netif of None \<Rightarrow> Some Ip_Drop
                   | Some n \<Rightarrow>
                       if get16 hdr 6 AND lwip_htons (IP_OFFMASK OR IP_MF) \<noteq> 0 then
                         (case ip4_reass (ph # ps) of None \<Rightarrow> Some Ip_Wait
                          | Some p \<Rightarrow> ip4_deliver (netif_at ns n) i src dest iphdr_hlen p)
                       else ip4_deliver (netif_at ns n) i src dest iphdr_hlen (ph # ps)))"

section \<open>Output\<close>

text \<open>The header checksum, added up while the header is written.\<close>

definition ip4_chksum_inline :: "u8 \<Rightarrow> u8 \<Rightarrow> u32 \<Rightarrow> u8 \<Rightarrow> u8 \<Rightarrow> u16 \<Rightarrow> u16 \<Rightarrow> u32 \<Rightarrow> u16" where
  "ip4_chksum_inline proto ip_ttl dest ip_tos v_hl n ident src =
    (let
       chk_sum = 0 + (ucast (lwip_htons (ucast proto OR push_bit 8 (ucast ip_ttl))) :: u32);
       chk_sum = chk_sum + (dest AND 0xffff);
       chk_sum = chk_sum + drop_bit 16 dest;
       chk_sum = chk_sum + ucast (lwip_htons (ucast ip_tos OR push_bit 8 (ucast v_hl)));
       chk_sum = chk_sum + ucast n;
       chk_sum = chk_sum + ucast ident;
       chk_sum = chk_sum + (src AND 0xffff);
       chk_sum = chk_sum + drop_bit 16 src;
       chk_sum = drop_bit 16 chk_sum + (chk_sum AND 0xffff);
       chk_sum = drop_bit 16 chk_sum + chk_sum
     in ucast (NOT chk_sum))"

datatype ip_sent = To_Link chain u32 | To_Frag chain u32

definition ip4_send :: "(ip_sent \<Rightarrow> err) \<Rightarrow> netif4 \<Rightarrow> chain \<Rightarrow> u32 \<Rightarrow> err \<times> ip_sent option" where
  "ip4_send below netif p dest =
    (let out = (if mtu netif \<noteq> 0 \<and> tot_len (hd p) > mtu netif then To_Frag p dest else To_Link p dest) in (below out, Some out))"

text \<open>\<^verbatim>\<open>LWIP_IP_HDRINCL\<close> is \<^verbatim>\<open>NULL\<close>: without a destination the packet has its header already. The last result is the next \<^verbatim>\<open>ip_id\<close>.\<close>

definition ip4_output_if_src :: "(ip_sent \<Rightarrow> err) \<Rightarrow> chain \<Rightarrow> u32 option \<Rightarrow> u32 option \<Rightarrow> u8 \<Rightarrow> u8 \<Rightarrow> u8 \<Rightarrow> netif4 \<Rightarrow> u16 \<Rightarrow>
    ((err \<times> ip_sent option) \<times> u16) option" where
  "ip4_output_if_src below p src dest ip_ttl ip_tos proto netif ip_id =
    (case p of [] \<Rightarrow> None
     | ph # ps \<Rightarrow>
       if ref ph \<noteq> 1 then None
       else (case dest of
           Some dest \<Rightarrow>
             (case pbuf_header ph (int IP_HLEN) of None \<Rightarrow> None
              | Some (r, qh) \<Rightarrow>
                  if r \<noteq> 0 then Some ((ERR_BUF, None), ip_id)
                  else if unat (len qh) < IP_HLEN then None
                  else
                    let
                      v_hl = push_bit 4 4 OR word_of_nat (IP_HLEN div 4);
                      n = lwip_htons (tot_len qh);
                      ident = lwip_htons ip_id;
                      src = (case src of None \<Rightarrow> IPADDR_ANY | Some a \<Rightarrow> a);
                      chksum = ip4_chksum_inline proto ip_ttl dest ip_tos v_hl n ident src
                    in Some (ip4_send below netif (put_hdr (ip_hdr v_hl ip_tos n ident 0 ip_ttl proto chksum src dest) qh # ps) dest, ip_id + 1))
         | None \<Rightarrow>
             if length (payload ph) < IP_HLEN then None
             else Some (ip4_send below netif p (get_addr (payload ph) 16), ip_id)))"

definition ip4_output_if :: "(ip_sent \<Rightarrow> err) \<Rightarrow> chain \<Rightarrow> u32 option \<Rightarrow> u32 option \<Rightarrow> u8 \<Rightarrow> u8 \<Rightarrow> u8 \<Rightarrow> netif4 \<Rightarrow> u16 \<Rightarrow>
    ((err \<times> ip_sent option) \<times> u16) option" where
  "ip4_output_if below p src dest ip_ttl ip_tos proto netif ip_id =
    (let src_used = (if dest \<noteq> None \<and> (src = None \<or> src = Some IPADDR_ANY) then Some (ip_addr4 netif) else src)
     in ip4_output_if_src below p src_used dest ip_ttl ip_tos proto netif ip_id)"

definition ip4_output :: "(ip_sent \<Rightarrow> err) \<Rightarrow> netifs \<Rightarrow> chain \<Rightarrow> u32 option \<Rightarrow> u32 \<Rightarrow> u8 \<Rightarrow> u8 \<Rightarrow> u8 \<Rightarrow> u16 \<Rightarrow>
    ((err \<times> ip_sent option) \<times> u16) option" where
  "ip4_output below ns p src dest ip_ttl ip_tos proto ip_id =
    (case p of [] \<Rightarrow> None
     | ph # _ \<Rightarrow>
       if ref ph \<noteq> 1 then None
       else (case ip4_route ns dest of
           None \<Rightarrow> Some ((ERR_RTE, None), ip_id)
         | Some n \<Rightarrow> ip4_output_if below p src (Some dest) ip_ttl ip_tos proto (netif_at ns n) ip_id))"

end
