(* ===== verification/Ip4_Hdr.thy ===== *)
theory Ip4_Hdr
  imports Ip4
begin

text \<open>
  The IPv4 header: reading back what was written, and the checksum that is added up while the header is
  written, which is the Internet checksum of the header for every checksum routine.
\<close>

section \<open>The header\<close>

lemma length_ip_hdr [simp]: "length (ip_hdr v_hl ts n i off life proto c src dest) = 20"
  by (simp add: ip_hdr_def mem16_def mem32_def)

lemma load32_mem32 [simp]:
  "load32 (ucast w) (ucast (drop_bit 8 w)) (ucast (drop_bit 16 w)) (ucast (drop_bit 24 w)) = w"
proof -
  have w: "unat w < 2 ^ 32" using unsigned_less [of w] by simp
  have "unat w mod 65536 = unat w mod 256 + 256 * (unat w div 256 mod 256)" using mod_mult2_eq [of "unat w" 256 256] by simp
  moreover have "unat w div 65536 mod 256 + 256 * (unat w div 16777216 mod 256) = unat w div 65536"
    using w mod_mult2_eq [of "unat w div 65536" 256 256] by (simp add: div_mult2_eq [symmetric])
  moreover have "unat w mod 65536 + 65536 * (unat w div 65536) = unat w" by simp
  ultimately show ?thesis using w
    by (simp only: word_unat_eq_iff unat_load32 unat_load16 unat_drop_bit unat_ucast_u8) simp
qed

lemma ip_hdr_fields:
  "(ip_hdr v_hl ts n i off life proto c src dest @ d) ! 0 = v_hl" "get16 (ip_hdr v_hl ts n i off life proto c src dest @ d) 2 = n"
  "get16 (ip_hdr v_hl ts n i off life proto c src dest @ d) 6 = off" "(ip_hdr v_hl ts n i off life proto c src dest @ d) ! 9 = proto"
  "get_addr (ip_hdr v_hl ts n i off life proto c src dest @ d) 12 = src" "get_addr (ip_hdr v_hl ts n i off life proto c src dest @ d) 16 = dest"
  by (simp_all add: ip_hdr_def get16_def get_addr_def mem16_def mem32_def)

lemma sum16_ip_hdr:
  "sum16 (ip_hdr v_hl ts n i off life proto c src dest @ d) = unat v_hl + 256 * unat ts + unat n + unat i + unat off +
    unat life + 256 * unat proto + unat c + sum16 (mem32 src) + sum16 (mem32 dest) + sum16 d"
  by (simp add: ip_hdr_def sum16_mem16 sum16_mem32_append)

lemma htons_pair: "unat (lwip_htons (ucast (lo :: u8) OR push_bit 8 (ucast (hi :: u8)))) = unat hi + 256 * unat lo"
proof -
  have "take_bit 8 (ucast lo :: u16) = ucast lo" by (rule bit_eqI) (auto simp: bit_simps dest: bit_imp_le_length)
  then have "ucast lo OR push_bit 8 (ucast hi) = (push_bit 8 (ucast hi) + ucast lo :: u16)"
    using or_disjoint [of 8 "ucast hi :: u16" "ucast lo"] by (simp add: or.commute)
  moreover have "unat (push_bit 8 (ucast hi) :: u16) = 256 * unat hi"
    using unat_u8_bound [of hi] unfolding unsigned_push_bit_eq by (simp add: push_bit_eq_mult take_bit_nat_eq_self)
  moreover from this have "unat (push_bit 8 (ucast hi) + ucast lo :: u16) = 256 * unat hi + unat lo"
    using unat_u8_bound [of hi] unat_u8_bound [of lo] by (subst unat_plus) simp_all
  ultimately show ?thesis using unat_u8_bound [of hi] unat_u8_bound [of lo] by (simp add: unat_htons)
qed

lemma fold_unmasked:
  assumes "unat w \<le> 0x1fffe"
  shows "ucast (drop_bit 16 w + w) = (ucast (FOLD_U32T w) :: u16)"
proof -
  have "unat (drop_bit 16 w + w) = unat w div 65536 + unat w" using assms by (subst unat_plus) (auto simp: unat_drop_bit)
  then show ?thesis by (simp only: word_unat_eq_iff unat_ucast_down unat_fold mod_add_right_eq)
qed

lemma unat_add_32: "unat (a :: u32) \<le> x \<Longrightarrow> unat b \<le> 65535 \<Longrightarrow> x \<le> 1000000 \<Longrightarrow> unat (a + b) = unat a + unat b \<and> unat (a + b) \<le> x + 65535"
  by (subst unat_plus, simp_all, subst unat_plus, simp_all)

lemma unat_sum_32:
  fixes a b c d e f g h :: u32
  assumes "unat a < 65536" "unat b < 65536" "unat c < 65536" "unat d < 65536" "unat e < 65536" "unat f < 65536" "unat g < 65536" "unat h < 65536"
  shows "unat (0 + a + b + c + d + e + f + g + h) = unat a + unat b + unat c + unat d + unat e + unat f + unat g + unat h"
proof -
  have 1: "unat (0 + a) \<le> 65535" using assms(1) by simp
  have 2: "unat (0 + a + b) = unat a + unat b \<and> unat (0 + a + b) \<le> 131070" using unat_add_32 [OF 1, of b] assms(2) by simp
  have 3: "unat (0 + a + b + c) = unat a + unat b + unat c \<and> unat (0 + a + b + c) \<le> 196605" using unat_add_32 [of "0 + a + b" 131070 c] 2 assms(3) by simp
  have 4: "unat (0 + a + b + c + d) = unat a + unat b + unat c + unat d \<and> unat (0 + a + b + c + d) \<le> 262140"
    using unat_add_32 [of "0 + a + b + c" 196605 d] 3 assms(4) by simp
  have 5: "unat (0 + a + b + c + d + e) = unat a + unat b + unat c + unat d + unat e \<and> unat (0 + a + b + c + d + e) \<le> 327675"
    using unat_add_32 [of "0 + a + b + c + d" 262140 e] 4 assms(5) by simp
  have 6: "unat (0 + a + b + c + d + e + f) = unat a + unat b + unat c + unat d + unat e + unat f \<and> unat (0 + a + b + c + d + e + f) \<le> 393210"
    using unat_add_32 [of "0 + a + b + c + d + e" 327675 f] 5 assms(6) by simp
  have 7: "unat (0 + a + b + c + d + e + f + g) = unat a + unat b + unat c + unat d + unat e + unat f + unat g \<and>
      unat (0 + a + b + c + d + e + f + g) \<le> 458745"
    using unat_add_32 [of "0 + a + b + c + d + e + f" 393210 g] 6 assms(7) by simp
  show ?thesis using unat_add_32 [of "0 + a + b + c + d + e + f + g" 458745 h] 7 assms(8) by simp
qed

lemma unat_low_high:
  "unat (w AND 0xffff) = unat w mod 65536" "unat (drop_bit 16 w) = unat w div 65536"
  for w :: u32
  unfolding and_masks unsigned_take_bit_eq by (simp_all add: take_bit_eq_mod unat_drop_bit)

context chksum_routine
begin

lemma inline_is_inet_chksum:
  "ip4_chksum_inline proto life dest ts v_hl n i src = inet_chksum LWIP_CHKSUM a (ip_hdr v_hl ts n i 0 life proto 0 src dest)"
proof -
  let ?p = "lwip_htons (ucast proto OR push_bit 8 (ucast life))" and ?t = "lwip_htons (ucast ts OR push_bit 8 (ucast v_hl))"
  define acc :: u32 where "acc = 0 + ucast ?p + (dest AND 0xffff) + drop_bit 16 dest + ucast ?t + ucast n + ucast i + (src AND 0xffff) + drop_bit 16 src"
  have b: "unat (ucast (x :: u16) :: u32) < 65536" "unat ((w :: u32) AND 0xffff) < 65536" "unat (drop_bit 16 (w :: u32)) < 65536" for x w
    using unsigned_less [of w, where 'a = nat] unat_u16_bound [of x] by (simp_all add: unat_low_high)
  have acc: "unat acc = unat ?p + unat dest mod 65536 + unat dest div 65536 + unat ?t + unat n + unat i + unat src mod 65536 + unat src div 65536"
    unfolding acc_def by (subst unat_sum_32 [OF b(1) b(2) b(3) b(1) b(1) b(1) b(2) b(3)]) (simp add: unat_low_high)
  have "sum16 (ip_hdr v_hl ts n i 0 life proto 0 src dest) = unat acc"
    unfolding acc htons_pair using sum16_ip_hdr [of v_hl ts n i 0 life proto 0 src dest "[]"] sum16_mem32 [of src "[]"] sum16_mem32 [of dest "[]"] by simp
  then have o: "oceq (unat (FOLD_U32T (FOLD_U32T acc))) (sum16 (ip_hdr v_hl ts n i 0 life proto 0 src dest))"
    using oceq_trans [OF fold_oceq fold_oceq, of acc] by simp
  have "unat (FOLD_U32T acc) \<le> 0x1fffe"
    using unsigned_less [of acc, where 'a = nat] by (simp add: unat_fold)
  then have "ucast (drop_bit 16 (FOLD_U32T acc) + FOLD_U32T acc) = (ucast (FOLD_U32T (FOLD_U32T acc)) :: u16)" by (rule fold_unmasked)
  moreover have "unat (LWIP_CHKSUM a (ip_hdr v_hl ts n i 0 life proto 0 src dest)) = unat (FOLD_U32T (FOLD_U32T acc))"
    using fold_fold_bound o by (intro chk_unique) simp_all
  ultimately have "LWIP_CHKSUM a (ip_hdr v_hl ts n i 0 life proto 0 src dest) = ucast (drop_bit 16 (FOLD_U32T acc) + FOLD_U32T acc)"
    using fold_fold_bound [of acc] by (simp add: word_unat_eq_iff unat_ucast_down)
  moreover have "ip4_chksum_inline proto life dest ts v_hl n i src = NOT (ucast (drop_bit 16 (FOLD_U32T acc) + FOLD_U32T acc))"
    unfolding ip4_chksum_inline_def Let_def acc_def [symmetric] FOLD_U32T_def [symmetric]
    by (rule bit_eqI) (simp add: bit_simps)
  ultimately show ?thesis by (simp add: inet_chksum_def)
qed

lemma ip_hdr_verifies:
  "c = ip4_chksum_inline proto life dest ts v_hl n i src \<Longrightarrow> inet_chksum LWIP_CHKSUM a (ip_hdr v_hl ts n i 0 life proto c src dest) = 0"
  using inet_chksum_verifies [of "[v_hl, ts] @ mem16 n @ mem16 i @ mem16 0 @ [life, proto]" "mem32 src @ mem32 dest" a 0]
  by (simp add: inline_is_inet_chksum [where a = 0] ip_hdr_def mem16_def mem32_def)

end
end
