(* ===== verification/Icmp.thy ===== *)
theory Icmp
  imports Ip4_Hdr
begin

text \<open>
  The control messages, \<^verbatim>\<open>lwip/src/core/ipv4/icmp.c\<close>, as built: echo requests to multicast and broadcast addresses are
  not answered, and an input buffer is reused for the reply only when it has room for the link header.
  The current IP header, \<^verbatim>\<open>ip4_current_header()\<close>, is what the buffer holds in front of its payload. A result
  \<open>None\<close> is a failed assertion or a read outside the first buffer.
\<close>

section \<open>Data\<close>

definition ICMP_ER :: u8 where "ICMP_ER = 0"
definition ICMP_DUR :: u8 where "ICMP_DUR = 3"
definition ICMP_ECHO :: u8 where "ICMP_ECHO = 8"
definition ICMP_TE :: u8 where "ICMP_TE = 11"
definition ICMP_DUR_PROTO :: u8 where "ICMP_DUR_PROTO = 2"
definition ICMP_DUR_PORT :: u8 where "ICMP_DUR_PORT = 3"
definition ICMP_TTL :: u8 where "ICMP_TTL = 255"
definition ICMP_HLEN :: nat where "ICMP_HLEN = 8"
definition ICMP_DEST_UNREACH_DATASIZE :: nat where "ICMP_DEST_UNREACH_DATASIZE = 8"

type_synonym ip_result = "(err \<times> ip_sent option) \<times> u16"

section \<open>Echo\<close>

text \<open>The checksum of the request, adjusted for the change of the type from 8 to 0.\<close>

definition echo_chksum :: "u16 \<Rightarrow> u16" where
  "echo_chksum c =
    (if c > lwip_htons (0xffff - push_bit 8 (ucast ICMP_ECHO)) then c + (lwip_htons (push_bit 8 (ucast ICMP_ECHO)) + 1)
     else c + lwip_htons (push_bit 8 (ucast ICMP_ECHO)))"

text \<open>The reply written over the request, from the IP header on.\<close>

definition echo_reply :: "chksum \<Rightarrow> nat \<Rightarrow> nat \<Rightarrow> u32 \<Rightarrow> u32 \<Rightarrow> u8 list \<Rightarrow> u8 list" where
  "echo_reply LWIP_CHKSUM at hlen src dest d =
    (let
       icmp = drop hlen d;
       hdr = (\<lambda>c. take 8 d @ [ICMP_TTL, d ! 9] @ mem16 c @ mem32 src @ mem32 dest @ take (hlen - 20) (drop 20 d))
     in hdr (inet_chksum LWIP_CHKSUM at (hdr 0)) @ [ICMP_ER, icmp ! 1] @ mem16 (echo_chksum (get16 icmp 2)) @ drop 4 icmp)"

text \<open>
  The packet to answer with: the request itself when it has room for the IP and link headers, else a copy
  of it with its IP header. \<open>Inl\<close> stands for a request that is not answered.
\<close>

definition echo_buffer :: "(u16 \<Rightarrow> u8 list option) \<Rightarrow> nat \<Rightarrow> pbuf \<Rightarrow> chain \<Rightarrow> (unit + chain) option" where
  "echo_buffer mem_malloc hlen ph ps =
    (case pbuf_header ph (int (hlen + PBUF_LINK_HLEN)) of
       None \<Rightarrow> None
     | Some (r, _) \<Rightarrow>
         if r \<noteq> 0 then
           (case alloc_ram mem_malloc PBUF_LINK (tot_len ph + word_of_nat hlen) of
              Some (rh # rs) \<Rightarrow>
                if unat (len rh) < hlen + ICMP_HLEN then Some (Inl ())
                else
                  (case pbuf_header (put_hdr (drop (length (front ph) - hlen) (front ph)) rh) (- int hlen) of
                     None \<Rightarrow> None
                   | Some (r, rh) \<Rightarrow>
                       if r \<noteq> 0 then None
                       else (case pbuf_copy (rh # rs) (ph # ps) of (err, q) \<Rightarrow> Some (if err \<noteq> ERR_OK then Inl () else Inr q)))
            | _ \<Rightarrow> Some (Inl ()))
         else Some (Inr (ph # ps)))"

definition icmp_input :: "chksum \<Rightarrow> (pbuf \<Rightarrow> nat) \<Rightarrow> (u16 \<Rightarrow> u8 list option) \<Rightarrow> (ip_sent \<Rightarrow> err) \<Rightarrow> netif4 \<Rightarrow> netif4 \<Rightarrow> u32 \<Rightarrow> u32 \<Rightarrow>
    nat \<Rightarrow> chain \<Rightarrow> u16 \<Rightarrow> ip_result option option" where
  "icmp_input LWIP_CHKSUM addr_of mem_malloc below netif inp src_ip dest_ip hlen p ip_id =
    (case p of [] \<Rightarrow> None
     | ph # ps \<Rightarrow>
       if hlen < IP_HLEN then Some None
       else if unat (len ph) < 4 then Some None
       else if payload ph ! 0 \<noteq> ICMP_ECHO then Some None
       else if ip4_addr_ismulticast dest_ip \<or> ip4_addr_isbroadcast_u32 dest_ip netif then Some None
       else if unat (tot_len ph) < ICMP_HLEN then Some None
       else if inet_chksum_pbuf LWIP_CHKSUM addr_of p \<noteq> 0 then Some None
       else if length (front ph) < hlen then None
       else
         (case echo_buffer mem_malloc hlen ph ps of
            None \<Rightarrow> None
          | Some (Inl _) \<Rightarrow> Some None
          | Some (Inr []) \<Rightarrow> None
          | Some (Inr (qh # qs)) \<Rightarrow>
              (case pbuf_header qh (int hlen) of
                 None \<Rightarrow> None
               | Some (r, qh) \<Rightarrow>
                   if r \<noteq> 0 then Some None
                   else
                     let q = qh\<lparr>payload := echo_reply LWIP_CHKSUM (addr_of qh) hlen dest_ip src_ip (payload qh)\<rparr> # qs
                     in map_option Some (ip4_output_if below q (Some dest_ip) None ICMP_TTL 0 IP_PROTO_ICMP inp ip_id))))"

section \<open>Errors\<close>

definition icmp_send_response :: "chksum \<Rightarrow> (pbuf \<Rightarrow> nat) \<Rightarrow> (u16 \<Rightarrow> u8 list option) \<Rightarrow> (ip_sent \<Rightarrow> err) \<Rightarrow> netifs \<Rightarrow> pbuf \<Rightarrow> u8 \<Rightarrow> u8 \<Rightarrow> u16 \<Rightarrow>
    ip_result option option" where
  "icmp_send_response LWIP_CHKSUM addr_of mem_malloc below ns p type code ip_id =
    (let n = IP_HLEN + ICMP_DEST_UNREACH_DATASIZE in
     case alloc_ram mem_malloc PBUF_IP (word_of_nat (ICMP_HLEN + n)) of
       Some (q # _) \<Rightarrow>
         if unat (len q) < ICMP_HLEN + n \<or> length (payload p) < n then None
         else
           let
             iphdr_src = get_addr (payload p) 12;
             msg = (\<lambda>c. [type, code] @ mem16 c @ mem16 0 @ mem16 0 @ take n (payload p) @ drop (ICMP_HLEN + n) (payload q))
           in (case ip4_route ns iphdr_src of
                 None \<Rightarrow> Some None
               | Some netif \<Rightarrow>
                   map_option Some (ip4_output_if below [q\<lparr>payload := msg (inet_chksum LWIP_CHKSUM (addr_of q) (msg 0))\<rparr>] None (Some iphdr_src)
                     ICMP_TTL 0 IP_PROTO_ICMP (netif_at ns netif) ip_id))
     | _ \<Rightarrow> Some None)"

definition icmp_dest_unreach :: "chksum \<Rightarrow> (pbuf \<Rightarrow> nat) \<Rightarrow> (u16 \<Rightarrow> u8 list option) \<Rightarrow> (ip_sent \<Rightarrow> err) \<Rightarrow> netifs \<Rightarrow> pbuf \<Rightarrow> u8 \<Rightarrow> u16 \<Rightarrow>
    ip_result option option" where
  "icmp_dest_unreach LWIP_CHKSUM addr_of mem_malloc below ns p t ip_id =
    icmp_send_response LWIP_CHKSUM addr_of mem_malloc below ns p ICMP_DUR t ip_id"

definition icmp_time_exceeded :: "chksum \<Rightarrow> (pbuf \<Rightarrow> nat) \<Rightarrow> (u16 \<Rightarrow> u8 list option) \<Rightarrow> (ip_sent \<Rightarrow> err) \<Rightarrow> netifs \<Rightarrow> pbuf \<Rightarrow> u8 \<Rightarrow> u16 \<Rightarrow>
    ip_result option option" where
  "icmp_time_exceeded LWIP_CHKSUM addr_of mem_malloc below ns p t ip_id =
    icmp_send_response LWIP_CHKSUM addr_of mem_malloc below ns p ICMP_TE t ip_id"

end
