(* ===== verification/Ip4_Props.thy ===== *)
theory Ip4_Props
  imports Ip4_Hdr
begin

text \<open>
  The IPv4 layer builds packets that it accepts itself, and carries the datagrams of the UDP layer from one
  station to another.
\<close>

context chksum_routine
begin

lemma pseudo_same_bytes:
  assumes "wf_chain p" "wf_chain q" "bytes p = bytes q" "length (bytes q) + 12 < 65536"
  shows "inet_chksum_pseudo LWIP_CHKSUM addr_of p proto n s t = inet_chksum_pseudo LWIP_CHKSUM addr_of' q proto n s t"
proof -
  have "length (pseudo_header [(s, t)] proto n @ bytes q) < 65536" using assms(4) by (simp add: pseudo_header_def mem16_def mem32_def)
  then have "inet_cksum_pseudo_base LWIP_CHKSUM f r proto n (addr_sum [(s, t)]) = inet_chksum LWIP_CHKSUM 0 (pseudo_header [(s, t)] proto n @ bytes q)"
    if "wf_chain r" "bytes r = bytes q" for f r
    using pseudo_base_contiguous [OF wf_chain_ok [OF that(1)], of "[(s, t)]"] that(2) by simp
  then show ?thesis using assms(1-3) by (simp add: inet_chksum_pseudo_def)
qed

end

section \<open>Output\<close>

lemma ip4_output_runs:
  assumes "wf_chain (ph # ps)" "length (bytes (ph # ps)) + 20 < 65536" "pbuf_header ph (int IP_HLEN) = Some (0, reveal 20 ph)" "20 \<le> length (front ph)" "ref ph = 1"
  obtains q c where "ip4_output_if_src below (ph # ps) (Some src) (Some dest) life ts proto netif i = Some (ip4_send below netif q dest, i + 1)"
    "wf_chain q" "bytes q = ip_hdr 0x45 ts (lwip_htons (word_of_nat (20 + length (bytes (ph # ps))))) (lwip_htons i) 0 life proto c src dest @ bytes (ph # ps)"
    "\<And>a. inet_chksum lwip_standard_chksum a (ip_hdr 0x45 ts (lwip_htons (word_of_nat (20 + length (bytes (ph # ps))))) (lwip_htons i) 0 life proto c src dest) = 0"
proof -
  let ?h = "reveal 20 ph" and ?n = "lwip_htons (tot_len (reveal 20 ph))"
  have wf: "wf_chain (?h # ps)" using header_wf(2) [OF assms(1,4)] assms(2) by simp
  have b: "bytes (?h # ps) = drop (length (front ph) - 20) (front ph) @ bytes (ph # ps)" by (simp add: reveal_def Let_def)
  have pl: "20 \<le> length (payload ?h)" using assms(4) by (simp add: reveal_def Let_def)
  have "unat (tot_len ?h) = 20 + length (bytes (ph # ps))" using wf_tot_len [OF wf] unfolding b using assms(4) by simp
  then have t: "tot_len ?h = word_of_nat (20 + length (bytes (ph # ps)))" using assms(2) by (simp only: word_unat_eq_iff unat_of_nat_u16)
  have v: "push_bit 4 4 OR word_of_nat (IP_HLEN div 4) = (0x45 :: u8)" by (simp add: IP_HLEN_def)
  define c where "c = ip4_chksum_inline proto life dest ts 0x45 ?n (lwip_htons i) src"
  let ?hdr = "ip_hdr 0x45 ts ?n (lwip_htons i) 0 life proto c src dest"
  define q where "q = put_hdr ?hdr ?h # ps"
  note w = put_hdr_wf [OF wf, of ?hdr]
  have "\<not> unat (len ?h) < IP_HLEN" using pl wf_small [OF wf] by (simp add: unat_len IP_HLEN_def)
  then have "ip4_output_if_src below (ph # ps) (Some src) (Some dest) life ts proto netif i = Some (ip4_send below netif q dest, i + 1)"
    using assms(3,5) v by (simp add: ip4_output_if_src_def Let_def c_def q_def)
  moreover have "bytes q = ?hdr @ drop 20 (bytes (?h # ps))" unfolding q_def by (subst w(2)) (use pl in simp_all)
  then have "bytes q = ?hdr @ bytes (ph # ps)" unfolding b using assms(4) by simp
  moreover have "wf_chain q" unfolding q_def using w(1) pl by simp
  moreover have "inet_chksum lwip_standard_chksum a ?hdr = 0" for a by (rule v2.ip_hdr_verifies) (rule c_def)
  ultimately show thesis unfolding t by (intro that [of q c])
qed

lemma ip4_output_packet:
  assumes "ip4_output_if_src below p (Some src) (Some dest) life ts proto netif i = Some ((e, Some (To_Link q dest')), i')"
    "wf_chain p" "length (bytes p) + 20 < 65536"
  obtains c where "wf_chain q" "bytes q = ip_hdr 0x45 ts (lwip_htons (word_of_nat (20 + length (bytes p)))) (lwip_htons i) 0 life proto c src dest @ bytes p"
    "\<And>a. inet_chksum lwip_standard_chksum a
      (ip_hdr 0x45 ts (lwip_htons (word_of_nat (20 + length (bytes p)))) (lwip_htons i) 0 life proto c src dest) = 0"
proof -
  obtain ph ps where p: "p = ph # ps" using assms(1) by (cases p) (simp_all add: ip4_output_if_src_def)
  obtain r where r: "pbuf_header ph (int 20) = Some r" "r = (1, ph) \<or> 20 \<le> length (front ph) \<and> r = (0, reveal 20 ph)"
    using pbuf_header_room [of 20 ph] by auto
  then have f: "20 \<le> length (front ph)" "pbuf_header ph (int IP_HLEN) = Some (0, reveal 20 ph)" "ref ph = 1"
    using assms(1) p by (auto simp: ip4_output_if_src_def IP_HLEN_def split: if_splits)
  show thesis
    by (rule ip4_output_runs [OF assms(2,3) [unfolded p] f(2,1,3), of below src dest life ts proto netif i])
      (use assms(1) that in \<open>auto simp: p ip4_send_def Let_def split: if_splits\<close>)
qed

section \<open>Input\<close>

lemma ip4_check_ok:
  assumes "wf_chain (rh # rs)" "bytes (rh # rs) = ip_hdr 0x45 ts (lwip_htons n) ident off life proto c src dest @ d @ pad"
    "unat n = 20 + length d" "20 \<le> length (payload rh)"
    "\<And>a. inet_chksum C a (ip_hdr 0x45 ts (lwip_htons n) ident off life proto c src dest) = 0"
  obtains ph ps where "ip4_check C addr_of (rh # rs) = Some (Inr (ph, ps, 20))" "wf_chain (ph # ps)"
    "bytes (ph # ps) = ip_hdr 0x45 ts (lwip_htons n) ident off life proto c src dest @ d"
    "payload ph = take (20 + length d) (payload rh)" "front ph = front rh"
proof -
  let ?h = "ip_hdr 0x45 ts (lwip_htons n) ident off life proto c src dest"
  have tk: "take 20 (payload rh) = ?h" using arg_cong [OF assms(2), of "take 20"] assms(4) by simp
  then have pr: "payload rh = ?h @ drop 20 (payload rh)" by (metis append_take_drop_id)
  have f: "payload rh ! 0 = 0x45" "get16 (payload rh) 2 = lwip_htons n" by (subst pr, simp add: ip_hdr_fields)+
  obtain h t s where k: "pbuf_realloc (rh # rs) n = Some (h # t, s)" "wf_chain (h # t)" "bytes (h # t) = take (unat n) (bytes (rh # rs))"
    "tot_len h = min n (tot_len rh)" "payload h = take (unat n) (payload rh)" "front h = front rh"
    by (rule pbuf_realloc_spec [OF assms(1)])
  have le: "n \<le> tot_len rh" using wf_tot_len [OF assms(1)] assms(3) unfolding assms(2) by (simp add: word_le_nat_alt)
  have b: "bytes (h # t) = ?h @ d" unfolding k(3) assms(2) using assms(3) by simp
  have ph: "take 20 (payload h) = ?h" "20 \<le> length (payload h)" using k(5) tk assms(3,4) by (simp_all add: min_def)
  have trim: "(if n < tot_len rh then pbuf_realloc (rh # rs) n else Some (rh # rs, [])) = Some (h # t, if n < tot_len rh then s else [])"
  proof (cases "n < tot_len rh")
    case False
    then have "pbuf_realloc (rh # rs) n = Some (rh # rs, [])" by (simp add: pbuf_realloc_def not_less)
    then show ?thesis using False k(1) by simp
  qed (use k(1) in simp)
  have "unat (len h) = length (payload h)" using wf_small [OF k(2)] by (simp add: unat_len)
  moreover have "unat ((0x45 :: u8) AND 0x0f) * 4 = 20" "drop_bit 4 (0x45 :: u8) = 4" by simp_all
  ultimately have "ip4_check C addr_of (rh # rs) = Some (Inr (h, t, 20))"
    using assms(4,5) f trim ph k(4) le by (simp add: ip4_check_def IP_HLEN_def)
  then show thesis using that k b assms(3) by metis
qed

text \<open>A packet to an address of the interface it comes in on, not a fragment, reaches its upper layer.\<close>

lemma ip4_input_ok:
  assumes "wf_chain (rh # rs)" "bytes (rh # rs) = ip_hdr 0x45 ts (lwip_htons n) ident 0 life proto c src dest @ d @ pad"
    "unat n = 20 + length d" "20 \<le> length (payload rh)"
    "\<And>a. inet_chksum C a (ip_hdr 0x45 ts (lwip_htons n) ident 0 life proto c src dest) = 0"
    "netif_is_up (netif_at ns inp)" "dest = ip_addr4 (netif_at ns inp)" "dest \<noteq> IPADDR_ANY" "\<not> ip4_addr_ismulticast dest"
    "\<not> ip4_addr_isbroadcast_u32 src (netif_at ns inp)" "\<not> ip4_addr_ismulticast src"
    "proto = IP_PROTO_UDP \<or> proto = IP_PROTO_TCP \<or> proto = IP_PROTO_ICMP"
  obtains ph ps where "ip4_input C addr_of reass ns inp (rh # rs) = Some (To_Upper proto (ph # ps) (netif_at ns inp) (netif_at ns inp) src dest 20)"
    "wf_chain (ph # ps)" "bytes (ph # ps) = d" "payload ph = take (length d) (drop 20 (payload rh))" "length (front ph) = length (front rh) + 20"
proof (rule ip4_check_ok [OF assms(1-5)])
  fix h t assume k: "ip4_check C addr_of (rh # rs) = Some (Inr (h, t, 20))" "wf_chain (h # t)"
    "bytes (h # t) = ip_hdr 0x45 ts (lwip_htons n) ident 0 life proto c src dest @ d"
    "payload h = take (20 + length d) (payload rh)" "front h = front rh"
  let ?h = "ip_hdr 0x45 ts (lwip_htons n) ident 0 life proto c src dest"
  have l: "20 \<le> length (payload h)" using k(4) assms(4) by simp
  then have "take 20 (payload h) = ?h" using arg_cong [OF k(3), of "take 20"] by simp
  then have pr: "payload h = ?h @ drop 20 (payload h)" by (metis append_take_drop_id)
  have f: "payload h ! 0 = 0x45" "payload h ! 9 = proto" "get16 (payload h) 6 = 0" "get_addr (payload h) 12 = src" "get_addr (payload h) 16 = dest"
    by (subst pr, simp add: ip_hdr_fields)+
  have m: "match_netif ns dest inp = Some inp" using assms(6-9) by (simp add: match_netif_def accepts_def)
  have hd: "pbuf_header h (- 20) = Some (0, hide 20 h)" using l wf_small [OF k(2)] by (simp add: pbuf_header_def pbuf_header_impl_def unat_len)
  have "unat ((0x45 :: u8) AND 0x0f) * 4 = 20" by simp
  then have "ip4_deliver (netif_at ns inp) (netif_at ns inp) src dest 20 (h # t) = Some (To_Upper proto (hide 20 h # t) (netif_at ns inp) (netif_at ns inp) src dest 20)"
    using l f hd assms(12) by (simp add: ip4_deliver_def IP_HLEN_def)
  then have "ip4_input C addr_of reass ns inp (rh # rs) = Some (To_Upper proto (hide 20 h # t) (netif_at ns inp) (netif_at ns inp) src dest 20)"
    using k(1) f m assms(10,11) by (simp add: ip4_input_def Let_def)
  moreover have "wf_chain (hide 20 h # t)" using header_wf(1) [OF k(2) l] .
  moreover have "bytes (hide 20 h # t) = d" 
  proof -
    have "bytes (hide 20 h # t) = drop 20 (bytes (h # t))" using l by (simp add: hide_def)
    then show ?thesis unfolding k(3) by simp
  qed
  ultimately show thesis using k(4,5) l by (intro that) (auto simp: hide_def drop_take)
qed

section \<open>Properties\<close>

text \<open>
  The header checksum that \<^verbatim>\<open>ip4_output_if_src\<close> adds up field by field while it writes the header is
  \<^verbatim>\<open>inet_chksum\<close> of the 20 bytes of the header with a zero checksum field, and the header with this
  checksum passes the check of \<^verbatim>\<open>ip4_input\<close>.
\<close>

theorem ip4_inline_chksum:
  "ip4_chksum_inline proto life dest ts v_hl n ident src = inet_chksum lwip_standard_chksum a (ip_hdr v_hl ts n ident 0 life proto 0 src dest) \<and>
   inet_chksum lwip_standard_chksum b
     (ip_hdr v_hl ts n ident 0 life proto (ip4_chksum_inline proto life dest ts v_hl n ident src) src dest) = 0"
  by (intro conjI v2.inline_is_inet_chksum v2.ip_hdr_verifies refl)

text \<open>
  C13: A datagram travels from one station to another through both layers and over the link: when
  \<^verbatim>\<open>udp_sendto_if_src\<close> hands a packet to IP, IP builds a frame for the link from it and the other
  station receives the bytes of this frame, cut into buffers in any way that keeps the headers in the first
  one and with any padding behind (Ethernet pads short frames), then \<^verbatim>\<open>ip4_input\<close> hands it to UDP, and
  \<^verbatim>\<open>udp_input\<close> calls the callback of the control block that is found for it with exactly the bytes sent and the address and port of
  the sender.
\<close>

theorem udp_over_ip:
  assumes "udp_sendto_if_src lwip_standard_chksum addr_of mem_malloc out (Some a) p (Some dst) dst_port netif src s =
      Some (err, Some (q, src1, dst1, life, ts, proto, netif1), s', p')"
    "wf_chain p" "length (bytes p) + 40 < 65536" "heap_ok mem_malloc"
    "ip4_output_if_src below q (Some src1) (Some dst1) life ts proto netif1 i = Some ((err2, Some (To_Link f hop)), i')"
    "wf_chain (rh # rs)" "bytes (rh # rs) = bytes f @ pad" "28 \<le> length (payload rh)"
    "netif_is_up (netif_at ns inp)" "dst = ip_addr4 (netif_at ns inp)" "dst \<noteq> IPADDR_ANY" "\<not> ip4_addr_ismulticast dst"
    "\<not> ip4_addr_isbroadcast_u32 src (netif_at ns inp)" "\<not> ip4_addr_ismulticast src"
    "udp_find (netif_at ns inp) (ip4_addr_isbroadcast_u32 dst (netif_at ns inp)) src dst (local_port (pcb_at s' a)) dst_port r = (Some b, r')"
    "recv (pcb_at r b) = Some fn"
  shows "\<exists>d d'. ip4_input lwip_standard_chksum addr_of' reass ns inp (rh # rs) =
      Some (To_Upper IP_PROTO_UDP d (netif_at ns inp) (netif_at ns inp) src dst 20) \<and>
    udp_input lwip_standard_chksum addr_of' d (netif_at ns inp) (netif_at ns inp) src dst 20 r =
      Some (Deliver fn (recv_arg (pcb_at r b)) b d' src (local_port (pcb_at s' a)), r') \<and> bytes d' = bytes p"
proof -
  have len: "length (bytes p) + 20 < 65536" using assms(3) by simp
  let ?sp = "local_port (pcb_at s' a)" and ?un = "8 + word_of_nat (length (bytes p)) :: u16"
  obtain c where u: "wf_chain q" "bytes q = hdr_bytes ?sp dst_port ?un c @ bytes p" "src1 = src" "dst1 = dst" "proto = IP_PROTO_UDP"
    "c \<noteq> 0 \<Longrightarrow> inet_chksum_pseudo lwip_standard_chksum addr_of' q IP_PROTO_UDP (tot_len (hd q)) src dst = 0"
    "unat (tot_len (hd q)) = 8 + length (bytes p)"
    using udp_sendto_packet [OF assms(1,2) len assms(4), of addr_of'] by metis
  have lq: "length (bytes q) = 8 + length (bytes p)" using u(2) by simp
  then have "length (bytes q) + 20 < 65536" using assms(3) by simp
  note o = ip4_output_packet [OF assms(5) [unfolded u(3,4)] u(1) this]
  let ?n = "word_of_nat (20 + length (bytes q)) :: u16"
  have n: "unat ?n = 20 + length (bytes q)" using lq assms(3) by (simp only: unat_of_nat_u16)
  obtain c2 where f: "bytes f = ip_hdr 0x45 ts (lwip_htons ?n) (lwip_htons i) 0 life proto c2 src dst @ bytes q"
    "\<And>a. inet_chksum lwip_standard_chksum a (ip_hdr 0x45 ts (lwip_htons ?n) (lwip_htons i) 0 life proto c2 src dst) = 0"
    using o by metis
  have b: "bytes (rh # rs) = ip_hdr 0x45 ts (lwip_htons ?n) (lwip_htons i) 0 life proto c2 src dst @ bytes q @ pad" unfolding assms(7) f(1) by simp
  have l20: "20 \<le> length (payload rh)" using assms(8) by simp
  obtain ph ps where d: "ip4_input lwip_standard_chksum addr_of' reass ns inp (rh # rs) =
      Some (To_Upper proto (ph # ps) (netif_at ns inp) (netif_at ns inp) src dst 20)" "wf_chain (ph # ps)" "bytes (ph # ps) = bytes q"
    "payload ph = take (length (bytes q)) (drop 20 (payload rh))"
    by (rule ip4_input_ok [OF assms(6) b n l20 f(2) assms(9-14)]) (use u(5) in auto)
  have bp: "bytes (ph # ps) = hdr_bytes ?sp dst_port ?un c @ bytes p" unfolding d(3) u(2) ..
  have l8: "8 \<le> length (payload ph)" using d(4) assms(8) lq by simp
  have "tot_len ph = tot_len (hd q)" using wf_tot_len [OF d(2)] u(7) lq unfolding d(3) by (simp add: word_unat_eq_iff)
  moreover have "inet_chksum_pseudo lwip_standard_chksum addr_of' (ph # ps) IP_PROTO_UDP m src dst =
      inet_chksum_pseudo lwip_standard_chksum addr_of' q IP_PROTO_UDP m src dst" for m
    using lq assms(3) by (intro v2.pseudo_same_bytes d u(1)) simp
  ultimately have v: "c = 0 \<or> inet_chksum_pseudo lwip_standard_chksum addr_of' (ph # ps) IP_PROTO_UDP (tot_len ph) src dst = 0" using u(6) by auto
  note h = udp_accept_hide [OF d(2) l8]
  have "pcb_at r' = pcb_at r" using assms(15) by (auto elim!: udp_find_state)
  then have "udp_input lwip_standard_chksum addr_of' (ph # ps) (netif_at ns inp) (netif_at ns inp) src dst 20 r =
      Some (Deliver fn (recv_arg (pcb_at r b)) b (hide 8 ph # ps) src ?sp, r')"
    unfolding udp_input_cases [OF d(2) bp l8 v assms(15)] using h(1) assms(16) by (simp add: udp_accept_def)
  moreover have "bytes (hide 8 ph # ps) = bytes p" unfolding h(3) bp by simp
  ultimately show ?thesis using d(1) unfolding u(5) by blast
qed

section \<open>Witness\<close>

definition stations :: netifs where
  "stations = \<lparr>netif_at = (\<lambda>_. eth0), netif_list = [0], netif_default = Some 0\<rparr>"

theorem udp_over_ip_witness:
  "\<exists>q s' p' f i' d d'. udp_sendto_if_src lwip_standard_chksum (\<lambda>_. 0) (\<lambda>_. None) (\<lambda>_. ERR_OK) (Some 16) ping (Some 0x6600a8c0) 8080 eth0 0x6500a8c0 board =
      Some (ERR_OK, Some (q, 0x6500a8c0, 0x6600a8c0, 255, 0, IP_PROTO_UDP, eth0), s', p') \<and>
    ip4_output_if_src (\<lambda>_. ERR_OK) q (Some 0x6500a8c0) (Some 0x6600a8c0) 255 0 IP_PROTO_UDP eth0 7 = Some ((ERR_OK, Some (To_Link f 0x6600a8c0)), i') \<and>
    ip4_input lwip_standard_chksum (\<lambda>_. 2) (\<lambda>_. None) stations 0 f = Some (To_Upper IP_PROTO_UDP d eth0 eth0 0x6500a8c0 0x6600a8c0 20) \<and>
    udp_input lwip_standard_chksum (\<lambda>_. 2) d eth0 eth0 0x6500a8c0 0x6600a8c0 20 board = Some (Deliver 1 0 16 d' 0x6500a8c0 8080, board) \<and>
    bytes d' = [1, 2, 3]"
proof -
  define c0 where "c0 = inet_chksum_pseudo lwip_standard_chksum (\<lambda>_. 0) [put_hdr (hdr_bytes 8080 8080 11 0) (reveal 8 (hd ping))] IP_PROTO_UDP 11 0x6500a8c0 0x6600a8c0"
  define q where "q = [put_hdr (hdr_bytes 8080 8080 11 (if c0 = 0 then 0xffff else c0)) (reveal 8 (hd ping))]"
  have s: "udp_sendto_if_src lwip_standard_chksum (\<lambda>_. 0) (\<lambda>_. None) (\<lambda>_. ERR_OK) (Some 16) ping (Some 0x6600a8c0) 8080 eth0 0x6500a8c0 board =
      Some (ERR_OK, Some (q, 0x6500a8c0, 0x6600a8c0, 255, 0, IP_PROTO_UDP, eth0), board, q)"
    by (simp add: udp_sendto_if_src_def ping_def ensure_bound_def board_def new_pcb_def udp_add_header_def pbuf_header_def pbuf_header_impl_def
        UDP_HLEN_def reveal_def len_def UDP_TTL_def Let_def q_def c0_def)
  obtain f i' where o: "ip4_output_if_src (\<lambda>_. ERR_OK) q (Some 0x6500a8c0) (Some 0x6600a8c0) 255 0 IP_PROTO_UDP eth0 7 = Some ((ERR_OK, Some (To_Link f 0x6600a8c0)), i')"
    "\<exists>h. f = [h] \<and> length (payload h) = 31 \<and> tot_len h = 31"
    by (simp add: ip4_output_if_src_def q_def ping_def put_hdr_def reveal_def pbuf_header_def pbuf_header_impl_def IP_HLEN_def len_def Let_def
        ip4_send_def eth0_def)
  then obtain h where h: "f = [h]" "length (payload h) = 31" "tot_len h = 31" by auto
  have w: "wf_chain ping" "length (bytes ping) + 40 < 65536" "heap_ok (\<lambda>_. None)" "bytes ping = [1, 2, 3]"
    by (simp_all add: ping_def heap_ok_def bytes_def)
  have "wf_chain [h]" "bytes [h] = bytes f @ []" "28 \<le> length (payload h)" using h by simp_all
  note t = udp_over_ip [OF s w(1-3) o(1) this, of stations 0 board 16 board 1 "\<lambda>_. 2" "\<lambda>_. None"]
  have e: "netif_at stations 0 = eth0" by (simp add: stations_def)
  have a: "netif_is_up eth0" "ip_addr4 eth0 = 0x6600a8c0" "\<not> ip4_addr_ismulticast 0x6600a8c0" "\<not> ip4_addr_ismulticast 0x6500a8c0"
    "\<not> ip4_addr_isbroadcast_u32 0x6500a8c0 eth0"
    by (simp_all add: eth0_def ip4_addr_ismulticast_def ip4_addr_isbroadcast_u32_def lwip_htonl_def ip4_addr_netcmp_def IPADDR_ANY_def IPADDR_BROADCAST_def)
  have "udp_find eth0 (ip4_addr_isbroadcast_u32 0x6600a8c0 eth0) 0x6500a8c0 0x6600a8c0 (local_port (pcb_at board 16)) 8080 board = (Some 16, board)"
    by (rule board_find) (simp_all add: board_def)
  moreover have "recv (pcb_at board 16) = Some 1" "recv_arg (pcb_at board 16) = 0" "local_port (pcb_at board 16) = 8080"
    by (simp_all add: board_def new_pcb_def)
  ultimately show ?thesis using t s o(1) h(1) w(4) unfolding e using a by (fastforce simp: IPADDR_ANY_def)
qed

section \<open>Any packet\<close>

lemma ip4_check_total:
  assumes "wf_chain (rh # rs)" "4 \<le> length (payload rh)"
  obtains "ip4_check C addr_of (rh # rs) = Some (Inl ())"
    | h t hl where "ip4_check C addr_of (rh # rs) = Some (Inr (h, t, hl))" "wf_chain (h # t)" "20 \<le> hl" "hl \<le> length (payload h)"
      "hl = unat (payload h ! 0 AND 0x0f) * 4"
proof -
  let ?n = "lwip_htons (get16 (payload rh) 2)"
  obtain h t s where k: "(if ?n < tot_len rh then pbuf_realloc (rh # rs) ?n else Some (rh # rs, [])) = Some (h # t, s)" "wf_chain (h # t)"
    "\<exists>n. bytes (h # t) = take n (bytes (rh # rs))"
  proof (cases "?n < tot_len rh")
    case True
    then show thesis using pbuf_realloc_spec [OF assms(1), of ?n] that by metis
  next
    case False
    then show thesis using assms(1) that [of rh rs "[]"] by (simp add: exI [of _ "length (bytes (rh # rs))"])
  qed
  have first: "payload h ! 0 = payload rh ! 0" if n: "0 < length (payload h)"
  proof -
    obtain n where b: "bytes (h # t) = take n (bytes (rh # rs))" using k(3) by blast
    have "0 < n" using b n by (cases n) (auto simp: bytes_def)
    then have "bytes (h # t) ! 0 = bytes (rh # rs) ! 0" by (simp only: b nth_take)
    moreover have "payload rh \<noteq> []" using assms(2) by auto
    ultimately show ?thesis using n by (simp add: bytes_def nth_append)
  qed
  then have "\<not> length (payload h) < unat (payload rh ! 0 AND 0x0f) * 4 \<Longrightarrow> \<not> unat (payload rh ! 0 AND 0x0f) < 5 \<Longrightarrow> payload h ! 0 = payload rh ! 0"
    by linarith
  moreover have "unat (len h) = length (payload h)" using wf_small [OF k(2)] by (simp add: unat_len)
  ultimately show thesis using assms(2) k(1,2) that
    by (cases "ip4_check C addr_of (rh # rs)") (auto simp: ip4_check_def Let_def IP_HLEN_def split: if_splits)
qed

lemma ip4_deliver_total:
  assumes "wf_chain (h # t)" "20 \<le> hl" "hl \<le> length (payload h)"
  shows "\<exists>ev. ip4_deliver netif i src dst hl (h # t) = Some ev \<and>
    (case ev of To_Upper proto d n j s e m \<Rightarrow> wf_chain d \<and> bytes d = drop hl (bytes (h # t)) \<and> proto = payload h ! 9 | Proto_Unreach d \<Rightarrow> d = h # t | _ \<Rightarrow> True)"
proof -
  have "pbuf_header h (- int hl) = Some (0, hide hl h)" using assms wf_small [OF assms(1)] by (simp add: pbuf_header_def pbuf_header_impl_def unat_len)
  moreover have "pbuf_header_force (hide hl h) (int hl) = Some (0, h)"
    using assms hide_reveal [OF assms(3)] by (simp add: pbuf_header_force_def pbuf_header_impl_def) (simp add: hide_def)
  moreover have "wf_chain (hide hl h # t)" using header_wf(1) [OF assms(1,3)] .
  moreover have "bytes (hide hl h # t) = drop hl (bytes (h # t))" using assms(3) by (simp add: hide_def)
  ultimately show ?thesis using assms(2,3) by (simp add: ip4_deliver_def Let_def IP_HLEN_def)
qed

text \<open>
  What \<^verbatim>\<open>ip4_input\<close> relies on of the reassembly: a packet it gives back is well-formed and has a header of the length of that of the last
  fragment in its first buffer.
\<close>

definition reass_gives :: "(chain \<Rightarrow> chain option) \<Rightarrow> bool" where
  "reass_gives reass \<longleftrightarrow> (\<forall>q p. wf_chain q \<longrightarrow> reass q = Some p \<longrightarrow>
     p \<noteq> [] \<and> wf_chain p \<and> 20 \<le> length (payload (hd p)) \<and> unat (payload (hd q) ! 0 AND 0x0f) * 4 \<le> length (payload (hd p)))"

text \<open>
  C18: On any well-formed packet \<^verbatim>\<open>ip4_input\<close> ends without a failed assertion and reads nothing outside the first buffer, except in two cases: the
  first buffer has less than four bytes, or the packet is a UDP packet that no interface accepts and whose first buffer ends before the ports.
  It hands only well-formed packets to the upper layers, without the header and the padding: the packet itself, or what the reassembly
  makes of it, the reassembly giving back well-formed packets with their header.
\<close>

theorem ip4_input_safe:
  assumes "wf_chain (rh # rs)" "reass_gives reass"
  shows "case ip4_input C addr_of reass ns inp (rh # rs) of
      None \<Rightarrow> length (payload rh) < 4 \<or> (\<exists>h t hl. ip4_check C addr_of (rh # rs) = Some (Inr (h, t, hl)) \<and>
        match_netif ns (get_addr (payload h) 16) inp = None \<and> payload h ! 9 = IP_PROTO_UDP \<and> length (payload h) < hl + 4)
    | Some (To_Upper proto d n j s e m) \<Rightarrow> wf_chain d \<and> (\<exists>h t hl ph ps. ip4_check C addr_of (rh # rs) = Some (Inr (h, t, hl)) \<and> 20 \<le> hl \<and>
        (ph # ps = h # t \<or> reass (h # t) = Some (ph # ps)) \<and> hl \<le> length (payload ph) \<and> bytes d = drop hl (bytes (ph # ps)) \<and> proto = payload ph ! 9)
    | Some (Proto_Unreach d) \<Rightarrow> wf_chain d
    | _ \<Rightarrow> True"
proof (cases "4 \<le> length (payload rh)")
  case False
  then show ?thesis by (simp add: ip4_input_def ip4_check_def)
next
  case True
  show ?thesis
  proof (rule ip4_check_total [OF assms(1) True, of C addr_of])
    assume "ip4_check C addr_of (rh # rs) = Some (Inl ())"
    then show ?thesis by (simp add: ip4_input_def)
  next
    fix h t hl assume k: "ip4_check C addr_of (rh # rs) = Some (Inr (h, t, hl))" "wf_chain (h # t)" "20 \<le> hl" "hl \<le> length (payload h)"
      "hl = unat (payload h ! 0 AND 0x0f) * 4"
    let ?r = "ip4_input C addr_of reass ns inp (rh # rs)" and ?probe = "match_netif ns (get_addr (payload h) 16) inp = None \<and> payload h ! 9 = IP_PROTO_UDP"
    define R where "R p \<longleftrightarrow> p = h # t \<or> reass (h # t) = Some p" for p
    have "?r = None \<and> ?probe \<and> length (payload h) < hl + 4 \<or> ?r = Some Ip_Drop \<or> ?r = Some Ip_Wait \<or>
        (\<exists>n j s e p. ?r = ip4_deliver n j s e hl p \<and> R p)"
      unfolding R_def using k(1) by (simp add: ip4_input_def Let_def split: option.split) blast
    then show ?thesis
    proof (elim disjE exE conjE)
      fix n j s e p assume r: "?r = ip4_deliver n j s e hl p" and "R p"
      then have "p = h # t \<or> reass (h # t) = Some p" by (simp add: R_def)
      moreover from this have "p \<noteq> [] \<and> wf_chain p \<and> hl \<le> length (payload (hd p))"
        using assms(2) k(2,4,5) unfolding reass_gives_def by fastforce
      moreover obtain ph ps where p: "p = ph # ps" using calculation by (cases p) auto
      ultimately have q: "ph # ps = h # t \<or> reass (h # t) = Some (ph # ps)" "wf_chain (ph # ps)" "hl \<le> length (payload ph)" by auto
      then obtain ev where "?r = Some ev" "case ev of To_Upper proto d n j s e m \<Rightarrow> wf_chain d \<and> bytes d = drop hl (bytes (ph # ps)) \<and> proto = payload ph ! 9
          | Proto_Unreach d \<Rightarrow> d = ph # ps | _ \<Rightarrow> True"
        using ip4_deliver_total [OF q(2) k(3) q(3), of n j s e] r unfolding p by auto
      then show ?thesis using k(1,3) q by (cases ev; simp del: wf_chain.simps) (rule exI [of _ ph], rule exI [of _ ps], simp)
    qed (use k(1) in auto)
  qed
qed

text \<open>
  A valid packet for another station that announces UDP but ends with its IP header makes \<^verbatim>\<open>ip4_input\<close> read the ports behind the end of the packet, to
  find out whether it is for a DHCP client.
\<close>

theorem ip4_dhcp_probe_overreads:
  assumes "payload rh = ip_hdr 0x45 ts (lwip_htons 20) ident 0 life IP_PROTO_UDP (ip4_chksum_inline IP_PROTO_UDP life dst ts 0x45 (lwip_htons 20) ident src) src dst"
    "tot_len rh = 20" "match_netif ns dst inp = None"
  shows "ip4_input lwip_standard_chksum addr_of reass ns inp [rh] = None"
proof -
  let ?h = "ip_hdr 0x45 ts (lwip_htons 20) ident 0 life IP_PROTO_UDP (ip4_chksum_inline IP_PROTO_UDP life dst ts 0x45 (lwip_htons 20) ident src) src dst"
  have w: "wf_chain [rh]" "bytes [rh] = ?h @ [] @ []" "unat (20 :: u16) = 20 + length ([] :: u8 list)" "20 \<le> length (payload rh)"
    using assms(1,2) by (simp_all add: bytes_def)
  have z: "inet_chksum lwip_standard_chksum a ?h = 0" for a by (rule v2.ip_hdr_verifies) (rule refl)
  show ?thesis
  proof (rule ip4_check_ok [OF w z, of addr_of])
    fix ph ps assume k: "ip4_check lwip_standard_chksum addr_of [rh] = Some (Inr (ph, ps, 20))" "payload ph = take (20 + length []) (payload rh)"
    then have "payload ph = ?h" using assms(1) by simp
    then have "payload ph ! 9 = IP_PROTO_UDP" "get_addr (payload ph) 16 = dst" "length (payload ph) < 20 + 4"
      using ip_hdr_fields(4,6) [where d = "[]"] by simp_all
    then show ?thesis using k(1) assms(3) by (simp add: ip4_input_def Let_def)
  qed
qed

definition foreign :: pbuf where
  "foreign = \<lparr>front = [], payload = ip_hdr 0x45 0 (lwip_htons 20) 0 0 64 IP_PROTO_UDP (ip4_chksum_inline IP_PROTO_UDP 64 0x6700a8c0 0 0x45 (lwip_htons 20) 0 0x6500a8c0)
     0x6500a8c0 0x6700a8c0, tot_len = 20, ptype = PBUF_POOL, pflags = 0, ref = 1\<rparr>"

lemma foreign_netif: "match_netif stations 0x6700a8c0 0 = None"
  by (simp add: match_netif_def stations_def eth0_def accepts_def ip4_addr_ismulticast_def ip4_addr_isloopback_def lwip_htonl_def
      ip4_addr_isbroadcast_u32_def ip4_addr_netcmp_def IPADDR_ANY_def IPADDR_BROADCAST_def)

theorem ip4_dhcp_probe_overreads_witness: "ip4_input lwip_standard_chksum (\<lambda>_. 0) (\<lambda>_. None) stations 0 [foreign] = None"
  by (rule ip4_dhcp_probe_overreads [OF _ _ foreign_netif]) (simp_all add: foreign_def)

theorem ip4_input_safe_witness:
  "case ip4_input lwip_standard_chksum (\<lambda>_. 0) (\<lambda>_. None) stations 0 [foreign\<lparr>payload := replicate 20 0\<rparr>] of None \<Rightarrow> False | Some ev \<Rightarrow> ev = Ip_Drop"
proof -
  let ?p = "foreign\<lparr>payload := replicate 20 0\<rparr>"
  have w: "wf_chain [?p]" "reass_gives (\<lambda>_. None)" by (simp_all add: foreign_def reass_gives_def)
  note t = ip4_input_safe [OF w, of lwip_standard_chksum "\<lambda>_. 0" stations 0]
  have "ip4_check lwip_standard_chksum (\<lambda>_. 0) [?p] = Some (Inl ())" by (simp add: ip4_check_def)
  then show ?thesis using t by (simp add: ip4_input_def)
qed

end
