(* ===== verification/Icmp_Props.thy ===== *)
theory Icmp_Props
  imports Icmp Ip4_Props
begin

text \<open>
  Echo requests are answered with valid replies, and error messages quote the packet they are about.
\<close>

section \<open>The adjusted checksum\<close>

lemma echo_chksum_unat: "unat (echo_chksum c) = (if unat c > 0xfff7 then unat c + 9 - 65536 else unat c + 8)"
proof -
  have k: "lwip_htons (0xffff - push_bit 8 (ucast ICMP_ECHO)) = 0xfff7" "lwip_htons (push_bit 8 (ucast ICMP_ECHO)) = 8"
    by (simp_all add: ICMP_ECHO_def lwip_htons_def)
  show ?thesis
  proof (cases "unat c > 0xfff7")
    case True
    then have "unat (c + 9) = unat c + 9 - 65536" using unat_u16_bound [of c] by (simp add: unat_word_ariths mod_if)
    then show ?thesis using True by (simp add: echo_chksum_def k word_less_nat_alt)
  next
    case False
    then have "unat (c + 8) = unat c + 8" by (subst unat_plus) auto
    then show ?thesis using False by (simp add: echo_chksum_def k word_less_nat_alt)
  qed
qed

context chksum_routine
begin

lemma inet_chksum_zero:
  assumes "length d \<le> 0x20000"
  shows "inet_chksum LWIP_CHKSUM a d = 0 \<longleftrightarrow> 65535 dvd sum16 d \<and> sum16 d \<noteq> 0"
proof -
  have "inet_chksum LWIP_CHKSUM a d = 0 \<longleftrightarrow> LWIP_CHKSUM a d = - 1"
    unfolding inet_chksum_def by (metis bit.double_compl bit.compl_zero)
  also have "\<dots> \<longleftrightarrow> unat (LWIP_CHKSUM a d) = 65535" by (simp add: word_unat_eq_iff unsigned_minus_1_eq_mask mask_eq_exp_minus_1)
  also have "\<dots> \<longleftrightarrow> oceq 65535 (sum16 d)" using chk_sum [OF assms, of a] chk_unique [OF assms, of 65535 a] by auto
  also have "\<dots> \<longleftrightarrow> 65535 dvd sum16 d \<and> sum16 d \<noteq> 0" by (auto simp: oceq_def mod_eq_0_iff_dvd)
  finally show ?thesis .
qed

lemma echo_chksum_verifies:
  assumes "inet_chksum LWIP_CHKSUM a ([ICMP_ECHO, code] @ mem16 c @ d) = 0" "length d < 0x10000"
  shows "inet_chksum LWIP_CHKSUM b ([ICMP_ER, code] @ mem16 (echo_chksum c) @ d) = 0"
proof -
  let ?r = "256 * unat code + sum16 d"
  have s: "sum16 ([t, code] @ mem16 w @ d) = unat t + unat w + ?r" for t w using sum16_mem16 [of w d] by simp
  have l: "length ([t, code] @ mem16 w @ d) \<le> 0x20000" for t w using assms(2) by (simp add: mem16_def)
  have "unat ICMP_ECHO = 8" by (simp add: ICMP_ECHO_def)
  then have "65535 dvd 8 + unat c + ?r" using assms(1) unfolding inet_chksum_zero [OF l] s by simp
  moreover have "unat (echo_chksum c) + 65535 * (if unat c > 0xfff7 then 1 else 0) = 8 + unat c" "unat (echo_chksum c) \<noteq> 0"
    using unat_u16_bound [of c] by (auto simp: echo_chksum_unat)
  moreover from this(1) have "8 + unat c + ?r = unat (echo_chksum c) + ?r + 65535 * (if unat c > 0xfff7 then 1 else 0)" by simp
  ultimately have "65535 dvd unat (echo_chksum c) + ?r" "unat (echo_chksum c) \<noteq> 0" by (metis dvd_add_left_iff dvd_triv_left)+
  then show ?thesis unfolding inet_chksum_zero [OF l] s by (simp add: ICMP_ER_def)
qed

end

section \<open>The buffer of the reply\<close>

lemma echo_buffer_ok:
  assumes "wf_chain (ph # ps)" "packet (ph # ps)" "front ph = link @ iphdr" "length iphdr = hlen" "0 < hlen" "8 \<le> length (bytes (ph # ps))"
    "hlen + length (bytes (ph # ps)) < 65536" "4 \<le> length (payload ph)" "ref ph = 1"
    "14 \<le> length link \<and> ptype ph \<noteq> PBUF_REF \<and> ptype ph \<noteq> PBUF_ROM \<or>
      heap_ok mem_malloc \<and> alloc_ram mem_malloc PBUF_LINK (tot_len ph + word_of_nat hlen) \<noteq> None"
  obtains qh qs link' where "echo_buffer mem_malloc hlen ph ps = Some (Inr (qh # qs))" "wf_chain (qh # qs)" "bytes (qh # qs) = bytes (ph # ps)"
    "front qh = link' @ iphdr" "ref qh = 1" "4 \<le> length (payload qh)" "pbuf_header qh (int hlen) = Some (0, reveal hlen qh)"
proof -
  have "0 < hlen + 14" by simp
  then obtain r where r: "pbuf_header ph (int (hlen + 14)) = Some r" "r = (1, ph) \<or> hlen + 14 \<le> length (front ph) \<and> r = (0, reveal (hlen + 14) ph)"
    using pbuf_header_room [of "hlen + 14" ph] by auto
  show thesis
  proof (cases "fst r = 0")
    case True
    then have "\<not> (ptype ph = PBUF_REF \<or> ptype ph = PBUF_ROM)" using r(1) by (auto simp: pbuf_header_def pbuf_header_impl_def Let_def split: if_splits)
    then have "pbuf_header ph (int hlen) = Some (0, reveal hlen ph)" using assms(3-5) by (auto simp: pbuf_header_def pbuf_header_impl_def Let_def)
    moreover have "echo_buffer mem_malloc hlen ph ps = Some (Inr (ph # ps))" using r(1) True by (cases r) (simp add: echo_buffer_def PBUF_LINK_HLEN_def)
    ultimately show thesis using assms(1,3,8,9) by (intro that [of ph ps link]) simp_all
  next
    case False
    then have "\<not> (14 \<le> length link \<and> ptype ph \<noteq> PBUF_REF \<and> ptype ph \<noteq> PBUF_ROM)"
      using r assms(3,4) by (auto simp: pbuf_header_def pbuf_header_impl_def Let_def split: if_splits)
    then obtain q where q: "heap_ok mem_malloc" "alloc_ram mem_malloc PBUF_LINK (tot_len ph + word_of_nat hlen) = Some q" using assms(10) by blast
    have t: "unat (tot_len ph) = length (bytes (ph # ps))" using wf_tot_len [OF assms(1)] by simp
    have "unat (word_of_nat hlen :: u16) = hlen" using assms(7) by (simp add: unat_of_nat_u16)
    then have n: "unat (tot_len ph + word_of_nat hlen) = length (bytes (ph # ps)) + hlen" using t assms(7) by (subst unat_plus) simp_all
    obtain rh where rh: "q = [rh]" "wf_chain [rh]" "length (payload rh) = length (bytes (ph # ps)) + hlen" "ref rh = 1" "ptype rh = PBUF_RAM"
      using alloc_ram_spec [OF q] n by auto
    define h where "h = hide hlen (put_hdr iphdr rh)"
    have w: "wf_chain [put_hdr iphdr rh]" "length (payload (put_hdr iphdr rh)) = length (payload rh)"
      using put_hdr_wf [OF rh(2), of iphdr] rh(3) assms(4) by auto
    have hp: "length (payload h) = length (bytes (ph # ps))" "front h = front rh @ iphdr" "ref h = 1" "ptype h = PBUF_RAM"
      using w(2) rh(3-5) assms(4) by (simp_all add: h_def hide_def put_hdr_def)
    have hw: "wf_chain [h]" unfolding h_def using header_wf(1) [OF w(1), of hlen] w(2) rh(3) by simp
    have hh: "pbuf_header (put_hdr iphdr rh) (- int hlen) = Some (0, h)"
      using w rh(3) assms(5) wf_small [OF w(1)] by (simp add: pbuf_header_def pbuf_header_impl_def unat_len h_def)
    have pk: "packet [h]" by (simp add: is_queue_def)
    obtain k where k: "pbuf_copy [h] (ph # ps) = (ERR_OK, k)" "same_shape [h] k" "bytes k = overwrite 0 (bytes (ph # ps)) (bytes [h])"
      using pbuf_copy_spec [OF hw assms(1) pk assms(2)] hp(1) by (auto simp: bytes_def)
    then obtain kh where kh: "k = [kh]" "shape h = shape kh" by (auto simp: same_shape_Cons_iff)
    have kb: "bytes k = bytes (ph # ps)" using k(3) hp(1) by (simp add: overwrite_def)
    have "unat (len rh) = length (payload rh)" using wf_small [OF rh(2)] by (simp add: unat_len)
    then have "echo_buffer mem_malloc hlen ph ps = Some (Inr [kh])"
      using r False q rh hh k(1) kh(1) assms(3,4,6) by (cases r) (auto simp: echo_buffer_def PBUF_LINK_HLEN_def ICMP_HLEN_def)
    moreover have "wf_chain [kh]" using same_shape_wf [OF k(2) hw] kh(1) by simp
    moreover have "front kh = front rh @ iphdr" "ref kh = 1" "ptype kh = PBUF_RAM" "length (payload kh) = length (bytes (ph # ps))"
      using kh(2) hp by (simp_all add: shape_def)
    moreover from this have "pbuf_header kh (int hlen) = Some (0, reveal hlen kh)"
      using assms(4,5) by (simp add: pbuf_header_def pbuf_header_impl_def Let_def)
    ultimately show thesis using kb kh(1) assms(6) by (intro that [of kh "[]" "front rh"]) simp_all
  qed
qed

lemma echo_reply_bytes:
  assumes "length iphdr = hlen" "20 \<le> hlen" "hlen \<le> 60"
  shows "\<exists>hdr. echo_reply lwip_standard_chksum at hlen src dest (iphdr @ [t, code] @ mem16 c @ d) = hdr @ [ICMP_ER, code] @ mem16 (echo_chksum c) @ d \<and>
    length hdr = hlen \<and> inet_chksum lwip_standard_chksum b hdr = 0 \<and> get_addr hdr 12 = src \<and> get_addr hdr 16 = dest \<and>
    take 8 hdr = take 8 iphdr \<and> hdr ! 8 = ICMP_TTL \<and> hdr ! 9 = iphdr ! 9 \<and> drop 20 hdr = drop 20 iphdr"
proof -
  define hdr where "hdr k = take 8 iphdr @ [ICMP_TTL, iphdr ! 9] @ mem16 k @ mem32 src @ mem32 dest @ drop 20 iphdr" for k
  let ?k = "inet_chksum lwip_standard_chksum at (hdr 0)"
  have l: "length (hdr k) = hlen" for k using assms by (simp add: hdr_def mem16_def mem32_def)
  have e: "even (length (take 8 iphdr @ [ICMP_TTL, iphdr ! 9]))" using assms by simp
  have b: "length ((take 8 iphdr @ [ICMP_TTL, iphdr ! 9]) @ mem16 0 @ mem32 src @ mem32 dest @ drop 20 iphdr) < 65536" using l [of 0] assms(3) by (simp add: hdr_def)
  have z: "inet_chksum lwip_standard_chksum b (hdr ?k) = 0"
    using v2.inet_chksum_verifies [OF e b, of b at] by (simp add: hdr_def)
  have "echo_reply lwip_standard_chksum at hlen src dest (iphdr @ [t, code] @ mem16 c @ d) = hdr ?k @ [ICMP_ER, code] @ mem16 (echo_chksum c) @ d"
    using assms by (simp add: echo_reply_def Let_def hdr_def nth_append get16_def mem16_def)
  moreover have "get_addr (hdr ?k) 12 = src" "get_addr (hdr ?k) 16 = dest" "hdr ?k ! 8 = ICMP_TTL" "hdr ?k ! 9 = iphdr ! 9" "take 8 (hdr ?k) = take 8 iphdr"
    "drop 20 (hdr ?k) = drop 20 iphdr"
    using assms by (simp_all add: hdr_def get_addr_def nth_append mem16_def mem32_def min_def)
  ultimately show ?thesis using l z by blast
qed

section \<open>Properties\<close>

text \<open>
  C17: Ping works: an echo request with a valid checksum to the address of the station, with any code, identifier and data, in any number of
  buffers and with any IP options, is answered when its buffer has room for the link header or there is memory for
  a copy. The reply has the data of the request and the addresses exchanged; the checksum of its header and the incrementally adjusted checksum of
  the message both verify.
\<close>

theorem icmp_echo_answered:
  assumes "wf_chain (ph # ps)" "packet (ph # ps)" "front ph = link @ iphdr" "length iphdr = hlen" "20 \<le> hlen" "hlen \<le> 60"
    "bytes (ph # ps) = [ICMP_ECHO, code] @ mem16 c @ d" "4 \<le> length d" "4 \<le> length (payload ph)" "hlen + length (bytes (ph # ps)) < 65536" "ref ph = 1"
    "inet_chksum_pbuf lwip_standard_chksum addr_of (ph # ps) = 0"
    "\<not> ip4_addr_ismulticast dst" "\<not> ip4_addr_isbroadcast_u32 dst netif"
    "14 \<le> length link \<and> ptype ph \<noteq> PBUF_REF \<and> ptype ph \<noteq> PBUF_ROM \<or>
      heap_ok mem_malloc \<and> alloc_ram mem_malloc PBUF_LINK (tot_len ph + word_of_nat hlen) \<noteq> None"
  shows "\<exists>out q hdr c'. icmp_input lwip_standard_chksum addr_of mem_malloc below netif inp src dst hlen (ph # ps) i = Some (Some ((below out, Some out), i)) \<and>
    out \<in> {To_Link q src, To_Frag q src} \<and> wf_chain q \<and> bytes q = hdr @ [ICMP_ER, code] @ mem16 c' @ d \<and> length hdr = hlen \<and>
    get_addr hdr 12 = dst \<and> get_addr hdr 16 = src \<and> hdr ! 8 = ICMP_TTL \<and> hdr ! 9 = iphdr ! 9 \<and> drop 20 hdr = drop 20 iphdr \<and>
    inet_chksum lwip_standard_chksum a hdr = 0 \<and> inet_chksum lwip_standard_chksum b ([ICMP_ER, code] @ mem16 c' @ d) = 0"
proof -
  let ?C = lwip_standard_chksum
  have lb: "length (bytes (ph # ps)) = 4 + length d" unfolding assms(7) by (simp add: mem16_def)
  have t: "unat (tot_len ph) = 4 + length d" using wf_tot_len [OF assms(1)] lb by simp
  have len: "unat (len ph) = length (payload ph)" using wf_small [OF assms(1)] by (simp add: unat_len)
  have "payload ph ! 0 = bytes (ph # ps) ! 0" using assms(9) by (auto simp: nth_append)
  then have ty: "payload ph ! 0 = ICMP_ECHO" unfolding assms(7) by simp
  have "inet_chksum ?C 0 ([ICMP_ECHO, code] @ mem16 c @ d) = 0"
    using assms(12) v2.inet_chksum_pbuf_contiguous [OF wf_chain_ok [OF assms(1)], of addr_of 0] lb assms(10) unfolding assms(7) by simp
  then have v: "inet_chksum ?C b ([ICMP_ER, code] @ mem16 (echo_chksum c) @ d) = 0"
    by (rule v2.echo_chksum_verifies) (use lb assms(10) in simp)
  have "0 < hlen" "8 \<le> length (bytes (ph # ps))" using assms(5,8) lb by simp_all
  from echo_buffer_ok [OF assms(1-4) this assms(10,9,11,15)] obtain qh qs link' where
    q: "echo_buffer mem_malloc hlen ph ps = Some (Inr (qh # qs))" "wf_chain (qh # qs)" "bytes (qh # qs) = bytes (ph # ps)"
    "front qh = link' @ iphdr" "ref qh = 1" "4 \<le> length (payload qh)" "pbuf_header qh (int hlen) = Some (0, reveal hlen qh)" by metis
  define h where "h = reveal hlen qh"
  have hw: "wf_chain (h # qs)" unfolding h_def by (rule header_wf(2) [OF q(2)]) (use q(3,4) assms(4,10) in simp_all)
  have hp: "payload h = iphdr @ payload qh" "ref h = 1" using q(4,5) assms(4) by (simp_all add: h_def reveal_def Let_def)
  have pq: "payload qh @ bytes qs = [ICMP_ECHO, code] @ mem16 c @ d" using q(3) unfolding assms(7) by simp
  have "take 4 (payload qh @ bytes qs) = [ICMP_ECHO, code] @ mem16 c" "drop 4 (payload qh @ bytes qs) = d" unfolding pq by (simp_all add: mem16_def)
  then have "take 4 (payload qh) = [ICMP_ECHO, code] @ mem16 c" and rest: "drop 4 (payload qh) @ bytes qs = d" using q(6) by simp_all
  then have pl: "payload qh = [ICMP_ECHO, code] @ mem16 c @ drop 4 (payload qh)" by (metis append.assoc append_take_drop_id)
  obtain hdr where hdr: "echo_reply ?C (addr_of h) hlen dst src (payload h) = hdr @ [ICMP_ER, code] @ mem16 (echo_chksum c) @ drop 4 (payload qh)"
    "length hdr = hlen" "inet_chksum ?C a hdr = 0" "get_addr hdr 12 = dst" "get_addr hdr 16 = src" "hdr ! 8 = ICMP_TTL" "hdr ! 9 = iphdr ! 9" "drop 20 hdr = drop 20 iphdr"
    using echo_reply_bytes [OF assms(4,5,6), of "addr_of h" dst src ICMP_ECHO code c "drop 4 (payload qh)" a] pl unfolding hp(1) by metis
  define h' where "h' = h\<lparr>payload := echo_reply ?C (addr_of h) hlen dst src (payload h)\<rparr>"
  have "length (payload h') = length (payload h)" unfolding h'_def using hdr(1,2) q(6) by (simp add: hp(1) assms(4) mem16_def)
  then have wf: "wf_chain (h' # qs)" using hw by (simp add: h'_def)
  have bq: "bytes (h' # qs) = hdr @ [ICMP_ER, code] @ mem16 (echo_chksum c) @ d" using hdr(1) rest by (simp add: h'_def)
  let ?out = "if mtu inp \<noteq> 0 \<and> tot_len h' > mtu inp then To_Frag (h' # qs) src else To_Link (h' # qs) src"
  have "get_addr (payload h') 16 = src" using hdr(1,2,5) assms(5) by (simp add: h'_def get_addr_def nth_append)
  then have "ip4_output_if below (h' # qs) (Some dst) None ICMP_TTL 0 IP_PROTO_ICMP inp i = Some ((below ?out, Some ?out), i)"
    using hp(2) hdr(1,2) assms(5) by (auto simp: ip4_output_if_def ip4_output_if_src_def ip4_send_def h'_def IP_HLEN_def Let_def)
  then have "icmp_input ?C addr_of mem_malloc below netif inp src dst hlen (ph # ps) i = Some (Some ((below ?out, Some ?out), i))"
    using assms(3-5,8,9,12-14) len ty t q(1,7) by (simp add: icmp_input_def IP_HLEN_def ICMP_HLEN_def h_def [symmetric] h'_def [symmetric])
  then show ?thesis using wf bq hdr(2-8) v
    by (intro exI [of _ ?out], intro exI [of _ "h' # qs"], intro exI [of _ hdr], intro exI [of _ "echo_chksum c"]) simp
qed

text \<open>
  C19: An error message, such as the port unreachable message for a datagram that \<^verbatim>\<open>udp_input\<close> has no control
  block for, goes to the sender of the packet with a valid checksum and quotes the first 28 bytes of the packet, when there is a route and memory.
  A packet whose first buffer has less than 28 bytes is read beyond its end.
\<close>

theorem icmp_error_quotes:
  assumes "heap_ok mem_malloc" "alloc_ram mem_malloc PBUF_IP 36 \<noteq> None" "wf_chain (ph # ps)" "ip4_route ns (get_addr (payload ph) 12) = Some n"
  shows "if length (payload ph) < 28
    then icmp_dest_unreach lwip_standard_chksum addr_of mem_malloc below ns ph t i = None
    else \<exists>out q hdr c. icmp_dest_unreach lwip_standard_chksum addr_of mem_malloc below ns ph t i = Some (Some ((below out, Some out), i + 1)) \<and>
      out \<in> {To_Link q (get_addr (payload ph) 12), To_Frag q (get_addr (payload ph) 12)} \<and>
      bytes q = hdr @ [ICMP_DUR, t] @ mem16 c @ [0, 0, 0, 0] @ take 28 (payload ph) \<and> length hdr = 20 \<and> hdr ! 9 = IP_PROTO_ICMP \<and>
      get_addr hdr 16 = get_addr (payload ph) 12 \<and> get_addr hdr 12 = ip_addr4 (netif_at ns n) \<and> inet_chksum lwip_standard_chksum a hdr = 0 \<and>
      inet_chksum lwip_standard_chksum b ([ICMP_DUR, t] @ mem16 c @ [0, 0, 0, 0] @ take 28 (payload ph)) = 0"
proof -
  let ?C = lwip_standard_chksum
  obtain q where q: "alloc_ram mem_malloc PBUF_IP 36 = Some [q]" "wf_chain [q]" "length (payload q) = 36" "length (front q) = 36" "ref q = 1" "ptype q = PBUF_RAM"
    using assms(2) alloc_ram_spec [OF assms(1)] by (fastforce simp: PBUF_LINK_HLEN_def PBUF_IP_HLEN_def mem_align_def)
  have lq: "unat (len q) = 36" using q(3) by (simp add: len_def)
  show ?thesis
  proof (cases "length (payload ph) < 28")
    case True
    then show ?thesis using q(1) lq by (simp add: icmp_dest_unreach_def icmp_send_response_def IP_HLEN_def ICMP_HLEN_def ICMP_DEST_UNREACH_DATASIZE_def)
  next
    case False
    let ?dst = "get_addr (payload ph) 12" and ?d = "take 28 (payload ph)"
    define msg where "msg c = [ICMP_DUR, t] @ mem16 c @ mem16 0 @ mem16 0 @ ?d" for c
    define c where "c = inet_chksum ?C (addr_of q) (msg 0)"
    define m where "m = q\<lparr>payload := msg c\<rparr>"
    have lm: "length (msg x) = 36" for x using False by (simp add: msg_def mem16_def)
    then have wm: "wf_chain [m]" "length (bytes [m]) + 20 < 65536" "bytes [m] = msg c" using q(2,3) by (simp_all add: m_def bytes_def)
    have z: "inet_chksum ?C b (msg c) = 0"
      using v2.inet_chksum_verifies [of "[ICMP_DUR, t]" "mem16 0 @ mem16 0 @ ?d" b "addr_of q"] lm [of 0] by (simp add: msg_def c_def)
    let ?r = "ip4_output_if_src below [m] (Some (ip_addr4 (netif_at ns n))) (Some ?dst) ICMP_TTL 0 IP_PROTO_ICMP (netif_at ns n) i"
    have run: "icmp_dest_unreach ?C addr_of mem_malloc below ns ph t i = map_option Some ?r"
      using q(1,3) lq False assms(4) by (simp add: icmp_dest_unreach_def icmp_send_response_def IP_HLEN_def ICMP_HLEN_def ICMP_DEST_UNREACH_DATASIZE_def
        Let_def m_def c_def msg_def ip4_output_if_def)
    have room: "pbuf_header m (int IP_HLEN) = Some (0, reveal 20 m)" "20 \<le> length (front m)" "ref m = 1"
      using q(4-6) by (simp_all add: pbuf_header_def pbuf_header_impl_def m_def IP_HLEN_def)
    let ?hdr = "\<lambda>k. ip_hdr 0x45 0 (lwip_htons (word_of_nat (20 + length (bytes [m])))) (lwip_htons i) 0 ICMP_TTL IP_PROTO_ICMP k (ip_addr4 (netif_at ns n)) ?dst"
    obtain f k where f: "?r = Some (ip4_send below (netif_at ns n) f ?dst, i + 1)" "bytes f = ?hdr k @ bytes [m]" "inet_chksum ?C a (?hdr k) = 0"
      using ip4_output_runs [OF wm(1,2) room, of below "ip_addr4 (netif_at ns n)" ?dst ICMP_TTL 0 IP_PROTO_ICMP "netif_at ns n" i] by metis
    have "bytes f = ?hdr k @ [ICMP_DUR, t] @ mem16 c @ [0, 0, 0, 0] @ ?d" unfolding f(2) wm(3) msg_def by (simp add: mem16_def)
    moreover have "inet_chksum ?C b ([ICMP_DUR, t] @ mem16 c @ [0, 0, 0, 0] @ ?d) = 0" using z by (simp add: msg_def mem16_def)
    moreover define out where "out = (if mtu (netif_at ns n) \<noteq> 0 \<and> tot_len (hd f) > mtu (netif_at ns n) then To_Frag f ?dst else To_Link f ?dst)"
    moreover have "icmp_dest_unreach ?C addr_of mem_malloc below ns ph t i = Some (Some ((below out, Some out), i + 1))"
      unfolding run f(1) by (simp add: ip4_send_def out_def Let_def)
    moreover have "?hdr k ! 9 = IP_PROTO_ICMP" "get_addr (?hdr k) 16 = ?dst" "get_addr (?hdr k) 12 = ip_addr4 (netif_at ns n)"
      using ip_hdr_fields(4-6) [where d = "[]"] by simp_all
    ultimately show ?thesis using False f(3)
      by (simp only: if_False, intro exI [of _ out], intro exI [of _ f], intro exI [of _ "?hdr k"], intro exI [of _ c]) simp
  qed
qed

section \<open>Witnesses\<close>

definition ip_front :: "u8 list" where
  "ip_front = ip_hdr 0x45 0 0 0 0 64 IP_PROTO_ICMP 0 0x6500a8c0 0x6600a8c0"

definition echo_request :: pbuf where
  "echo_request = \<lparr>front = replicate 14 0 @ ip_front, payload = [8, 0] @ mem16 0xfff7 @ [0, 0, 0, 0], tot_len = 8, ptype = PBUF_POOL, pflags = 0, ref = 1\<rparr>"

theorem icmp_echo_answered_witness:
  "\<exists>out q hdr c'. icmp_input lwip_standard_chksum (\<lambda>_. 0) (\<lambda>_. None) (\<lambda>_. ERR_OK) eth0 eth0 0x6500a8c0 0x6600a8c0 20 [echo_request] 3 =
      Some (Some ((ERR_OK, Some out), 3)) \<and> out \<in> {To_Link q 0x6500a8c0, To_Frag q 0x6500a8c0} \<and> bytes q = hdr @ [0, 0] @ mem16 c' @ [0, 0, 0, 0] \<and>
    inet_chksum lwip_standard_chksum 0 ([0, 0] @ mem16 c' @ [0, 0, 0, 0]) = 0"
proof -
  have p: "wf_chain [echo_request]" "packet [echo_request]" "front echo_request = replicate 14 0 @ ip_front" "length ip_front = 20"
    "bytes [echo_request] = [ICMP_ECHO, 0] @ mem16 0xfff7 @ [0, 0, 0, 0]" "4 \<le> length [0 :: u8, 0, 0, 0]" "4 \<le> length (payload echo_request)"
    "20 + length (bytes [echo_request]) < 65536" "ref echo_request = 1"
    by (simp_all add: echo_request_def is_queue_def ip_front_def bytes_def mem16_def ICMP_ECHO_def)
  have s: "sum16 (bytes [echo_request]) = 65535" unfolding p(5) using sum16_mem16 [of "0xfff7" "[0, 0, 0, 0]"] by (simp add: ICMP_ECHO_def)
  have "inet_chksum_pbuf lwip_standard_chksum (\<lambda>_. 0) [echo_request] = inet_chksum lwip_standard_chksum 0 (bytes [echo_request])"
    using p(8) by (intro v2.inet_chksum_pbuf_contiguous wf_chain_ok p(1)) simp
  also have "\<dots> = 0" using v2.inet_chksum_zero [of "bytes [echo_request]" 0] s p(8) by simp
  finally have z: "inet_chksum_pbuf lwip_standard_chksum (\<lambda>_. 0) [echo_request] = 0" .
  have a: "\<not> ip4_addr_ismulticast 0x6600a8c0" "\<not> ip4_addr_isbroadcast_u32 0x6600a8c0 eth0"
    by (simp_all add: eth0_def ip4_addr_ismulticast_def ip4_addr_isbroadcast_u32_def lwip_htonl_def IPADDR_ANY_def)
  have r: "14 \<le> length (replicate 14 (0 :: u8)) \<and> ptype echo_request \<noteq> PBUF_REF \<and> ptype echo_request \<noteq> PBUF_ROM \<or>
      heap_ok (\<lambda>_. None) \<and> alloc_ram (\<lambda>_. None) PBUF_LINK (tot_len echo_request + word_of_nat 20) \<noteq> None" by (simp add: echo_request_def)
  show ?thesis
    using icmp_echo_answered [OF p(1-4) _ _ p(5-9) z a r, where a = 0 and b = 0 and below = "\<lambda>_. ERR_OK" and inp = eth0 and i = 3 and src = "0x6500a8c0"] by (simp add: ICMP_ER_def) blast
qed

theorem icmp_error_quotes_witness:
  "\<exists>out. icmp_dest_unreach lwip_standard_chksum (\<lambda>_. 0) (\<lambda>n. Some (replicate (unat n) 0)) (\<lambda>_. ERR_OK) stations
    \<lparr>front = [], payload = ip_front @ [1, 2, 3, 4, 5, 6, 7, 8], tot_len = 28, ptype = PBUF_POOL, pflags = 0, ref = 1\<rparr> ICMP_DUR_PORT 3 = Some (Some ((ERR_OK, Some out), 4))"
proof -
  let ?p = "\<lparr>front = [], payload = ip_front @ [1, 2, 3, 4, 5, 6, 7, 8], tot_len = 28, ptype = PBUF_POOL, pflags = 0, ref = 1\<rparr>"
  have h: "heap_ok (\<lambda>n. Some (replicate (unat n) 0))" by (auto simp: heap_ok_def)
  have a: "alloc_ram (\<lambda>n. Some (replicate (unat n) 0)) PBUF_IP 36 \<noteq> None"
    by (simp add: alloc_ram_def mem_align_def SIZEOF_STRUCT_PBUF_def PBUF_IP_HLEN_def PBUF_LINK_HLEN_def)
  have l: "length ip_front = 20" by (simp add: ip_front_def)
  have w: "wf_chain [?p]" using l by simp
  have "get_addr (payload ?p) 12 = 0x6500a8c0" by (simp add: ip_front_def ip_hdr_fields)
  then have r: "ip4_route stations (get_addr (payload ?p) 12) = Some 0"
    by (simp add: ip4_route_def stations_def eth0_def usable_def ip4_addr_netcmp_def IPADDR_ANY_def)
  from icmp_error_quotes [OF h a w r, of "\<lambda>_. 0" "\<lambda>_. ERR_OK" ICMP_DUR_PORT 3] show ?thesis using l by auto
qed
end
