(* ===== verification/Ip4_Frag.thy ===== *)
theory Ip4_Frag
  imports Icmp_Props
begin

text \<open>
  Fragmentation and reassembly, \<^verbatim>\<open>lwip/src/core/ipv4/ip4_frag.c\<close>, as built (overlaps are checked, the oldest datagram
  makes room, fragments refer to the original buffers). A fragment waiting in a queue is its buffers with the helper
  structure that replaces its header, here the fields \<open>fstart\<close> and \<open>fend\<close>; the queues linked by \<^verbatim>\<open>next_pbuf\<close> and \<^verbatim>\<open>next\<close> are
  lists, a datagram is named by its position. The pool of datagrams has five elements. Packets that \<^verbatim>\<open>icmp_time_exceeded\<close> gets
  are part of the result. A result \<open>None\<close> is a failed assertion, or a loop that does not end.
\<close>

section \<open>Data\<close>

record ipfrag =
  fstart :: u16
  fend :: u16
  fbuf :: chain

record reassdata =
  riphdr :: "u8 list"
  rfrags :: "ipfrag list"
  datagram_len :: u16
  lastfrag :: bool
  timer :: u8

record reass_state =
  reassdatagrams :: "reassdata list"
  ip_reass_pbufcount :: u16

definition IP_REASS_MAXAGE :: u8 where "IP_REASS_MAXAGE = 3"
definition IP_REASS_MAX_PBUFS :: nat where "IP_REASS_MAX_PBUFS = 10"
definition MEMP_NUM_REASSDATA :: nat where "MEMP_NUM_REASSDATA = 5"

text \<open>A header with its length and offset replaced and its checksum calculated anew.\<close>

definition frag_hdr :: "chksum \<Rightarrow> nat \<Rightarrow> u8 list \<Rightarrow> u16 \<Rightarrow> u16 \<Rightarrow> u8 list" where
  "frag_hdr LWIP_CHKSUM at h n off =
    (let g = (\<lambda>c. take 2 h @ mem16 n @ take 2 (drop 4 h) @ mem16 off @ take 2 (drop 8 h) @ mem16 c @ take 8 (drop 12 h))
     in g (inet_chksum LWIP_CHKSUM at (g 0)))"

definition IP_ADDRESSES_AND_ID_MATCH :: "u8 list \<Rightarrow> u8 list \<Rightarrow> bool" where
  "IP_ADDRESSES_AND_ID_MATCH a b \<longleftrightarrow> get_addr a 12 = get_addr b 12 \<and> get_addr a 16 = get_addr b 16 \<and> get16 a 4 = get16 b 4"

definition frag_offset :: "u8 list \<Rightarrow> u16" where
  "frag_offset h = (lwip_htons (get16 h 6) AND IP_OFFMASK) * 8"

definition frag_len :: "u8 list \<Rightarrow> u16" where
  "frag_len h = lwip_htons (get16 h 2) - word_of_nat (unat (h ! 0 AND 0x0f) * 4)"

section \<open>Giving up datagrams\<close>

definition ip_reass_free_complete_datagram :: "nat \<Rightarrow> reass_state \<Rightarrow> (nat \<times> chain list \<times> reass_state) option" where
  "ip_reass_free_complete_datagram i s =
    (if i < length (reassdatagrams s) then
       let r = reassdatagrams s ! i in
       case rfrags r of [] \<Rightarrow> None
       | f # _ \<Rightarrow>
         let
           time_exceeded = (if fstart f = 0 then [put_hdr (riphdr r) (hd (fbuf f)) # tl (fbuf f)] else []);
           pbufs_freed = sum_list (map (\<lambda>f. unat (pbuf_clen (fbuf f))) (rfrags r))
         in if pbufs_freed > 0xffff \<or> unat (ip_reass_pbufcount s) < pbufs_freed then None
            else Some (pbufs_freed, time_exceeded,
              s\<lparr>reassdatagrams := take i (reassdatagrams s) @ drop (Suc i) (reassdatagrams s),
                ip_reass_pbufcount := ip_reass_pbufcount s - word_of_nat pbufs_freed\<rparr>)
     else None)"

text \<open>The position of the last datagram with the least timer among the other ones, and the number of these.\<close>

fun oldest_loop :: "u8 list \<Rightarrow> reassdata list \<Rightarrow> nat \<Rightarrow> (nat \<times> u8) option \<Rightarrow> nat \<Rightarrow> nat option \<times> nat" where
  "oldest_loop fraghdr [] i oldest others = (map_option fst oldest, others)"
| "oldest_loop fraghdr (r # rs) i oldest others =
    (if IP_ADDRESSES_AND_ID_MATCH (riphdr r) fraghdr then oldest_loop fraghdr rs (Suc i) oldest others
     else oldest_loop fraghdr rs (Suc i)
       (case oldest of None \<Rightarrow> Some (i, timer r) | Some (_, t) \<Rightarrow> if timer r \<le> t then Some (i, timer r) else oldest) (Suc others))"

function ip_reass_remove_oldest_datagram :: "u8 list \<Rightarrow> nat \<Rightarrow> nat \<Rightarrow> reass_state \<Rightarrow> (nat \<times> chain list \<times> reass_state) option" where
  "ip_reass_remove_oldest_datagram fraghdr pbufs_needed pbufs_freed s =
    (case oldest_loop fraghdr (reassdatagrams s) 0 None 0 of
       (None, _) \<Rightarrow> Some (pbufs_freed, [], s)
     | (Some i, other_datagrams) \<Rightarrow>
         (case ip_reass_free_complete_datagram i s of
            None \<Rightarrow> None
          | Some (n, te, s') \<Rightarrow>
              if pbufs_freed + n < pbufs_needed \<and> other_datagrams > 1
              then map_option (\<lambda>(n, te', s). (n, te @ te', s)) (ip_reass_remove_oldest_datagram fraghdr pbufs_needed (pbufs_freed + n) s')
              else Some (pbufs_freed + n, te, s')))"
  by pat_completeness auto
termination
  by (relation "measure (\<lambda>(_, _, _, s). length (reassdatagrams s))")
    (auto simp: ip_reass_free_complete_datagram_def Let_def split: if_splits list.splits)

function ip_reass_tmr_loop :: "nat \<Rightarrow> reass_state \<Rightarrow> (chain list \<times> reass_state) option" where
  "ip_reass_tmr_loop i s =
    (if i < length (reassdatagrams s) then
       let r = reassdatagrams s ! i in
       if timer r > 0 then ip_reass_tmr_loop (Suc i) (s\<lparr>reassdatagrams := (reassdatagrams s)[i := r\<lparr>timer := timer r - 1\<rparr>]\<rparr>)
       else (case ip_reass_free_complete_datagram i s of
           None \<Rightarrow> None
         | Some (_, te, s') \<Rightarrow> map_option (apfst ((@) te)) (ip_reass_tmr_loop i s'))
     else Some ([], s))"
  by pat_completeness auto
termination
  by (relation "measure (\<lambda>(i, s). length (reassdatagrams s) - i)")
    (auto simp: ip_reass_free_complete_datagram_def Let_def split: if_splits list.splits)

declare ip_reass_remove_oldest_datagram.simps [simp del] ip_reass_tmr_loop.simps [simp del]

definition ip_reass_tmr :: "reass_state \<Rightarrow> (chain list \<times> reass_state) option" where
  "ip_reass_tmr = ip_reass_tmr_loop 0"

section \<open>Reassembly\<close>

definition ip_reass_enqueue_new_datagram :: "u8 list \<Rightarrow> nat \<Rightarrow> reass_state \<Rightarrow> (bool \<times> chain list \<times> reass_state) option" where
  "ip_reass_enqueue_new_datagram fraghdr clen s =
    (let
       enqueue = (\<lambda>s. s\<lparr>reassdatagrams := \<lparr>riphdr = take IP_HLEN fraghdr, rfrags = [], datagram_len = 0, lastfrag = False, timer = IP_REASS_MAXAGE\<rparr>
         # reassdatagrams s\<rparr>);
       memp_free = (\<lambda>s. length (reassdatagrams s) < MEMP_NUM_REASSDATA)
     in if memp_free s then Some (True, [], enqueue s)
        else map_option (\<lambda>(n, te, s). if n \<ge> clen \<and> memp_free s then (True, te, enqueue s) else (False, te, s))
          (ip_reass_remove_oldest_datagram fraghdr clen 0 s))"

text \<open>
  The place of a new fragment in the queue: what comes before it, what comes after it, and whether no hole was seen on the
  way. \<open>Some None\<close> stands for a fragment that is thrown away.
\<close>

fun frag_insert :: "ipfrag \<Rightarrow> ipfrag option \<Rightarrow> bool \<Rightarrow> ipfrag list \<Rightarrow> (ipfrag list \<times> ipfrag list \<times> bool) option option" where
  "frag_insert iprh prev valid [] =
    (case prev of None \<Rightarrow> Some (Some ([], [], valid))
     | Some pr \<Rightarrow> if fend pr \<le> fstart iprh then Some (Some ([], [], valid \<and> fend pr = fstart iprh)) else None)"
| "frag_insert iprh prev valid (q # qs) =
    (if fstart iprh < fstart q then
       (case prev of None \<Rightarrow> Some (Some ([], q # qs, valid))
        | Some pr \<Rightarrow> if fstart iprh < fend pr \<or> fend iprh > fstart q then Some None else Some (Some ([], q # qs, valid)))
     else if fstart iprh = fstart q then Some None
     else if fstart iprh < fend q then Some None
     else map_option (map_option (\<lambda>(bef, aft, v). (q # bef, aft, v)))
       (frag_insert iprh (Some q) (case prev of None \<Rightarrow> valid | Some pr \<Rightarrow> valid \<and> fend pr = fstart q) qs))"

fun contiguous :: "ipfrag \<Rightarrow> ipfrag list \<Rightarrow> bool" where
  "contiguous f [] \<longleftrightarrow> True"
| "contiguous f (g # gs) \<longleftrightarrow> fend f = fstart g \<and> contiguous g gs"

text \<open>The datagram with the fragment in its place and whether it is complete; \<open>Some None\<close> for a fragment that is thrown away.\<close>

definition ip_reass_chain_frag_into_datagram_and_validate :: "reassdata \<Rightarrow> chain \<Rightarrow> (reassdata \<times> bool) option option" where
  "ip_reass_chain_frag_into_datagram_and_validate ipr new_p =
    (let
       h = payload (hd new_p);
       iprh = \<lparr>fstart = frag_offset h, fend = frag_offset h + frag_len h, fbuf = new_p\<rparr>
     in case frag_insert iprh None True (rfrags ipr) of
          None \<Rightarrow> None
        | Some None \<Rightarrow> Some None
        | Some (Some (bef, aft, valid)) \<Rightarrow>
            let frags = bef @ iprh # aft; valid = (lastfrag ipr \<and> valid \<and> fstart (hd frags) = 0 \<and> contiguous iprh aft)
            in if valid \<and> (length frags = 1 \<or> fend (last frags) \<noteq> datagram_len ipr) then None
               else Some (Some (ipr\<lparr>rfrags := frags\<rparr>, valid)))"

fun reass_find :: "u8 list \<Rightarrow> reassdata list \<Rightarrow> nat option" where
  "reass_find fraghdr [] = None"
| "reass_find fraghdr (r # rs) =
    (if IP_ADDRESSES_AND_ID_MATCH (riphdr r) fraghdr then Some 0 else map_option Suc (reass_find fraghdr rs))"

text \<open>The packet put together from the fragments of a complete datagram.\<close>

definition reass_packet :: "chksum \<Rightarrow> (pbuf \<Rightarrow> nat) \<Rightarrow> reassdata \<Rightarrow> chain option" where
  "reass_packet LWIP_CHKSUM addr_of r =
    (case rfrags r of
       [] \<Rightarrow> None
     | f # fs \<Rightarrow>
         (case fbuf f of [] \<Rightarrow> None
          | ph # ps \<Rightarrow>
              let hdr = frag_hdr LWIP_CHKSUM (addr_of ph) (riphdr r) (lwip_htons (datagram_len r + word_of_nat IP_HLEN)) 0
              in Some (foldl (\<lambda>p g. pbuf_cat p (case fbuf g of [] \<Rightarrow> []
                   | gh # gs \<Rightarrow> (case pbuf_header gh (- int IP_HLEN) of None \<Rightarrow> [] | Some (_, gh) \<Rightarrow> gh # gs)))
                   (put_hdr hdr ph # ps) fs)))"

text \<open>The steps of \<^verbatim>\<open>ip4_reass\<close>: room for the buffers of a fragment, the datagram it belongs to, and the fragment in its place.\<close>

definition reass_room :: "u8 list \<Rightarrow> nat \<Rightarrow> reass_state \<Rightarrow> (bool \<times> chain list \<times> reass_state) option" where
  "reass_room fraghdr clen s =
    (if unat (ip_reass_pbufcount s) + clen > IP_REASS_MAX_PBUFS
     then map_option (\<lambda>(n, te, s). (n \<noteq> 0 \<and> unat (ip_reass_pbufcount s) + clen \<le> IP_REASS_MAX_PBUFS, te, s))
       (ip_reass_remove_oldest_datagram fraghdr clen 0 s)
     else Some (True, [], s))"

definition reass_entry :: "u8 list \<Rightarrow> nat \<Rightarrow> reass_state \<Rightarrow> (nat option \<times> chain list \<times> reass_state) option" where
  "reass_entry fraghdr clen s =
    (case reass_find fraghdr (reassdatagrams s) of
       None \<Rightarrow> map_option (\<lambda>(ok, te, s). (if ok then Some 0 else None, te, s)) (ip_reass_enqueue_new_datagram fraghdr clen s)
     | Some i \<Rightarrow>
         let r = reassdatagrams s ! i in
         Some (Some i, [], if frag_offset fraghdr = 0 \<and> frag_offset (riphdr r) \<noteq> 0
           then s\<lparr>reassdatagrams := (reassdatagrams s)[i := r\<lparr>riphdr := take IP_HLEN fraghdr\<rparr>]\<rparr> else s))"

definition reass_add :: "chksum \<Rightarrow> (pbuf \<Rightarrow> nat) \<Rightarrow> chain \<Rightarrow> nat \<Rightarrow> reass_state \<Rightarrow> (chain option \<times> reass_state) option" where
  "reass_add LWIP_CHKSUM addr_of p i s =
    (let
       fraghdr = payload (hd p);
       r = reassdatagrams s ! i;
       r = (if get16 fraghdr 6 AND lwip_htons IP_MF = 0
         then r\<lparr>lastfrag := True, datagram_len := frag_offset fraghdr + frag_len fraghdr\<rparr> else r)
     in case ip_reass_chain_frag_into_datagram_and_validate r p of
          None \<Rightarrow> None
        | Some None \<Rightarrow> Some (None, s\<lparr>reassdatagrams := (reassdatagrams s)[i := r]\<rparr>)
        | Some (Some (r, valid)) \<Rightarrow>
            let s = s\<lparr>ip_reass_pbufcount := ip_reass_pbufcount s + pbuf_clen p\<rparr>
            in if \<not> valid then Some (None, s\<lparr>reassdatagrams := (reassdatagrams s)[i := r]\<rparr>)
               else map_option (\<lambda>q. (Some q, s\<lparr>reassdatagrams := take i (reassdatagrams s) @ drop (Suc i) (reassdatagrams s),
                   ip_reass_pbufcount := ip_reass_pbufcount s - pbuf_clen q\<rparr>))
                 (reass_packet LWIP_CHKSUM addr_of r))"

definition ip4_reass :: "chksum \<Rightarrow> (pbuf \<Rightarrow> nat) \<Rightarrow> chain \<Rightarrow> reass_state \<Rightarrow> (chain option \<times> chain list \<times> reass_state) option" where
  "ip4_reass LWIP_CHKSUM addr_of p s =
    (let fraghdr = payload (hd p); clen = unat (pbuf_clen p) in
     if unat (fraghdr ! 0 AND 0x0f) * 4 \<noteq> IP_HLEN then Some (None, [], s)
     else case reass_room fraghdr clen s of
       None \<Rightarrow> None
     | Some (False, te, s) \<Rightarrow> Some (None, te, s)
     | Some (True, te, s) \<Rightarrow>
         (case reass_entry fraghdr clen s of
            None \<Rightarrow> None
          | Some (None, te', s) \<Rightarrow> Some (None, te @ te', s)
          | Some (Some i, te', s) \<Rightarrow> map_option (\<lambda>(q, s). (q, te @ te', s)) (reass_add LWIP_CHKSUM addr_of p i s)))"

section \<open>Fragmentation\<close>

text \<open>
  The buffers of one fragment, which refer to the original ones: the walk through the chain from an offset in its first
  buffer, with the buffer and the offset where it stops. \<open>refs j\<close> says whether the \<open>j\<close>-th request to \<^verbatim>\<open>MEMP_FRAG_PBUF\<close> succeeds;
  \<open>Some None\<close> is a failed one.
\<close>

fun frag_body :: "(nat \<Rightarrow> bool) \<Rightarrow> nat \<Rightarrow> chain \<Rightarrow> u16 \<Rightarrow> u16 \<Rightarrow> (chain \<times> chain \<times> u16 \<times> nat) option option" where
  "frag_body refs j [] poff left_to_copy = None"
| "frag_body refs j (p # ps) poff left_to_copy =
    (if left_to_copy = 0 then Some (Some ([], p # ps, poff, j))
     else
       let plen = len p - poff; newpbuflen = min left_to_copy plen in
       if newpbuflen = 0 then frag_body refs j ps 0 left_to_copy
       else if \<not> refs j then Some None
       else
         (case pbuf_alloced_custom PBUF_RAW newpbuflen PBUF_REF (drop (unat poff) (payload p)) newpbuflen of
            None \<Rightarrow> Some None
          | Some newpbuf \<Rightarrow>
              let rest = left_to_copy - newpbuflen
              in if rest = 0 then Some (Some (newpbuf, p # ps, poff + newpbuflen, Suc j))
                 else map_option (map_option (\<lambda>(bufs, r). (newpbuf @ bufs, r))) (frag_body refs (Suc j) ps 0 rest)))"

declare frag_body.simps [simp del]

text \<open>The blocks of eight bytes in a fragment; the division of the source rounds towards zero.\<close>

definition frag_nfb :: "netif4 \<Rightarrow> u16" where
  "frag_nfb netif = (let d = uint (mtu netif) - int IP_HLEN in word_of_int (if d < 0 then - (- d div 8) else d div 8))"

text \<open>\<open>rams k\<close> is the heap at the \<open>k\<close>-th fragment. The result has the fragments that were given to the interface.\<close>

partial_function (option) frag_loop :: "chksum \<Rightarrow> (pbuf \<Rightarrow> nat) \<Rightarrow> (nat \<Rightarrow> u16 \<Rightarrow> u8 list option) \<Rightarrow> (nat \<Rightarrow> bool) \<Rightarrow> netif4 \<Rightarrow> u8 list \<Rightarrow>
    chain \<Rightarrow> u16 \<Rightarrow> u16 \<Rightarrow> u16 \<Rightarrow> nat \<Rightarrow> nat \<Rightarrow> (err \<times> chain list) option" where
  "frag_loop LWIP_CHKSUM addr_of rams refs netif hdr p poff left ofo k j =
    (if left = 0 then Some (ERR_OK, [])
     else
       let nfb = frag_nfb netif; fragsize = word_of_int (min (uint left) (uint nfb * 8)) :: u16 in
       case alloc_ram (rams k) PBUF_LINK (word_of_nat IP_HLEN) of
         None \<Rightarrow> Some (ERR_MEM, [])
       | Some ram \<Rightarrow>
           if p = [] \<or> unat (len (hd p)) < IP_HLEN then None
           else (case frag_body refs j p poff fragsize of
               None \<Rightarrow> None
             | Some None \<Rightarrow> Some (ERR_MEM, [])
             | Some (Some (bufs, p', poff', j')) \<Rightarrow>
                 let
                   off = (IP_OFFMASK AND ofo) OR (if uint left \<le> uint (mtu netif) - int IP_HLEN then 0 else IP_MF);
                   rh = put_hdr (frag_hdr LWIP_CHKSUM (addr_of (hd ram)) hdr (lwip_htons (fragsize + word_of_nat IP_HLEN)) (lwip_htons off)) (hd ram);
                   frag = foldl (\<lambda>r b. pbuf_cat r [b]) (rh # List.tl ram) bufs
                 in Option.bind (frag_loop LWIP_CHKSUM addr_of rams refs netif hdr p' poff' (left - fragsize) (ofo + nfb) (Suc k) j')
                   (\<lambda>(err, frags). Some (err, frag # frags))))"

definition ip4_frag :: "chksum \<Rightarrow> (pbuf \<Rightarrow> nat) \<Rightarrow> (nat \<Rightarrow> u16 \<Rightarrow> u8 list option) \<Rightarrow> (nat \<Rightarrow> bool) \<Rightarrow> netif4 \<Rightarrow> chain \<Rightarrow> (err \<times> chain list) option" where
  "ip4_frag LWIP_CHKSUM addr_of rams refs netif p =
    (case p of [] \<Rightarrow> None
     | ph # ps \<Rightarrow>
       if length (payload ph) < IP_HLEN then None
       else
         let hdr = payload ph; tmp = lwip_htons (get16 hdr 6)
         in if unat (hdr ! 0 AND 0x0f) * 4 \<noteq> IP_HLEN then Some (ERR_VAL, [])
            else if tmp AND IP_MF \<noteq> 0 then Some (ERR_VAL, [])
            else frag_loop LWIP_CHKSUM addr_of rams refs netif hdr p (word_of_nat IP_HLEN) (tot_len ph - word_of_nat IP_HLEN) (tmp AND IP_OFFMASK) 0 0)"

end
