(* ===== verification/Ip4_Reass.thy ===== *)
theory Ip4_Reass
  imports Ip4_Frag
begin

text \<open>
  The memory that reassembly may hold: the invariant of the queue of datagrams, that every fragment and every tick
  keeps it, and what the timer does. The wire decides on the fragments, so the steps are a relation.
\<close>

section \<open>The invariant\<close>

definition dlen :: "reassdata \<Rightarrow> nat" where
  "dlen r = sum_list (map (\<lambda>f. unat (pbuf_clen (fbuf f))) (rfrags r))"

definition held :: "reassdata list \<Rightarrow> nat" where
  "held ds = sum_list (map dlen ds)"

lemma held_simps [simp]: "held [] = 0" "held (r # rs) = dlen r + held rs" "held (rs @ qs) = held rs + held qs"
  by (simp_all add: held_def)

definition rdata_ok :: "reassdata \<Rightarrow> bool" where
  "rdata_ok r \<longleftrightarrow> rfrags r \<noteq> [] \<and> timer r \<le> IP_REASS_MAXAGE"

definition reass_ok :: "reass_state \<Rightarrow> bool" where
  "reass_ok s \<longleftrightarrow> length (reassdatagrams s) \<le> MEMP_NUM_REASSDATA \<and> list_all rdata_ok (reassdatagrams s) \<and>
    unat (ip_reass_pbufcount s) = held (reassdatagrams s) \<and> unat (ip_reass_pbufcount s) \<le> IP_REASS_MAX_PBUFS"

lemma reass_ok_count: "reass_ok s \<Longrightarrow> unat (ip_reass_pbufcount s) = held (reassdatagrams s)"
  by (simp add: reass_ok_def)

section \<open>Giving up datagrams\<close>

lemma free_complete_spec:
  assumes "reass_ok s" "reassdatagrams s = pre @ r # post"
  obtains te s' where "ip_reass_free_complete_datagram (length pre) s = Some (dlen r, te, s')" "reass_ok s'" "reassdatagrams s' = pre @ post"
proof -
  have ne: "rfrags r \<noteq> []" and c: "unat (ip_reass_pbufcount s) = held pre + dlen r + held post" "unat (ip_reass_pbufcount s) \<le> 10"
    using assms by (auto simp: reass_ok_def rdata_ok_def IP_REASS_MAX_PBUFS_def)
  define s' where "s' = s\<lparr>reassdatagrams := pre @ post, ip_reass_pbufcount := ip_reass_pbufcount s - word_of_nat (dlen r)\<rparr>"
  have w: "unat (word_of_nat (dlen r) :: u16) = dlen r" using c by (intro unat_of_nat_u16) simp
  then have "unat (ip_reass_pbufcount s - word_of_nat (dlen r)) = held pre + held post"
    using c by (subst unat_minus) (simp_all add: word_le_nat_alt)
  then have "reass_ok s'" using assms c by (simp add: reass_ok_def s'_def IP_REASS_MAX_PBUFS_def)
  moreover obtain f fs where f: "rfrags r = f # fs" using ne by (cases "rfrags r") auto
  have "ip_reass_free_complete_datagram (length pre) s =
      Some (dlen r, if fstart f = 0 then [put_hdr (riphdr r) (hd (fbuf f)) # List.tl (fbuf f)] else [], s')"
    using assms(2) c f unfolding ip_reass_free_complete_datagram_def Let_def
    by (simp add: s'_def dlen_def)
  ultimately show thesis by (intro that) (auto simp: s'_def)
qed

definition dec_timer :: "reassdata \<Rightarrow> reassdata" where
  "dec_timer r = r\<lparr>timer := timer r - 1\<rparr>"

lemma dec_timer_ok: "rdata_ok r \<Longrightarrow> timer r > 0 \<Longrightarrow> rdata_ok (dec_timer r)" "dlen (dec_timer r) = dlen r"
proof -
  assume "rdata_ok r" "timer r > 0"
  moreover have "unat (timer r - 1) = unat (timer r) - 1" if "timer r > 0"
    using that by (subst unat_minus) (simp_all add: word_le_nat_alt word_less_nat_alt)
  ultimately show "rdata_ok (dec_timer r)" by (auto simp: rdata_ok_def dec_timer_def word_le_nat_alt)
qed (simp add: dlen_def dec_timer_def)

lemma tmr_loop_spec:
  assumes "reass_ok s" "reassdatagrams s = pre @ rs"
  shows "\<exists>te s'. ip_reass_tmr_loop (length pre) s = Some (te, s') \<and> reass_ok s' \<and>
    reassdatagrams s' = pre @ map dec_timer (filter (\<lambda>r. timer r > 0) rs)"
  using assms
proof (induction rs arbitrary: pre s)
  case Nil
  then show ?case by (simp add: ip_reass_tmr_loop.simps)
next
  case (Cons r rs)
  have i: "length pre < length (reassdatagrams s)" "reassdatagrams s ! length pre = r" using Cons.prems(2) by simp_all
  show ?case
  proof (cases "timer r > 0")
    case True
    define s' where "s' = s\<lparr>reassdatagrams := (pre @ [dec_timer r]) @ rs\<rparr>"
    have "reass_ok s'" using Cons.prems dec_timer_ok [of r] True by (simp add: reass_ok_def s'_def)
    moreover have "ip_reass_tmr_loop (length pre) s = ip_reass_tmr_loop (length (pre @ [dec_timer r])) s'"
      using True i Cons.prems(2) by (subst ip_reass_tmr_loop.simps) (simp add: s'_def dec_timer_def)
    ultimately show ?thesis using Cons.IH [of s' "pre @ [dec_timer r]"] True by (simp add: s'_def)
  next
    case False
    obtain te s' where f: "ip_reass_free_complete_datagram (length pre) s = Some (dlen r, te, s')" "reass_ok s'" "reassdatagrams s' = pre @ rs"
      by (rule free_complete_spec [OF Cons.prems])
    from Cons.IH [OF f(2,3)] False i f(1) show ?thesis by (subst ip_reass_tmr_loop.simps) auto
  qed
qed

lemma ip_reass_tmr_spec:
  assumes "reass_ok s"
  obtains te s' where "ip_reass_tmr s = Some (te, s')" "reass_ok s'"
    "reassdatagrams s' = map dec_timer (filter (\<lambda>r. timer r > 0) (reassdatagrams s))"
  using tmr_loop_spec [OF assms, of "[]"] by (auto simp: ip_reass_tmr_def)

section \<open>Making room\<close>

lemma oldest_loop_range:
  "oldest_loop h rs i old n = (Some j, m) \<Longrightarrow> (\<exists>t. old = Some (j, t)) \<or> i \<le> j \<and> j < i + length rs \<and> \<not> IP_ADDRESSES_AND_ID_MATCH (riphdr (rs ! (j - i))) h"
proof (induction rs arbitrary: i old n)
  case (Cons r rs)
  have nth: "Suc i \<le> j \<Longrightarrow> (r # rs) ! (j - i) = rs ! (j - Suc i)" by (simp add: Suc_diff_Suc [symmetric] Suc_le_eq)
  show ?case
  proof (cases "IP_ADDRESSES_AND_ID_MATCH (riphdr r) h")
    case True
    then show ?thesis using Cons.IH [of "Suc i" old n] Cons.prems nth by auto
  next
    case False
    let ?old = "case old of None \<Rightarrow> Some (i, timer r) | Some (_, t) \<Rightarrow> if timer r \<le> t then Some (i, timer r) else old"
    have "?old = old \<or> ?old = Some (i, timer r)" by (auto split: option.splits)
    then show ?thesis using Cons.IH [of "Suc i" ?old "Suc n"] Cons.prems False nth by auto
  qed
qed simp

text \<open>Only datagrams other than the one of the fragment are given up.\<close>

lemma remove_oldest_spec:
  assumes "reass_ok s"
  shows "\<exists>n te s'. ip_reass_remove_oldest_datagram h need freed s = Some (n, te, s') \<and> reass_ok s' \<and>
    length (reassdatagrams s') \<le> length (reassdatagrams s) \<and> unat (ip_reass_pbufcount s') \<le> unat (ip_reass_pbufcount s) \<and>
    filter (\<lambda>r. IP_ADDRESSES_AND_ID_MATCH (riphdr r) h) (reassdatagrams s') = filter (\<lambda>r. IP_ADDRESSES_AND_ID_MATCH (riphdr r) h) (reassdatagrams s)"
  using assms
proof (induction h need freed s rule: ip_reass_remove_oldest_datagram.induct)
  case (1 h need freed s)
  obtain o' m where ol: "oldest_loop h (reassdatagrams s) 0 None 0 = (o', m)" by (cases "oldest_loop h (reassdatagrams s) 0 None 0")
  show ?case
  proof (cases o')
    case None
    then show ?thesis using "1.prems" ol by (subst ip_reass_remove_oldest_datagram.simps) simp
  next
    case (Some i)
    then have i: "i < length (reassdatagrams s)" "\<not> IP_ADDRESSES_AND_ID_MATCH (riphdr (reassdatagrams s ! i)) h"
      using oldest_loop_range [of h "reassdatagrams s" 0 None 0 i m] ol by auto
    define pre r post where d: "pre = take i (reassdatagrams s)" "r = reassdatagrams s ! i" "post = drop (Suc i) (reassdatagrams s)"
    have ds: "reassdatagrams s = pre @ r # post" and l: "length pre = i" using i by (simp_all add: d id_take_nth_drop [symmetric])
    obtain te s' where f: "ip_reass_free_complete_datagram i s = Some (dlen r, te, s')" "reass_ok s'" "reassdatagrams s' = pre @ post"
      using free_complete_spec [OF "1.prems" ds] unfolding l by metis
    have k: "filter (\<lambda>r. IP_ADDRESSES_AND_ID_MATCH (riphdr r) h) (reassdatagrams s') = filter (\<lambda>r. IP_ADDRESSES_AND_ID_MATCH (riphdr r) h) (reassdatagrams s)"
      "length (reassdatagrams s') \<le> length (reassdatagrams s)" "unat (ip_reass_pbufcount s') \<le> unat (ip_reass_pbufcount s)"
      using reass_ok_count [OF f(2)] reass_ok_count [OF "1.prems"] i(2) [folded d(2)] unfolding f(3) ds by simp_all
    show ?thesis
    proof (cases "freed + dlen r < need \<and> m > 1")
      case True
      from "1.IH" [OF ol [symmetric] Some f(1)] True f(2) obtain n te' s'' where
        "ip_reass_remove_oldest_datagram h need (freed + dlen r) s' = Some (n, te', s'')" "reass_ok s''"
        "length (reassdatagrams s'') \<le> length (reassdatagrams s')" "unat (ip_reass_pbufcount s'') \<le> unat (ip_reass_pbufcount s')"
        "filter (\<lambda>r. IP_ADDRESSES_AND_ID_MATCH (riphdr r) h) (reassdatagrams s'') = filter (\<lambda>r. IP_ADDRESSES_AND_ID_MATCH (riphdr r) h) (reassdatagrams s')"
        by blast
      then show ?thesis using True f(1) k ol Some by (subst ip_reass_remove_oldest_datagram.simps) simp
    next
      case False
      then show ?thesis using f k ol Some by (subst ip_reass_remove_oldest_datagram.simps) auto
    qed
  qed
qed

lemma reass_room_spec:
  assumes "reass_ok s"
  obtains ok te s' where "reass_room h n s = Some (ok, te, s')" "reass_ok s'" "ok \<Longrightarrow> unat (ip_reass_pbufcount s') + n \<le> IP_REASS_MAX_PBUFS"
proof (cases "IP_REASS_MAX_PBUFS < unat (ip_reass_pbufcount s) + n")
  case True
  then show ?thesis using remove_oldest_spec [OF assms, of h n 0] that by (fastforce simp: reass_room_def)
next
  case False
  then show ?thesis using assms that [of True "[]" s] by (simp add: reass_room_def)
qed

section \<open>One fragment\<close>

text \<open>The state while a fragment is on its way into the datagram at \<open>i\<close>, which may be new and empty.\<close>

definition reass_entry_ok :: "nat \<Rightarrow> nat \<Rightarrow> reass_state \<Rightarrow> bool" where
  "reass_entry_ok n i s \<longleftrightarrow> length (reassdatagrams s) \<le> MEMP_NUM_REASSDATA \<and>
    (\<exists>pre r post. reassdatagrams s = pre @ r # post \<and> length pre = i \<and> list_all rdata_ok (pre @ post) \<and> timer r \<le> IP_REASS_MAXAGE) \<and>
    unat (ip_reass_pbufcount s) = held (reassdatagrams s) \<and> unat (ip_reass_pbufcount s) + n \<le> IP_REASS_MAX_PBUFS"

lemma reass_entry_okI:
  "reassdatagrams s = pre @ r # post \<Longrightarrow> length pre = i \<Longrightarrow> list_all rdata_ok (pre @ post) \<Longrightarrow> timer r \<le> IP_REASS_MAXAGE \<Longrightarrow>
    length (reassdatagrams s) \<le> MEMP_NUM_REASSDATA \<Longrightarrow> unat (ip_reass_pbufcount s) = held (reassdatagrams s) \<Longrightarrow>
    unat (ip_reass_pbufcount s) + n \<le> IP_REASS_MAX_PBUFS \<Longrightarrow> reass_entry_ok n i s"
  unfolding reass_entry_ok_def by blast

lemma reass_find_Some:
  "reass_find h rs = Some i \<Longrightarrow> i < length rs \<and> IP_ADDRESSES_AND_ID_MATCH (riphdr (rs ! i)) h"
  by (induction rs arbitrary: i) (auto split: if_splits)

lemma reass_entry_spec:
  assumes "reass_ok s" "unat (ip_reass_pbufcount s) + n \<le> IP_REASS_MAX_PBUFS"
  obtains o' te s' where "reass_entry h n s = Some (o', te, s')" "o' = None \<Longrightarrow> reass_ok s'" "\<And>i. o' = Some i \<Longrightarrow> reass_entry_ok n i s'"
proof (cases "reass_find h (reassdatagrams s)")
  case (Some i)
  define r where "r = reassdatagrams s ! i"
  define r' where "r' = (if frag_offset h = 0 \<and> frag_offset (riphdr r) \<noteq> 0 then r\<lparr>riphdr := take IP_HLEN h\<rparr> else r)"
  define pre post where d: "pre = take i (reassdatagrams s)" "post = drop (Suc i) (reassdatagrams s)"
  have i: "i < length (reassdatagrams s)" using reass_find_Some [OF Some] by simp
  then have ds: "reassdatagrams s = pre @ r # post" "length pre = i" by (simp_all add: d r_def id_take_nth_drop [symmetric])
  have r': "dlen r' = dlen r" "timer r' = timer r" by (simp_all add: r'_def dlen_def)
  have ok: "reass_entry_ok n i (s\<lparr>reassdatagrams := pre @ r' # post\<rparr>)"
    using assms r' ds by (intro reass_entry_okI [of _ pre r' post]) (auto simp: reass_ok_def rdata_ok_def)
  have "s\<lparr>reassdatagrams := pre @ r # post\<rparr> = s" using ds(1) by simp
  then have "reass_entry h n s = Some (Some i, [], s\<lparr>reassdatagrams := pre @ r' # post\<rparr>)"
    using ds unfolding reass_entry_def Some by (auto simp: r'_def list_update_append Let_def)
  then show thesis using that ok by auto
next
  case None
  define enq where "enq = (\<lambda>s :: reass_state. s\<lparr>reassdatagrams := \<lparr>riphdr = take IP_HLEN h, rfrags = [], datagram_len = 0, lastfrag = False, timer = IP_REASS_MAXAGE\<rparr>
      # reassdatagrams s\<rparr>)"
  have enq: "reass_entry_ok n 0 (enq t)"
    if "reass_ok t" "length (reassdatagrams t) < MEMP_NUM_REASSDATA" "unat (ip_reass_pbufcount t) + n \<le> IP_REASS_MAX_PBUFS" for t
    using that by (auto simp: enq_def reass_entry_ok_def reass_ok_def dlen_def)
  show thesis
  proof (cases "length (reassdatagrams s) < MEMP_NUM_REASSDATA")
    case True
    then have "reass_entry h n s = Some (Some 0, [], enq s)" using None by (simp add: reass_entry_def ip_reass_enqueue_new_datagram_def enq_def)
    then show thesis using that enq [OF assms(1) True assms(2)] by auto
  next
    case False
    obtain m te t where t: "ip_reass_remove_oldest_datagram h n 0 s = Some (m, te, t)" "reass_ok t" "unat (ip_reass_pbufcount t) \<le> unat (ip_reass_pbufcount s)"
      using remove_oldest_spec [OF assms(1), of h n 0] by metis
    then have "reass_entry h n s = (if m \<ge> n \<and> length (reassdatagrams t) < MEMP_NUM_REASSDATA then Some (Some 0, te, enq t) else Some (None, te, t))"
      using None False by (simp add: reass_entry_def ip_reass_enqueue_new_datagram_def enq_def)
    then show thesis using that enq [OF t(2)] t(2,3) assms(2) by (auto split: if_splits)
  qed
qed

text \<open>The search ends: the assertion on the order of the fragments holds, and an empty queue takes every fragment.\<close>

lemma frag_insert_total:
  "(\<And>pr. prev = Some pr \<Longrightarrow> fend pr \<le> fstart f) \<Longrightarrow> frag_insert f prev v fs \<noteq> None"
  by (induction f prev v fs rule: frag_insert.induct) (auto simp: not_less split: option.splits)

lemma frag_insert_split:
  "frag_insert f prev v fs = Some (Some (bef, aft, v')) \<Longrightarrow> fs = bef @ aft"
  by (induction f prev v fs arbitrary: bef rule: frag_insert.induct) (auto split: option.splits if_splits)

lemma frag_insert_drop: "frag_insert f None v fs = Some None \<Longrightarrow> fs \<noteq> []"
  by (cases fs) auto

lemma clen_append: "pbuf_clen (p @ q) = pbuf_clen p + pbuf_clen q"
  by (induction p) simp_all

lemma clen_map: "pbuf_clen (map f p) = pbuf_clen p"
  by (induction p) simp_all

lemma clen_cat: "p \<noteq> [] \<Longrightarrow> pbuf_clen (pbuf_cat p q) = pbuf_clen p + pbuf_clen q"
  by (simp add: pbuf_cat_def clen_append clen_map)

definition hide_hdr :: "chain \<Rightarrow> chain" where
  "hide_hdr p = (case p of [] \<Rightarrow> [] | gh # gs \<Rightarrow> (case pbuf_header gh (- int IP_HLEN) of None \<Rightarrow> [] | Some (_, gh) \<Rightarrow> gh # gs))"

lemma clen_hide_hdr: "pbuf_clen (hide_hdr p) = pbuf_clen p"
  by (auto simp: hide_hdr_def pbuf_header_def pbuf_header_impl_def IP_HLEN_def Let_def split: list.splits)

lemma reass_packet_eq:
  "reass_packet C addr_of r = (case rfrags r of [] \<Rightarrow> None | f # fs \<Rightarrow> (case fbuf f of [] \<Rightarrow> None
    | ph # ps \<Rightarrow> Some (foldl (\<lambda>p g. pbuf_cat p (hide_hdr (fbuf g)))
        (put_hdr (frag_hdr C (addr_of ph) (riphdr r) (lwip_htons (datagram_len r + word_of_nat IP_HLEN)) 0) ph # ps) fs)))"
  unfolding reass_packet_def hide_hdr_def Let_def ..

lemma cat_not_Nil: "p \<noteq> [] \<Longrightarrow> pbuf_cat p q \<noteq> []"
  by (simp add: pbuf_cat_def)

lemma clen_chain_frags:
  "p \<noteq> [] \<Longrightarrow> pbuf_clen (foldl (\<lambda>p g. pbuf_cat p (hide_hdr (fbuf g))) p fs) =
    pbuf_clen p + word_of_nat (sum_list (map (\<lambda>f. unat (pbuf_clen (fbuf f))) fs))"
  by (induction fs arbitrary: p) (simp_all add: clen_cat cat_not_Nil clen_hide_hdr)

lemma reass_packet_clen:
  "reass_packet C addr_of r = Some q \<Longrightarrow> pbuf_clen q = word_of_nat (dlen r)"
  by (auto simp: reass_packet_eq clen_chain_frags dlen_def split: list.splits)

lemma validate_spec:
  assumes "ip_reass_chain_frag_into_datagram_and_validate r p = Some x"
  shows "case x of None \<Rightarrow> rfrags r \<noteq> [] | Some (r', _) \<Rightarrow> rfrags r' \<noteq> [] \<and> dlen r' = dlen r + unat (pbuf_clen p) \<and> timer r' = timer r"
  using assms unfolding ip_reass_chain_frag_into_datagram_and_validate_def Let_def
  by (auto simp: dlen_def dest: frag_insert_split frag_insert_drop split: option.splits if_splits prod.splits)

lemma reass_add_ok:
  assumes "reass_entry_ok (unat (pbuf_clen p)) i s" "reass_add C addr_of p i s = Some (q, s')"
  shows "reass_ok s'"
proof -
  obtain pre r post where ds: "reassdatagrams s = pre @ r # post" "length pre = i" "list_all rdata_ok (pre @ post)" "timer r \<le> IP_REASS_MAXAGE"
    and c: "unat (ip_reass_pbufcount s) = held (reassdatagrams s)" "unat (ip_reass_pbufcount s) + unat (pbuf_clen p) \<le> 10"
    and l: "length (reassdatagrams s) \<le> MEMP_NUM_REASSDATA"
    using assms(1) by (auto simp: reass_entry_ok_def IP_REASS_MAX_PBUFS_def)
  define r1 where "r1 = (if get16 (payload (hd p)) 6 AND lwip_htons IP_MF = 0
    then r\<lparr>lastfrag := True, datagram_len := frag_offset (payload (hd p)) + frag_len (payload (hd p))\<rparr> else r)"
  have r1: "dlen r1 = dlen r" "timer r1 = timer r" by (simp_all add: r1_def dlen_def)
  have u: "unat (ip_reass_pbufcount s + pbuf_clen p) = unat (ip_reass_pbufcount s) + unat (pbuf_clen p)"
    using c(2) by (intro unat_plus) simp
  have nth: "reassdatagrams s ! i = r" "(reassdatagrams s)[i := x] = pre @ x # post" for x
    using ds(1) ds(2) [symmetric] by (simp_all add: list_update_append)
  have cut: "take i (reassdatagrams s) @ drop (Suc i) (reassdatagrams s) = pre @ post" using ds(1) ds(2) [symmetric] by simp
  have eq: "reass_add C addr_of p i s = (case ip_reass_chain_frag_into_datagram_and_validate r1 p of
      None \<Rightarrow> None
    | Some None \<Rightarrow> Some (None, s\<lparr>reassdatagrams := pre @ r1 # post\<rparr>)
    | Some (Some (r, valid)) \<Rightarrow>
        if \<not> valid then Some (None, s\<lparr>ip_reass_pbufcount := ip_reass_pbufcount s + pbuf_clen p, reassdatagrams := pre @ r # post\<rparr>)
        else map_option (\<lambda>q. (Some q, s\<lparr>reassdatagrams := pre @ post, ip_reass_pbufcount := ip_reass_pbufcount s + pbuf_clen p - pbuf_clen q\<rparr>))
          (reass_packet C addr_of r))"
    unfolding reass_add_def Let_def nth r1_def [symmetric] by (simp add: nth cut split: option.split)
  obtain x where x: "ip_reass_chain_frag_into_datagram_and_validate r1 p = Some x" using assms(2) eq by (auto split: option.splits)
  note v = validate_spec [OF x]
  show ?thesis
  proof (cases x)
    case None
    then have "s' = s\<lparr>reassdatagrams := pre @ r1 # post\<rparr>" "rfrags r1 \<noteq> []" using assms(2) x v unfolding eq by simp_all
    then show ?thesis using ds c l r1 by (simp add: reass_ok_def rdata_ok_def IP_REASS_MAX_PBUFS_def)
  next
    case (Some y)
    then obtain r2 valid where y: "x = Some (r2, valid)" by (cases y) auto
    have r2: "rfrags r2 \<noteq> []" "dlen r2 = dlen r + unat (pbuf_clen p)" "timer r2 = timer r" using v y r1 by simp_all
    show ?thesis
    proof (cases valid)
      case False
      then have "s' = s\<lparr>ip_reass_pbufcount := ip_reass_pbufcount s + pbuf_clen p, reassdatagrams := pre @ r2 # post\<rparr>"
        using assms(2) x y unfolding eq by simp
      then show ?thesis using r2 ds c l u by (simp add: reass_ok_def rdata_ok_def IP_REASS_MAX_PBUFS_def)
    next
      case True
      then obtain q' where q: "reass_packet C addr_of r2 = Some q'"
        "s' = s\<lparr>reassdatagrams := pre @ post, ip_reass_pbufcount := ip_reass_pbufcount s + pbuf_clen p - pbuf_clen q'\<rparr>"
        using assms(2) x y unfolding eq by auto
      have w: "unat (word_of_nat (dlen r2) :: u16) = dlen r2" using c ds(1) r2(2) by (intro unat_of_nat_u16) simp
      then have "unat (ip_reass_pbufcount s + pbuf_clen p - word_of_nat (dlen r2)) = held pre + held post"
        using u c ds(1) r2(2) by (subst unat_minus) (simp_all add: word_le_nat_alt)
      then show ?thesis using ds c l q(2) reass_packet_clen [OF q(1)] by (simp add: reass_ok_def IP_REASS_MAX_PBUFS_def)
    qed
  qed
qed

lemma ip4_reass_ok:
  assumes "reass_ok s" "ip4_reass C addr_of p s = Some (q, te, s')"
  shows "reass_ok s'"
proof -
  let ?h = "payload (hd p)" and ?n = "unat (pbuf_clen p)"
  obtain ok te1 s1 where 1: "reass_room ?h ?n s = Some (ok, te1, s1)" "reass_ok s1" "ok \<Longrightarrow> unat (ip_reass_pbufcount s1) + ?n \<le> IP_REASS_MAX_PBUFS"
    by (rule reass_room_spec [OF assms(1), where h = ?h and n = ?n]) blast
  show ?thesis
  proof (cases "ok \<and> unat (?h ! 0 AND 0x0f) * 4 = IP_HLEN")
    case True
    obtain o' te2 s2 where 2: "reass_entry ?h ?n s1 = Some (o', te2, s2)" "o' = None \<Longrightarrow> reass_ok s2" "\<And>i. o' = Some i \<Longrightarrow> reass_entry_ok ?n i s2"
      using reass_entry_spec [OF 1(2) 1(3)] True by metis
    then have "map_option (\<lambda>(q, s). (q, te1 @ te2, s)) (case o' of None \<Rightarrow> Some (None, s2) | Some i \<Rightarrow> reass_add C addr_of p i s2) = Some (q, te, s')"
      using assms(2) 1(1) True by (simp add: ip4_reass_def Let_def split: option.splits)
    then show ?thesis using 2(2,3) reass_add_ok by (auto split: option.splits)
  next
    case False
    then show ?thesis using assms 1(1,2) by (auto simp: ip4_reass_def Let_def split: if_splits)
  qed
qed

section \<open>Runs\<close>

text \<open>The events: a fragment from the wire, which may complete a datagram, and the timer once a second.\<close>

inductive reass_step :: "chksum \<Rightarrow> (pbuf \<Rightarrow> nat) \<Rightarrow> reass_state \<Rightarrow> reass_state \<Rightarrow> bool" for C addr_of where
  fragment: "ip4_reass C addr_of p s = Some (q, te, s') \<Longrightarrow> reass_step C addr_of s s'"
| tick: "ip_reass_tmr s = Some (te, s') \<Longrightarrow> reass_step C addr_of s s'"

inductive_cases reass_stepE: "reass_step C addr_of s s'"

lemma tmr_ok: "reass_ok s \<Longrightarrow> ip_reass_tmr s = Some (te, s') \<Longrightarrow> reass_ok s'"
  by (metis ip_reass_tmr_spec option.inject prod.inject)

lemma reass_step_ok: "reass_step C addr_of s s' \<Longrightarrow> reass_ok s \<Longrightarrow> reass_ok s'"
  by (erule reass_stepE) (auto intro: ip4_reass_ok tmr_ok)

definition reass_init :: reass_state where
  "reass_init = \<lparr>reassdatagrams = [], ip_reass_pbufcount = 0\<rparr>"

lemma reass_init_ok: "reass_ok reass_init"
  by (simp add: reass_ok_def reass_init_def)

interpretation rs: step_invariant "\<lambda>s. s = reass_init" "reass_step C addr_of" reass_ok for C addr_of
  by unfold_locales (auto intro: reass_init_ok reass_step_ok)

text \<open>Ticks in a row.\<close>

fun ticks :: "nat \<Rightarrow> reass_state \<Rightarrow> (chain list \<times> reass_state) option" where
  "ticks 0 s = Some ([], s)"
| "ticks (Suc n) s = (case ip_reass_tmr s of None \<Rightarrow> None | Some (te, s) \<Rightarrow> map_option (apfst ((@) te)) (ticks n s))"

lemma ticks_spec:
  assumes "reass_ok s" "list_all (\<lambda>r. unat (timer r) < m) (reassdatagrams s)"
  shows "\<exists>te. ticks m s = Some (te, reass_init)"
  using assms
proof (induction m arbitrary: s)
  case 0
  then have "reassdatagrams s = []" by (cases "reassdatagrams s") auto
  then show ?case using "0.prems"(1) by (simp add: reass_ok_def reass_init_def unat_eq_0)
next
  case (Suc m)
  obtain te s' where t: "ip_reass_tmr s = Some (te, s')" "reass_ok s'"
    "reassdatagrams s' = map dec_timer (filter (\<lambda>r. timer r > 0) (reassdatagrams s))"
    by (rule ip_reass_tmr_spec [OF Suc.prems(1)])
  have "unat (timer r - 1) < m" if "timer r > 0" "unat (timer r) < Suc m" for r
    using that by (subst unat_minus) (simp_all add: word_le_nat_alt word_less_nat_alt)
  then have "list_all (\<lambda>r. unat (timer r) < m) (reassdatagrams s')"
    using Suc.prems(2) unfolding t(3) by (auto simp: list_all_iff dec_timer_def)
  from Suc.IH [OF t(2) this] t(1) show ?case by auto
qed

end
