(* ===== verification/Ip4_Frag_Props.thy ===== *)
theory Ip4_Frag_Props
  imports Ip4_Reass
begin

text \<open>
  What fragmentation sends and what reassembly makes of it. A way to cut data into fragments is a predicate on the bytes
  of the fragments, so that the sender and the receiver meet in it and the buffers on the two sides are independent.
\<close>

section \<open>Cutting\<close>

text \<open>The header of a fragment with the bytes of its checksum, as a function of the length and the offset field.\<close>

definition frag_head :: "chksum \<Rightarrow> u8 \<Rightarrow> u16 \<Rightarrow> u8 \<Rightarrow> u8 \<Rightarrow> u32 \<Rightarrow> u32 \<Rightarrow> nat \<Rightarrow> u16 \<Rightarrow> u8 list" where
  "frag_head C ts ident life proto src dest n off =
    (let g = (\<lambda>c. ip_hdr 0x45 ts (lwip_htons (word_of_nat n)) ident (lwip_htons off) life proto c src dest) in g (inet_chksum C 0 (g 0)))"

text \<open>Bytes of fragments, in order, that carry the data from the \<open>o\<close>-th block of eight bytes on.\<close>

fun carries :: "(nat \<Rightarrow> u16 \<Rightarrow> u8 list) \<Rightarrow> nat \<Rightarrow> u8 list \<Rightarrow> u8 list list \<Rightarrow> bool" where
  "carries H blk d [] \<longleftrightarrow> False"
| "carries H blk d [b] \<longleftrightarrow> d \<noteq> [] \<and> b = H (20 + length d) (word_of_nat blk) @ d"
| "carries H blk d (b # b' # bs) \<longleftrightarrow> (\<exists>k. 0 < k \<and> 8 * k < length d \<and> b = H (20 + 8 * k) (word_of_nat blk OR IP_MF) @ take (8 * k) d \<and>
    carries H (blk + k) (drop (8 * k) d) (b' # bs))"

lemma frag_hdr_ip_hdr:
  "frag_hdr C a (ip_hdr v ts n i off life proto c src dest @ x) n' off' =
    ip_hdr v ts n' i off' life proto (inet_chksum C a (ip_hdr v ts n' i off' life proto 0 src dest)) src dest"
  by (simp add: frag_hdr_def ip_hdr_def mem16_def mem32_def Let_def)

lemma length_frag_head [simp]: "length (frag_head C ts ident life proto src dest n off) = 20"
  by (simp add: frag_head_def Let_def)

lemma frag_head_fields:
  "(frag_head C ts ident life proto src dest n off @ x) ! 0 = 0x45" "get16 (frag_head C ts ident life proto src dest n off @ x) 2 = lwip_htons (word_of_nat n)"
  "get16 (frag_head C ts ident life proto src dest n off @ x) 4 = ident" "get16 (frag_head C ts ident life proto src dest n off @ x) 6 = lwip_htons off"
  "get_addr (frag_head C ts ident life proto src dest n off @ x) 12 = src" "get_addr (frag_head C ts ident life proto src dest n off @ x) 16 = dest"
  by (simp_all add: frag_head_def Let_def ip_hdr_def get16_def get_addr_def mem16_def mem32_def)

section \<open>Fragmentation\<close>

lemma custom_ref:
  assumes "unat n \<le> length d"
  obtains b where "pbuf_alloced_custom PBUF_RAW n PBUF_REF d n = Some [b]" "payload b = take (unat n) d" "tot_len b = n"
  using assms by (simp add: pbuf_alloced_custom_def new_pbuf_def mem_align_def)

lemma unat_plen:
  assumes "wf_chain (p # ps)" "unat poff \<le> length (payload p)"
  shows "unat (len p - poff) = length (payload p) - unat poff"
  using wf_small [OF assms(1)] assms(2) by (subst unat_minus) (simp_all add: word_le_nat_alt unat_len)

definition body_result :: "nat \<Rightarrow> u8 list \<Rightarrow> chain \<Rightarrow> chain \<Rightarrow> chain \<Rightarrow> u16 \<Rightarrow> bool" where
  "body_result n d ps bufs ps' poff' \<longleftrightarrow> bytes bufs = take n d \<and> (\<forall>b\<in>set bufs. unat (tot_len b) = length (payload b)) \<and>
    ps' \<noteq> [] \<and> wf_chain ps' \<and> unat poff' \<le> length (payload (hd ps')) \<and> drop (unat poff') (bytes ps') = drop n d \<and> set ps' \<subseteq> set ps"

lemma frag_body_here:
  assumes "wf_chain (p # ps)" "0 < unat n" "unat poff + unat n \<le> length (payload p)" "refs j"
  shows "\<exists>bufs poff' j'. frag_body refs j (p # ps) poff n = Some (Some (bufs, p # ps, poff', j')) \<and>
    body_result (unat n) (drop (unat poff) (bytes (p # ps))) (p # ps) bufs (p # ps) poff'"
proof -
  have mn: "min n (len p - poff) = n" using unat_plen [OF assms(1), of poff] assms(3) by (auto simp: min_def word_le_nat_alt)
  have "unat (poff + n) = unat poff + unat n" using assms(3) wf_bytes_bound [OF assms(1)] by (intro unat_plus) simp
  moreover obtain b where "pbuf_alloced_custom PBUF_RAW n PBUF_REF (drop (unat poff) (payload p)) n = Some [b]"
    "payload b = take (unat n) (drop (unat poff) (payload p))" "tot_len b = n"
    using assms(3) by (elim custom_ref [rotated]) simp
  moreover have "n \<noteq> 0" using assms(2) by auto
  ultimately show ?thesis using assms mn by (auto simp: frag_body.simps(2) body_result_def add.commute)
qed

lemma frag_body_spec:
  assumes "wf_chain (p # ps)" "unat poff \<le> length (payload p)" "0 < unat n" "unat n \<le> length (drop (unat poff) (bytes (p # ps)))" "\<And>j. refs j"
  shows "\<exists>bufs ps' poff' j'. frag_body refs j (p # ps) poff n = Some (Some (bufs, ps', poff', j')) \<and>
    body_result (unat n) (drop (unat poff) (bytes (p # ps))) (p # ps) bufs ps' poff'"
  using assms(1-4)
proof (induction ps arbitrary: p poff n j)
  case Nil
  then show ?case using frag_body_here [of p "[]" n poff refs j] assms(5) by (fastforce simp: bytes_def)
next
  case (Cons q qs)
  show ?case
  proof (cases "unat poff + unat n \<le> length (payload p)")
    case True
    then show ?thesis using frag_body_here [of p "q # qs" n poff refs j] assms(5) Cons.prems by fastforce
  next
    case False
    define k where "k = length (payload p) - unat poff"
    have pl: "unat (len p - poff) = k" using unat_plen [OF Cons.prems(1,2)] by (simp add: k_def)
    have mn: "min n (len p - poff) = len p - poff" "n \<noteq> 0" using False pl Cons.prems(2,3) by (auto simp: min_def word_le_nat_alt k_def)
    have n': "unat (n - (len p - poff)) = unat n - k" "k < unat n"
      using False Cons.prems(2) pl by (auto simp: unat_minus word_le_nat_alt k_def)
    have wq: "wf_chain (q # qs)" using Cons.prems(1) by simp
    have d: "drop (unat poff) (bytes (p # q # qs)) = drop (unat poff) (payload p) @ bytes (q # qs)" "length (drop (unat poff) (payload p)) = k"
      using Cons.prems(2) by (simp_all add: k_def)
    have "length (drop (unat poff) (bytes (p # q # qs))) = k + length (bytes (q # qs))" unfolding d(1) using d(2) by (simp only: length_append)
    then have "unat (n - (len p - poff)) \<le> length (drop (unat (0 :: u16)) (bytes (q # qs)))" using n'(1) Cons.prems(4) by simp
    then obtain bufs ps' poff' j' where r: "frag_body refs (if k = 0 then j else Suc j) (q # qs) 0 (n - (len p - poff)) = Some (Some (bufs, ps', poff', j'))"
      "body_result (unat n - k) (bytes (q # qs)) (q # qs) bufs ps' poff'"
      using Cons.IH [OF wq, of 0 "n - (len p - poff)" "if k = 0 then j else Suc j"] n' by (auto simp: bytes_def)
    have z: "len p - poff = 0 \<longleftrightarrow> k = 0" "n - (len p - poff) \<noteq> 0" using pl n' by (metis unat_eq_0, metis unat_0 zero_less_diff less_irrefl)
    show ?thesis
    proof (cases "k = 0")
      case True
      then show ?thesis using r mn z d by (auto simp: frag_body.simps(2) [of refs j p] body_result_def)
    next
      case False
      obtain b where b: "pbuf_alloced_custom PBUF_RAW (len p - poff) PBUF_REF (drop (unat poff) (payload p)) (len p - poff) = Some [b]"
        "payload b = take k (drop (unat poff) (payload p))" "tot_len b = len p - poff"
        using custom_ref [of "len p - poff" "drop (unat poff) (payload p)"] pl by (auto simp: k_def)
      have "frag_body refs j (p # q # qs) poff n = Some (Some (b # bufs, ps', poff', j'))"
        using False r(1) mn z b assms(5) by (simp add: frag_body.simps(2) [of refs j p])
      moreover have "body_result (unat n) (drop (unat poff) (bytes (p # q # qs))) (p # q # qs) (b # bufs) ps' poff'"
        using r(2) b(2,3) pl n'(2) d unfolding d(1) by (auto simp: body_result_def)
      ultimately show ?thesis by blast
    qed
  qed
qed

lemma cat_bufs_spec:
  assumes "wf_chain h" "h \<noteq> []" "\<forall>b\<in>set bufs. unat (tot_len b) = length (payload b)" "length (bytes h) + length (bytes bufs) < 65536"
  shows "wf_chain (foldl (\<lambda>r b. pbuf_cat r [b]) h bufs) \<and> bytes (foldl (\<lambda>r b. pbuf_cat r [b]) h bufs) = bytes h @ bytes bufs \<and>
    foldl (\<lambda>r b. pbuf_cat r [b]) h bufs \<noteq> [] \<and> payload (hd (foldl (\<lambda>r b. pbuf_cat r [b]) h bufs)) = payload (hd h)"
  using assms
proof (induction bufs arbitrary: h)
  case (Cons b bufs)
  have "wf_chain (pbuf_cat h [b])" using cat_wf [of h "[b]"] Cons.prems by simp
  moreover have "bytes (pbuf_cat h [b]) = bytes h @ payload b" using cat_bytes [of h "[b]"] Cons.prems by simp
  moreover have "pbuf_cat h [b] \<noteq> []" "payload (hd (pbuf_cat h [b])) = payload (hd h)" using Cons.prems(2) by (cases h; simp add: pbuf_cat_def)+
  ultimately show ?case using Cons.IH [of "pbuf_cat h [b]"] Cons.prems by simp
qed simp

text \<open>The offset of a fragment does not reach the flags.\<close>

lemma off_mask: "blk < 8192 \<Longrightarrow> IP_OFFMASK AND word_of_nat blk = (word_of_nat blk :: u16)"
proof -
  assume "blk < 8192"
  then have "take_bit 13 blk = blk" by (intro take_bit_nat_eq_self) simp
  then have "take_bit 13 (word_of_nat blk :: u16) = word_of_nat blk" by (metis take_bit_of_nat)
  moreover have "IP_OFFMASK = mask 13" by (simp add: IP_OFFMASK_def mask_eq_exp_minus_1)
  ultimately show ?thesis by (metis and.commute take_bit_eq_mask)
qed

lemma frag_nfb_eq:
  assumes "unat (mtu netif) = 20 + 8 * nb"
  shows "frag_nfb netif = word_of_nat nb" "uint (frag_nfb netif) = int nb"
proof -
  have u: "uint (mtu netif) = 20 + 8 * int nb" using assms by (simp add: uint_nat)
  have "nb < 65536" using assms unat_u16_bound [of "mtu netif"] by simp
  then have "uint (word_of_nat nb :: u16) = int nb" using unat_of_nat_u16 [of nb] by (simp add: uint_nat)
  then show "frag_nfb netif = word_of_nat nb" "uint (frag_nfb netif) = int nb" using u by (simp_all add: frag_nfb_def IP_HLEN_def)
qed

text \<open>One fragment with its header: the buffer from the heap and the references behind it.\<close>

context chksum_routine
begin

lemma frag_hdr_head:
  "frag_hdr LWIP_CHKSUM a (ip_hdr 0x45 ts n ident off life proto c src dest @ x) (lwip_htons (word_of_nat m)) (lwip_htons o') =
    frag_head LWIP_CHKSUM ts ident life proto src dest m o'"
  using chk_align [of "ip_hdr 0x45 ts (lwip_htons (word_of_nat m)) ident (lwip_htons o') life proto 0 src dest" a 0]
  by (simp add: frag_hdr_ip_hdr frag_head_def inet_chksum_def)

lemma frag_hdr_frag_head:
  "frag_hdr LWIP_CHKSUM a (frag_head LWIP_CHKSUM ts ident life proto src dest n off) (lwip_htons (word_of_nat m)) (lwip_htons o') =
    frag_head LWIP_CHKSUM ts ident life proto src dest m o'"
  unfolding frag_head_def [of _ _ _ _ _ _ _ n off] Let_def by (subst append_Nil2 [symmetric]) (rule frag_hdr_head)

lemma one_fragment:
  fixes addr_of :: "pbuf \<Rightarrow> nat" and m :: nat and o' :: u16
  assumes "heap_ok mem_malloc" "alloc_ram mem_malloc PBUF_LINK 20 = Some ram" "\<forall>b\<in>set bufs. unat (tot_len b) = length (payload b)"
    "length (bytes bufs) < 65516" "hdr = ip_hdr 0x45 ts n ident off life proto c src dest @ x"
  defines "frag \<equiv> foldl (\<lambda>r b. pbuf_cat r [b]) (put_hdr (frag_hdr LWIP_CHKSUM (addr_of (hd ram)) hdr (lwip_htons (word_of_nat m)) (lwip_htons o')) (hd ram) # List.tl ram) bufs"
  shows "wf_chain frag" "frag \<noteq> []" "length (payload (hd frag)) = 20" "bytes frag = frag_head LWIP_CHKSUM ts ident life proto src dest m o' @ bytes bufs"
proof -
  obtain b where b: "ram = [b]" "wf_chain [b]" "length (payload b) = 20" using alloc_ram_spec [OF assms(1,2)] by auto
  define h where "h = [put_hdr (frag_hdr LWIP_CHKSUM (addr_of b) hdr (lwip_htons (word_of_nat m)) (lwip_htons o')) b]"
  have "wf_chain h" "h \<noteq> []" "bytes h = frag_head LWIP_CHKSUM ts ident life proto src dest m o'" "length (payload (hd h)) = 20"
    using put_hdr_wf [OF b(2), of "frag_head LWIP_CHKSUM ts ident life proto src dest m o'"] b(3) assms(5) by (simp_all add: h_def frag_hdr_head)
  moreover have "frag = foldl (\<lambda>r b. pbuf_cat r [b]) h bufs" by (simp add: frag_def h_def b(1))
  ultimately show "wf_chain frag" "frag \<noteq> []" "length (payload (hd frag)) = 20" "bytes frag = frag_head LWIP_CHKSUM ts ident life proto src dest m o' @ bytes bufs"
    using cat_bufs_spec [of h bufs] assms(3,4) by simp_all
qed

lemma frag_loop_spec:
  assumes "unat (mtu netif) = 20 + 8 * nb" "0 < nb" "\<And>k. heap_ok (rams k)" "\<And>k. alloc_ram (rams k) PBUF_LINK 20 \<noteq> None" "\<And>j. refs j"
    "hdr = ip_hdr 0x45 ts n ident off life proto c src dest @ x"
    "wf_chain p" "p \<noteq> []" "\<forall>b\<in>set p. 20 \<le> length (payload b)" "unat poff \<le> length (payload (hd p))"
    "unat left = length (drop (unat poff) (bytes p))" "0 < unat left" "8 * blk + unat left \<le> 65515"
  shows "\<exists>frags. frag_loop LWIP_CHKSUM addr_of rams refs netif hdr p poff left (word_of_nat blk) k j = Some (ERR_OK, frags) \<and>
    carries (frag_head LWIP_CHKSUM ts ident life proto src dest) blk (drop (unat poff) (bytes p)) (map bytes frags) \<and>
    (\<forall>f\<in>set frags. wf_chain f \<and> f \<noteq> [] \<and> length (payload (hd f)) = 20 \<and> length (bytes f) \<le> 20 + 8 * nb)"
  using assms(7-13)
proof (induction "unat left" arbitrary: p poff left blk k j rule: less_induct)
  case less
  let ?d = "drop (unat poff) (bytes p)" and ?H = "frag_head LWIP_CHKSUM ts ident life proto src dest"
  define m where "m = min (unat left) (8 * nb)"
  define fragsize :: u16 where "fragsize = word_of_int (min (uint left) (uint (frag_nfb netif) * 8))"
  have "min (uint left) (uint (frag_nfb netif) * 8) = int m" unfolding frag_nfb_eq(2) [OF assms(1)] m_def uint_nat [of left] of_nat_min by (simp add: mult.commute)
  then have fs: "fragsize = word_of_nat m" by (simp add: fragsize_def)
  have m: "0 < m" "m \<le> unat left" "m < 65516" using less.prems(6,7) assms(2) unfolding m_def by linarith+
  then have um: "unat fragsize = m" unfolding fs by (intro unat_of_nat_u16) simp
  obtain ph ps where p: "p = ph # ps" using less.prems(2) by (cases p) auto
  obtain bufs p' poff' j' where b: "frag_body refs j p poff fragsize = Some (Some (bufs, p', poff', j'))" "body_result m ?d p bufs p' poff'"
    using frag_body_spec [of ph ps poff fragsize refs j] less.prems assms(5) m um unfolding p by auto
  obtain ram where ram: "alloc_ram (rams k) PBUF_LINK 20 = Some ram" using assms(4) by blast
  define o' where "o' = (IP_OFFMASK AND word_of_nat blk) OR (if uint left \<le> uint (mtu netif) - int IP_HLEN then 0 else IP_MF)"
  have o': "o' = (if unat left \<le> 8 * nb then word_of_nat blk else word_of_nat blk OR IP_MF)"
  proof -
    have "uint left \<le> uint (mtu netif) - int IP_HLEN \<longleftrightarrow> unat left \<le> 8 * nb"
      unfolding uint_nat [of left] uint_nat [of "mtu netif"] assms(1) IP_HLEN_def by linarith
    then show ?thesis using off_mask [of blk] less.prems(6,7) by (simp add: o'_def)
  qed
  define frag where "frag = foldl (\<lambda>r b. pbuf_cat r [b]) (put_hdr (frag_hdr LWIP_CHKSUM (addr_of (hd ram)) hdr (lwip_htons (word_of_nat (20 + m))) (lwip_htons o')) (hd ram) # List.tl ram) bufs"
  have lb: "bytes bufs = take m ?d" "length (bytes bufs) < 65516" using b(2) m by (simp_all add: body_result_def)
  have f: "wf_chain frag" "frag \<noteq> []" "length (payload (hd frag)) = 20" "bytes frag = ?H (20 + m) o' @ take m ?d"
    using one_fragment [OF assms(3) ram _ lb(2) assms(6), of addr_of "20 + m" o'] b(2) unfolding frag_def lb(1) by (simp_all add: body_result_def)
  have fl: "length (bytes frag) \<le> 20 + 8 * nb" using f(4) by (simp add: m_def)
  have loop: "frag_loop LWIP_CHKSUM addr_of rams refs netif hdr p poff left (word_of_nat blk) k j =
      Option.bind (frag_loop LWIP_CHKSUM addr_of rams refs netif hdr p' poff' (left - fragsize) (word_of_nat blk + frag_nfb netif) (Suc k) j')
        (\<lambda>(err, frags). Some (err, frag # frags))"
  proof -
    have "left \<noteq> 0" "\<not> unat (len ph) < IP_HLEN" using less.prems(3,6) wf_small [OF less.prems(1)] unfolding p by (auto simp: unat_len IP_HLEN_def)
    moreover have "fragsize + word_of_nat IP_HLEN = word_of_nat (20 + m)" "word_of_nat IP_HLEN = (20 :: u16)" by (simp_all add: fs IP_HLEN_def)
    ultimately show ?thesis using b(1) ram less.prems(2)
      unfolding frag_loop.simps [of LWIP_CHKSUM addr_of rams refs netif hdr p] Let_def fragsize_def [symmetric] o'_def [symmetric] frag_def
      by (simp only: p if_False list.sel option.case prod.case list.distinct de_Morgan_disj simp_thms)
  qed
  show ?case
  proof (cases "unat left \<le> 8 * nb")
    case True
    then have "left - fragsize = 0" "m = unat left" by (simp_all add: fs m_def)
    then have "frag_loop LWIP_CHKSUM addr_of rams refs netif hdr p poff left (word_of_nat blk) k j = Some (ERR_OK, [frag])"
      unfolding loop by (subst frag_loop.simps) simp
    then show ?thesis using f fl True o' \<open>m = unat left\<close> less.prems(5,6) by (intro exI [of _ "[frag]"]) auto
  next
    case False
    then have m8: "m = 8 * nb" by (simp add: m_def)
    have l': "unat (left - fragsize) = unat left - m" using um m(2) by (subst unat_minus) (simp_all add: word_le_nat_alt)
    have "\<exists>frags. frag_loop LWIP_CHKSUM addr_of rams refs netif hdr p' poff' (left - fragsize) (word_of_nat (blk + nb)) (Suc k) j' = Some (ERR_OK, frags) \<and>
      carries ?H (blk + nb) (drop (unat poff') (bytes p')) (map bytes frags) \<and> (\<forall>f\<in>set frags. wf_chain f \<and> f \<noteq> [] \<and> length (payload (hd f)) = 20 \<and> length (bytes f) \<le> 20 + 8 * nb)"
      using b(2) less.prems l' m m8 False by (intro less.hyps) (auto simp: body_result_def)
    then obtain frags where fr: "frag_loop LWIP_CHKSUM addr_of rams refs netif hdr p' poff' (left - fragsize) (word_of_nat (blk + nb)) (Suc k) j' = Some (ERR_OK, frags)"
      "carries ?H (blk + nb) (drop m ?d) (map bytes frags)" "\<forall>f\<in>set frags. wf_chain f \<and> f \<noteq> [] \<and> length (payload (hd f)) = 20 \<and> length (bytes f) \<le> 20 + 8 * nb"
      using b(2) by (auto simp: body_result_def)
    then obtain g gs where g: "map bytes frags = g # gs" by (cases "map bytes frags") auto
    have "carries ?H blk ?d (map bytes (frag # frags))"
      using fr(2) f(4) m8 False o' less.prems(5) assms(2) unfolding list.map g by (auto intro!: exI [of _ nb])
    moreover have "frag_loop LWIP_CHKSUM addr_of rams refs netif hdr p poff left (word_of_nat blk) k j = Some (ERR_OK, frag # frags)"
      unfolding loop frag_nfb_eq [OF assms(1)] using fr(1) by simp
    ultimately show ?thesis using f fl fr(3) by (intro exI [of _ "frag # frags"]) simp
  qed
qed

end

section \<open>Reassembly in order\<close>

text \<open>Fragments without holes from an offset on, and where they end.\<close>

fun gapless :: "u16 \<Rightarrow> ipfrag list \<Rightarrow> bool" where
  "gapless at [] \<longleftrightarrow> True"
| "gapless at (f # fs) \<longleftrightarrow> fstart f = at \<and> at < fend f \<and> gapless (fend f) fs"

fun frags_end :: "u16 \<Rightarrow> ipfrag list \<Rightarrow> u16" where
  "frags_end at [] = at"
| "frags_end at (f # fs) = frags_end (fend f) fs"

lemma gapless_end: "gapless at fs \<Longrightarrow> at \<le> frags_end at fs"
  by (induction fs arbitrary: at) (auto intro: order.trans less_imp_le)

lemma gapless_snoc: "gapless at (fs @ [f]) \<longleftrightarrow> gapless at fs \<and> fstart f = frags_end at fs \<and> fstart f < fend f"
  by (induction fs arbitrary: at) auto

lemma frags_end_snoc [simp]: "frags_end at (fs @ [f]) = fend f"
  by (induction fs arbitrary: at) auto

lemma frag_insert_end:
  assumes "gapless at fs" "fstart f = frags_end at fs" "\<And>pr. prev = Some pr \<Longrightarrow> fend pr = at"
  shows "frag_insert f prev True fs = Some (Some (fs, [], True))"
  using assms
proof (induction fs arbitrary: at prev)
  case Nil
  then show ?case by (auto split: option.splits)
next
  case (Cons q qs)
  have "fstart q = at" "at < fend q" "fend q \<le> fstart f" using Cons.prems(1,2) gapless_end [of "fend q" qs] by simp_all
  then have c: "\<not> fstart f < fstart q" "fstart f \<noteq> fstart q" "\<not> fstart f < fend q" by (auto simp: word_less_nat_alt word_le_nat_alt)
  have "(case prev of None \<Rightarrow> True | Some pr \<Rightarrow> True \<and> fend pr = fstart q) = True" using Cons.prems(1,3) by (auto split: option.split)
  then have "frag_insert f prev True (q # qs) = map_option (map_option (\<lambda>(bef, aft, v). (q # bef, aft, v))) (frag_insert f (Some q) True qs)"
    using c by simp
  moreover have "frag_insert f (Some q) True qs = Some (Some (qs, [], True))" by (rule Cons.IH) (use Cons.prems(1,2) in auto)
  ultimately show ?case by simp
qed

text \<open>A fragment that arrives: its bytes are a header and data, its header in one buffer.\<close>

definition rx :: "(nat \<Rightarrow> u16 \<Rightarrow> u8 list) \<Rightarrow> chain \<Rightarrow> u16 \<Rightarrow> u8 list \<Rightarrow> bool" where
  "rx H p off d \<longleftrightarrow> p \<noteq> [] \<and> wf_chain p \<and> 20 \<le> length (payload (hd p)) \<and> bytes p = H (20 + length d) off @ d"

lemma rx_payload:
  assumes "rx H p off d" "\<And>n off. length (H n off) = 20"
  obtains y where "payload (hd p) = H (20 + length d) off @ y"
proof -
  obtain ph ps where p: "p = ph # ps" using assms(1) by (cases p) (auto simp: rx_def)
  have "take 20 (bytes p) = take 20 (payload ph)" using assms(1) by (auto simp: rx_def p dest: arg_cong [where f = "take 20"])
  moreover have "take 20 (bytes p) = H (20 + length d) off" using assms by (simp add: rx_def)
  ultimately have "payload ph = H (20 + length d) off @ drop 20 (payload ph)" by (metis append_take_drop_id)
  then show thesis using that p by simp
qed

text \<open>What the header of a fragment says.\<close>

lemma htons_and: "lwip_htons a AND lwip_htons b = lwip_htons (a AND b)"
  unfolding lwip_htons_def and_masks drop_high by (rule bit_eqI) (auto simp: bit_simps)

lemma htons_0: "lwip_htons a = 0 \<longleftrightarrow> a = 0"
proof
  assume "lwip_htons a = 0"
  then have "lwip_htons (lwip_htons a) = lwip_htons 0" by simp
  then show "a = 0" by (simp only: htons_htons) (simp add: lwip_htons_def)
qed (simp add: lwip_htons_def)

lemma off_flags:
  assumes "blk < 8192"
  shows "(word_of_nat blk :: u16) AND IP_OFFMASK = word_of_nat blk" "(word_of_nat blk OR IP_MF :: u16) AND IP_OFFMASK = word_of_nat blk"
    "lwip_htons (word_of_nat blk) AND lwip_htons IP_MF = 0" "lwip_htons (word_of_nat blk OR IP_MF) AND lwip_htons IP_MF \<noteq> 0"
proof -
  have a: "IP_OFFMASK AND word_of_nat blk = (word_of_nat blk :: u16)" using assms by (rule off_mask)
  show 1: "(word_of_nat blk :: u16) AND IP_OFFMASK = word_of_nat blk" using a by (simp add: and.commute)
  have z: "IP_OFFMASK AND IP_MF = 0" by (simp add: IP_OFFMASK_def IP_MF_def)
  have z': "IP_MF AND IP_OFFMASK = 0" by (simp add: IP_OFFMASK_def IP_MF_def)
  show "(word_of_nat blk OR IP_MF :: u16) AND IP_OFFMASK = word_of_nat blk" unfolding bit.conj_disj_distrib2 1 z' by simp
  have b: "word_of_nat blk AND IP_MF = (0 :: u16)" 
  proof -
    have "word_of_nat blk AND IP_MF = (IP_OFFMASK AND word_of_nat blk) AND IP_MF" by (simp only: a)
    also have "\<dots> = (IP_OFFMASK AND IP_MF) AND word_of_nat blk" by (simp only: ac_simps)
    finally show ?thesis by (simp only: z and_zero_eq zero_and_eq)
  qed
  show "lwip_htons (word_of_nat blk) AND lwip_htons IP_MF = 0" by (simp add: htons_and b htons_0)
  have "(word_of_nat blk OR IP_MF) AND IP_MF = IP_MF" unfolding bit.conj_disj_distrib2 b by simp
  then show "lwip_htons (word_of_nat blk OR IP_MF) AND lwip_htons IP_MF \<noteq> 0" by (simp add: htons_and htons_0 IP_MF_def)
qed

lemma rx_fields:
  assumes "rx (frag_head C ts ident life proto src dest) p off d" "20 + length d < 65536" "blk < 8192" "off = word_of_nat blk \<or> off = word_of_nat blk OR IP_MF"
  shows "payload (hd p) ! 0 = 0x45" "frag_offset (payload (hd p)) = word_of_nat (8 * blk)" "frag_len (payload (hd p)) = word_of_nat (length d)"
    "get16 (payload (hd p)) 6 AND lwip_htons IP_MF = 0 \<longleftrightarrow> off = word_of_nat blk" "take 20 (payload (hd p)) = frag_head C ts ident life proto src dest (20 + length d) off"
    "IP_ADDRESSES_AND_ID_MATCH (frag_head C ts ident life proto src dest n off' @ x) (payload (hd p))"
proof -
  obtain y where y: "payload (hd p) = frag_head C ts ident life proto src dest (20 + length d) off @ y" using assms(1) by (rule rx_payload) simp
  have "off AND IP_OFFMASK = word_of_nat blk" using assms(4) off_flags [OF assms(3)] by auto
  then show "frag_offset (payload (hd p)) = word_of_nat (8 * blk)" unfolding y frag_offset_def frag_head_fields by (simp add: mult.commute)
  show "frag_len (payload (hd p)) = word_of_nat (length d)" unfolding y frag_len_def frag_head_fields by simp
  show "get16 (payload (hd p)) 6 AND lwip_htons IP_MF = 0 \<longleftrightarrow> off = word_of_nat blk"
    unfolding y frag_head_fields using assms(4) off_flags [OF assms(3)] by auto
  show "IP_ADDRESSES_AND_ID_MATCH (frag_head C ts ident life proto src dest n off' @ x) (payload (hd p))"
    unfolding y IP_ADDRESSES_AND_ID_MATCH_def frag_head_fields by simp
qed (use assms(1) frag_head_fields in \<open>auto elim!: rx_payload\<close>)

text \<open>A datagram that has received its first bytes in order.\<close>

definition rx_state :: "(nat \<Rightarrow> u16 \<Rightarrow> u8 list) \<Rightarrow> reassdata \<Rightarrow> u8 list \<Rightarrow> bool" where
  "rx_state H r d \<longleftrightarrow> gapless 0 (rfrags r) \<and> frags_end 0 (rfrags r) = word_of_nat (length d) \<and>
    (\<forall>f\<in>set (rfrags r). fbuf f \<noteq> [] \<and> wf_chain (fbuf f) \<and> 20 \<le> length (payload (hd (fbuf f)))) \<and>
    concat (map (\<lambda>f. drop 20 (bytes (fbuf f))) (rfrags r)) = d \<and> (\<exists>n off. riphdr r = H n off) \<and> \<not> lastfrag r"

lemma gapless_first: "gapless at fs \<Longrightarrow> fs \<noteq> [] \<Longrightarrow> fstart (hd fs) = at"
  by (cases fs) auto

text \<open>The next fragment goes to the end of the queue.\<close>

lemma validate_next:
  assumes "rx_state (frag_head C ts ident life proto src dest) r d" "rx (frag_head C ts ident life proto src dest) p off e"
    "off = word_of_nat blk \<or> off = word_of_nat blk OR IP_MF" "length d = 8 * blk" "e \<noteq> []" "length d + length e \<le> 65515"
    "rfrags r' = rfrags r" "lastfrag r' \<Longrightarrow> rfrags r \<noteq> [] \<and> datagram_len r' = word_of_nat (length (d @ e))"
  defines "f \<equiv> \<lparr>fstart = word_of_nat (length d), fend = word_of_nat (length (d @ e)), fbuf = p\<rparr>"
  shows "ip_reass_chain_frag_into_datagram_and_validate r' p = Some (Some (r'\<lparr>rfrags := rfrags r @ [f]\<rparr>, lastfrag r'))" "gapless 0 (rfrags r @ [f])"
proof -
  have b: "blk < 8192" "20 + length e < 65536" using assms(4,6) by simp_all
  note h = rx_fields [OF assms(2) b(2,1) assms(3)]
  have f: "\<lparr>fstart = frag_offset (payload (hd p)), fend = frag_offset (payload (hd p)) + frag_len (payload (hd p)), fbuf = p\<rparr> = f"
    unfolding h f_def assms(4) [symmetric] by simp
  have g: "gapless 0 (rfrags r)" "fstart f = frags_end 0 (rfrags r)" using assms(1) by (simp_all add: rx_state_def f_def)
  have "fstart f < fend f" using assms(5,6) unat_of_nat_u16 [of "length d"] unat_of_nat_u16 [of "length (d @ e)"] by (simp add: f_def word_less_nat_alt)
  then show gl: "gapless 0 (rfrags r @ [f])" using g by (simp add: gapless_snoc)
  have i: "frag_insert f None True (rfrags r') = Some (Some (rfrags r, [], True))" unfolding assms(7) using frag_insert_end [OF g, of None] by simp
  have "fstart (hd (rfrags r @ [f])) = 0" using gapless_first [OF gl] by simp
  moreover have "fend f = datagram_len r' \<and> rfrags r \<noteq> []" if "lastfrag r'" using assms(8) [OF that] by (simp add: f_def)
  ultimately show "ip_reass_chain_frag_into_datagram_and_validate r' p = Some (Some (r'\<lparr>rfrags := rfrags r @ [f]\<rparr>, lastfrag r'))"
    unfolding ip_reass_chain_frag_into_datagram_and_validate_def Let_def f i by auto
qed

lemma rx_state_next:
  assumes "rx_state (frag_head C ts ident life proto src dest) r d" "rx (frag_head C ts ident life proto src dest) p off e"
    "gapless 0 (rfrags r @ [f])" "fend f = word_of_nat (length (d @ e))" "fbuf f = p"
  shows "rx_state (frag_head C ts ident life proto src dest) (r\<lparr>rfrags := rfrags r @ [f]\<rparr>) (d @ e)"
  using assms by (auto simp: rx_state_def rx_def)

lemma reass_add_more:
  assumes "reassdatagrams s = r # rest" "rx_state (frag_head C ts ident life proto src dest) r d"
    "rx (frag_head C ts ident life proto src dest) p (word_of_nat blk OR IP_MF) e" "length d = 8 * blk" "e \<noteq> []" "length d + length e \<le> 65515"
  obtains r' where "reass_add C' addr_of p 0 s = Some (None, s\<lparr>reassdatagrams := r' # rest, ip_reass_pbufcount := ip_reass_pbufcount s + pbuf_clen p\<rparr>)"
    "rx_state (frag_head C ts ident life proto src dest) r' (d @ e)" "dlen r' = dlen r + unat (pbuf_clen p)" "riphdr r' = riphdr r"
proof -
  define f where "f = \<lparr>fstart = word_of_nat (length d), fend = word_of_nat (length (d @ e)), fbuf = p\<rparr>"
  let ?r = "r\<lparr>rfrags := rfrags r @ [f]\<rparr>"
  have b: "blk < 8192" "20 + length e < 65536" using assms(4,6) by simp_all
  have l: "\<not> lastfrag r" using assms(2) by (simp add: rx_state_def)
  have "(word_of_nat blk OR IP_MF :: u16) \<noteq> word_of_nat blk" using off_flags(3,4) [OF b(1)] by metis
  then have mf: "get16 (payload (hd p)) 6 AND lwip_htons IP_MF \<noteq> 0" using rx_fields(4) [OF assms(3) b(2,1)] by simp
  have v: "ip_reass_chain_frag_into_datagram_and_validate r p = Some (Some (?r, lastfrag r))" "gapless 0 (rfrags r @ [f])"
    using validate_next [OF assms(2,3) _ assms(4-6), of r] l unfolding f_def by simp_all
  have "reass_add C' addr_of p 0 s = Some (None, s\<lparr>ip_reass_pbufcount := ip_reass_pbufcount s + pbuf_clen p, reassdatagrams := ?r # rest\<rparr>)"
    using v(1) mf l assms(1) by (simp add: reass_add_def Let_def)
  moreover have "rx_state (frag_head C ts ident life proto src dest) ?r (d @ e)" by (rule rx_state_next [OF assms(2,3) v(2)]) (simp_all add: f_def)
  moreover have "dlen ?r = dlen r + unat (pbuf_clen p)" by (simp add: dlen_def f_def)
  ultimately show thesis by (intro that [of ?r]) simp_all
qed

lemma hide_hdr_spec:
  assumes "p \<noteq> []" "wf_chain p" "20 \<le> length (payload (hd p))"
  shows "wf_chain (hide_hdr p)" "bytes (hide_hdr p) = drop 20 (bytes p)" "hide_hdr p \<noteq> []"
proof -
  obtain ph ps where p: "p = ph # ps" using assms(1) by (cases p) auto
  have "pbuf_header ph (- 20) = Some (0, hide 20 ph)"
    using assms wf_small [OF assms(2)] by (simp add: p pbuf_header_def pbuf_header_impl_def unat_len)
  then have h: "hide_hdr p = hide 20 ph # ps" by (simp add: hide_hdr_def p IP_HLEN_def)
  show "wf_chain (hide_hdr p)" unfolding h using header_wf(1) [of ph ps 20] assms by (simp add: p)
  show "bytes (hide_hdr p) = drop 20 (bytes p)" "hide_hdr p \<noteq> []" unfolding h using assms(3) by (simp_all add: p hide_def)
qed

lemma chain_frags_spec:
  assumes "wf_chain p" "p \<noteq> []" "\<forall>f\<in>set fs. fbuf f \<noteq> [] \<and> wf_chain (fbuf f) \<and> 20 \<le> length (payload (hd (fbuf f)))"
    "length (bytes p) + length (concat (map (\<lambda>f. drop 20 (bytes (fbuf f))) fs)) < 65536"
  shows "wf_chain (foldl (\<lambda>p g. pbuf_cat p (hide_hdr (fbuf g))) p fs) \<and>
    bytes (foldl (\<lambda>p g. pbuf_cat p (hide_hdr (fbuf g))) p fs) = bytes p @ concat (map (\<lambda>f. drop 20 (bytes (fbuf f))) fs)"
  using assms
proof (induction fs arbitrary: p)
  case (Cons f fs)
  note h = hide_hdr_spec [of "fbuf f"]
  have "bytes (pbuf_cat p (hide_hdr (fbuf f))) = bytes p @ drop 20 (bytes (fbuf f))" using cat_bytes [of p "hide_hdr (fbuf f)"] h Cons.prems by simp
  moreover have "wf_chain (pbuf_cat p (hide_hdr (fbuf f)))" using cat_wf [of p "hide_hdr (fbuf f)"] h Cons.prems by simp
  ultimately show ?case using Cons.IH [of "pbuf_cat p (hide_hdr (fbuf f))"] Cons.prems by (simp add: cat_not_Nil)
qed simp

context chksum_routine
begin

lemma reass_packet_spec:
  assumes "riphdr r = frag_head LWIP_CHKSUM ts ident life proto src dest n off" "rfrags r \<noteq> []"
    "\<forall>f\<in>set (rfrags r). fbuf f \<noteq> [] \<and> wf_chain (fbuf f) \<and> 20 \<le> length (payload (hd (fbuf f)))"
    "concat (map (\<lambda>f. drop 20 (bytes (fbuf f))) (rfrags r)) = d" "length d \<le> 65515" "datagram_len r = word_of_nat m"
  obtains q where "reass_packet LWIP_CHKSUM addr_of r = Some q" "wf_chain q" "bytes q = frag_head LWIP_CHKSUM ts ident life proto src dest (20 + m) 0 @ d"
proof -
  obtain f fs where f: "rfrags r = f # fs" using assms(2) by (cases "rfrags r") auto
  have fb: "fbuf f \<noteq> [] \<and> wf_chain (fbuf f) \<and> 20 \<le> length (payload (hd (fbuf f)))" using assms(3) f by simp
  then obtain ph ps where p: "fbuf f = ph # ps" by (cases "fbuf f") auto
  let ?h = "frag_head LWIP_CHKSUM ts ident life proto src dest (20 + m) 0"
  have "frag_hdr LWIP_CHKSUM (addr_of ph) (riphdr r) (lwip_htons (word_of_nat (20 + m))) (lwip_htons 0) = ?h"
    unfolding assms(1) by (rule frag_hdr_frag_head)
  then have hd: "frag_hdr LWIP_CHKSUM (addr_of ph) (riphdr r) (lwip_htons (datagram_len r + word_of_nat IP_HLEN)) 0 = ?h"
    using htons_0 [of 0] by (simp add: assms(6) IP_HLEN_def add.commute)
  have w: "wf_chain (put_hdr ?h ph # ps)" "bytes (put_hdr ?h ph # ps) = ?h @ drop 20 (bytes (fbuf f))"
    using put_hdr_wf [of ph ps ?h] fb unfolding p by simp_all
  have d: "d = drop 20 (bytes (fbuf f)) @ concat (map (\<lambda>f. drop 20 (bytes (fbuf f))) fs)" using assms(4) f by simp
  then have small: "length (bytes (put_hdr ?h ph # ps)) + length (concat (map (\<lambda>f. drop 20 (bytes (fbuf f))) fs)) < 65536"
    unfolding w(2) using assms(5) by simp
  have fs: "\<forall>f\<in>set fs. fbuf f \<noteq> [] \<and> wf_chain (fbuf f) \<and> 20 \<le> length (payload (hd (fbuf f)))" using assms(3) f by simp
  note cf = chain_frags_spec [OF w(1) list.distinct(2) fs small]
  have c: "wf_chain (foldl (\<lambda>p g. pbuf_cat p (hide_hdr (fbuf g))) (put_hdr ?h ph # ps) fs)"
    "bytes (foldl (\<lambda>p g. pbuf_cat p (hide_hdr (fbuf g))) (put_hdr ?h ph # ps) fs) = ?h @ d"
    using cf unfolding w(2) append_assoc d [symmetric] by (simp_all only:)
  have "reass_packet LWIP_CHKSUM addr_of r = Some (foldl (\<lambda>p g. pbuf_cat p (hide_hdr (fbuf g))) (put_hdr ?h ph # ps) fs)"
    by (simp only: reass_packet_eq f p hd list.case)
  then show thesis using c by (rule that)
qed

lemma reass_add_last:
  assumes "reassdatagrams s = r # rest" "rx_state (frag_head LWIP_CHKSUM ts ident life proto src dest) r d" "d \<noteq> []"
    "rx (frag_head LWIP_CHKSUM ts ident life proto src dest) p (word_of_nat blk) e" "length d = 8 * blk" "e \<noteq> []" "length d + length e \<le> 65515"
  obtains q where "reass_add LWIP_CHKSUM addr_of p 0 s = Some (Some q, s\<lparr>reassdatagrams := rest, ip_reass_pbufcount := ip_reass_pbufcount s - word_of_nat (dlen r)\<rparr>)"
    "wf_chain q" "bytes q = frag_head LWIP_CHKSUM ts ident life proto src dest (20 + length (d @ e)) 0 @ d @ e"
proof -
  define f where "f = \<lparr>fstart = word_of_nat (length d), fend = word_of_nat (length (d @ e)), fbuf = p\<rparr>"
  define r' where "r' = r\<lparr>lastfrag := True, datagram_len := word_of_nat (length (d @ e))\<rparr>"
  let ?r = "r'\<lparr>rfrags := rfrags r @ [f]\<rparr>"
  have b: "blk < 8192" "20 + length e < 65536" using assms(5,7) by simp_all
  note h = rx_fields [OF assms(4) b(2,1)]
  have ne: "rfrags r \<noteq> []" using assms(2,3) by (auto simp: rx_state_def)
  have v: "ip_reass_chain_frag_into_datagram_and_validate r' p = Some (Some (?r, True))" "gapless 0 (rfrags r @ [f])"
    using validate_next [OF assms(2,4) _ assms(5-7), of r'] ne unfolding f_def by (simp_all add: r'_def)
  have st: "rx_state (frag_head LWIP_CHKSUM ts ident life proto src dest) (r\<lparr>rfrags := rfrags r @ [f]\<rparr>) (d @ e)"
    by (rule rx_state_next [OF assms(2,4) v(2)]) (simp_all add: f_def)
  then obtain n off where "riphdr r = frag_head LWIP_CHKSUM ts ident life proto src dest n off" by (auto simp: rx_state_def)
  then obtain q where q: "reass_packet LWIP_CHKSUM addr_of ?r = Some q" "wf_chain q" "bytes q = frag_head LWIP_CHKSUM ts ident life proto src dest (20 + length (d @ e)) 0 @ d @ e"
    using reass_packet_spec [of ?r ts ident life proto src dest n off "d @ e" "length (d @ e)" addr_of] st assms(7) by (auto simp: r'_def rx_state_def)
  have "pbuf_clen q = word_of_nat (dlen r) + pbuf_clen p" using reass_packet_clen [OF q(1)] by (simp add: dlen_def f_def)
  then have "ip_reass_pbufcount s + pbuf_clen p - pbuf_clen q = ip_reass_pbufcount s - word_of_nat (dlen r)" by simp
  moreover have "word_of_nat (8 * blk) + word_of_nat (length e) = (word_of_nat (length (d @ e)) :: u16)" using assms(5) by simp
  ultimately have "reass_add LWIP_CHKSUM addr_of p 0 s = Some (Some q, s\<lparr>reassdatagrams := rest, ip_reass_pbufcount := ip_reass_pbufcount s - word_of_nat (dlen r)\<rparr>)"
    using v(1) h(2-4) assms(1) q(1) unfolding reass_add_def Let_def by (simp add: r'_def)
  then show thesis using q(2,3) by (rule that)
qed

end

fun reass_feed :: "chksum \<Rightarrow> (pbuf \<Rightarrow> nat) \<Rightarrow> chain list \<Rightarrow> reass_state \<Rightarrow> (chain option list \<times> reass_state) option" where
  "reass_feed C addr_of [] s = Some ([], s)"
| "reass_feed C addr_of (p # ps) s = (case ip4_reass C addr_of p s of None \<Rightarrow> None
    | Some (q, _, s') \<Rightarrow> map_option (apfst (Cons q)) (reass_feed C addr_of ps s'))"

definition clens :: "chain list \<Rightarrow> nat" where
  "clens ps = sum_list (map (\<lambda>p. unat (pbuf_clen p)) ps)"

lemma clens_simps [simp]: "clens [] = 0" "clens (p # ps) = unat (pbuf_clen p) + clens ps"
  by (simp_all add: clens_def)

lemma ip4_reass_at:
  assumes "reassdatagrams s = r # rest" "riphdr r = frag_head C ts ident life proto src dest n off'" "rx (frag_head C ts ident life proto src dest) p off e"
    "off = word_of_nat blk \<or> off = word_of_nat blk OR IP_MF" "0 < blk" "8 * blk + length e \<le> 65515"
    "unat (ip_reass_pbufcount s) + unat (pbuf_clen p) \<le> IP_REASS_MAX_PBUFS"
  shows "ip4_reass C' addr_of p s = map_option (\<lambda>(q, s). (q, [], s)) (reass_add C' addr_of p 0 s)"
proof -
  have b: "blk < 8192" "20 + length e < 65536" using assms(6) by simp_all
  note h = rx_fields [OF assms(3) b(2,1) assms(4)]
  have "IP_ADDRESSES_AND_ID_MATCH (riphdr r) (payload (hd p))" using h(6) [of n off' "[]"] assms(2) by simp
  moreover have "unat (word_of_nat (8 * blk) :: u16) = 8 * blk" using assms(6) by (intro unat_of_nat_u16) simp
  then have "frag_offset (payload (hd p)) \<noteq> 0" unfolding h(2) using assms(5) by (metis unat_0 mult_is_0 not_gr_zero zero_neq_numeral)
  ultimately have "reass_entry (payload (hd p)) (unat (pbuf_clen p)) s = Some (Some 0, [], s)" using assms(1) by (simp add: reass_entry_def)
  moreover have "unat ((0x45 :: u8) AND 0x0f) * 4 = IP_HLEN" by (simp add: IP_HLEN_def)
  moreover have "reass_room (payload (hd p)) (unat (pbuf_clen p)) s = Some (True, [], s)" using assms(7) by (simp add: reass_room_def)
  ultimately show ?thesis unfolding ip4_reass_def Let_def h(1) by simp
qed

definition foreign_to :: "u16 \<Rightarrow> u32 \<Rightarrow> u32 \<Rightarrow> reassdata \<Rightarrow> bool" where
  "foreign_to ident src dest r \<longleftrightarrow> \<not> (get16 (riphdr r) 4 = ident \<and> get_addr (riphdr r) 12 = src \<and> get_addr (riphdr r) 16 = dest)"

lemma reass_find_None: "list_all (\<lambda>r. \<not> IP_ADDRESSES_AND_ID_MATCH (riphdr r) h) rs \<Longrightarrow> reass_find h rs = None"
  by (induction rs) auto

lemma ip4_reass_new:
  assumes "list_all (foreign_to ident src dest) (reassdatagrams s)" "length (reassdatagrams s) < MEMP_NUM_REASSDATA"
    "rx (frag_head C ts ident life proto src dest) p IP_MF e" "20 + length e < 65536"
    "unat (ip_reass_pbufcount s) + unat (pbuf_clen p) \<le> IP_REASS_MAX_PBUFS"
  obtains r where "ip4_reass C' addr_of p s = map_option (\<lambda>(q, s). (q, [], s)) (reass_add C' addr_of p 0 (s\<lparr>reassdatagrams := r # reassdatagrams s\<rparr>))"
    "rx_state (frag_head C ts ident life proto src dest) r []" "dlen r = 0"
proof -
  define r where "r = \<lparr>riphdr = take IP_HLEN (payload (hd p)), rfrags = [], datagram_len = 0, lastfrag = False, timer = IP_REASS_MAXAGE\<rparr>"
  have p0: "rx (frag_head C ts ident life proto src dest) p (word_of_nat 0 OR IP_MF) e" using assms(3) by simp
  note h = rx_fields [OF p0 assms(4), of 0, simplified]
  obtain y where y: "payload (hd p) = frag_head C ts ident life proto src dest (20 + length e) IP_MF @ y" using assms(3) by (rule rx_payload) simp
  have "reass_find (payload (hd p)) (reassdatagrams s) = None"
  proof (rule reass_find_None)
    show "list_all (\<lambda>r. \<not> IP_ADDRESSES_AND_ID_MATCH (riphdr r) (payload (hd p))) (reassdatagrams s)"
      using assms(1) unfolding y by (auto simp: list_all_iff foreign_to_def IP_ADDRESSES_AND_ID_MATCH_def frag_head_fields)
  qed
  then have "reass_entry (payload (hd p)) (unat (pbuf_clen p)) s = Some (Some 0, [], s\<lparr>reassdatagrams := r # reassdatagrams s\<rparr>)"
    using assms(2) by (simp add: reass_entry_def ip_reass_enqueue_new_datagram_def r_def)
  moreover have "unat ((0x45 :: u8) AND 0x0f) * 4 = IP_HLEN" by (simp add: IP_HLEN_def)
  moreover have "reass_room (payload (hd p)) (unat (pbuf_clen p)) s = Some (True, [], s)" using assms(5) by (simp add: reass_room_def)
  ultimately have "ip4_reass C' addr_of p s = map_option (\<lambda>(q, s). (q, [], s)) (reass_add C' addr_of p 0 (s\<lparr>reassdatagrams := r # reassdatagrams s\<rparr>))"
    unfolding ip4_reass_def Let_def h(1) by simp
  moreover have "rx_state (frag_head C ts ident life proto src dest) r []" using h(5) by (auto simp: rx_state_def r_def IP_HLEN_def)
  ultimately show thesis by (rule that) (simp add: r_def dlen_def)
qed

text \<open>The buffers of fragments that carry data, which need not be the buffers they were sent from.\<close>

definition rx_buf :: "chain \<Rightarrow> bool" where
  "rx_buf p \<longleftrightarrow> p \<noteq> [] \<and> wf_chain p \<and> 20 \<le> length (payload (hd p))"

lemma carries_one:
  assumes "carries H blk e (map bytes (p # ps))" "rx_buf p" "8 * blk + length e \<le> 65515"
  obtains (last) "ps = []" "rx H p (word_of_nat blk) e" "e \<noteq> []"
    | (more) k where "rx H p (word_of_nat blk OR IP_MF) (take (8 * k) e)" "0 < k" "8 * k < length e" "carries H (blk + k) (drop (8 * k) e) (map bytes ps)" "ps \<noteq> []"
  using assms by (cases ps) (auto simp: rx_def rx_buf_def min_def)

context chksum_routine
begin

lemma feed_rest:
  assumes "carries (frag_head LWIP_CHKSUM ts ident life proto src dest) blk e (map bytes ps)" "list_all rx_buf ps" "0 < blk"
    "reassdatagrams s = r # rest" "rx_state (frag_head LWIP_CHKSUM ts ident life proto src dest) r d" "length d = 8 * blk"
    "length d + length e \<le> 65515" "unat (ip_reass_pbufcount s) + clens ps \<le> IP_REASS_MAX_PBUFS"
  shows "\<exists>q. reass_feed LWIP_CHKSUM addr_of ps s = Some (replicate (length ps - 1) None @ [Some q],
      s\<lparr>reassdatagrams := rest, ip_reass_pbufcount := ip_reass_pbufcount s - word_of_nat (dlen r)\<rparr>) \<and>
    wf_chain q \<and> bytes q = frag_head LWIP_CHKSUM ts ident life proto src dest (20 + length (d @ e)) 0 @ d @ e"
  using assms
proof (induction ps arbitrary: blk e s r d)
  case (Cons p ps)
  let ?H = "frag_head LWIP_CHKSUM ts ident life proto src dest"
  obtain n off' where hdr: "riphdr r = ?H n off'" using Cons.prems(5) by (auto simp: rx_state_def)
  have pb: "rx_buf p" "8 * blk + length e \<le> 65515" "unat (ip_reass_pbufcount s) + unat (pbuf_clen p) \<le> IP_REASS_MAX_PBUFS" using Cons.prems by simp_all
  from Cons.prems(1) pb(1,2) show ?case
  proof (cases rule: carries_one)
    case last
    have "d \<noteq> []" using Cons.prems(3,6) by auto
    from reass_add_last [OF Cons.prems(4,5) this last(2) Cons.prems(6) last(3) Cons.prems(7), of addr_of]
    obtain q where q: "reass_add LWIP_CHKSUM addr_of p 0 s = Some (Some q, s\<lparr>reassdatagrams := rest, ip_reass_pbufcount := ip_reass_pbufcount s - word_of_nat (dlen r)\<rparr>)"
      "wf_chain q" "bytes q = ?H (20 + length (d @ e)) 0 @ d @ e" by blast
    then show ?thesis using ip4_reass_at [OF Cons.prems(4) hdr last(2) _ Cons.prems(3) pb(2,3), of LWIP_CHKSUM addr_of] last(1) by simp
  next
    case (more k)
    let ?e = "take (8 * k) e"
    have l: "length ?e = 8 * k" "?e \<noteq> []" using more(2,3) by auto
    have le: "length d + length ?e \<le> 65515" "8 * blk + length ?e \<le> 65515" using Cons.prems(6,7) l(1) more(3) by linarith+
    from reass_add_more [OF Cons.prems(4,5) more(1) Cons.prems(6) l(2) le(1), of LWIP_CHKSUM addr_of]
    obtain r' where r': "reass_add LWIP_CHKSUM addr_of p 0 s = Some (None, s\<lparr>reassdatagrams := r' # rest, ip_reass_pbufcount := ip_reass_pbufcount s + pbuf_clen p\<rparr>)"
      "rx_state ?H r' (d @ ?e)" "dlen r' = dlen r + unat (pbuf_clen p)" by blast
    define s' where "s' = s\<lparr>reassdatagrams := r' # rest, ip_reass_pbufcount := ip_reass_pbufcount s + pbuf_clen p\<rparr>"
    have step: "ip4_reass LWIP_CHKSUM addr_of p s = Some (None, [], s')"
      using ip4_reass_at [OF Cons.prems(4) hdr more(1) _ Cons.prems(3) le(2) pb(3), of LWIP_CHKSUM addr_of] r'(1) by (simp add: s'_def)
    have "unat (ip_reass_pbufcount s') = unat (ip_reass_pbufcount s) + unat (pbuf_clen p)"
      unfolding s'_def using pb(3) by (simp add: unat_plus IP_REASS_MAX_PBUFS_def)
    then have room: "unat (ip_reass_pbufcount s') + clens ps \<le> IP_REASS_MAX_PBUFS" using Cons.prems(8) by simp
    have len: "length (d @ ?e) = 8 * (blk + k)" "length (d @ ?e) + length (drop (8 * k) e) \<le> 65515" using Cons.prems(6,7) l(1) more(3) by simp_all
    have bufs: "list_all rx_buf ps" "0 < blk + k" "reassdatagrams s' = r' # rest" using Cons.prems(2,3) by (simp_all add: s'_def)
    from Cons.IH [OF more(4) bufs r'(2) len room]
    obtain q where q: "reass_feed LWIP_CHKSUM addr_of ps s' = Some (replicate (length ps - 1) None @ [Some q],
        s'\<lparr>reassdatagrams := rest, ip_reass_pbufcount := ip_reass_pbufcount s' - word_of_nat (dlen r')\<rparr>)"
      "wf_chain q" "bytes q = ?H (20 + length ((d @ ?e) @ drop (8 * k) e)) 0 @ (d @ ?e) @ drop (8 * k) e" by blast
    have "s'\<lparr>reassdatagrams := rest, ip_reass_pbufcount := ip_reass_pbufcount s' - word_of_nat (dlen r')\<rparr> =
        s\<lparr>reassdatagrams := rest, ip_reass_pbufcount := ip_reass_pbufcount s - word_of_nat (dlen r)\<rparr>"
      by (simp add: s'_def r'(3))
    moreover have "Cons None (replicate (length ps - 1) None) = replicate (length ps) (None :: chain option)" using more(5) by (cases ps) simp_all
    ultimately show ?thesis using q step by (auto simp flip: append_Cons)
  qed
qed simp

lemma feed_all:
  assumes "carries (frag_head LWIP_CHKSUM ts ident life proto src dest) 0 e (map bytes ps)" "list_all rx_buf ps" "1 < length ps" "length e \<le> 65515"
    "list_all (foreign_to ident src dest) (reassdatagrams s)" "length (reassdatagrams s) < MEMP_NUM_REASSDATA"
    "unat (ip_reass_pbufcount s) + clens ps \<le> IP_REASS_MAX_PBUFS"
  shows "\<exists>q. reass_feed LWIP_CHKSUM addr_of ps s = Some (replicate (length ps - 1) None @ [Some q], s) \<and>
    wf_chain q \<and> bytes q = frag_head LWIP_CHKSUM ts ident life proto src dest (20 + length e) 0 @ e"
proof -
  let ?H = "frag_head LWIP_CHKSUM ts ident life proto src dest"
  obtain p ps' where p: "ps = p # ps'" using assms(3) by (cases ps) auto
  have ca: "carries ?H 0 e (map bytes (p # ps'))" and rb: "rx_buf p" and le0: "8 * 0 + length e \<le> 65515" using assms(1,2,4) unfolding p by simp_all
  from ca rb le0 show ?thesis
  proof (cases rule: carries_one)
    case last
    then show ?thesis using assms(3) p by simp
  next
    case (more k)
    let ?e = "take (8 * k) e"
    have l: "length ?e = 8 * k" "?e \<noteq> []" using more(2,3) by auto
    have rx: "rx ?H p IP_MF ?e" "20 + length ?e < 65536" "unat (ip_reass_pbufcount s) + unat (pbuf_clen p) \<le> IP_REASS_MAX_PBUFS"
      using more(1,3) assms(4,7) l(1) unfolding p by simp_all
    from ip4_reass_new [OF assms(5,6) rx, of LWIP_CHKSUM addr_of] obtain r where
      r: "ip4_reass LWIP_CHKSUM addr_of p s = map_option (\<lambda>(q, s). (q, [], s)) (reass_add LWIP_CHKSUM addr_of p 0 (s\<lparr>reassdatagrams := r # reassdatagrams s\<rparr>))"
      "rx_state ?H r []" "dlen r = 0" by blast
    define t where "t = s\<lparr>reassdatagrams := r # reassdatagrams s\<rparr>"
    have t: "reassdatagrams t = r # reassdatagrams s" "length ([] :: u8 list) = 8 * 0" "length ([] :: u8 list) + length ?e \<le> 65515"
      using assms(4) l(1) more(3) by (simp_all add: t_def)
    from reass_add_more [OF t(1) r(2) more(1) t(2) l(2) t(3), of LWIP_CHKSUM addr_of]
    obtain r' where r': "reass_add LWIP_CHKSUM addr_of p 0 t = Some (None, t\<lparr>reassdatagrams := r' # reassdatagrams s, ip_reass_pbufcount := ip_reass_pbufcount t + pbuf_clen p\<rparr>)"
      "rx_state ?H r' ([] @ ?e)" "dlen r' = dlen r + unat (pbuf_clen p)" by blast
    define s' where "s' = t\<lparr>reassdatagrams := r' # reassdatagrams s, ip_reass_pbufcount := ip_reass_pbufcount t + pbuf_clen p\<rparr>"
    have step: "ip4_reass LWIP_CHKSUM addr_of p s = Some (None, [], s')" using r(1) r'(1) unfolding t_def [symmetric] by (simp add: s'_def)
    have "unat (ip_reass_pbufcount s') = unat (ip_reass_pbufcount s) + unat (pbuf_clen p)"
      using rx(3) by (simp add: s'_def t_def unat_plus IP_REASS_MAX_PBUFS_def)
    then have room: "unat (ip_reass_pbufcount s') + clens ps' \<le> IP_REASS_MAX_PBUFS" using assms(7) by (simp add: p)
    have len: "length ?e = 8 * (0 + k)" "length ?e + length (drop (8 * k) e) \<le> 65515" using assms(4) l(1) more(3) by simp_all
    have bufs: "list_all rx_buf ps'" "0 < 0 + k" "reassdatagrams s' = r' # reassdatagrams s" using assms(2) more(2) by (simp_all add: p s'_def)
    have e: "rx_state ?H r' ?e" using r'(2) by simp
    from feed_rest [OF more(4) bufs e len room, of addr_of]
    obtain q where q: "reass_feed LWIP_CHKSUM addr_of ps' s' = Some (replicate (length ps' - 1) None @ [Some q],
        s'\<lparr>reassdatagrams := reassdatagrams s, ip_reass_pbufcount := ip_reass_pbufcount s' - word_of_nat (dlen r')\<rparr>)"
      "wf_chain q" "bytes q = ?H (20 + length (?e @ drop (8 * k) e)) 0 @ ?e @ drop (8 * k) e" by blast
    have "s'\<lparr>reassdatagrams := reassdatagrams s, ip_reass_pbufcount := ip_reass_pbufcount s' - word_of_nat (dlen r')\<rparr> = s"
      by (simp add: s'_def t_def r'(3) r(3))
    moreover have "Cons None (replicate (length ps' - 1) None) = replicate (length ps') (None :: chain option)" using more(5) by (cases ps') simp_all
    ultimately show ?thesis using q step unfolding p by (auto simp flip: append_Cons)
  qed
qed

lemma carries_many: "carries H blk e bs \<Longrightarrow> (\<And>n off. length (H n off) = 20) \<Longrightarrow> (\<forall>b\<in>set bs. length b \<le> 20 + m) \<Longrightarrow> m < length e \<Longrightarrow> 1 < length bs"
  by (cases "(H, blk, e, bs)" rule: carries.cases) auto

text \<open>A packet as \<^verbatim>\<open>ip4_output_if_src\<close> makes it, cut by \<^verbatim>\<open>ip4_frag\<close>.\<close>

lemma ip4_frag_carries:
  assumes "wf_chain p" "p \<noteq> []" "\<forall>b\<in>set p. 20 \<le> length (payload b)"
    "bytes p = ip_hdr 0x45 ts n ident 0 life proto c src dest @ d" "d \<noteq> []"
    "unat (mtu netif) = 20 + 8 * nb" "0 < nb" "\<And>k. heap_ok (rams k)" "\<And>k. alloc_ram (rams k) PBUF_LINK 20 \<noteq> None" "\<And>j. refs j"
  shows "\<exists>frags. ip4_frag LWIP_CHKSUM addr_of rams refs netif p = Some (ERR_OK, frags) \<and>
    carries (frag_head LWIP_CHKSUM ts ident life proto src dest) 0 d (map bytes frags) \<and>
    (\<forall>f\<in>set frags. wf_chain f \<and> f \<noteq> [] \<and> length (payload (hd f)) = 20 \<and> length (bytes f) \<le> 20 + 8 * nb)"
proof -
  obtain ph ps where p: "p = ph # ps" using assms(2) by (cases p) auto
  let ?h = "ip_hdr 0x45 ts n ident 0 life proto c src dest"
  have "take 20 (payload ph) = ?h" using arg_cong [OF assms(4), of "take 20"] assms(3) by (simp add: p)
  then have hdr: "payload ph = ?h @ drop 20 (payload ph)" by (metis append_take_drop_id)
  have l: "length (bytes p) = 20 + length d" "length (bytes p) < 65536" using assms(4) wf_bytes_bound [OF assms(1)] by simp_all
  have tot: "unat (tot_len ph) = 20 + length d" using wf_tot_len [OF assms(1,2)] l(1) by (simp add: p)
  have left: "unat (tot_len ph - 20) = length d" using tot by (subst unat_minus) (simp_all add: word_le_nat_alt)
  have d: "drop (unat (20 :: u16)) (bytes p) = d" using assms(4) by simp
  have f: "payload ph ! 0 = 0x45" "get16 (payload ph) 6 = 0" by (subst hdr, simp add: ip_hdr_fields)+
  have "ip4_frag LWIP_CHKSUM addr_of rams refs netif p =
      frag_loop LWIP_CHKSUM addr_of rams refs netif (payload ph) p 20 (tot_len ph - 20) (word_of_nat 0) 0 0"
    using assms(3) f htons_0 [of 0] by (simp add: ip4_frag_def p IP_HLEN_def)
  moreover have "\<exists>frags. frag_loop LWIP_CHKSUM addr_of rams refs netif (payload ph) p 20 (tot_len ph - 20) (word_of_nat 0) 0 0 = Some (ERR_OK, frags) \<and>
    carries (frag_head LWIP_CHKSUM ts ident life proto src dest) 0 (drop (unat (20 :: u16)) (bytes p)) (map bytes frags) \<and>
    (\<forall>f\<in>set frags. wf_chain f \<and> f \<noteq> [] \<and> length (payload (hd f)) = 20 \<and> length (bytes f) \<le> 20 + 8 * nb)"
    using assms left l d by (intro frag_loop_spec [OF assms(6-10) hdr assms(1-3)]) (simp_all add: p)
  ultimately show ?thesis unfolding d by simp
qed

lemma frag_head_whole:
  assumes "c = ip4_chksum_inline proto life dest ts 0x45 (lwip_htons n) ident src" "unat n = 20 + m"
  shows "frag_head LWIP_CHKSUM ts ident life proto src dest (20 + m) 0 = ip_hdr 0x45 ts (lwip_htons n) ident 0 life proto c src dest"
proof -
  have "word_of_nat (20 + m) = n" using arg_cong [OF assms(2), of "word_of_nat :: nat \<Rightarrow> u16"] by simp
  then show ?thesis unfolding frag_head_def Let_def assms(1) inline_is_inet_chksum [where a = 0] htons_0 [THEN iffD2, OF refl] by simp
qed

end
section \<open>Fragments out of order\<close>

lemmas reass_steps = reass_room_def reass_entry_def ip_reass_enqueue_new_datagram_def reass_add_def ip_reass_chain_frag_into_datagram_and_validate_def

lemma ip4_reass_unfold:
  assumes "payload (hd p) ! 0 = 0x45"
  shows "ip4_reass C addr_of p s = (case reass_room (payload (hd p)) (unat (pbuf_clen p)) s of
       None \<Rightarrow> None
     | Some (False, te, s) \<Rightarrow> Some (None, te, s)
     | Some (True, te, s) \<Rightarrow>
         (case reass_entry (payload (hd p)) (unat (pbuf_clen p)) s of
            None \<Rightarrow> None
          | Some (None, te', s) \<Rightarrow> Some (None, te @ te', s)
          | Some (Some i, te', s) \<Rightarrow> map_option (\<lambda>(q, s). (q, te @ te', s)) (reass_add C addr_of p i s)))"
  unfolding ip4_reass_def Let_def assms by (simp add: IP_HLEN_def)

lemma ip4_reass_first:
  assumes "rx (frag_head C ts ident life proto src dest) p off e" "20 + length e < 65536" "blk < 8192" "off = word_of_nat blk \<or> off = word_of_nat blk OR IP_MF"
    "off = word_of_nat blk \<Longrightarrow> 0 < blk" "unat (pbuf_clen p) \<le> IP_REASS_MAX_PBUFS"
  shows "ip4_reass C' addr_of p reass_init = Some (None, [], \<lparr>reassdatagrams = [\<lparr>riphdr = frag_head C ts ident life proto src dest (20 + length e) off,
      rfrags = [\<lparr>fstart = word_of_nat (8 * blk), fend = word_of_nat (8 * blk + length e), fbuf = p\<rparr>],
      datagram_len = (if off = word_of_nat blk then word_of_nat (8 * blk + length e) else 0), lastfrag = (off = word_of_nat blk), timer = IP_REASS_MAXAGE\<rparr>],
    ip_reass_pbufcount = pbuf_clen p\<rparr>)"
proof -
  note h = rx_fields [OF assms(1-4)]
  have "unat (word_of_nat (8 * blk) :: u16) = 8 * blk" using assms(3) by (intro unat_of_nat_u16) simp
  then have z: "word_of_nat (8 * blk) = (0 :: u16) \<longleftrightarrow> blk = 0" by (metis mult_is_0 of_nat_0 unat_0 zero_neq_numeral)
  show ?thesis unfolding ip4_reass_unfold [OF h(1)] using assms(5,6) z
    by (auto simp: reass_steps reass_init_def Let_def h MEMP_NUM_REASSDATA_def IP_HLEN_def)
qed

section \<open>Properties\<close>

text \<open>
  C27: A packet as \<^verbatim>\<open>ip4_output_if_src\<close> makes it, cut by \<^verbatim>\<open>ip4_frag\<close> for an interface whose MTU leaves a multiple of
  eight bytes for data, goes out as fragments that fit the MTU; received in their order in any buffers, \<^verbatim>\<open>ip4_reass\<close>
  answers nothing until the last one, then gives back the bytes of the packet, its header included, and its queue is as before. The
  first 20 bytes of every buffer of the packet are there, the heap and the pool of references have memory, and the receiver has a free datagram,
  room for the buffers and no other datagram with these addresses and this identification.
\<close>

theorem frag_reass_roundtrip:
  assumes "wf_chain p" "p \<noteq> []" "\<forall>b\<in>set p. 20 \<le> length (payload b)"
    "bytes p = ip_hdr 0x45 ts (lwip_htons n) ident 0 life proto c src dest @ d" "unat n = 20 + length d"
    "c = ip4_chksum_inline proto life dest ts 0x45 (lwip_htons n) ident src"
    "unat (mtu netif) = 20 + 8 * nb" "0 < nb" "8 * nb < length d" "\<And>k. heap_ok (rams k)" "\<And>k. alloc_ram (rams k) PBUF_LINK 20 \<noteq> None" "\<And>j. refs j"
  shows "\<exists>frags. ip4_frag lwip_standard_chksum addr_of rams refs netif p = Some (ERR_OK, frags) \<and>
    (\<forall>f\<in>set frags. wf_chain f \<and> unat (tot_len (hd f)) \<le> unat (mtu netif)) \<and>
    (\<forall>ps s. map bytes ps = map bytes frags \<and> list_all rx_buf ps \<and> list_all (foreign_to ident src dest) (reassdatagrams s) \<and>
      length (reassdatagrams s) < MEMP_NUM_REASSDATA \<and> unat (ip_reass_pbufcount s) + clens ps \<le> IP_REASS_MAX_PBUFS \<longrightarrow>
      (\<exists>q. reass_feed lwip_standard_chksum addr_of' ps s = Some (replicate (length ps - 1) None @ [Some q], s) \<and> wf_chain q \<and> bytes q = bytes p))"
proof -
  have "d \<noteq> []" using assms(9) by auto
  from v2.ip4_frag_carries [OF assms(1-4) this assms(7,8), where addr_of = addr_of and rams = rams and refs = refs, OF assms(10-12)] obtain frags where
    f: "ip4_frag lwip_standard_chksum addr_of rams refs netif p = Some (ERR_OK, frags)"
    "carries (frag_head lwip_standard_chksum ts ident life proto src dest) 0 d (map bytes frags)"
    "\<forall>f\<in>set frags. wf_chain f \<and> f \<noteq> [] \<and> length (payload (hd f)) = 20 \<and> length (bytes f) \<le> 20 + 8 * nb"
    by (elim exE conjE)
  have many: "1 < length (map bytes frags)" by (rule v2.carries_many [OF f(2) _ _ assms(9)]) (use f(3) in auto)
  have len: "length d \<le> 65515" using assms(5) unat_u16_bound [of n] by simp
  have "\<exists>q. reass_feed lwip_standard_chksum addr_of' ps s = Some (replicate (length ps - 1) None @ [Some q], s) \<and> wf_chain q \<and> bytes q = bytes p"
    if "map bytes ps = map bytes frags" "list_all rx_buf ps" "list_all (foreign_to ident src dest) (reassdatagrams s)"
      "length (reassdatagrams s) < MEMP_NUM_REASSDATA" "unat (ip_reass_pbufcount s) + clens ps \<le> IP_REASS_MAX_PBUFS" for ps s
  proof -
    have "1 < length ps" using many map_eq_imp_length_eq [OF that(1)] by simp
    from v2.feed_all [OF f(2) [folded that(1)] that(2) this len that(3-5)] show ?thesis unfolding assms(4) v2.frag_head_whole [OF assms(6,5)] .
  qed
  moreover have "\<forall>f\<in>set frags. wf_chain f \<and> unat (tot_len (hd f)) \<le> unat (mtu netif)" using f(3) wf_tot_len assms(7) by auto
  ultimately show ?thesis using f(1) by blast
qed

text \<open>
  C28: In every state that fragments from the wire and ticks of the timer can reach, at most five datagrams and ten
  buffers wait for reassembly, the counter \<^verbatim>\<open>ip_reass_pbufcount\<close> is the number of buffers in the queues, and every
  datagram in the list has a fragment, so that giving one up never goes through \<^verbatim>\<open>NULL\<close>.
\<close>

theorem reass_bounded:
  assumes "(reass_step C addr_of)\<^sup>*\<^sup>* reass_init s"
  shows "length (reassdatagrams s) \<le> MEMP_NUM_REASSDATA \<and> unat (ip_reass_pbufcount s) \<le> IP_REASS_MAX_PBUFS \<and>
    unat (ip_reass_pbufcount s) = (\<Sum>r\<leftarrow>reassdatagrams s. \<Sum>f\<leftarrow>rfrags r. unat (pbuf_clen (fbuf f))) \<and>
    (\<forall>i<length (reassdatagrams s). ip_reass_free_complete_datagram i s \<noteq> None)"
proof -
  have ok: "reass_ok s" using rs.reachable_inv [of _ C addr_of s] assms by simp
  have "ip_reass_free_complete_datagram i s \<noteq> None" if "i < length (reassdatagrams s)" for i
  proof -
    have "length (take i (reassdatagrams s)) = i" using that by simp
    then show ?thesis using free_complete_spec [OF ok id_take_nth_drop [OF that]] by (metis option.distinct(1))
  qed
  then show ?thesis using ok by (simp add: reass_ok_def held_def dlen_def [abs_def])
qed

text \<open>
  C29: Incomplete datagrams do not stay: four ticks of the timer without a new fragment bring every state that can be reached back to the
  empty one.
\<close>

theorem reass_expires:
  assumes "(reass_step C addr_of)\<^sup>*\<^sup>* reass_init s"
  shows "\<exists>te. ticks 4 s = Some (te, reass_init)"
proof (rule ticks_spec)
  show ok: "reass_ok s" using rs.reachable_inv [of _ C addr_of s] assms by simp
  then show "list_all (\<lambda>r. unat (timer r) < 4) (reassdatagrams s)"
    by (auto simp: reass_ok_def list_all_iff rdata_ok_def IP_REASS_MAXAGE_def word_le_nat_alt)
qed

text \<open>
  C30: Reassembly accepts a datagram with a hole. The fragments for the bytes from 0 to 8, from 24 to 32 (the last one) and from 16
  to 24, in this order and in any buffers, complete a datagram of 24 bytes under a header that claims 32: a
  fragment put between two others is compared with the end of the one before it for overlap only, so the missing
  bytes from 8 to 16 go unnoticed.
\<close>

theorem reass_accepts_hole:
  assumes "rx (frag_head lwip_standard_chksum ts ident life proto src dest) p1 IP_MF a" "rx (frag_head lwip_standard_chksum ts ident life proto src dest) p2 3 c"
    "rx (frag_head lwip_standard_chksum ts ident life proto src dest) p3 (2 OR IP_MF) b" "length a = 8" "length b = 8" "length c = 8"
    "clens [p1, p2, p3] \<le> IP_REASS_MAX_PBUFS"
  shows "\<exists>q s. reass_feed lwip_standard_chksum addr_of [p1, p2, p3] reass_init = Some ([None, None, Some q], s) \<and>
    bytes q = frag_head lwip_standard_chksum ts ident life proto src dest (20 + 32) 0 @ a @ b @ c"
proof -
  let ?H = "frag_head lwip_standard_chksum ts ident life proto src dest"
  define r where "r = \<lparr>riphdr = ?H 28 IP_MF, rfrags = [\<lparr>fstart = 0, fend = 8, fbuf = p1\<rparr>], datagram_len = 0, lastfrag = False, timer = IP_REASS_MAXAGE\<rparr>"
  define f2 f3 where f: "f2 = \<lparr>fstart = 24, fend = 32, fbuf = p2\<rparr>" "f3 = \<lparr>fstart = 16, fend = 24, fbuf = p3\<rparr>"
  define r2 where "r2 = r\<lparr>lastfrag := True, datagram_len := 32, rfrags := rfrags r @ [f2]\<rparr>"
  have mf: "IP_MF \<noteq> 0" "(2 OR IP_MF :: u16) \<noteq> 2" by (simp_all add: IP_MF_def)
  have 1: "ip4_reass lwip_standard_chksum addr_of p1 reass_init = Some (None, [], \<lparr>reassdatagrams = [r], ip_reass_pbufcount = pbuf_clen p1\<rparr>)"
    using ip4_reass_first [of _ ts ident life proto src dest p1 IP_MF a 0 lwip_standard_chksum addr_of] assms mf by (simp add: r_def)
  note h2 = rx_fields [of _ ts ident life proto src dest p2 3 c 3, OF assms(2)]
  note h3 = rx_fields [of _ ts ident life proto src dest p3 "2 OR IP_MF" b 2, OF assms(3)]
  have "ip4_reass lwip_standard_chksum addr_of p2 \<lparr>reassdatagrams = [r], ip_reass_pbufcount = pbuf_clen p1\<rparr> =
      map_option (\<lambda>(q, s). (q, [], s)) (reass_add lwip_standard_chksum addr_of p2 0 \<lparr>reassdatagrams = [r], ip_reass_pbufcount = pbuf_clen p1\<rparr>)"
    by (rule ip4_reass_at [OF _ _ assms(2), where blk = 3 and r = r and rest = "[]" and n = 28 and off' = IP_MF]) (use assms in \<open>simp_all add: r_def\<close>)
  also have "\<dots> = Some (None, [], \<lparr>reassdatagrams = [r2], ip_reass_pbufcount = pbuf_clen p1 + pbuf_clen p2\<rparr>)"
    using h2 assms(6) by (simp add: reass_add_def ip_reass_chain_frag_into_datagram_and_validate_def r_def r2_def f)
  finally have 2: "ip4_reass lwip_standard_chksum addr_of p2 \<lparr>reassdatagrams = [r], ip_reass_pbufcount = pbuf_clen p1\<rparr> =
    Some (None, [], \<lparr>reassdatagrams = [r2], ip_reass_pbufcount = pbuf_clen p1 + pbuf_clen p2\<rparr>)" .
  define r3 where "r3 = r2\<lparr>rfrags := rfrags r @ [f3, f2]\<rparr>"
  have bufs: "\<forall>f\<in>set (rfrags r3). fbuf f \<noteq> [] \<and> wf_chain (fbuf f) \<and> 20 \<le> length (payload (hd (fbuf f)))"
    "concat (map (\<lambda>f. drop 20 (bytes (fbuf f))) (rfrags r3)) = a @ b @ c"
    using assms(1-3) by (simp_all add: r3_def r_def f rx_def)
  obtain q where q: "reass_packet lwip_standard_chksum addr_of r3 = Some q" "bytes q = ?H (20 + 32) 0 @ a @ b @ c"
    using v2.reass_packet_spec [of r3 ts ident life proto src dest 28 IP_MF "a @ b @ c" 32 addr_of] bufs assms(4-6)
    by (auto simp: r3_def r2_def r_def)
  have room: "unat (pbuf_clen p1 + pbuf_clen p2) + unat (pbuf_clen p3) \<le> IP_REASS_MAX_PBUFS"
    using assms(7) by (simp add: unat_plus IP_REASS_MAX_PBUFS_def)
  have "ip4_reass lwip_standard_chksum addr_of p3 \<lparr>reassdatagrams = [r2], ip_reass_pbufcount = pbuf_clen p1 + pbuf_clen p2\<rparr> =
      map_option (\<lambda>(q, s). (q, [], s)) (reass_add lwip_standard_chksum addr_of p3 0 \<lparr>reassdatagrams = [r2], ip_reass_pbufcount = pbuf_clen p1 + pbuf_clen p2\<rparr>)"
    by (rule ip4_reass_at [OF _ _ assms(3), where blk = 2 and r = r2 and rest = "[]" and n = 28 and off' = IP_MF]) (use room assms(5) in \<open>simp_all add: r_def r2_def\<close>)
  moreover have "ip_reass_chain_frag_into_datagram_and_validate r2 p3 = Some (Some (r3, True))"
    using h3 assms(5) by (simp add: ip_reass_chain_frag_into_datagram_and_validate_def r_def r2_def r3_def f)
  ultimately obtain s where "ip4_reass lwip_standard_chksum addr_of p3 \<lparr>reassdatagrams = [r2], ip_reass_pbufcount = pbuf_clen p1 + pbuf_clen p2\<rparr> = Some (Some q, [], s)"
    using q(1) h3 mf assms(5) by (simp add: reass_add_def)
  then show ?thesis using 1 2 q(2) by simp
qed

text \<open>
  C31: A sender can stop the program: after the last fragment for the bytes from 8 to 16, a second last fragment for the bytes from 8 to
  24 is thrown away but changes the length of the datagram, so that the fragment for the bytes from 0 to 8 completes a queue that does not end there
  and the assertion on the length of the datagram fails.
\<close>

theorem reass_length_assertion:
  assumes "rx (frag_head C ts ident life proto src dest) p1 1 a" "rx (frag_head C ts ident life proto src dest) p2 1 b"
    "rx (frag_head C ts ident life proto src dest) p3 IP_MF c" "length a = 8" "length b = 16" "length c = 8" "clens [p1, p2, p3] \<le> IP_REASS_MAX_PBUFS"
  shows "reass_feed C addr_of [p1, p2, p3] reass_init = None"
proof -
  let ?H = "frag_head C ts ident life proto src dest"
  define r where "r = \<lparr>riphdr = ?H 28 1, rfrags = [\<lparr>fstart = 8, fend = 16, fbuf = p1\<rparr>], datagram_len = 16, lastfrag = True, timer = IP_REASS_MAXAGE\<rparr>"
  define r2 where "r2 = r\<lparr>datagram_len := 24\<rparr>"
  have 1: "ip4_reass C addr_of p1 reass_init = Some (None, [], \<lparr>reassdatagrams = [r], ip_reass_pbufcount = pbuf_clen p1\<rparr>)"
    using ip4_reass_first [of _ ts ident life proto src dest p1 1 a 1 C addr_of] assms by (simp add: r_def)
  note h2 = rx_fields [of _ ts ident life proto src dest p2 1 b 1, OF assms(2)]
  note h3 = rx_fields [of _ ts ident life proto src dest p3 IP_MF c 0, OF assms(3)]
  have "ip4_reass C addr_of p2 \<lparr>reassdatagrams = [r], ip_reass_pbufcount = pbuf_clen p1\<rparr> =
      map_option (\<lambda>(q, s). (q, [], s)) (reass_add C addr_of p2 0 \<lparr>reassdatagrams = [r], ip_reass_pbufcount = pbuf_clen p1\<rparr>)"
    by (rule ip4_reass_at [OF _ _ assms(2), where blk = 1 and r = r and rest = "[]" and n = 28 and off' = 1]) (use assms in \<open>simp_all add: r_def\<close>)
  also have "\<dots> = Some (None, [], \<lparr>reassdatagrams = [r2], ip_reass_pbufcount = pbuf_clen p1\<rparr>)"
    using h2 assms(5) by (simp add: reass_add_def ip_reass_chain_frag_into_datagram_and_validate_def r_def r2_def)
  finally have 2: "ip4_reass C addr_of p2 \<lparr>reassdatagrams = [r], ip_reass_pbufcount = pbuf_clen p1\<rparr> =
    Some (None, [], \<lparr>reassdatagrams = [r2], ip_reass_pbufcount = pbuf_clen p1\<rparr>)" .
  define r3 where "r3 = r2\<lparr>riphdr := ?H 28 IP_MF\<rparr>"
  have h1: "frag_offset (?H 28 1) = 8" using frag_head_fields(4) [of C ts ident life proto src dest 28 1 "[]"] by (simp add: frag_offset_def IP_OFFMASK_def)
  have "IP_ADDRESSES_AND_ID_MATCH (riphdr r2) (payload (hd p3))" using h3(6) [of 28 1 "[]"] assms(6) by (simp add: r2_def r_def)
  then have "reass_entry (payload (hd p3)) (unat (pbuf_clen p3)) \<lparr>reassdatagrams = [r2], ip_reass_pbufcount = pbuf_clen p1\<rparr> =
      Some (Some 0, [], \<lparr>reassdatagrams = [r3], ip_reass_pbufcount = pbuf_clen p1\<rparr>)"
    using h3 h1 assms(6) by (simp add: reass_entry_def r3_def r2_def r_def IP_HLEN_def)
  moreover have "ip_reass_chain_frag_into_datagram_and_validate r3 p3 = None"
    using h3 assms(6) by (simp add: ip_reass_chain_frag_into_datagram_and_validate_def r3_def r2_def r_def)
  ultimately have "ip4_reass C addr_of p3 \<lparr>reassdatagrams = [r2], ip_reass_pbufcount = pbuf_clen p1\<rparr> = None"
    using h3 assms(6,7) by (simp add: ip4_reass_unfold reass_room_def reass_add_def IP_MF_def)
  then show ?thesis using 1 2 by simp
qed

section \<open>Instances\<close>

definition test_head :: "nat \<Rightarrow> u16 \<Rightarrow> u8 list" where
  "test_head = frag_head lwip_standard_chksum 0 7 64 17 0x6500a8c0 0x6600a8c0"

definition test_frag :: "u16 \<Rightarrow> u8 list \<Rightarrow> chain" where
  "test_frag off d = [\<lparr>front = [], payload = test_head (20 + length d) off @ d, tot_len = word_of_nat (20 + length d),
     ptype = PBUF_POOL, pflags = 0, ref = 1\<rparr>]"

lemma test_frag_rx: "length d \<le> 1000 \<Longrightarrow> rx (frag_head lwip_standard_chksum 0 7 64 17 0x6500a8c0 0x6600a8c0) (test_frag off d) off d"
  using unat_of_nat_u16 [of "20 + length d"] by (simp add: rx_def test_frag_def test_head_def)

lemma test_frag_clen: "unat (pbuf_clen (test_frag off d)) = 1"
  by (simp add: test_frag_def)

definition test_packet :: chain where
  "test_packet = [\<lparr>front = [], payload = ip_hdr 0x45 0 (lwip_htons 32) 7 0 64 17 (ip4_chksum_inline 17 64 0x6600a8c0 0 0x45 (lwip_htons 32) 7 0x6500a8c0) 0x6500a8c0 0x6600a8c0 @ replicate 12 5,
     tot_len = 32, ptype = PBUF_RAM, pflags = 0, ref = 1\<rparr>]"

theorem frag_reass_roundtrip_witness:
  "\<exists>frags. ip4_frag lwip_standard_chksum (\<lambda>_. 0) (\<lambda>_ n. Some (replicate (unat n) 0)) (\<lambda>_. True) (eth0\<lparr>mtu := 28\<rparr>) test_packet = Some (ERR_OK, frags)"
proof -
  have h: "heap_ok (\<lambda>n. Some (replicate (unat n) 0))" by (auto simp: heap_ok_def)
  have a: "alloc_ram (\<lambda>n. Some (replicate (unat n) 0)) PBUF_LINK 20 \<noteq> None"
    by (simp add: alloc_ram_def Let_def SIZEOF_STRUCT_PBUF_def mem_align_def PBUF_LINK_HLEN_def)
  have p: "wf_chain test_packet" "test_packet \<noteq> []" "\<forall>b\<in>set test_packet. 20 \<le> length (payload b)"
    "bytes test_packet = ip_hdr 0x45 0 (lwip_htons 32) 7 0 64 17 (ip4_chksum_inline 17 64 0x6600a8c0 0 0x45 (lwip_htons 32) 7 0x6500a8c0) 0x6500a8c0 0x6600a8c0 @ replicate 12 5"
    "unat (32 :: u16) = 20 + length (replicate 12 (5 :: u8))" "unat (mtu (eth0\<lparr>mtu := 28\<rparr>)) = 20 + 8 * 1" "8 * 1 < length (replicate 12 (5 :: u8))"
    by (simp_all add: test_packet_def)
  from frag_reass_roundtrip [OF p(1-5) refl p(6) _ p(7), where rams = "\<lambda>_ n. Some (replicate (unat n) 0)" and refs = "\<lambda>_. True" and addr_of = "\<lambda>_. 0" and addr_of' = "\<lambda>_. 0",
    OF _ h a] show ?thesis by auto
qed

lemma test_step:
  "reass_step lwip_standard_chksum (\<lambda>_. 0) reass_init \<lparr>reassdatagrams = [\<lparr>riphdr = test_head 28 IP_MF, rfrags = [\<lparr>fstart = 0, fend = 8, fbuf = test_frag IP_MF [1, 2, 3, 4, 5, 6, 7, 8]\<rparr>],
    datagram_len = 0, lastfrag = False, timer = IP_REASS_MAXAGE\<rparr>], ip_reass_pbufcount = 1\<rparr>"
proof (rule reass_step.fragment)
  have "IP_MF \<noteq> 0" "pbuf_clen (test_frag IP_MF [1, 2, 3, 4, 5, 6, 7, 8]) = 1" by (simp_all add: IP_MF_def test_frag_def)
  then show "ip4_reass lwip_standard_chksum (\<lambda>_. 0) (test_frag IP_MF [1, 2, 3, 4, 5, 6, 7, 8]) reass_init =
    Some (None, [], \<lparr>reassdatagrams = [\<lparr>riphdr = test_head 28 IP_MF, rfrags = [\<lparr>fstart = 0, fend = 8, fbuf = test_frag IP_MF [1, 2, 3, 4, 5, 6, 7, 8]\<rparr>],
      datagram_len = 0, lastfrag = False, timer = IP_REASS_MAXAGE\<rparr>], ip_reass_pbufcount = 1\<rparr>)"
    using ip4_reass_first [OF test_frag_rx [of "[1, 2, 3, 4, 5, 6, 7, 8]" IP_MF], of 0 lwip_standard_chksum "\<lambda>_. 0"] by (simp add: test_head_def IP_REASS_MAX_PBUFS_def)
qed

theorem reass_bounded_witness:
  "ip_reass_free_complete_datagram 0 \<lparr>reassdatagrams = [\<lparr>riphdr = test_head 28 IP_MF, rfrags = [\<lparr>fstart = 0, fend = 8, fbuf = test_frag IP_MF [1, 2, 3, 4, 5, 6, 7, 8]\<rparr>],
    datagram_len = 0, lastfrag = False, timer = IP_REASS_MAXAGE\<rparr>], ip_reass_pbufcount = 1\<rparr> \<noteq> None"
  using reass_bounded [OF r_into_rtranclp, OF test_step] by simp

theorem reass_expires_witness:
  "\<exists>te. ticks 4 \<lparr>reassdatagrams = [\<lparr>riphdr = test_head 28 IP_MF, rfrags = [\<lparr>fstart = 0, fend = 8, fbuf = test_frag IP_MF [1, 2, 3, 4, 5, 6, 7, 8]\<rparr>],
    datagram_len = 0, lastfrag = False, timer = IP_REASS_MAXAGE\<rparr>], ip_reass_pbufcount = 1\<rparr> = Some (te, reass_init)"
  by (rule reass_expires [OF r_into_rtranclp, OF test_step])

theorem reass_accepts_hole_witness:
  "\<exists>q s. reass_feed lwip_standard_chksum (\<lambda>_. 0) [test_frag IP_MF (replicate 8 1), test_frag 3 (replicate 8 3), test_frag (2 OR IP_MF) (replicate 8 2)] reass_init =
      Some ([None, None, Some q], s) \<and> bytes q = test_head 52 0 @ replicate 8 1 @ replicate 8 2 @ replicate 8 3"
  using reass_accepts_hole [OF test_frag_rx [of "replicate 8 1" IP_MF] test_frag_rx [of "replicate 8 3" 3] test_frag_rx [of "replicate 8 2" "2 OR IP_MF"], of "\<lambda>_. 0"]
  by (simp add: test_frag_clen test_head_def IP_REASS_MAX_PBUFS_def)

theorem reass_length_assertion_witness:
  "reass_feed lwip_standard_chksum (\<lambda>_. 0) [test_frag 1 (replicate 8 1), test_frag 1 (replicate 16 2), test_frag IP_MF (replicate 8 3)] reass_init = None"
  using reass_length_assertion [OF test_frag_rx [of "replicate 8 1" 1] test_frag_rx [of "replicate 16 2" 1] test_frag_rx [of "replicate 8 3" IP_MF], of "\<lambda>_. 0"]
  by (simp add: test_frag_clen IP_REASS_MAX_PBUFS_def)

end
