(* ===== verification/Etharp.thy ===== *)
theory Etharp
  imports Ip4_Frag_Props
begin

text \<open>
  Ethernet framing, \<^verbatim>\<open>lwip/src/netif/ethernet.c\<close>, and address resolution, \<^verbatim>\<open>lwip/src/core/ipv4/etharp.c\<close>, as built: one packet is queued
  per entry, no static entries, no VLAN tags, entries do not depend on the interface, and freed entries are cleared (\<^verbatim>\<open>LWIP_DEBUG\<close>).
  Interfaces are numbers. Frames that are handed to the driver, requests to the heap and the calls of \<^verbatim>\<open>dhcp_arp_reply\<close> are
  recorded in the state; freeing a packet is not. A result \<open>None\<close> is a failed assertion or a read outside the first buffer,
  where the fields of the ARP header up to \<^verbatim>\<open>protolen\<close> count as read together.
\<close>

section \<open>Data\<close>

datatype etharp_state = ETHARP_STATE_EMPTY | ETHARP_STATE_PENDING | ETHARP_STATE_STABLE
  | ETHARP_STATE_STABLE_REREQUESTING_1 | ETHARP_STATE_STABLE_REREQUESTING_2

text \<open>\<^verbatim>\<open>state >= ETHARP_STATE_STABLE\<close>\<close>

fun arp_stable :: "etharp_state \<Rightarrow> bool" where
  "arp_stable ETHARP_STATE_EMPTY \<longleftrightarrow> False"
| "arp_stable ETHARP_STATE_PENDING \<longleftrightarrow> False"
| "arp_stable _ \<longleftrightarrow> True"

record etharp_entry =
  queued :: "chain option"
  ipaddr :: u32
  on_netif :: "nat option"
  ethaddr :: "u8 list"
  ctime :: u16
  arp_st :: etharp_state

datatype etharp_flag = ETHARP_FLAG_TRY_HARD | ETHARP_FLAG_FIND_ONLY

record arp_state =
  arp_table :: "etharp_entry list"
  etharp_cached_entry :: nat
  frames :: "chain list"
  allocs :: nat
  dhcp_calls :: "(nat \<times> u32) list"

text \<open>The driver, the heap at every request, and the interfaces with their hardware addresses and \<^verbatim>\<open>NETIF_FLAG_ETHARP\<close>.\<close>

record link_env =
  linkoutput :: "chain \<Rightarrow> err"
  heap_at :: "nat \<Rightarrow> u16 \<Rightarrow> u8 list option"
  netif_of :: "nat \<Rightarrow> netif4"
  hwaddr :: "nat \<Rightarrow> u8 list"
  flag_etharp :: "nat \<Rightarrow> bool"

definition ARP_TABLE_SIZE :: nat where "ARP_TABLE_SIZE = 10"
definition ARP_MAXAGE :: u16 where "ARP_MAXAGE = 300"
definition ARP_MAXPENDING :: u16 where "ARP_MAXPENDING = 5"
definition ARP_AGE_REREQUEST_USED_UNICAST :: u16 where "ARP_AGE_REREQUEST_USED_UNICAST = ARP_MAXAGE - 30"
definition ARP_AGE_REREQUEST_USED_BROADCAST :: u16 where "ARP_AGE_REREQUEST_USED_BROADCAST = ARP_MAXAGE - 15"
definition ETH_HWADDR_LEN :: nat where "ETH_HWADDR_LEN = 6"
definition SIZEOF_ETH_HDR :: nat where "SIZEOF_ETH_HDR = 14"
definition SIZEOF_ETHARP_HDR :: nat where "SIZEOF_ETHARP_HDR = 28"
definition ETHTYPE_IP :: u16 where "ETHTYPE_IP = 0x0800"
definition ETHTYPE_ARP :: u16 where "ETHTYPE_ARP = 0x0806"
definition HWTYPE_ETHERNET :: u16 where "HWTYPE_ETHERNET = 1"
definition ARP_REQUEST :: u16 where "ARP_REQUEST = 1"
definition ARP_REPLY :: u16 where "ARP_REPLY = 2"
definition PBUF_FLAG_LLBCAST :: u8 where "PBUF_FLAG_LLBCAST = 0x08"
definition PBUF_FLAG_LLMCAST :: u8 where "PBUF_FLAG_LLMCAST = 0x10"
definition ethbroadcast :: "u8 list" where "ethbroadcast = [0xff, 0xff, 0xff, 0xff, 0xff, 0xff]"
definition ethzero :: "u8 list" where "ethzero = [0, 0, 0, 0, 0, 0]"

definition eth_hdr :: "u8 list \<Rightarrow> u8 list \<Rightarrow> u16 \<Rightarrow> u8 list" where
  "eth_hdr dest src type = dest @ src @ mem16 type"

definition etharp_hdr :: "u16 \<Rightarrow> u8 list \<Rightarrow> u32 \<Rightarrow> u8 list \<Rightarrow> u32 \<Rightarrow> u8 list" where
  "etharp_hdr opcode shwaddr sipaddr dhwaddr dipaddr =
    mem16 (lwip_htons HWTYPE_ETHERNET) @ mem16 (lwip_htons ETHTYPE_IP) @ [word_of_nat ETH_HWADDR_LEN, 4] @ mem16 (lwip_htons opcode) @
    shwaddr @ mem32 sipaddr @ dhwaddr @ mem32 dipaddr"

section \<open>Frames\<close>

definition ethernet_output :: "link_env \<Rightarrow> nat \<Rightarrow> chain \<Rightarrow> u8 list \<Rightarrow> u8 list \<Rightarrow> u16 \<Rightarrow> arp_state \<Rightarrow> (err \<times> arp_state) option" where
  "ethernet_output E netif p src dst eth_type s =
    (case p of [] \<Rightarrow> None
     | ph # ps \<Rightarrow>
       (case pbuf_header ph (int SIZEOF_ETH_HDR) of None \<Rightarrow> None
        | Some (r, ph) \<Rightarrow>
            if r \<noteq> 0 then Some (ERR_BUF, s)
            else if length (hwaddr E netif) \<noteq> ETH_HWADDR_LEN then None
            else
              let frame = put_hdr (eth_hdr dst src (lwip_htons eth_type)) ph # ps
              in Some (linkoutput E frame, s\<lparr>frames := frames s @ [frame]\<rparr>)))"

definition etharp_raw :: "link_env \<Rightarrow> nat \<Rightarrow> u8 list \<Rightarrow> u8 list \<Rightarrow> u8 list \<Rightarrow> u32 \<Rightarrow> u8 list \<Rightarrow> u32 \<Rightarrow> u16 \<Rightarrow> arp_state \<Rightarrow> (err \<times> arp_state) option" where
  "etharp_raw E netif ethsrc_addr ethdst_addr hwsrc_addr ipsrc_addr hwdst_addr ipdst_addr opcode s =
    (let s' = s\<lparr>allocs := Suc (allocs s)\<rparr> in
     case alloc_ram (heap_at E (allocs s)) PBUF_LINK (word_of_nat SIZEOF_ETHARP_HDR) of
       Some (ph # ps) \<Rightarrow>
         if unat (len ph) < SIZEOF_ETHARP_HDR \<or> length (hwaddr E netif) \<noteq> ETH_HWADDR_LEN then None
         else map_option (\<lambda>(_, s). (ERR_OK, s))
           (ethernet_output E netif (put_hdr (etharp_hdr opcode hwsrc_addr ipsrc_addr hwdst_addr ipdst_addr) ph # ps) ethsrc_addr ethdst_addr ETHTYPE_ARP s')
     | _ \<Rightarrow> Some (ERR_MEM, s'))"

definition etharp_request_dst :: "link_env \<Rightarrow> nat \<Rightarrow> u32 \<Rightarrow> u8 list \<Rightarrow> arp_state \<Rightarrow> (err \<times> arp_state) option" where
  "etharp_request_dst E netif ip hw_dst_addr s =
    etharp_raw E netif (hwaddr E netif) hw_dst_addr (hwaddr E netif) (ip_addr4 (netif_of E netif)) ethzero ip ARP_REQUEST s"

definition etharp_request :: "link_env \<Rightarrow> nat \<Rightarrow> u32 \<Rightarrow> arp_state \<Rightarrow> (err \<times> arp_state) option" where
  "etharp_request E netif ip s = etharp_request_dst E netif ip ethbroadcast s"

section \<open>The table\<close>

definition empty_entry :: etharp_entry where
  "empty_entry = \<lparr>queued = None, ipaddr = 0, on_netif = None, ethaddr = ethzero, ctime = 0, arp_st = ETHARP_STATE_EMPTY\<rparr>"

definition etharp_free_entry :: "nat \<Rightarrow> arp_state \<Rightarrow> arp_state" where
  "etharp_free_entry i s = s\<lparr>arp_table := (arp_table s)[i := empty_entry]\<rparr>"

text \<open>What the sweep through the table remembers: an entry and its age.\<close>

record arp_cand =
  cand_empty :: "nat option"
  old_pending :: "nat option"
  age_pending :: u16
  old_stable :: "nat option"
  age_stable :: u16
  old_queue :: "nat option"
  age_queue :: u16

definition cand0 :: arp_cand where
  "cand0 = \<lparr>cand_empty = None, old_pending = None, age_pending = 0, old_stable = None, age_stable = 0, old_queue = None, age_queue = 0\<rparr>"

definition cand_add :: "nat \<Rightarrow> etharp_entry \<Rightarrow> arp_cand \<Rightarrow> arp_cand" where
  "cand_add i e c =
    (if arp_st e = ETHARP_STATE_PENDING then
       (if queued e \<noteq> None then (if ctime e \<ge> age_queue c then c\<lparr>old_queue := Some i, age_queue := ctime e\<rparr> else c)
        else (if ctime e \<ge> age_pending c then c\<lparr>old_pending := Some i, age_pending := ctime e\<rparr> else c))
     else (if ctime e \<ge> age_stable c then c\<lparr>old_stable := Some i, age_stable := ctime e\<rparr> else c))"

fun find_loop :: "u32 option \<Rightarrow> etharp_entry list \<Rightarrow> nat \<Rightarrow> arp_cand \<Rightarrow> nat + arp_cand" where
  "find_loop ip [] i c = Inr c"
| "find_loop ip (e # es) i c =
    (if arp_st e = ETHARP_STATE_EMPTY then find_loop ip es (Suc i) (if cand_empty c = None then c\<lparr>cand_empty := Some i\<rparr> else c)
     else if ip = Some (ipaddr e) then Inl i
     else find_loop ip es (Suc i) (cand_add i e c))"

text \<open>The entry to use for a new address: an empty one, else one to recycle, the oldest of the least important kind.\<close>

definition recycle :: "arp_cand \<Rightarrow> nat option" where
  "recycle c = (case old_stable c of Some i \<Rightarrow> Some i | None \<Rightarrow> (case old_pending c of Some i \<Rightarrow> Some i | None \<Rightarrow> old_queue c))"

definition new_entry :: "u32 option \<Rightarrow> nat \<Rightarrow> arp_state \<Rightarrow> arp_state" where
  "new_entry ip i s = s\<lparr>arp_table := (arp_table s)[i := (case ip of None \<Rightarrow> arp_table s ! i | Some a \<Rightarrow> (arp_table s ! i)\<lparr>ipaddr := a\<rparr>)\<lparr>ctime := 0\<rparr>]\<rparr>"

definition etharp_find_entry :: "u32 option \<Rightarrow> etharp_flag \<Rightarrow> arp_state \<Rightarrow> (nat option \<times> arp_state) option" where
  "etharp_find_entry ip flag s =
    (case find_loop ip (arp_table s) 0 cand0 of
       Inl i \<Rightarrow> Some (Some i, s)
     | Inr c \<Rightarrow>
         if flag = ETHARP_FLAG_FIND_ONLY then Some (None, s)
         else (case cand_empty c of
             Some i \<Rightarrow> Some (Some i, new_entry ip i s)
           | None \<Rightarrow> (case recycle c of
               None \<Rightarrow> Some (None, s)
             | Some i \<Rightarrow> if old_stable c = Some i \<and> queued (arp_table s ! i) \<noteq> None then None
                 else Some (Some i, new_entry ip i (etharp_free_entry i s)))))"

definition etharp_cleanup_netif :: "nat \<Rightarrow> arp_state \<Rightarrow> arp_state" where
  "etharp_cleanup_netif netif s =
    s\<lparr>arp_table := map (\<lambda>e. if arp_st e \<noteq> ETHARP_STATE_EMPTY \<and> on_netif e = Some netif then empty_entry else e) (arp_table s)\<rparr>"

definition etharp_find_addr :: "u32 \<Rightarrow> arp_state \<Rightarrow> ((nat \<times> u8 list) option \<times> arp_state) option" where
  "etharp_find_addr ip s =
    (case etharp_find_entry (Some ip) ETHARP_FLAG_FIND_ONLY s of None \<Rightarrow> None
     | Some (Some i, s) \<Rightarrow> Some (if arp_stable (arp_st (arp_table s ! i)) then Some (i, ethaddr (arp_table s ! i)) else None, s)
     | Some (None, s) \<Rightarrow> Some (None, s))"

definition etharp_get_entry :: "nat \<Rightarrow> arp_state \<Rightarrow> (u32 \<times> nat option \<times> u8 list) option" where
  "etharp_get_entry i s =
    (if i < ARP_TABLE_SIZE \<and> arp_stable (arp_st (arp_table s ! i))
     then Some (ipaddr (arp_table s ! i), on_netif (arp_table s ! i), ethaddr (arp_table s ! i)) else None)"

section \<open>Updates\<close>

definition etharp_update_arp_entry :: "link_env \<Rightarrow> nat \<Rightarrow> u32 \<Rightarrow> u8 list \<Rightarrow> etharp_flag \<Rightarrow> arp_state \<Rightarrow> (err \<times> arp_state) option" where
  "etharp_update_arp_entry E netif ip addr flag s =
    (if length (hwaddr E netif) \<noteq> ETH_HWADDR_LEN then None
     else if ip = IPADDR_ANY \<or> ip4_addr_isbroadcast_u32 ip (netif_of E netif) \<or> ip4_addr_ismulticast ip then Some (ERR_ARG, s)
     else (case etharp_find_entry (Some ip) flag s of
         None \<Rightarrow> None
       | Some (None, s) \<Rightarrow> Some (ERR_MEM, s)
       | Some (Some i, s) \<Rightarrow>
           let
             e = arp_table s ! i;
             s = s\<lparr>arp_table := (arp_table s)[i := e\<lparr>arp_st := ETHARP_STATE_STABLE, on_netif := Some netif, ethaddr := addr, ctime := 0, queued := None\<rparr>]\<rparr>
           in (case queued e of None \<Rightarrow> Some (ERR_OK, s)
               | Some p \<Rightarrow> map_option (\<lambda>(_, s). (ERR_OK, s)) (ethernet_output E netif p (hwaddr E netif) addr ETHTYPE_IP s))))"

definition etharp_input :: "link_env \<Rightarrow> nat \<Rightarrow> chain \<Rightarrow> arp_state \<Rightarrow> arp_state option" where
  "etharp_input E netif p s =
    (case p of [] \<Rightarrow> None
     | ph # _ \<Rightarrow>
       let hdr = payload ph in
       if length hdr < 6 then None
       else if get16 hdr 0 \<noteq> lwip_htons HWTYPE_ETHERNET \<or> hdr ! 4 \<noteq> word_of_nat ETH_HWADDR_LEN \<or> hdr ! 5 \<noteq> 4 \<or> get16 hdr 2 \<noteq> lwip_htons ETHTYPE_IP then Some s
       else if length hdr < SIZEOF_ETHARP_HDR then None
       else
         let
           opcode = get16 hdr 6; shwaddr = take 6 (drop 8 hdr); sipaddr = get_addr hdr 14; dipaddr = get_addr hdr 24;
           our = ip_addr4 (netif_of E netif);
           for_us = (our \<noteq> IPADDR_ANY \<and> dipaddr = our)
         in (case etharp_update_arp_entry E netif sipaddr shwaddr (if for_us then ETHARP_FLAG_TRY_HARD else ETHARP_FLAG_FIND_ONLY) s of
               None \<Rightarrow> None
             | Some (_, s) \<Rightarrow>
                 if opcode = lwip_htons ARP_REQUEST then
                   (if for_us then map_option snd (etharp_raw E netif (hwaddr E netif) shwaddr (hwaddr E netif) our shwaddr sipaddr ARP_REPLY s)
                    else Some s)
                 else if opcode = lwip_htons ARP_REPLY then Some (s\<lparr>dhcp_calls := dhcp_calls s @ [(netif, sipaddr)]\<rparr>)
                 else Some s))"

section \<open>Output\<close>

definition rerequesting :: "nat \<Rightarrow> err \<times> arp_state \<Rightarrow> arp_state" where
  "rerequesting i r = (case r of (err, s) \<Rightarrow> if err = ERR_OK
    then s\<lparr>arp_table := (arp_table s)[i := (arp_table s ! i)\<lparr>arp_st := ETHARP_STATE_STABLE_REREQUESTING_1\<rparr>]\<rparr> else s)"

definition etharp_output_to_arp_index :: "link_env \<Rightarrow> nat \<Rightarrow> chain \<Rightarrow> nat \<Rightarrow> arp_state \<Rightarrow> (err \<times> arp_state) option" where
  "etharp_output_to_arp_index E netif q arp_idx s =
    (let e = arp_table s ! arp_idx
     in if \<not> arp_stable (arp_st e) then None
        else
          (case (if arp_st e = ETHARP_STATE_STABLE then
                   (if ctime e \<ge> ARP_AGE_REREQUEST_USED_BROADCAST then map_option (rerequesting arp_idx) (etharp_request E netif (ipaddr e) s)
                    else if ctime e \<ge> ARP_AGE_REREQUEST_USED_UNICAST then map_option (rerequesting arp_idx) (etharp_request_dst E netif (ipaddr e) (ethaddr e) s)
                    else Some s)
                 else Some s) of
             None \<Rightarrow> None
           | Some s \<Rightarrow> ethernet_output E netif q (hwaddr E netif) (ethaddr (arp_table s ! arp_idx)) ETHTYPE_IP s))"

text \<open>The packet to keep on a pending entry: the packet itself when all of it is in ROM, else a copy of it. \<open>Some None\<close> stands for no memory.\<close>

fun rom_scan :: "chain \<Rightarrow> chain option" where
  "rom_scan [] = Some []"
| "rom_scan (p # ps) = (if len p = tot_len p \<and> ps \<noteq> [] then None else if ptype p \<noteq> PBUF_ROM then Some (p # ps) else rom_scan ps)"

definition etharp_take :: "(u16 \<Rightarrow> u8 list option) \<Rightarrow> chain \<Rightarrow> chain option option" where
  "etharp_take mem_malloc q =
    (case rom_scan q of
       None \<Rightarrow> None
     | Some [] \<Rightarrow> Some (Some (pbuf_ref q))
     | Some (p # _) \<Rightarrow>
         (case alloc_ram mem_malloc PBUF_LINK (tot_len p) of
            None \<Rightarrow> Some None
          | Some p \<Rightarrow> (case pbuf_copy p q of (err, p) \<Rightarrow> Some (if err \<noteq> ERR_OK then None else Some p))))"

definition etharp_query :: "link_env \<Rightarrow> nat \<Rightarrow> u32 \<Rightarrow> chain option \<Rightarrow> arp_state \<Rightarrow> (err \<times> arp_state) option" where
  "etharp_query E netif ip q s =
    (if ip4_addr_isbroadcast_u32 ip (netif_of E netif) \<or> ip4_addr_ismulticast ip \<or> ip = IPADDR_ANY then Some (ERR_ARG, s)
     else (case etharp_find_entry (Some ip) ETHARP_FLAG_TRY_HARD s of
         None \<Rightarrow> None
       | Some (None, s) \<Rightarrow> Some (ERR_MEM, s)
       | Some (Some i, s) \<Rightarrow>
           let
             is_new_entry = (arp_st (arp_table s ! i) = ETHARP_STATE_EMPTY);
             s = (if is_new_entry then s\<lparr>arp_table := (arp_table s)[i := (arp_table s ! i)\<lparr>arp_st := ETHARP_STATE_PENDING, on_netif := Some netif\<rparr>]\<rparr> else s)
           in (case (if is_new_entry \<or> q = None then etharp_request E netif ip s else Some (ERR_MEM, s)) of
                 None \<Rightarrow> None
               | Some (result, s) \<Rightarrow>
                   (case q of None \<Rightarrow> Some (result, s)
                    | Some q \<Rightarrow>
                        let e = arp_table s ! i in
                        if arp_stable (arp_st e) then
                          ethernet_output E netif q (hwaddr E netif) (ethaddr e) ETHTYPE_IP (s\<lparr>etharp_cached_entry := i\<rparr>)
                        else
                          let s' = (if rom_scan q = Some [] then s else s\<lparr>allocs := Suc (allocs s)\<rparr>) in
                          (case etharp_take (heap_at E (allocs s)) q of
                             None \<Rightarrow> None
                           | Some None \<Rightarrow> Some (ERR_MEM, s')
                           | Some (Some p) \<Rightarrow> Some (ERR_OK, s'\<lparr>arp_table := (arp_table s')[i := e\<lparr>queued := Some p\<rparr>]\<rparr>))))))"

fun stable_loop :: "u32 \<Rightarrow> etharp_entry list \<Rightarrow> nat \<Rightarrow> nat option" where
  "stable_loop ip [] i = None"
| "stable_loop ip (e # es) i = (if arp_stable (arp_st e) \<and> ip = ipaddr e then Some i else stable_loop ip es (Suc i))"

definition etharp_output :: "link_env \<Rightarrow> nat \<Rightarrow> chain \<Rightarrow> u32 \<Rightarrow> arp_state \<Rightarrow> (err \<times> arp_state) option" where
  "etharp_output E netif q ip s =
    (let n = netif_of E netif in
     if ip4_addr_isbroadcast_u32 ip n then ethernet_output E netif q (hwaddr E netif) ethbroadcast ETHTYPE_IP s
     else if ip4_addr_ismulticast ip then
       ethernet_output E netif q (hwaddr E netif) [0x01, 0x00, 0x5e, mem32 ip ! 1 AND 0x7f, mem32 ip ! 2, mem32 ip ! 3] ETHTYPE_IP s
     else
       (case (if \<not> ip4_addr_netcmp ip (ip_addr4 n) (netmask4 n) \<and> \<not> ip4_addr_islinklocal ip
              then (if gw4 n \<noteq> IPADDR_ANY then Some (gw4 n) else None) else Some ip) of
          None \<Rightarrow> Some (ERR_RTE, s)
        | Some dst_addr \<Rightarrow>
            let hint = arp_table s ! etharp_cached_entry s in
            if arp_stable (arp_st hint) \<and> dst_addr = ipaddr hint then etharp_output_to_arp_index E netif q (etharp_cached_entry s) s
            else (case stable_loop dst_addr (arp_table s) 0 of
                Some i \<Rightarrow> etharp_output_to_arp_index E netif q i (s\<lparr>etharp_cached_entry := i\<rparr>)
              | None \<Rightarrow> etharp_query E netif dst_addr (Some q) s)))"

section \<open>The timer\<close>

definition etharp_tmr_entry :: "link_env \<Rightarrow> nat \<Rightarrow> arp_state \<Rightarrow> arp_state option" where
  "etharp_tmr_entry E i s =
    (let e = arp_table s ! i; e = e\<lparr>ctime := ctime e + 1\<rparr>; set = (\<lambda>e. s\<lparr>arp_table := (arp_table s)[i := e]\<rparr>) in
     if arp_st e = ETHARP_STATE_EMPTY then Some s
     else if ctime e \<ge> ARP_MAXAGE \<or> arp_st e = ETHARP_STATE_PENDING \<and> ctime e \<ge> ARP_MAXPENDING then Some (etharp_free_entry i s)
     else if arp_st e = ETHARP_STATE_STABLE_REREQUESTING_1 then Some (set (e\<lparr>arp_st := ETHARP_STATE_STABLE_REREQUESTING_2\<rparr>))
     else if arp_st e = ETHARP_STATE_STABLE_REREQUESTING_2 then Some (set (e\<lparr>arp_st := ETHARP_STATE_STABLE\<rparr>))
     else if arp_st e = ETHARP_STATE_PENDING then
       (case on_netif e of None \<Rightarrow> None | Some n \<Rightarrow> map_option snd (etharp_request E n (ipaddr e) (set e)))
     else Some (set e))"

fun etharp_tmr_loop :: "link_env \<Rightarrow> nat list \<Rightarrow> arp_state \<Rightarrow> arp_state option" where
  "etharp_tmr_loop E [] s = Some s"
| "etharp_tmr_loop E (i # is) s = Option.bind (etharp_tmr_entry E i s) (etharp_tmr_loop E is)"

definition etharp_tmr :: "link_env \<Rightarrow> arp_state \<Rightarrow> arp_state option" where
  "etharp_tmr E = etharp_tmr_loop E [0..<ARP_TABLE_SIZE]"

section \<open>Input\<close>

text \<open>What becomes of a frame: dropped, handed to IP, or handled by ARP.\<close>

datatype eth_event = Eth_Drop | Eth_Ip chain | Eth_Arp

definition mark_flags :: "pbuf \<Rightarrow> pbuf" where
  "mark_flags p =
    (let d = take 6 (payload p) in
     if d ! 0 AND 1 = 0 then p
     else if d ! 0 = 0x01 then (if d ! 1 = 0x00 \<and> d ! 2 = 0x5e then p\<lparr>pflags := pflags p OR PBUF_FLAG_LLMCAST\<rparr> else p)
     else if d = ethbroadcast then p\<lparr>pflags := pflags p OR PBUF_FLAG_LLBCAST\<rparr>
     else p)"

definition ethernet_input :: "link_env \<Rightarrow> nat \<Rightarrow> chain \<Rightarrow> arp_state \<Rightarrow> (eth_event \<times> arp_state) option" where
  "ethernet_input E netif p s =
    (case p of [] \<Rightarrow> None
     | ph # ps \<Rightarrow>
       if unat (len ph) \<le> SIZEOF_ETH_HDR then Some (Eth_Drop, s)
       else
         let type = get16 (payload ph) 12; ph = mark_flags ph in
         if type \<noteq> lwip_htons ETHTYPE_IP \<and> type \<noteq> lwip_htons ETHTYPE_ARP then Some (Eth_Drop, s)
         else if \<not> flag_etharp E netif then Some (Eth_Drop, s)
         else (case pbuf_header ph (- int SIZEOF_ETH_HDR) of
             None \<Rightarrow> None
           | Some (r, ph) \<Rightarrow>
               if r \<noteq> 0 then Some (Eth_Drop, s)
               else if type = lwip_htons ETHTYPE_IP then Some (Eth_Ip (ph # ps), s)
               else map_option (Pair Eth_Arp) (etharp_input E netif (ph # ps) s)))"

end
