(* ===== verification/Etharp_Inv.thy ===== *)
theory Etharp_Inv
  imports Etharp
begin

text \<open>
  The invariant of the ARP table and what the search through it returns; that no operation leaves the invariant, in any
  order of packets, ticks and calls.
\<close>

section \<open>The invariant\<close>

definition entry_ok :: "etharp_entry \<Rightarrow> bool" where
  "entry_ok e \<longleftrightarrow>
    (arp_st e \<noteq> ETHARP_STATE_PENDING \<longrightarrow> queued e = None) \<and>
    (arp_st e = ETHARP_STATE_PENDING \<longrightarrow> on_netif e \<noteq> None \<and> ctime e < ARP_MAXPENDING) \<and>
    (arp_stable (arp_st e) \<longrightarrow> ctime e < ARP_MAXAGE \<and> length (ethaddr e) = ETH_HWADDR_LEN) \<and>
    (arp_st e \<noteq> ETHARP_STATE_EMPTY \<longrightarrow> ipaddr e \<noteq> IPADDR_ANY) \<and> queued e \<noteq> Some []"

definition used :: "etharp_entry list \<Rightarrow> u32 list" where
  "used t = map ipaddr (filter (\<lambda>e. arp_st e \<noteq> ETHARP_STATE_EMPTY) t)"

definition arp_ok :: "arp_state \<Rightarrow> bool" where
  "arp_ok s \<longleftrightarrow> length (arp_table s) = ARP_TABLE_SIZE \<and> etharp_cached_entry s < ARP_TABLE_SIZE \<and>
    list_all entry_ok (arp_table s) \<and> distinct (used (arp_table s))"

definition env_ok :: "link_env \<Rightarrow> bool" where
  "env_ok E \<longleftrightarrow> (\<forall>n. length (hwaddr E n) = ETH_HWADDR_LEN) \<and> (\<forall>k. heap_ok (heap_at E k))"

lemma stable_cases: "arp_stable st \<longleftrightarrow> st \<noteq> ETHARP_STATE_EMPTY \<and> st \<noteq> ETHARP_STATE_PENDING"
  by (cases st) auto

lemma used_append [simp]: "used (xs @ ys) = used xs @ used ys"
  by (simp add: used_def)

lemma used_Cons [simp]: "used (e # es) = (if arp_st e \<noteq> ETHARP_STATE_EMPTY then [ipaddr e] else []) @ used es"
  by (simp add: used_def)

lemma used_Nil [simp]: "used [] = []"
  by (simp add: used_def)

lemma used_nth: "i < length t \<Longrightarrow> arp_st (t ! i) \<noteq> ETHARP_STATE_EMPTY \<Longrightarrow> ipaddr (t ! i) \<in> set (used t)"
  by (auto simp: used_def)

text \<open>The table around an entry.\<close>

lemma table_split:
  assumes "i < length t"
  obtains pre post where "t = pre @ t ! i # post" "length pre = i" "\<And>e. t[i := e] = pre @ e # post"
  using assms that [of "take i t" "drop (Suc i) t"] by (simp add: id_take_nth_drop [symmetric] upd_conv_take_nth_drop)

lemma arp_ok_entry: "arp_ok s \<Longrightarrow> i < ARP_TABLE_SIZE \<Longrightarrow> entry_ok (arp_table s ! i)"
  by (auto simp: arp_ok_def list_all_length)

lemma arp_ok_update:
  assumes "arp_ok s" "i < ARP_TABLE_SIZE" "entry_ok e" "arp_st e \<noteq> ETHARP_STATE_EMPTY \<Longrightarrow> ipaddr e \<notin> set (used ((arp_table s)[i := empty_entry]))"
  shows "arp_ok (s\<lparr>arp_table := (arp_table s)[i := e]\<rparr>)"
proof -
  obtain pre post where t: "arp_table s = pre @ arp_table s ! i # post" "length pre = i" "\<And>e. (arp_table s)[i := e] = pre @ e # post"
    using table_split [of i "arp_table s"] assms(1,2) unfolding arp_ok_def by metis
  have "list_all entry_ok (pre @ arp_table s ! i # post)" "distinct (used (pre @ arp_table s ! i # post))" "length (pre @ arp_table s ! i # post) = ARP_TABLE_SIZE"
    using assms(1) t(1) by (simp_all add: arp_ok_def)
  moreover have "arp_st empty_entry = ETHARP_STATE_EMPTY" by (simp add: empty_entry_def)
  ultimately show ?thesis using assms(1,3,4) unfolding t(3) by (auto simp: arp_ok_def split: if_splits)
qed

text \<open>Changing an entry without its address.\<close>

lemma arp_ok_same:
  assumes "arp_ok s" "i < ARP_TABLE_SIZE" "entry_ok e" "ipaddr e = ipaddr (arp_table s ! i)" "arp_st (arp_table s ! i) \<noteq> ETHARP_STATE_EMPTY"
  shows "arp_ok (s\<lparr>arp_table := (arp_table s)[i := e]\<rparr>)"
proof (rule arp_ok_update [OF assms(1-3)])
  obtain pre post where t: "arp_table s = pre @ arp_table s ! i # post" "length pre = i" "\<And>e. (arp_table s)[i := e] = pre @ e # post"
    using table_split [of i "arp_table s"] assms(1,2) unfolding arp_ok_def by metis
  have "distinct (used (pre @ arp_table s ! i # post))" using assms(1) t(1) by (simp add: arp_ok_def)
  then show "ipaddr e \<notin> set (used ((arp_table s)[i := empty_entry]))" unfolding t(3) assms(4) using assms(5) by (simp add: empty_entry_def)
qed

lemma empty_entry_ok: "entry_ok empty_entry"
  by (simp add: entry_ok_def empty_entry_def)

lemma free_entry_ok: "arp_ok s \<Longrightarrow> i < ARP_TABLE_SIZE \<Longrightarrow> arp_ok (etharp_free_entry i s)"
  unfolding etharp_free_entry_def by (rule arp_ok_update) (simp_all add: empty_entry_ok, simp add: empty_entry_def)

section \<open>The search\<close>

lemma find_loop_match: "find_loop ip es i c = Inl k \<Longrightarrow> i \<le> k \<and> k < i + length es \<and> arp_st (es ! (k - i)) \<noteq> ETHARP_STATE_EMPTY \<and> ip = Some (ipaddr (es ! (k - i)))"
proof (induction es arbitrary: i c)
  case (Cons e es)
  have nth: "Suc i \<le> k \<Longrightarrow> (e # es) ! (k - i) = es ! (k - Suc i)" by (simp add: Suc_diff_Suc [symmetric] Suc_le_eq)
  show ?case
  proof (cases "arp_st e \<noteq> ETHARP_STATE_EMPTY \<and> ip = Some (ipaddr e)")
    case True
    then show ?thesis using Cons.prems by auto
  next
    case False
    then obtain c' where "find_loop ip es (Suc i) c' = Inl k" using Cons.prems by (auto split: if_splits)
    from Cons.IH [OF this] show ?thesis using nth by simp
  qed
qed simp

lemma find_loop_none: "find_loop (Some a) es i c = Inr c' \<Longrightarrow> a \<notin> set (used es)"
  by (induction es arbitrary: i c) (auto split: if_splits)

text \<open>What a candidate may be: an entry of its kind in the part of the table seen so far.\<close>

definition kind_ok :: "(etharp_entry \<Rightarrow> bool) \<Rightarrow> etharp_entry list \<Rightarrow> nat option \<Rightarrow> u16 \<Rightarrow> bool" where
  "kind_ok P t old age \<longleftrightarrow> (case old of None \<Rightarrow> age = 0 | Some i \<Rightarrow> i < length t \<and> P (t ! i))"

lemma kind_ok_keep: "kind_ok P t old age \<Longrightarrow> kind_ok P (t @ [e]) old age"
  by (auto simp: kind_ok_def nth_append split: option.splits)

lemma kind_ok_take: "P e \<Longrightarrow> kind_ok P (t @ [e]) (Some (length t)) age"
  by (simp add: kind_ok_def)

lemma kind_ok_Some: "kind_ok P t (Some i) age \<Longrightarrow> i < length t \<and> P (t ! i)"
  by (simp add: kind_ok_def)

lemma kind_ok_older: "kind_ok P t old age \<Longrightarrow> old = None \<Longrightarrow> age \<le> x"
  by (simp add: kind_ok_def)

definition cand_ok :: "etharp_entry list \<Rightarrow> arp_cand \<Rightarrow> bool" where
  "cand_ok t c \<longleftrightarrow> kind_ok (\<lambda>e. arp_st e = ETHARP_STATE_EMPTY) t (cand_empty c) 0 \<and>
    kind_ok (\<lambda>e. arp_stable (arp_st e)) t (old_stable c) (age_stable c) \<and>
    kind_ok (\<lambda>e. arp_st e = ETHARP_STATE_PENDING) t (old_pending c) (age_pending c) \<and>
    kind_ok (\<lambda>e. arp_st e = ETHARP_STATE_PENDING) t (old_queue c) (age_queue c) \<and>
    (cand_empty c = None \<longrightarrow> (\<forall>e\<in>set t. arp_st e \<noteq> ETHARP_STATE_EMPTY) \<and> (t \<noteq> [] \<longrightarrow> recycle c \<noteq> None))"

lemma cand_ok_empty:
  assumes "cand_ok t c" "arp_st e = ETHARP_STATE_EMPTY"
  shows "cand_ok (t @ [e]) (if cand_empty c = None then c\<lparr>cand_empty := Some (length t)\<rparr> else c)"
  using assms by (auto simp: cand_ok_def intro: kind_ok_keep kind_ok_take)

lemma cand_ok_add:
  assumes "cand_ok t c" "arp_st e \<noteq> ETHARP_STATE_EMPTY"
  shows "cand_ok (t @ [e]) (cand_add (length t) e c)"
proof -
  note k = assms(1) [unfolded cand_ok_def]
  have s: "arp_st e \<noteq> ETHARP_STATE_PENDING \<Longrightarrow> arp_stable (arp_st e)" using assms(2) by (simp add: stable_cases)
  have "kind_ok (\<lambda>e. arp_st e = ETHARP_STATE_EMPTY) (t @ [e]) (cand_empty (cand_add (length t) e c)) 0"
    using k by (simp add: cand_add_def kind_ok_keep)
  moreover have "kind_ok (\<lambda>e. arp_stable (arp_st e)) (t @ [e]) (old_stable (cand_add (length t) e c)) (age_stable (cand_add (length t) e c))"
    using k s by (simp add: cand_add_def kind_ok_keep kind_ok_take)
  moreover have "kind_ok (\<lambda>e. arp_st e = ETHARP_STATE_PENDING) (t @ [e]) (old_pending (cand_add (length t) e c)) (age_pending (cand_add (length t) e c))"
    using k by (simp add: cand_add_def kind_ok_keep kind_ok_take)
  moreover have "kind_ok (\<lambda>e. arp_st e = ETHARP_STATE_PENDING) (t @ [e]) (old_queue (cand_add (length t) e c)) (age_queue (cand_add (length t) e c))"
    using k by (simp add: cand_add_def kind_ok_keep kind_ok_take)
  moreover have "recycle (cand_add (length t) e c) \<noteq> None"
    using k kind_ok_older [of _ t "old_stable c" "age_stable c" "ctime e"] kind_ok_older [of _ t "old_pending c" "age_pending c" "ctime e"]
      kind_ok_older [of _ t "old_queue c" "age_queue c" "ctime e"]
    by (cases "old_stable c"; cases "old_pending c"; cases "old_queue c") (auto simp: cand_add_def recycle_def)
  moreover have "cand_empty (cand_add (length t) e c) = cand_empty c" by (simp add: cand_add_def)
  ultimately show ?thesis using k assms(2) by (simp add: cand_ok_def)
qed

lemma find_loop_cand:
  "cand_ok t c \<Longrightarrow> find_loop ip es (length t) c = Inr c' \<Longrightarrow> cand_ok (t @ es) c'"
proof (induction es arbitrary: t c)
  case (Cons e es)
  show ?case
  proof (cases "arp_st e = ETHARP_STATE_EMPTY")
    case True
    then show ?thesis using Cons.IH [OF cand_ok_empty [OF Cons.prems(1) True]] Cons.prems(2) by simp
  next
    case False
    then show ?thesis using Cons.IH [OF cand_ok_add [OF Cons.prems(1) False]] Cons.prems(2) by (simp split: if_splits)
  qed
qed simp

lemma cand0_ok: "cand_ok [] cand0"
  by (simp add: cand_ok_def cand0_def kind_ok_def)

lemma used_free: "set (used (t[i := empty_entry])) \<subseteq> set (used t)"
proof (cases "i < length t")
  case True
  then obtain pre post where t: "t = pre @ t ! i # post" "t[i := empty_entry] = pre @ empty_entry # post" by (metis table_split)
  have "set (used (pre @ empty_entry # post)) \<subseteq> set (used (pre @ t ! i # post))" by (auto simp: empty_entry_def)
  then show ?thesis unfolding t(2) using t(1) by simp
qed (simp add: not_less list_update_beyond)

text \<open>The outcomes of a search for an address: its entry, a blank entry for it, or none.\<close>

definition found :: "u32 \<Rightarrow> nat \<Rightarrow> arp_state \<Rightarrow> arp_state \<Rightarrow> bool" where
  "found a i s s' \<longleftrightarrow> i < ARP_TABLE_SIZE \<and> s' = s \<and> arp_st (arp_table s ! i) \<noteq> ETHARP_STATE_EMPTY \<and> ipaddr (arp_table s ! i) = a"

definition created :: "u32 \<Rightarrow> nat \<Rightarrow> arp_state \<Rightarrow> arp_state \<Rightarrow> bool" where
  "created a i s s' \<longleftrightarrow> i < ARP_TABLE_SIZE \<and> a \<notin> set (used (arp_table s)) \<and>
    (\<exists>e. s' = s\<lparr>arp_table := (arp_table s)[i := e]\<rparr> \<and> arp_st e = ETHARP_STATE_EMPTY \<and> queued e = None \<and> ipaddr e = a \<and> ctime e = 0)"

lemma find_entry_cases:
  assumes "arp_ok s"
  obtains (found) i where "etharp_find_entry (Some a) flag s = Some (Some i, s)" "found a i s s"
    | (created) i s' where "etharp_find_entry (Some a) flag s = Some (Some i, s')" "created a i s s'" "flag = ETHARP_FLAG_TRY_HARD"
    | (none) "etharp_find_entry (Some a) flag s = Some (None, s)" "a \<notin> set (used (arp_table s))" "flag = ETHARP_FLAG_FIND_ONLY"
proof (cases "find_loop (Some a) (arp_table s) 0 cand0")
  case (Inl i)
  then show thesis using found find_loop_match [OF Inl] assms by (simp add: etharp_find_entry_def found_def arp_ok_def)
next
  case (Inr c)
  have a: "a \<notin> set (used (arp_table s))" by (rule find_loop_none [OF Inr])
  have c: "cand_ok (arp_table s) c" using find_loop_cand [OF cand0_ok, of "Some a" "arp_table s" c] Inr by simp
  have l: "length (arp_table s) = ARP_TABLE_SIZE" "arp_table s \<noteq> []" using assms by (auto simp: arp_ok_def ARP_TABLE_SIZE_def)
  show thesis
  proof (cases flag)
    case ETHARP_FLAG_FIND_ONLY
    then show thesis using none Inr a by (simp add: etharp_find_entry_def)
  next
    case ETHARP_FLAG_TRY_HARD
    show thesis
    proof (cases "cand_empty c")
      case (Some i)
      then have i: "i < ARP_TABLE_SIZE" "arp_st (arp_table s ! i) = ETHARP_STATE_EMPTY" using c l by (auto simp: cand_ok_def kind_ok_def)
      then have "queued (arp_table s ! i) = None" using arp_ok_entry [OF assms i(1)] by (simp add: entry_ok_def)
      then have "created a i s (new_entry (Some a) i s)" using i a by (auto simp: created_def new_entry_def)
      then show thesis using created Some Inr ETHARP_FLAG_TRY_HARD by (simp add: etharp_find_entry_def)
    next
      case None
      then obtain i where i: "recycle c = Some i" using c l by (auto simp: cand_ok_def)
      then have "old_stable c = Some i \<or> old_pending c = Some i \<or> old_queue c = Some i" by (auto simp: recycle_def split: option.splits)
      then have r: "i < ARP_TABLE_SIZE" "old_stable c = Some i \<Longrightarrow> arp_stable (arp_st (arp_table s ! i))" using c l by (auto simp: cand_ok_def kind_ok_def)
      then have q: "old_stable c = Some i \<Longrightarrow> queued (arp_table s ! i) = None" using arp_ok_entry [OF assms r(1)] by (auto simp: entry_ok_def stable_cases)
      have "created a i s (new_entry (Some a) i (etharp_free_entry i s))"
        using r(1) l a unfolding created_def new_entry_def etharp_free_entry_def
        by (auto simp: empty_entry_def intro!: exI [of _ "empty_entry\<lparr>ipaddr := a, ctime := 0\<rparr>"])
      then show thesis using created None i q Inr ETHARP_FLAG_TRY_HARD by (simp add: etharp_find_entry_def)
    qed
  qed
qed

text \<open>An entry for the address may be stored where the search ended.\<close>

lemma store_ok:
  assumes "arp_ok s" "found a i s s' \<or> created a i s s'" "entry_ok e" "ipaddr e = a"
  shows "arp_ok (s'\<lparr>arp_table := (arp_table s')[i := e]\<rparr>)"
  using assms(2)
proof
  assume "found a i s s'"
  then show ?thesis using arp_ok_same [OF assms(1) _ assms(3)] assms(4) by (simp add: found_def)
next
  assume c: "created a i s s'"
  then have i: "i < ARP_TABLE_SIZE" "a \<notin> set (used (arp_table s))" by (simp_all add: created_def)
  have "arp_ok (s\<lparr>arp_table := (arp_table s)[i := e]\<rparr>)" using i used_free [of "arp_table s" i] assms(4) by (intro arp_ok_update [OF assms(1) i(1) assms(3)]) auto
  then show ?thesis using c by (auto simp: created_def)
qed

section \<open>Sending\<close>

text \<open>Sending does not touch the table.\<close>

definition same_table :: "arp_state \<Rightarrow> arp_state \<Rightarrow> bool" where
  "same_table s s' \<longleftrightarrow> arp_table s' = arp_table s \<and> etharp_cached_entry s' = etharp_cached_entry s"

lemma same_table_ok: "same_table s s' \<Longrightarrow> arp_ok s' = arp_ok s"
  by (simp add: same_table_def arp_ok_def)

lemma same_table_refl [simp]: "same_table s s"
  by (simp add: same_table_def)

lemma pbuf_header_total: "pbuf_header p n \<noteq> None"
  by (simp add: pbuf_header_def pbuf_header_impl_def Let_def)

lemma ethernet_output_total:
  assumes "env_ok E" "p \<noteq> []"
  obtains err s' where "ethernet_output E netif p src dst type s = Some (err, s')" "same_table s s'"
proof -
  obtain ph ps where p: "p = ph # ps" using assms(2) by (cases p) auto
  obtain r ph' where r: "pbuf_header ph (int SIZEOF_ETH_HDR) = Some (r, ph')" using pbuf_header_total by fastforce
  show thesis
  proof (cases "r = 0")
    case True
    let ?f = "put_hdr (eth_hdr dst src (lwip_htons type)) ph' # ps"
    have "ethernet_output E netif p src dst type s = Some (linkoutput E ?f, s\<lparr>frames := frames s @ [?f]\<rparr>)"
      using True r assms(1) by (simp add: ethernet_output_def p env_ok_def Let_def)
    then show thesis by (rule that) (simp add: same_table_def)
  next
    case False
    then have "ethernet_output E netif p src dst type s = Some (ERR_BUF, s)" using r by (simp add: ethernet_output_def p)
    then show thesis by (rule that) simp
  qed
qed

lemma etharp_raw_total:
  assumes "env_ok E"
  obtains err s' where "etharp_raw E netif es ed hs ips hwd ipd opcode s = Some (err, s')" "same_table s s'"
proof (cases "alloc_ram (heap_at E (allocs s)) PBUF_LINK 28")
  case None
  then have "etharp_raw E netif es ed hs ips hwd ipd opcode s = Some (ERR_MEM, s\<lparr>allocs := Suc (allocs s)\<rparr>)"
    by (simp add: etharp_raw_def SIZEOF_ETHARP_HDR_def Let_def)
  then show thesis by (rule that) (simp add: same_table_def)
next
  case (Some b)
  then obtain ph where ph: "b = [ph]" "wf_chain [ph]" "length (payload ph) = 28"
    using alloc_ram_spec [OF _ Some] assms by (auto simp: env_ok_def)
  let ?p = "[put_hdr (etharp_hdr opcode hs ips hwd ipd) ph]" and ?s = "s\<lparr>allocs := Suc (allocs s)\<rparr>"
  obtain err s' where o: "ethernet_output E netif ?p es ed ETHTYPE_ARP ?s = Some (err, s')" "same_table ?s s'"
    by (rule ethernet_output_total [OF assms, of ?p]) auto
  have "unat (len ph) = 28" "length (hwaddr E netif) = ETH_HWADDR_LEN" using ph wf_small [OF ph(2)] assms by (simp_all add: unat_len env_ok_def)
  then have "etharp_raw E netif es ed hs ips hwd ipd opcode s = Some (ERR_OK, s')"
    using Some ph(1) o(1) by (simp add: etharp_raw_def SIZEOF_ETHARP_HDR_def Let_def)
  then show thesis using o(2) by (intro that) (auto simp: same_table_def)
qed

lemma etharp_request_total:
  assumes "env_ok E"
  obtains err s' where "etharp_request E netif ip s = Some (err, s')" "same_table s s'"
  unfolding etharp_request_def etharp_request_dst_def by (rule etharp_raw_total [OF assms])

section \<open>Operations\<close>

lemma update_arp_entry_ok:
  assumes "arp_ok s" "env_ok E" "length addr = ETH_HWADDR_LEN"
  shows "\<exists>err s'. etharp_update_arp_entry E netif ip addr flag s = Some (err, s') \<and> arp_ok s'"
proof (cases "ip = IPADDR_ANY \<or> ip4_addr_isbroadcast_u32 ip (netif_of E netif) \<or> ip4_addr_ismulticast ip")
  case True
  then show ?thesis using assms(1,2) by (simp add: etharp_update_arp_entry_def env_ok_def)
next
  case False
  then have unfold: "etharp_update_arp_entry E netif ip addr flag s = (case etharp_find_entry (Some ip) flag s of
         None \<Rightarrow> None
       | Some (None, s) \<Rightarrow> Some (ERR_MEM, s)
       | Some (Some i, s) \<Rightarrow>
           let
             e = arp_table s ! i;
             s = s\<lparr>arp_table := (arp_table s)[i := e\<lparr>arp_st := ETHARP_STATE_STABLE, on_netif := Some netif, ethaddr := addr, ctime := 0, queued := None\<rparr>]\<rparr>
           in (case queued e of None \<Rightarrow> Some (ERR_OK, s)
               | Some p \<Rightarrow> map_option (\<lambda>(_, s). (ERR_OK, s)) (ethernet_output E netif p (hwaddr E netif) addr ETHTYPE_IP s)))"
    using assms(2) by (simp add: etharp_update_arp_entry_def env_ok_def)
  have store: ?thesis if f: "etharp_find_entry (Some ip) flag s = Some (Some i, t)" "found ip i s t \<or> created ip i s t" for i t
  proof -
    let ?e = "(arp_table t ! i)\<lparr>arp_st := ETHARP_STATE_STABLE, on_netif := Some netif, ethaddr := addr, ctime := 0, queued := None\<rparr>"
    define u where "u = t\<lparr>arp_table := (arp_table t)[i := ?e]\<rparr>"
    have l: "i < ARP_TABLE_SIZE" "length (arp_table s) = ARP_TABLE_SIZE" using f(2) assms(1) by (auto simp: found_def created_def arp_ok_def)
    have e: "ipaddr (arp_table t ! i) = ip" using f(2) l by (auto simp: found_def created_def)
    have "entry_ok ?e" using False assms(3) by (simp add: entry_ok_def e ARP_MAXAGE_def)
    then have u: "arp_ok u" unfolding u_def by (rule store_ok [OF assms(1) f(2)]) (simp add: e)
    have q: "queued (arp_table t ! i) \<noteq> Some []" using f(2) arp_ok_entry [OF assms(1) l(1)] l by (auto simp: found_def created_def entry_ok_def)
    show ?thesis
    proof (cases "queued (arp_table t ! i)")
      case None
      then show ?thesis using u f(1) unfolding unfold by (simp add: u_def)
    next
      case (Some p)
      then have "p \<noteq> []" using q by auto
      then obtain err v where v: "ethernet_output E netif p (hwaddr E netif) addr ETHTYPE_IP u = Some (err, v)" "same_table u v"
        by (rule ethernet_output_total [OF assms(2)])
      then show ?thesis using u Some f(1) same_table_ok [OF v(2)] unfolding unfold by (simp add: u_def)
    qed
  qed
  show ?thesis using assms(1)
  proof (cases rule: find_entry_cases [where a = ip and flag = flag])
    case (found i)
    then show ?thesis using store by blast
  next
    case (created i s')
    then show ?thesis using store by blast
  next
    case none
    then show ?thesis using assms(1) unfolding unfold by simp
  qed
qed

lemma etharp_input_ok:
  assumes "arp_ok s" "env_ok E" "etharp_input E netif p s = Some s'"
  shows "arp_ok s'"
proof -
  obtain ph ps where p: "p = ph # ps" using assms(3) by (cases p) (auto simp: etharp_input_def)
  let ?h = "payload ph"
  let ?our = "ip_addr4 (netif_of E netif)"
  let ?fu = "?our \<noteq> IPADDR_ANY \<and> get_addr ?h 24 = ?our"
  consider "s' = s" | "28 \<le> length ?h" "(case etharp_update_arp_entry E netif (get_addr ?h 14) (take 6 (drop 8 ?h)) (if ?fu then ETHARP_FLAG_TRY_HARD else ETHARP_FLAG_FIND_ONLY) s of
               None \<Rightarrow> None
             | Some (_, s) \<Rightarrow>
                 if get16 ?h 6 = lwip_htons ARP_REQUEST then
                   (if ?fu then map_option snd (etharp_raw E netif (hwaddr E netif) (take 6 (drop 8 ?h)) (hwaddr E netif) ?our (take 6 (drop 8 ?h)) (get_addr ?h 14) ARP_REPLY s)
                    else Some s)
                 else if get16 ?h 6 = lwip_htons ARP_REPLY then Some (s\<lparr>dhcp_calls := dhcp_calls s @ [(netif, get_addr ?h 14)]\<rparr>)
                 else Some s) = Some s'"
    using assms(3) unfolding etharp_input_def p Let_def by (auto simp: SIZEOF_ETHARP_HDR_def split: if_splits)
  then show ?thesis
  proof cases
    case 2
    have "length (take 6 (drop 8 ?h)) = ETH_HWADDR_LEN" using 2(1) by (simp add: ETH_HWADDR_LEN_def)
    from update_arp_entry_ok [OF assms(1,2) this] obtain err t where
      t: "etharp_update_arp_entry E netif (get_addr ?h 14) (take 6 (drop 8 ?h)) (if ?fu then ETHARP_FLAG_TRY_HARD else ETHARP_FLAG_FIND_ONLY) s = Some (err, t)" "arp_ok t" by blast
    obtain err' v where v: "etharp_raw E netif (hwaddr E netif) (take 6 (drop 8 ?h)) (hwaddr E netif) ?our (take 6 (drop 8 ?h)) (get_addr ?h 14) ARP_REPLY t = Some (err', v)"
      "same_table t v" by (rule etharp_raw_total [OF assms(2)])
    have "arp_ok (t\<lparr>dhcp_calls := x\<rparr>)" for x using t(2) by (simp add: arp_ok_def)
    then show ?thesis using 2(2) t v(1) same_table_ok [OF v(2)] by (auto split: if_splits)
  qed (use assms(1) in simp)
qed

lemma request_then:
  assumes "arp_ok s" "env_ok E" "i < ARP_TABLE_SIZE" "arp_st (arp_table s ! i) = ETHARP_STATE_STABLE"
    "r = etharp_request E netif ip s \<or> r = etharp_request_dst E netif ip dst s"
  shows "\<exists>t. map_option (rerequesting i) r = Some t \<and> arp_ok t"
proof -
  obtain err t where t: "r = Some (err, t)" "same_table s t"
    using assms(5) etharp_raw_total [OF assms(2)] unfolding etharp_request_def etharp_request_dst_def by metis
  have ok: "arp_ok t" "arp_st (arp_table t ! i) = ETHARP_STATE_STABLE" using assms(1,4) same_table_ok [OF t(2)] t(2) by (simp_all add: same_table_def)
  have "entry_ok ((arp_table t ! i)\<lparr>arp_st := ETHARP_STATE_STABLE_REREQUESTING_1\<rparr>)" using arp_ok_entry [OF ok(1) assms(3)] ok(2) by (simp add: entry_ok_def)
  from arp_ok_same [OF ok(1) assms(3) this] ok t show ?thesis by (simp add: rerequesting_def)
qed

lemma output_to_index_ok:
  assumes "arp_ok s" "env_ok E" "i < ARP_TABLE_SIZE" "arp_stable (arp_st (arp_table s ! i))" "q \<noteq> []"
  shows "\<exists>err s'. etharp_output_to_arp_index E netif q i s = Some (err, s') \<and> arp_ok s'"
proof -
  let ?e = "arp_table s ! i"
  define m where "m = (if arp_st ?e = ETHARP_STATE_STABLE then
                   (if ctime ?e \<ge> ARP_AGE_REREQUEST_USED_BROADCAST then map_option (rerequesting i) (etharp_request E netif (ipaddr ?e) s)
                    else if ctime ?e \<ge> ARP_AGE_REREQUEST_USED_UNICAST then map_option (rerequesting i) (etharp_request_dst E netif (ipaddr ?e) (ethaddr ?e) s)
                    else Some s)
                 else Some s)"
  have "\<exists>t. m = Some t \<and> arp_ok t"
  proof (cases "arp_st ?e = ETHARP_STATE_STABLE")
    case True
    note r = request_then [OF assms(1-3) True]
    show ?thesis using r [OF disjI1 [OF refl]] r [OF disjI2 [OF refl]] assms(1) unfolding m_def by (simp only: True simp_thms if_True) (simp split: if_split)
  qed (use assms(1) in \<open>simp add: m_def\<close>)
  then obtain t where t: "m = Some t" "arp_ok t" by blast
  obtain err u where u: "ethernet_output E netif q (hwaddr E netif) (ethaddr (arp_table t ! i)) ETHTYPE_IP t = Some (err, u)" "same_table t u"
    by (rule ethernet_output_total [OF assms(2,5)])
  have "etharp_output_to_arp_index E netif q i s = Some (err, u)"
    using t(1) u(1) assms(4) unfolding etharp_output_to_arp_index_def Let_def m_def [symmetric] by simp
  then show ?thesis using t(2) same_table_ok [OF u(2)] by simp
qed

lemma pbuf_ref_Nil: "pbuf_ref q = [] \<longleftrightarrow> q = []"
  by (cases q) auto

lemma copy_loop_Nil: "snd (copy_loop ts ot fs fo) = [] \<longleftrightarrow> ts = []"
proof (induction "length ts + length fs" arbitrary: ts ot fs fo rule: less_induct)
  case less
  show ?case
  proof (cases ts)
    case (Cons t ts')
    then show ?thesis using less.hyps by (cases fs) (simp_all add: Let_def)
  qed simp
qed

lemma pbuf_copy_not_Nil: "pbuf_copy t q = (err, p) \<Longrightarrow> t \<noteq> [] \<Longrightarrow> p \<noteq> []"
  using copy_loop_Nil [of t 0 q 0] by (auto simp: pbuf_copy_def split: if_splits)

lemma take_not_Nil:
  assumes "heap_ok m" "q \<noteq> []" "etharp_take m q = Some (Some p)"
  shows "p \<noteq> []"
proof (cases "rom_scan q")
  case (Some r)
  show ?thesis
  proof (cases r)
    case Nil
    then show ?thesis using Some assms(2,3) pbuf_ref_Nil [of q] by (auto simp: etharp_take_def)
  next
    case (Cons a b)
    then obtain t where t: "alloc_ram m PBUF_LINK (tot_len a) = Some t" "pbuf_copy t q = (ERR_OK, p)"
      using Some assms(3) by (auto simp: etharp_take_def split: option.splits prod.splits if_splits)
    then have "t \<noteq> []" using alloc_ram_spec [OF assms(1) t(1)] by auto
    then show ?thesis using t(2) pbuf_copy_not_Nil by blast
  qed
qed (use assms(3) in \<open>simp add: etharp_take_def\<close>)

text \<open>A blank entry becomes pending; a packet is kept on a pending entry.\<close>

lemma pending_entry_ok:
  assumes "arp_ok s" "found ip i s t \<or> created ip i s t" "ip \<noteq> IPADDR_ANY"
  shows "arp_ok (if arp_st (arp_table t ! i) = ETHARP_STATE_EMPTY
    then t\<lparr>arp_table := (arp_table t)[i := (arp_table t ! i)\<lparr>arp_st := ETHARP_STATE_PENDING, on_netif := Some netif\<rparr>]\<rparr> else t)"
proof (cases "arp_st (arp_table t ! i) = ETHARP_STATE_EMPTY")
  case True
  then have c: "created ip i s t" using assms(2) by (auto simp: found_def)
  then have e: "ipaddr (arp_table t ! i) = ip" "queued (arp_table t ! i) = None" "ctime (arp_table t ! i) = 0"
    using assms(1) by (auto simp: created_def arp_ok_def)
  have "entry_ok ((arp_table t ! i)\<lparr>arp_st := ETHARP_STATE_PENDING, on_netif := Some netif\<rparr>)"
    using assms(3) by (simp add: entry_ok_def e ARP_MAXPENDING_def)
  from store_ok [OF assms(1,2) this] e True show ?thesis by simp
next
  case False
  then have "found ip i s t" using assms(1,2) by (auto simp: created_def arp_ok_def)
  then show ?thesis using False assms(1) by (simp add: found_def)
qed

lemma enqueue_ok:
  assumes "arp_ok s" "i < ARP_TABLE_SIZE" "arp_st (arp_table s ! i) = ETHARP_STATE_PENDING" "p \<noteq> []"
  shows "arp_ok (s\<lparr>arp_table := (arp_table s)[i := (arp_table s ! i)\<lparr>queued := Some p\<rparr>]\<rparr>)"
proof (rule arp_ok_same [OF assms(1,2)])
  show "entry_ok ((arp_table s ! i)\<lparr>queued := Some p\<rparr>)" using arp_ok_entry [OF assms(1,2)] assms(3,4) by (simp add: entry_ok_def)
qed (use assms(3) in simp_all)

lemma query_ok:
  assumes "arp_ok s" "env_ok E" "q \<noteq> Some []" "etharp_query E netif ip q s = Some (err, s')"
  shows "arp_ok s'"
proof (cases "ip4_addr_isbroadcast_u32 ip (netif_of E netif) \<or> ip4_addr_ismulticast ip \<or> ip = IPADDR_ANY")
  case True
  then show ?thesis using assms(1,4) by (simp add: etharp_query_def)
next
  case False
  note unfolded = assms(4) [unfolded etharp_query_def if_not_P [OF False]]
  have store: ?thesis if f: "etharp_find_entry (Some ip) ETHARP_FLAG_TRY_HARD s = Some (Some i, t)" "found ip i s t \<or> created ip i s t" for i t
  proof -
    have l: "i < ARP_TABLE_SIZE" "length (arp_table s) = ARP_TABLE_SIZE" "length (arp_table t) = ARP_TABLE_SIZE"
      using f(2) assms(1) by (auto simp: found_def created_def arp_ok_def)
    define u where "u = (if arp_st (arp_table t ! i) = ETHARP_STATE_EMPTY
      then t\<lparr>arp_table := (arp_table t)[i := (arp_table t ! i)\<lparr>arp_st := ETHARP_STATE_PENDING, on_netif := Some netif\<rparr>]\<rparr> else t)"
    have u: "arp_ok u" "arp_st (arp_table u ! i) \<noteq> ETHARP_STATE_EMPTY"
      using pending_entry_ok [OF assms(1) f(2), of netif] False l by (simp_all add: u_def)
    obtain r v where v: "(if arp_st (arp_table t ! i) = ETHARP_STATE_EMPTY \<or> q = None then etharp_request E netif ip u else Some (ERR_MEM, u)) = Some (r, v)" "same_table u v"
      using etharp_request_total [OF assms(2), of netif ip u] same_table_refl by (metis (full_types))
    have ok: "arp_ok v" "arp_st (arp_table v ! i) \<noteq> ETHARP_STATE_EMPTY" using u same_table_ok [OF v(2)] v(2) by (simp_all add: same_table_def)
    have rest: "(case q of None \<Rightarrow> Some (r, v)
        | Some q \<Rightarrow>
            if arp_stable (arp_st (arp_table v ! i)) then ethernet_output E netif q (hwaddr E netif) (ethaddr (arp_table v ! i)) ETHTYPE_IP (v\<lparr>etharp_cached_entry := i\<rparr>)
            else case etharp_take (heap_at E (allocs v)) q of
                 None \<Rightarrow> None
               | Some None \<Rightarrow> Some (ERR_MEM, if rom_scan q = Some [] then v else v\<lparr>allocs := Suc (allocs v)\<rparr>)
               | Some (Some p) \<Rightarrow> Some (ERR_OK, (if rom_scan q = Some [] then v else v\<lparr>allocs := Suc (allocs v)\<rparr>)
                   \<lparr>arp_table := (arp_table (if rom_scan q = Some [] then v else v\<lparr>allocs := Suc (allocs v)\<rparr>))[i := (arp_table v ! i)\<lparr>queued := Some p\<rparr>]\<rparr>)) = Some (err, s')"
      using unfolded unfolding f(1) option.case prod.case Let_def u_def [symmetric] v(1) .
    have upd: "arp_ok (v\<lparr>etharp_cached_entry := i\<rparr>)" "arp_ok (v\<lparr>allocs := a\<rparr>)" for a using ok(1) l(1) by (simp_all add: arp_ok_def)
    show ?thesis
    proof (cases q)
      case None
      then show ?thesis using rest ok(1) by simp
    next
      case (Some q')
      then have "q' \<noteq> []" using assms(3) by auto
      show ?thesis
      proof (cases "arp_stable (arp_st (arp_table v ! i))")
        case True
        have "ethernet_output E netif q' (hwaddr E netif) (ethaddr (arp_table v ! i)) ETHTYPE_IP (v\<lparr>etharp_cached_entry := i\<rparr>) = Some (err, s')"
          using rest unfolding Some option.case if_P [OF True] .
        then show ?thesis using ethernet_output_total [OF assms(2) \<open>q' \<noteq> []\<close>, of netif "hwaddr E netif" "ethaddr (arp_table v ! i)" ETHTYPE_IP "v\<lparr>etharp_cached_entry := i\<rparr>"]
          same_table_ok upd(1) by (metis option.inject prod.inject)
      next
        case False
        define w where "w = (if rom_scan q' = Some [] then v else v\<lparr>allocs := Suc (allocs v)\<rparr>)"
        have w: "arp_ok w" "arp_table w = arp_table v" using ok(1) upd(2) by (simp_all add: w_def)
        consider "s' = w" | p where "etharp_take (heap_at E (allocs v)) q' = Some (Some p)" "s' = w\<lparr>arp_table := (arp_table w)[i := (arp_table w ! i)\<lparr>queued := Some p\<rparr>]\<rparr>"
          using rest [unfolded Some option.case if_not_P [OF False], folded w_def] unfolding w(2) by (auto split: option.splits)
        then show ?thesis
        proof cases
          case 2
          have "p \<noteq> []" using take_not_Nil [OF _ \<open>q' \<noteq> []\<close> 2(1)] assms(2) by (simp add: env_ok_def)
          then show ?thesis using enqueue_ok [OF w(1) l(1)] ok(2) False 2(2) by (simp add: w(2) stable_cases)
        qed (use w in simp)
      qed
    qed
  qed
  show ?thesis using assms(1)
  proof (cases rule: find_entry_cases [where a = ip and flag = ETHARP_FLAG_TRY_HARD])
    case (found i)
    then show ?thesis using store by blast
  next
    case (created i s')
    then show ?thesis using store by blast
  next
    case none
    then show ?thesis by simp
  qed
qed

lemma stable_loop_Some: "stable_loop ip es i = Some k \<Longrightarrow> i \<le> k \<and> k < i + length es \<and> arp_stable (arp_st (es ! (k - i))) \<and> ipaddr (es ! (k - i)) = ip"
proof (induction es arbitrary: i)
  case (Cons e es)
  have nth: "Suc i \<le> k \<Longrightarrow> (e # es) ! (k - i) = es ! (k - Suc i)" by (simp add: Suc_diff_Suc [symmetric] Suc_le_eq)
  show ?case using Cons.IH [of "Suc i"] Cons.prems nth by (auto split: if_splits)
qed simp

text \<open>A packet whose buffers are in order is never refused by an assertion.\<close>

lemma request_returns: "env_ok E \<Longrightarrow> \<exists>r v. etharp_request E netif ip s = Some (r, v)"
  by (metis etharp_request_total)

lemma ethernet_output_returns: "env_ok E \<Longrightarrow> p \<noteq> [] \<Longrightarrow> ethernet_output E netif p src dst type s \<noteq> None"
  by (metis ethernet_output_total option.discI)

lemma take_returns: "rom_scan q \<noteq> None \<Longrightarrow> etharp_take m q \<noteq> None"
  by (auto simp: etharp_take_def split: option.splits list.splits prod.splits)

lemma query_returns:
  assumes "arp_ok s" "env_ok E" "q \<noteq> []" "rom_scan q \<noteq> None"
  shows "etharp_query E netif ip (Some q) s \<noteq> None"
proof -
  obtain j t where j: "etharp_find_entry (Some ip) ETHARP_FLAG_TRY_HARD s = Some (j, t)"
    using assms(1) by (cases rule: find_entry_cases [where a = ip and flag = ETHARP_FLAG_TRY_HARD]) auto
  have v: "etharp_request E netif ip u \<noteq> None" for u
    using request_returns [OF assms(2), of netif ip u] by auto
  show ?thesis
  proof (cases j)
    case (Some i)
    then show ?thesis
      by (simp add: etharp_query_def j Let_def v ethernet_output_returns [OF assms(2,3)] take_returns [OF assms(4)] del: not_None_eq split: option.split prod.split)
  qed (simp add: etharp_query_def j)
qed

lemma output_ok:
  assumes "arp_ok s" "env_ok E" "q \<noteq> []" "etharp_output E netif q ip s = Some (err, s')"
  shows "arp_ok s'"
proof -
  let ?n = "netif_of E netif"
  have eth: "arp_ok s'" if "ethernet_output E netif q src dst type s = Some (err, s')" for src dst type
    using ethernet_output_total [OF assms(2,3)] that assms(1) same_table_ok by (metis option.inject prod.inject)
  have ix: "arp_ok s'" if "etharp_output_to_arp_index E netif q i u = Some (err, s')" "arp_ok u" "i < ARP_TABLE_SIZE" "arp_stable (arp_st (arp_table u ! i))" for i u
    using output_to_index_ok [OF that(2) assms(2) that(3,4) assms(3)] that(1) by (metis option.inject prod.inject)
  have loop: "arp_ok (s\<lparr>etharp_cached_entry := i\<rparr>)" "i < ARP_TABLE_SIZE" "arp_stable (arp_st (arp_table s ! i))" if "stable_loop d (arp_table s) 0 = Some i" for d i
    using stable_loop_Some [OF that] assms(1) by (auto simp: arp_ok_def)
  have lp: "arp_ok s'" if "stable_loop d (arp_table s) 0 = Some i" "etharp_output_to_arp_index E netif q i (s\<lparr>etharp_cached_entry := i\<rparr>) = Some (err, s')" for d i
    by (rule ix [OF that(2) loop(1,2) [OF that(1)]]) (simp add: loop(3) [OF that(1)])
  have c: "etharp_cached_entry s < ARP_TABLE_SIZE" using assms(1) by (simp add: arp_ok_def)
  have qu: "arp_ok s'" if "etharp_query E netif d (Some q) s = Some (err, s')" for d
    using query_ok [OF assms(1,2) _ that] assms(3) by simp
  show ?thesis using assms(4) eth ix [OF _ assms(1) c] lp qu assms(1) unfolding etharp_output_def Let_def
    by (simp split: if_splits option.splits)
qed

lemma packet_rom_scan: "packet q \<Longrightarrow> rom_scan q \<noteq> None"
  by (induction q) (auto simp: is_queue_def)

lemma output_returns:
  assumes "arp_ok s" "env_ok E" "q \<noteq> []" "packet q"
  shows "etharp_output E netif q ip s \<noteq> None"
proof -
  have ix: "etharp_output_to_arp_index E netif q i u \<noteq> None" if "arp_ok u" "i < ARP_TABLE_SIZE" "arp_stable (arp_st (arp_table u ! i))" for i u
    using output_to_index_ok [OF that(1) assms(2) that(2,3) assms(3), of netif] by auto
  have lp: "etharp_output_to_arp_index E netif q i (s\<lparr>etharp_cached_entry := i\<rparr>) \<noteq> None" if "stable_loop d (arp_table s) 0 = Some i" for d i
    using stable_loop_Some [OF that] assms(1) by (intro ix) (auto simp: arp_ok_def)
  have c: "etharp_cached_entry s < ARP_TABLE_SIZE" using assms(1) by (simp add: arp_ok_def)
  show ?thesis
    by (simp add: etharp_output_def Let_def ethernet_output_returns [OF assms(2,3)] ix [OF assms(1) c] lp
      query_returns [OF assms(1-3) packet_rom_scan [OF assms(4)]] del: not_None_eq split: option.split)
qed

section \<open>The timer\<close>

text \<open>What a tick makes of an entry.\<close>

definition aged :: "etharp_entry \<Rightarrow> etharp_entry" where
  "aged e =
    (case arp_st e of
       ETHARP_STATE_EMPTY \<Rightarrow> e
     | ETHARP_STATE_PENDING \<Rightarrow> if ctime e + 1 < ARP_MAXPENDING then e\<lparr>ctime := ctime e + 1\<rparr> else empty_entry
     | st \<Rightarrow> if ctime e + 1 < ARP_MAXAGE then e\<lparr>ctime := ctime e + 1, arp_st := (if st = ETHARP_STATE_STABLE_REREQUESTING_1 then ETHARP_STATE_STABLE_REREQUESTING_2 else ETHARP_STATE_STABLE)\<rparr>
             else empty_entry)"

lemma empty_entry_st [simp]: "arp_st empty_entry = ETHARP_STATE_EMPTY"
  by (simp add: empty_entry_def)

lemma aged_entry_ok: "entry_ok e \<Longrightarrow> entry_ok (aged e)"
  by (cases "arp_st e") (auto simp: aged_def empty_entry_ok, auto simp: entry_ok_def)

lemma aged_addr: "arp_st (aged e) \<noteq> ETHARP_STATE_EMPTY \<Longrightarrow> arp_st e \<noteq> ETHARP_STATE_EMPTY \<and> ipaddr (aged e) = ipaddr e"
  by (cases "arp_st e") (auto simp: aged_def split: if_splits)

lemma aged_store_ok:
  assumes "arp_ok s" "i < ARP_TABLE_SIZE"
  shows "arp_ok (s\<lparr>arp_table := (arp_table s)[i := aged (arp_table s ! i)]\<rparr>)"
proof (cases "arp_st (aged (arp_table s ! i)) = ETHARP_STATE_EMPTY")
  case True
  then show ?thesis by (intro arp_ok_update [OF assms aged_entry_ok [OF arp_ok_entry [OF assms]]]) simp
next
  case False
  then show ?thesis using aged_addr [OF False] by (intro arp_ok_same [OF assms aged_entry_ok [OF arp_ok_entry [OF assms]]]) simp_all
qed

lemma same_st: "arp_st e = st \<Longrightarrow> e\<lparr>ctime := c, arp_st := st\<rparr> = e\<lparr>ctime := c\<rparr>"
  by (cases e) simp

lemma pending_below_max: "c < ARP_MAXPENDING \<Longrightarrow> c + 1 < ARP_MAXAGE"
  by (simp add: ARP_MAXPENDING_def ARP_MAXAGE_def) unat_arith

lemma tmr_entry_spec:
  assumes "arp_ok s" "env_ok E" "i < ARP_TABLE_SIZE"
  shows "\<exists>s'. etharp_tmr_entry E i s = Some s' \<and> arp_table s' = (arp_table s)[i := aged (arp_table s ! i)] \<and> etharp_cached_entry s' = etharp_cached_entry s"
proof -
  let ?e = "arp_table s ! i"
  have ok: "entry_ok ?e" by (rule arp_ok_entry [OF assms(1,3)])
  show ?thesis
  proof (cases "arp_st ?e = ETHARP_STATE_PENDING")
    case True
    then obtain n where n: "on_netif ?e = Some n" "ctime ?e < ARP_MAXPENDING" using ok by (auto simp: entry_ok_def)
    let ?s = "s\<lparr>arp_table := (arp_table s)[i := ?e\<lparr>ctime := ctime ?e + 1\<rparr>]\<rparr>"
    obtain r v where "etharp_request E n (ipaddr ?e) ?s = Some (r, v)" "same_table ?s v" by (rule etharp_request_total [OF assms(2)])
    then show ?thesis using True n pending_below_max [OF n(2)]
      by (auto simp: etharp_tmr_entry_def Let_def aged_def etharp_free_entry_def same_table_def not_less [symmetric])
  next
    case False
    then show ?thesis
      by (cases "arp_st ?e") (auto simp: etharp_tmr_entry_def Let_def aged_def etharp_free_entry_def same_st not_less [symmetric])
  qed
qed

lemma arp_tmr_loop_spec:
  assumes "arp_ok s" "env_ok E" "k \<le> ARP_TABLE_SIZE"
  shows "\<exists>s'. etharp_tmr_loop E [k..<ARP_TABLE_SIZE] s = Some s' \<and> arp_ok s' \<and>
    arp_table s' = take k (arp_table s) @ map aged (drop k (arp_table s)) \<and> etharp_cached_entry s' = etharp_cached_entry s"
  using assms
proof (induction "ARP_TABLE_SIZE - k" arbitrary: k s)
  case 0
  then show ?case by (simp add: arp_ok_def)
next
  case (Suc n)
  then have k: "k < ARP_TABLE_SIZE" "[k..<ARP_TABLE_SIZE] = k # [Suc k..<ARP_TABLE_SIZE]" by (simp_all add: upt_conv_Cons)
  have l: "length (arp_table s) = ARP_TABLE_SIZE" using Suc.prems(1) by (simp add: arp_ok_def)
  obtain u where u: "etharp_tmr_entry E k s = Some u" "arp_table u = (arp_table s)[k := aged (arp_table s ! k)]" "etharp_cached_entry u = etharp_cached_entry s"
    using tmr_entry_spec [OF Suc.prems(1,2) k(1)] by blast
  have "arp_ok u" using aged_store_ok [OF Suc.prems(1) k(1)] u(2,3) by (simp add: arp_ok_def)
  from Suc.hyps(1) [OF _ this Suc.prems(2)] obtain s' where s': "etharp_tmr_loop E [Suc k..<ARP_TABLE_SIZE] u = Some s'" "arp_ok s'"
    "arp_table s' = take (Suc k) (arp_table u) @ map aged (drop (Suc k) (arp_table u))" "etharp_cached_entry s' = etharp_cached_entry u"
    using Suc.hyps(2) k(1) by (metis Suc_diff_Suc Suc_inject Suc_leI)
  have "arp_table s' = take k (arp_table s) @ map aged (drop k (arp_table s))"
    unfolding s'(3) u(2) using k(1) l by (simp add: take_Suc_conv_app_nth Cons_nth_drop_Suc [symmetric])
  then show ?case using u s' unfolding k(2) by simp
qed

lemma tmr_spec:
  assumes "arp_ok s" "env_ok E"
  shows "\<exists>s'. etharp_tmr E s = Some s' \<and> arp_ok s' \<and> arp_table s' = map aged (arp_table s) \<and> etharp_cached_entry s' = etharp_cached_entry s"
  using arp_tmr_loop_spec [OF assms, of 0] by (simp add: etharp_tmr_def)

section \<open>Every order of events\<close>

lemma cleanup_ok: "arp_ok s \<Longrightarrow> arp_ok (etharp_cleanup_netif netif s)"
proof -
  let ?f = "\<lambda>e. if arp_st e \<noteq> ETHARP_STATE_EMPTY \<and> on_netif e = Some netif then empty_entry else e"
  have "distinct (used t) \<Longrightarrow> distinct (used (map ?f t)) \<and> set (used (map ?f t)) \<subseteq> set (used t)" for t
    by (induction t) auto
  moreover have "list_all entry_ok t \<Longrightarrow> list_all entry_ok (map ?f t)" for t
    by (induction t) (auto simp: empty_entry_ok)
  ultimately show "arp_ok s \<Longrightarrow> arp_ok (etharp_cleanup_netif netif s)" by (simp add: arp_ok_def etharp_cleanup_netif_def)
qed

lemma ethernet_input_ok: "arp_ok s \<Longrightarrow> env_ok E \<Longrightarrow> ethernet_input E netif p s = Some (ev, s') \<Longrightarrow> arp_ok s'"
  by (auto simp: ethernet_input_def Let_def split: list.splits if_splits option.splits intro: etharp_input_ok)

inductive arp_step :: "arp_state \<Rightarrow> arp_state \<Rightarrow> bool" where
  frame: "env_ok E \<Longrightarrow> ethernet_input E netif p s = Some (ev, s') \<Longrightarrow> arp_step s s'"
| send: "env_ok E \<Longrightarrow> q \<noteq> [] \<Longrightarrow> etharp_output E netif q ip s = Some (err, s') \<Longrightarrow> arp_step s s'"
| query: "env_ok E \<Longrightarrow> q \<noteq> Some [] \<Longrightarrow> etharp_query E netif ip q s = Some (err, s') \<Longrightarrow> arp_step s s'"
| request: "env_ok E \<Longrightarrow> etharp_request E netif ip s = Some (err, s') \<Longrightarrow> arp_step s s'"
| tick: "env_ok E \<Longrightarrow> etharp_tmr E s = Some s' \<Longrightarrow> arp_step s s'"
| netif_down: "arp_step s (etharp_cleanup_netif netif s)"

inductive_cases arp_stepE: "arp_step s s'"

lemma arp_step_ok: "arp_step s s' \<Longrightarrow> arp_ok s \<Longrightarrow> arp_ok s'"
proof (erule arp_stepE, goal_cases)
  case (1 E netif p ev)
  then show ?case by (blast intro: ethernet_input_ok)
next
  case (2 E q netif ip err)
  then show ?case by (blast intro: output_ok)
next
  case (3 E q netif ip err)
  then show ?case by (blast intro: query_ok)
next
  case (4 E netif ip err)
  then show ?case using etharp_request_total [of E netif ip s] same_table_ok by (metis option.inject prod.inject)
next
  case (5 E)
  then show ?case using tmr_spec [of s E] by auto
next
  case (6 netif)
  then show ?case by (simp add: cleanup_ok)
qed

definition arp_init :: arp_state where
  "arp_init = \<lparr>arp_table = replicate ARP_TABLE_SIZE empty_entry, etharp_cached_entry = 0, frames = [], allocs = 0, dhcp_calls = []\<rparr>"

lemma used_replicate_empty [simp]: "used (replicate n empty_entry) = []"
  by (simp add: used_def)

lemma arp_init_ok: "arp_ok arp_init"
  by (simp add: arp_ok_def arp_init_def empty_entry_ok list_all_length ARP_TABLE_SIZE_def)

interpretation ar: step_invariant "\<lambda>s. s = arp_init" arp_step arp_ok
  by unfold_locales (auto intro: arp_init_ok arp_step_ok)

end
