(* ===== verification/Etharp_Props.thy ===== *)
theory Etharp_Props
  imports Etharp_Inv
begin

text \<open>
  What address resolution promises: the frames it sends, the table as a cache of hardware addresses (the contract of a cache
  that may forget is the locale \<open>cache\<close>), ageing, and the exchange between two stations.
\<close>

section \<open>Frames\<close>

lemma length_eth_hdr [simp]: "length dst = 6 \<Longrightarrow> length src = 6 \<Longrightarrow> length (eth_hdr dst src t) = 14"
  by (simp add: eth_hdr_def mem16_def)

lemma length_etharp_hdr [simp]: "length hs = 6 \<Longrightarrow> length hwd = 6 \<Longrightarrow> length (etharp_hdr opc hs si hwd di) = 28"
  by (simp add: etharp_hdr_def mem16_def mem32_def)

lemma hwaddr_6: "env_ok E \<Longrightarrow> length (hwaddr E n) = 6"
  by (simp add: env_ok_def ETH_HWADDR_LEN_def)

lemma length_ethbroadcast [simp]: "length ethbroadcast = 6" "length ethzero = 6"
  by (simp_all add: ethbroadcast_def ethzero_def)

text \<open>A packet with room for the header leaves as one frame: the header, then the packet.\<close>

lemma ethernet_output_frame:
  assumes "env_ok E" "wf_chain (ph # ps)" "ptype ph = PBUF_RAM" "14 \<le> length (front ph)" "length (bytes (ph # ps)) + 14 < 65536"
    "length src = 6" "length dst = 6"
  obtains f where "ethernet_output E netif (ph # ps) src dst type s = Some (linkoutput E f, s\<lparr>frames := frames s @ [f]\<rparr>)"
    "wf_chain f" "bytes f = eth_hdr dst src (lwip_htons type) @ bytes (ph # ps)"
proof -
  let ?h = "reveal 14 ph"
  have wf: "wf_chain (?h # ps)" using header_wf(2) [OF assms(2,4)] assms(5) by simp
  have r: "pbuf_header ph (int SIZEOF_ETH_HDR) = Some (0, ?h)"
    using assms(3,4) by (simp add: pbuf_header_def pbuf_header_impl_def SIZEOF_ETH_HDR_def Let_def)
  have pl: "14 \<le> length (payload ?h)" using assms(4) by (simp add: reveal_def Let_def)
  have b: "drop 14 (bytes (?h # ps)) = bytes (ph # ps)" using assms(4) by (simp add: reveal_def Let_def)
  let ?f = "put_hdr (eth_hdr dst src (lwip_htons type)) ?h # ps"
  note w = put_hdr_wf [OF wf, of "eth_hdr dst src (lwip_htons type)"]
  have "ethernet_output E netif (ph # ps) src dst type s = Some (linkoutput E ?f, s\<lparr>frames := frames s @ [?f]\<rparr>)"
    using r assms(1) by (simp add: ethernet_output_def env_ok_def Let_def)
  moreover have "wf_chain ?f" using w(1) pl assms(6,7) by simp
  moreover have "bytes ?f = eth_hdr dst src (lwip_htons type) @ bytes (ph # ps)"
    by (subst w(2)) (use pl assms(6,7) b in simp_all)
  ultimately show thesis by (rule that)
qed

lemma etharp_raw_frame:
  assumes "env_ok E" "alloc_ram (heap_at E (allocs s)) PBUF_LINK 28 \<noteq> None" "length es = 6" "length ed = 6" "length hs = 6" "length hwd = 6"
  obtains f where "etharp_raw E netif es ed hs si hwd di opc s = Some (ERR_OK, s\<lparr>allocs := Suc (allocs s), frames := frames s @ [f]\<rparr>)"
    "wf_chain f" "bytes f = eth_hdr ed es (lwip_htons ETHTYPE_ARP) @ etharp_hdr opc hs si hwd di"
proof -
  obtain b where b: "alloc_ram (heap_at E (allocs s)) PBUF_LINK 28 = Some b" using assms(2) by blast
  obtain ph where ph: "b = [ph]" "wf_chain [ph]" "length (payload ph) = 28" "length (front ph) = 16" "ptype ph = PBUF_RAM"
    using alloc_ram_spec [OF _ b] assms(1) by (auto simp: env_ok_def size_defs)
  let ?q = "put_hdr (etharp_hdr opc hs si hwd di) ph" and ?s = "s\<lparr>allocs := Suc (allocs s)\<rparr>"
  have q: "wf_chain [?q]" "bytes [?q] = etharp_hdr opc hs si hwd di" "ptype ?q = PBUF_RAM" "length (front ?q) = 16"
    using put_hdr_wf [OF ph(2), of "etharp_hdr opc hs si hwd di"] ph assms(5,6) by (auto simp: put_hdr_def bytes_def)
  obtain f where f: "ethernet_output E netif [?q] es ed ETHTYPE_ARP ?s = Some (linkoutput E f, ?s\<lparr>frames := frames ?s @ [f]\<rparr>)"
    "wf_chain f" "bytes f = eth_hdr ed es (lwip_htons ETHTYPE_ARP) @ bytes [?q]"
    by (rule ethernet_output_frame [OF assms(1) q(1,3) _ _ assms(3,4), where netif = netif and type = ETHTYPE_ARP and s = ?s])
      (use q(2,4) assms in simp_all)
  have "unat (len ph) = 28" using ph wf_small [OF ph(2)] by (simp add: unat_len)
  then have "etharp_raw E netif es ed hs si hwd di opc s = Some (ERR_OK, s\<lparr>allocs := Suc (allocs s), frames := frames s @ [f]\<rparr>)"
    using b ph(1) f(1) assms(1) by (simp add: etharp_raw_def SIZEOF_ETHARP_HDR_def env_ok_def Let_def)
  then show thesis using f(2,3) q(2) by (intro that) simp_all
qed

section \<open>The table as a cache\<close>

text \<open>The hardware address that \<^verbatim>\<open>etharp_find_addr\<close> finds.\<close>

definition cached :: "u32 \<Rightarrow> arp_state \<Rightarrow> u8 list option" where
  "cached ip s = (case etharp_find_addr ip s of Some (Some (_, m), _) \<Rightarrow> Some m | _ \<Rightarrow> None)"

lemma used_inj:
  assumes "distinct (used t)" "i < length t" "j < length t" "arp_st (t ! i) \<noteq> ETHARP_STATE_EMPTY" "arp_st (t ! j) \<noteq> ETHARP_STATE_EMPTY"
    "ipaddr (t ! i) = ipaddr (t ! j)"
  shows "i = j"
  using assms
proof (induction t arbitrary: i j)
  case (Cons e t)
  show ?case
  proof (cases i; cases j)
    fix a b assume "i = Suc a" "j = Suc b"
    then show ?thesis using Cons.IH [of a b] Cons.prems by (simp split: if_splits)
  qed (use Cons.prems in \<open>auto split: if_splits\<close>, (metis used_nth)+)
qed simp

lemma find_entry_at:
  assumes "arp_ok s" "i < ARP_TABLE_SIZE" "arp_st (arp_table s ! i) \<noteq> ETHARP_STATE_EMPTY" "ipaddr (arp_table s ! i) = ip"
  shows "etharp_find_entry (Some ip) flag s = Some (Some i, s)"
  using assms(1)
proof (cases rule: find_entry_cases [where a = ip and flag = flag])
  case (found j)
  then have "j = i" using used_inj [of "arp_table s" j i] assms by (simp add: found_def arp_ok_def)
  then show ?thesis using found by simp
qed (use assms used_nth [of i "arp_table s"] in \<open>auto simp: created_def arp_ok_def\<close>)

lemma cached_iff:
  assumes "arp_ok s"
  shows "cached ip s = Some m \<longleftrightarrow> (\<exists>i < ARP_TABLE_SIZE. arp_stable (arp_st (arp_table s ! i)) \<and> ipaddr (arp_table s ! i) = ip \<and> ethaddr (arp_table s ! i) = m)"
  (is "_ \<longleftrightarrow> ?R")
proof
  assume c: "cached ip s = Some m"
  from assms show ?R
  proof (cases rule: find_entry_cases [where a = ip and flag = ETHARP_FLAG_FIND_ONLY])
    case (found i)
    then show ?thesis using c by (auto simp: cached_def etharp_find_addr_def found_def split: if_splits)
  qed (use c in \<open>simp_all add: cached_def etharp_find_addr_def\<close>)
next
  assume ?R
  then obtain i where i: "i < ARP_TABLE_SIZE" "arp_stable (arp_st (arp_table s ! i))" "ipaddr (arp_table s ! i) = ip" "ethaddr (arp_table s ! i) = m" by blast
  then show "cached ip s = Some m" using find_entry_at [OF assms i(1) _ i(3)] by (simp add: cached_def etharp_find_addr_def stable_cases)
qed

text \<open>An address that a station can have.\<close>

definition unicast :: "link_env \<Rightarrow> nat \<Rightarrow> u32 \<Rightarrow> bool" where
  "unicast E netif ip \<longleftrightarrow> ip \<noteq> IPADDR_ANY \<and> \<not> ip4_addr_isbroadcast_u32 ip (netif_of E netif) \<and> \<not> ip4_addr_ismulticast ip"

definition learnt :: "nat \<Rightarrow> u8 list \<Rightarrow> etharp_entry \<Rightarrow> etharp_entry" where
  "learnt netif addr e = e\<lparr>arp_st := ETHARP_STATE_STABLE, on_netif := Some netif, ethaddr := addr, ctime := 0, queued := None\<rparr>"

lemma learnt_simps [simp]: "arp_st (learnt netif addr e) = ETHARP_STATE_STABLE" "ipaddr (learnt netif addr e) = ipaddr e" "ethaddr (learnt netif addr e) = addr"
  by (simp_all add: learnt_def)

lemma update_unfold:
  assumes "env_ok E" "unicast E netif ip" "etharp_find_entry (Some ip) flag s = Some (Some i, t)"
  shows "etharp_update_arp_entry E netif ip addr flag s =
    (let u = t\<lparr>arp_table := (arp_table t)[i := learnt netif addr (arp_table t ! i)]\<rparr> in
     case queued (arp_table t ! i) of None \<Rightarrow> Some (ERR_OK, u)
     | Some p \<Rightarrow> map_option (\<lambda>(_, s). (ERR_OK, s)) (ethernet_output E netif p (hwaddr E netif) addr ETHTYPE_IP u))"
  using assms by (simp add: etharp_update_arp_entry_def unicast_def env_ok_def learnt_def Let_def)

lemma update_learns:
  assumes "arp_ok s" "env_ok E" "unicast E netif ip"
  obtains t i e where "etharp_update_arp_entry E netif ip addr ETHARP_FLAG_TRY_HARD s = Some (ERR_OK, t)" "i < ARP_TABLE_SIZE"
    "arp_table t = (arp_table s)[i := e]" "arp_stable (arp_st e)" "ipaddr e = ip" "ethaddr e = addr"
proof -
  note result = that
  have main: thesis if f: "etharp_find_entry (Some ip) ETHARP_FLAG_TRY_HARD s = Some (Some i, t)" "found ip i s t \<or> created ip i s t" for i t
  proof -
    have l: "i < ARP_TABLE_SIZE" "length (arp_table s) = ARP_TABLE_SIZE" using f(2) assms(1) by (auto simp: found_def created_def arp_ok_def)
    have e: "ipaddr (arp_table t ! i) = ip" "(arp_table t)[i := x] = (arp_table s)[i := x]" for x using f(2) l by (auto simp: found_def created_def)
    have q: "queued (arp_table t ! i) \<noteq> Some []" using f(2) arp_ok_entry [OF assms(1) l(1)] l by (auto simp: found_def created_def entry_ok_def)
    define u where "u = t\<lparr>arp_table := (arp_table t)[i := learnt netif addr (arp_table t ! i)]\<rparr>"
    have "\<exists>v. etharp_update_arp_entry E netif ip addr ETHARP_FLAG_TRY_HARD s = Some (ERR_OK, v) \<and> arp_table v = arp_table u"
    proof (cases "queued (arp_table t ! i)")
      case None
      then show ?thesis unfolding update_unfold [OF assms(2,3) f(1)] by (simp add: u_def)
    next
      case (Some p)
      then obtain err v where "ethernet_output E netif p (hwaddr E netif) addr ETHTYPE_IP u = Some (err, v)" "same_table u v"
        using ethernet_output_total [OF assms(2), of p] q by metis
      then show ?thesis unfolding update_unfold [OF assms(2,3) f(1)] using Some by (simp add: u_def [symmetric] same_table_def Let_def)
    qed
    then show thesis using result [of _ i "learnt netif addr (arp_table t ! i)"] l(1) e by (auto simp: u_def)
  qed
  show thesis using assms(1)
  proof (cases rule: find_entry_cases [where a = ip and flag = ETHARP_FLAG_TRY_HARD])
    case (found i)
    then show thesis using main by blast
  next
    case (created i t)
    then show thesis using main by blast
  qed simp
qed

definition arp_learn :: "link_env \<Rightarrow> nat \<Rightarrow> u32 \<Rightarrow> u8 list \<Rightarrow> arp_state \<Rightarrow> arp_state option" where
  "arp_learn E netif ip addr s = map_option snd (etharp_update_arp_entry E netif ip addr ETHARP_FLAG_TRY_HARD s)"

fun learn_all :: "('k \<Rightarrow> 'v \<Rightarrow> 's \<Rightarrow> 's option) \<Rightarrow> ('k \<times> 'v) list \<Rightarrow> 's \<Rightarrow> 's option" where
  "learn_all learn [] s = Some s"
| "learn_all learn ((k, v) # kvs) s = Option.bind (learn k v s) (learn_all learn kvs)"

text \<open>A cache: it has what it learnt last, and of the rest it may forget, never invent.\<close>

locale cache =
  fixes inv :: "'s \<Rightarrow> bool" and key :: "'k \<Rightarrow> bool" and val :: "'v \<Rightarrow> bool"
    and lookup :: "'k \<Rightarrow> 's \<Rightarrow> 'v option" and learn :: "'k \<Rightarrow> 'v \<Rightarrow> 's \<Rightarrow> 's option"
  assumes learn_returns: "inv s \<Longrightarrow> key k \<Longrightarrow> val v \<Longrightarrow> \<exists>t. learn k v s = Some t \<and> inv t"
    and learn_same: "inv s \<Longrightarrow> key k \<Longrightarrow> val v \<Longrightarrow> learn k v s = Some t \<Longrightarrow> lookup k t = Some v"
    and learn_other: "inv s \<Longrightarrow> key k \<Longrightarrow> val v \<Longrightarrow> learn k v s = Some t \<Longrightarrow> k' \<noteq> k \<Longrightarrow> lookup k' t = Some w \<Longrightarrow> lookup k' s = Some w"
begin

lemma learn_all_sound:
  assumes "inv s" "\<forall>(k, v)\<in>set kvs. key k \<and> val v"
  shows "\<exists>t. learn_all learn kvs s = Some t \<and> inv t \<and>
    (\<forall>k v. lookup k t = Some v \<longrightarrow> (case map_of (rev kvs) k of Some w \<Rightarrow> w = v | None \<Rightarrow> lookup k s = Some v))"
  using assms
proof (induction kvs arbitrary: s)
  case (Cons kv kvs)
  obtain k v where kv: "kv = (k, v)" by fastforce
  have k: "key k" "val v" using Cons.prems(2) by (auto simp: kv)
  obtain u where u: "learn k v s = Some u" "inv u" using learn_returns [OF Cons.prems(1) k] by blast
  obtain t where t: "learn_all learn kvs u = Some t" "inv t"
    "\<And>k v. lookup k t = Some v \<Longrightarrow> (case map_of (rev kvs) k of Some w \<Rightarrow> w = v | None \<Rightarrow> lookup k u = Some v)"
    using Cons.IH [OF u(2)] Cons.prems(2) by auto
  have "case map_of (rev kvs @ [(k, v)]) k' of Some w \<Rightarrow> w = v' | None \<Rightarrow> lookup k' s = Some v'" if "lookup k' t = Some v'" for k' v'
    using t(3) [OF that] learn_same [OF Cons.prems(1) k u(1)] learn_other [OF Cons.prems(1) k u(1), of k' v']
    by (cases "k' = k") (auto simp: map_add_def split: option.splits)
  then show ?case using u(1) t(1,2) by (simp add: kv)
qed simp

lemma learn_all_last:
  assumes "inv s" "\<forall>(k, v)\<in>set kvs. key k \<and> val v" "key k" "val v"
  shows "\<exists>t. learn_all learn (kvs @ [(k, v)]) s = Some t \<and> lookup k t = Some v"
  using assms(1,2)
proof (induction kvs arbitrary: s)
  case Nil
  then show ?case using learn_returns [OF Nil(1) assms(3,4)] learn_same [OF Nil(1) assms(3,4)] by auto
next
  case (Cons kv kvs)
  obtain a b where kv: "kv = (a, b)" by fastforce
  obtain u where "learn a b s = Some u" "inv u" using learn_returns [OF Cons.prems(1), of a b] Cons.prems(2) by (auto simp: kv)
  then show ?case using Cons.IH [of u] Cons.prems(2) by (simp add: kv)
qed

end

lemma learn_spec:
  assumes "arp_ok s" "env_ok E" "unicast E netif ip" "length addr = ETH_HWADDR_LEN"
  shows "\<exists>t. arp_learn E netif ip addr s = Some t \<and> arp_ok t \<and> cached ip t = Some addr \<and> (\<forall>k m. k \<noteq> ip \<longrightarrow> cached k t = Some m \<longrightarrow> cached k s = Some m)"
proof -
  obtain t i e where t: "etharp_update_arp_entry E netif ip addr ETHARP_FLAG_TRY_HARD s = Some (ERR_OK, t)" "i < ARP_TABLE_SIZE"
    "arp_table t = (arp_table s)[i := e]" "arp_stable (arp_st e)" "ipaddr e = ip" "ethaddr e = addr"
    by (rule update_learns [OF assms(1-3)])
  have ok: "arp_ok t" using update_arp_entry_ok [OF assms(1,2,4), of netif ip ETHARP_FLAG_TRY_HARD] t(1) by simp
  have l: "length (arp_table s) = ARP_TABLE_SIZE" using assms(1) by (simp add: arp_ok_def)
  have same: "cached ip t = Some addr" unfolding cached_iff [OF ok] using t l by (intro exI [of _ i]) simp
  have "cached k s = Some m" if k: "k \<noteq> ip" "cached k t = Some m" for k m
  proof -
    obtain j where j: "j < ARP_TABLE_SIZE" "arp_stable (arp_st (arp_table t ! j))" "ipaddr (arp_table t ! j) = k" "ethaddr (arp_table t ! j) = m"
      using k(2) unfolding cached_iff [OF ok] by blast
    then have "j \<noteq> i" using k(1) t l by auto
    then show ?thesis unfolding cached_iff [OF assms(1)] using j t(3) by (intro exI [of _ j]) simp
  qed
  then show ?thesis using t(1) ok same by (simp add: arp_learn_def)
qed

interpretation ac: cache "\<lambda>s. arp_ok s \<and> env_ok E" "unicast E netif" "\<lambda>m. length m = ETH_HWADDR_LEN" cached "arp_learn E netif" for E netif
proof (unfold_locales, goal_cases)
  case (1 s k v)
  then show ?case using learn_spec [of s E netif k v] by auto
next
  case (2 s k v t)
  then show ?case using learn_spec [of s E netif k v] by auto
next
  case (3 s k v t k' w)
  then show ?case using learn_spec [of s E netif k v] by auto
qed

section \<open>Ageing\<close>

fun arp_ticks :: "link_env \<Rightarrow> nat \<Rightarrow> arp_state \<Rightarrow> arp_state option" where
  "arp_ticks E 0 s = Some s"
| "arp_ticks E (Suc n) s = Option.bind (etharp_tmr E s) (arp_ticks E n)"

lemma arp_ticks_spec:
  assumes "arp_ok s" "env_ok E"
  shows "\<exists>t. arp_ticks E n s = Some t \<and> arp_ok t \<and> arp_table t = map (aged ^^ n) (arp_table s)"
  using assms(1)
proof (induction n arbitrary: s)
  case (Suc n)
  obtain u where u: "etharp_tmr E s = Some u" "arp_ok u" "arp_table u = map aged (arp_table s)" using tmr_spec [OF Suc.prems assms(2)] by blast
  from Suc.IH [OF u(2)] show ?case using u by (auto simp: funpow_swap1)
qed simp

lemma aged_empty [simp]: "(aged ^^ n) empty_entry = empty_entry" "arp_st e = ETHARP_STATE_EMPTY \<Longrightarrow> (aged ^^ n) e = e"
  by (induction n) (simp_all add: aged_def)

lemma next_ctime: "(c :: u16) < 1000 \<Longrightarrow> unat (c + 1) = unat c + 1"
  by (subst unat_plus) (simp_all add: word_less_nat_alt)

lemma below_max:
  "c < ARP_MAXAGE \<longleftrightarrow> unat c < 300" "c < ARP_MAXPENDING \<longleftrightarrow> unat c < 5"
  by (simp_all add: ARP_MAXAGE_def ARP_MAXPENDING_def word_less_nat_alt)

lemma aged_stable:
  assumes "arp_stable (arp_st e)" "unat (ctime e) < 300"
  shows "if unat (ctime e) + n < 300 then arp_stable (arp_st ((aged ^^ n) e)) \<and> unat (ctime ((aged ^^ n) e)) = unat (ctime e) + n \<and>
      ipaddr ((aged ^^ n) e) = ipaddr e \<and> ethaddr ((aged ^^ n) e) = ethaddr e
    else (aged ^^ n) e = empty_entry"
  using assms
proof (induction n arbitrary: e)
  case (Suc n)
  have c: "unat (ctime e + 1) = unat (ctime e) + 1" using Suc.prems(2) by (intro next_ctime) (simp add: word_less_nat_alt)
  show ?case
  proof (cases "unat (ctime e) + 1 < 300")
    case True
    then have a: "arp_stable (arp_st (aged e))" "ctime (aged e) = ctime e + 1" "ipaddr (aged e) = ipaddr e" "ethaddr (aged e) = ethaddr e"
      using Suc.prems(1) c by (cases "arp_st e"; simp add: aged_def below_max)+
    then show ?thesis using Suc.IH [of "aged e"] True by (simp add: funpow_swap1 c)
  next
    case False
    then have "aged e = empty_entry" using Suc.prems(1) c by (cases "arp_st e") (simp_all add: aged_def below_max)
    then show ?thesis using False by (simp add: funpow_swap1)
  qed
qed simp

lemma aged_pending:
  assumes "arp_st e = ETHARP_STATE_PENDING" "unat (ctime e) < 5"
  shows "(aged ^^ n) e = (if unat (ctime e) + n < 5 then e\<lparr>ctime := ctime e + word_of_nat n\<rparr> else empty_entry)"
  using assms
proof (induction n arbitrary: e)
  case (Suc n)
  have c: "unat (ctime e + 1) = unat (ctime e) + 1" using Suc.prems(2) by (intro next_ctime) (simp add: word_less_nat_alt)
  show ?case
  proof (cases "unat (ctime e) + 1 < 5")
    case True
    then have "aged e = e\<lparr>ctime := ctime e + 1\<rparr>" using Suc.prems(1) c by (simp add: aged_def below_max)
    then show ?thesis using Suc.IH [of "e\<lparr>ctime := ctime e + 1\<rparr>"] Suc.prems(1) True c by (simp add: funpow_swap1 algebra_simps)
  next
    case False
    then have "aged e = empty_entry" using Suc.prems(1) c by (simp add: aged_def below_max)
    then show ?thesis using False by (simp add: funpow_swap1)
  qed
qed simp

section \<open>Properties\<close>

text \<open>
  C21: In every state that the ARP module can reach, in any order of frames received, packets sent, queries, requests, ticks and
  interfaces going down, and whatever the driver and the heap answer, no address has two entries, packets wait only on
  pending entries, the cached index is in the table, and neither the timer nor the sending of a packet fails an assertion.
\<close>

theorem arp_reachable_ok:
  assumes "arp_step\<^sup>*\<^sup>* arp_init s" "env_ok E" "q \<noteq> []" "packet q"
  shows "distinct (map ipaddr (filter (\<lambda>e. arp_st e \<noteq> ETHARP_STATE_EMPTY) (arp_table s))) \<and> length (arp_table s) = ARP_TABLE_SIZE \<and>
    etharp_cached_entry s < ARP_TABLE_SIZE \<and> (\<forall>e\<in>set (arp_table s). queued e \<noteq> None \<longrightarrow> arp_st e = ETHARP_STATE_PENDING) \<and>
    etharp_tmr E s \<noteq> None \<and> etharp_output E netif q ip s \<noteq> None"
proof -
  have ok: "arp_ok s" by (rule ar.reachable_inv [OF refl assms(1)])
  moreover have "\<forall>e\<in>set (arp_table s). queued e \<noteq> None \<longrightarrow> arp_st e = ETHARP_STATE_PENDING"
    using ok by (auto simp: arp_ok_def entry_ok_def list_all_iff)
  moreover have "etharp_tmr E s \<noteq> None" using tmr_spec [OF ok assms(2)] by auto
  moreover have "etharp_output E netif q ip s \<noteq> None" by (rule output_returns [OF ok assms(2-4)])
  ultimately show ?thesis by (simp add: arp_ok_def used_def)
qed

text \<open>
  C23: The table ages as the constants say: after \<open>n\<close> ticks a resolved entry still gives its hardware address if its age was
  below 300 less \<open>n\<close>, and is empty otherwise; a pending entry is kept with its packet for fewer than 5 ticks.
\<close>

theorem arp_ageing:
  assumes "arp_ok s" "env_ok E" "i < ARP_TABLE_SIZE" "e = arp_table s ! i"
  shows "\<exists>t. arp_ticks E n s = Some t \<and>
    (case arp_st e of
       ETHARP_STATE_EMPTY \<Rightarrow> arp_table t ! i = e
     | ETHARP_STATE_PENDING \<Rightarrow> arp_table t ! i = (if unat (ctime e) + n < 5 then e\<lparr>ctime := ctime e + word_of_nat n\<rparr> else empty_entry)
     | _ \<Rightarrow> if unat (ctime e) + n < 300 then cached (ipaddr e) t = Some (ethaddr e) else arp_table t ! i = empty_entry)"
proof -
  obtain t where t: "arp_ticks E n s = Some t" "arp_ok t" "arp_table t = map (aged ^^ n) (arp_table s)"
    using arp_ticks_spec [OF assms(1,2)] by blast
  have e: "arp_table t ! i = (aged ^^ n) e" using t(3) assms(1,3,4) by (simp add: arp_ok_def)
  have ok: "entry_ok e" using arp_ok_entry [OF assms(1,3)] assms(4) by simp
  have st: "if unat (ctime e) + n < 300 then cached (ipaddr e) t = Some (ethaddr e) else arp_table t ! i = empty_entry" if "arp_stable (arp_st e)"
  proof -
    have c: "unat (ctime e) < 300" using ok that by (simp add: entry_ok_def below_max)
    show ?thesis using aged_stable [OF that c, of n] assms(3) unfolding cached_iff [OF t(2)] by (auto simp: e split: if_splits intro!: exI [of _ i])
  qed
  have "arp_table t ! i = (if unat (ctime e) + n < 5 then e\<lparr>ctime := ctime e + word_of_nat n\<rparr> else empty_entry)" if "arp_st e = ETHARP_STATE_PENDING"
    using aged_pending [OF that] ok that by (simp add: e entry_ok_def below_max)
  then show ?thesis using t(1) st e by (cases "arp_st e") simp_all
qed

text \<open>
  C22: The table never invents an address: after any sequence of pairs has been learnt, each with a station's address, the
  last pair is found again, and an address that is found is the latest one learnt, or one that was in the table before.
\<close>

theorem arp_cache_sound:
  assumes "arp_ok s" "env_ok E" "list_all (\<lambda>(ip, m). unicast E netif ip \<and> length m = ETH_HWADDR_LEN) (heard @ [(ip, m)])"
  shows "\<exists>t. learn_all (arp_learn E netif) (heard @ [(ip, m)]) s = Some t \<and> cached ip t = Some m \<and>
    (\<forall>k w. cached k t = Some w \<longrightarrow> (case map_of (rev (heard @ [(ip, m)])) k of Some v \<Rightarrow> v = w | None \<Rightarrow> cached k s = Some w))"
proof -
  have kv: "\<forall>(k, v)\<in>set (heard @ [(ip, m)]). unicast E netif k \<and> length v = ETH_HWADDR_LEN" using assms(3) by (auto simp: list_all_iff)
  then obtain t where t: "learn_all (arp_learn E netif) (heard @ [(ip, m)]) s = Some t" "cached ip t = Some m"
    using ac.learn_all_last [of s E heard netif ip m] assms(1,2) by auto
  show ?thesis using ac.learn_all_sound [OF conjI [OF assms(1,2)] kv] t unfolding t(1) option.inject by (elim exE conjE) (intro exI conjI; simp only:)
qed

section \<open>The exchange between two stations\<close>

lemma take_ram:
  assumes "heap_ok m" "wf_chain q" "packet q" "q \<noteq> []" "ptype (hd q) \<noteq> PBUF_ROM" "alloc_ram m PBUF_LINK (tot_len (hd q)) \<noteq> None"
  obtains ph where "etharp_take m q = Some (Some [ph])" "wf_chain [ph]" "bytes [ph] = bytes q" "ptype ph = PBUF_RAM" "length (front ph) = 16" "rom_scan q \<noteq> Some []"
proof -
  obtain qh qs where q: "q = qh # qs" using assms(4) by (cases q) auto
  obtain b where b: "alloc_ram m PBUF_LINK (tot_len qh) = Some b" using assms(6) q by auto
  obtain th where th: "b = [th]" "wf_chain [th]" "length (payload th) = length (bytes q)" "length (front th) = 16" "ptype th = PBUF_RAM"
    using alloc_ram_spec [OF assms(1) b] wf_tot_len [OF assms(2,4)] by (auto simp: size_defs q)
  have "packet [th]" by (simp add: is_queue_def)
  then obtain ts where ts: "pbuf_copy [th] q = (ERR_OK, ts)" "same_shape [th] ts" "bytes ts = overwrite 0 (bytes q) (bytes [th])"
    using pbuf_copy_spec [OF th(2) assms(2) _ assms(3) _ assms(4)] th(3) by (auto simp: bytes_def)
  obtain ph where ph: "ts = [ph]" "shape th = shape ph" using ts(2) by (cases ts) (auto simp: same_shape_def)
  have r: "rom_scan q = Some q" using assms(3,5) by (auto simp: q is_queue_def)
  have "etharp_take m q = Some (Some [ph])" using r b th(1) ts(1) ph(1) by (simp add: etharp_take_def q)
  moreover have "bytes [ph] = bytes q" using ts(3) th(3) by (simp add: ph(1) overwrite_def bytes_def)
  moreover have "wf_chain [ph]" using same_shape_wf [OF ts(2) th(2)] ph(1) by simp
  ultimately show thesis using that ph(2) th(4,5) r q by (simp add: shape_def)
qed

text \<open>The first packet for an address makes a pending entry that keeps a copy of it, and broadcasts a request.\<close>

lemma query_new:
  assumes "arp_ok s" "env_ok E" "unicast E netif d" "d \<notin> set (used (arp_table s))" "wf_chain q" "packet q" "q \<noteq> []" "ptype (hd q) \<noteq> PBUF_ROM"
    "alloc_ram (heap_at E (allocs s)) PBUF_LINK 28 \<noteq> None" "alloc_ram (heap_at E (Suc (allocs s))) PBUF_LINK (tot_len (hd q)) \<noteq> None"
  obtains t f i ph where "etharp_query E netif d (Some q) s = Some (ERR_OK, t)" "frames t = frames s @ [f]" "wf_chain f"
    "bytes f = eth_hdr ethbroadcast (hwaddr E netif) (lwip_htons ETHTYPE_ARP) @ etharp_hdr ARP_REQUEST (hwaddr E netif) (ip_addr4 (netif_of E netif)) ethzero d"
    "i < ARP_TABLE_SIZE" "arp_st (arp_table t ! i) = ETHARP_STATE_PENDING" "ipaddr (arp_table t ! i) = d" "queued (arp_table t ! i) = Some [ph]"
    "wf_chain [ph]" "bytes [ph] = bytes q" "ptype ph = PBUF_RAM" "length (front ph) = 16"
proof -
  obtain i u where u: "etharp_find_entry (Some d) ETHARP_FLAG_TRY_HARD s = Some (Some i, u)" "created d i s u"
    using assms(1)
  proof (cases rule: find_entry_cases [where a = d and flag = ETHARP_FLAG_TRY_HARD])
    case (found i)
    then show ?thesis using used_nth [of i "arp_table s"] assms(1,4) by (auto simp: found_def arp_ok_def)
  qed (use that in simp_all)
  have i: "i < ARP_TABLE_SIZE" "length (arp_table u) = ARP_TABLE_SIZE" "allocs u = allocs s" "frames u = frames s"
    "arp_st (arp_table u ! i) = ETHARP_STATE_EMPTY" "ipaddr (arp_table u ! i) = d"
    using u(2) assms(1) by (auto simp: created_def arp_ok_def)
  define e where "e = (arp_table u ! i)\<lparr>arp_st := ETHARP_STATE_PENDING, on_netif := Some netif\<rparr>"
  define v where "v = u\<lparr>arp_table := (arp_table u)[i := e]\<rparr>"
  have h: "length (hwaddr E netif) = 6" and a: "alloc_ram (heap_at E (allocs v)) PBUF_LINK 28 \<noteq> None"
    using assms(2,9) i(3) by (simp_all add: v_def hwaddr_6)
  obtain f where f: "etharp_request E netif d v = Some (ERR_OK, v\<lparr>allocs := Suc (allocs v), frames := frames v @ [f]\<rparr>)" "wf_chain f"
    "bytes f = eth_hdr ethbroadcast (hwaddr E netif) (lwip_htons ETHTYPE_ARP) @ etharp_hdr ARP_REQUEST (hwaddr E netif) (ip_addr4 (netif_of E netif)) ethzero d"
    unfolding etharp_request_def etharp_request_dst_def
    by (rule etharp_raw_frame [OF assms(2) a h length_ethbroadcast(1) h length_ethbroadcast(2)])
  obtain ph where ph: "etharp_take (heap_at E (Suc (allocs s))) q = Some (Some [ph])" "wf_chain [ph]" "bytes [ph] = bytes q" "ptype ph = PBUF_RAM" "length (front ph) = 16" "rom_scan q \<noteq> Some []"
    by (rule take_ram [OF _ assms(5-8,10)]) (use assms(2) in \<open>auto simp: env_ok_def\<close>)
  let ?t = "v\<lparr>allocs := Suc (Suc (allocs v)), frames := frames v @ [f], arp_table := (arp_table v)[i := e\<lparr>queued := Some [ph]\<rparr>]\<rparr>"
  have e: "arp_table v ! i = e" "allocs v = allocs s" "\<not> arp_stable (arp_st e)" using i by (simp_all add: v_def e_def)
  have "etharp_query E netif d (Some q) s = Some (ERR_OK, ?t)"
    using assms(3) u(1) f(1) ph(1,6) e unfolding v_def e_def by (simp add: etharp_query_def unicast_def i(5) Let_def)
  then show thesis by (rule that) (use f ph i e in \<open>auto simp: v_def e_def\<close>)
qed

lemma ethertypes_differ: "ETHTYPE_ARP \<noteq> ETHTYPE_IP"
  by (simp add: ETHTYPE_ARP_def ETHTYPE_IP_def)

lemma eth_hdr_type: "length dst = 6 \<Longrightarrow> length src = 6 \<Longrightarrow> get16 (eth_hdr dst src w @ d) 12 = w"
  by (simp add: eth_hdr_def get16_def mem16_def nth_append)

lemma etharp_hdr_fields:
  assumes "length hs = 6" "length hwd = 6"
  shows "get16 (etharp_hdr opc hs si hwd di @ d) 0 = lwip_htons HWTYPE_ETHERNET" "get16 (etharp_hdr opc hs si hwd di @ d) 2 = lwip_htons ETHTYPE_IP"
    "(etharp_hdr opc hs si hwd di @ d) ! 4 = word_of_nat ETH_HWADDR_LEN" "(etharp_hdr opc hs si hwd di @ d) ! 5 = 4"
    "get16 (etharp_hdr opc hs si hwd di @ d) 6 = lwip_htons opc" "take 6 (drop 8 (etharp_hdr opc hs si hwd di @ d)) = hs"
    "get_addr (etharp_hdr opc hs si hwd di @ d) 14 = si" "get_addr (etharp_hdr opc hs si hwd di @ d) 24 = di"
  using assms by (simp_all add: etharp_hdr_def get16_def get_addr_def mem16_def mem32_def nth_append)

text \<open>A received frame with an ARP packet for this station: its sender is learnt and a request is answered.\<close>

lemma arp_received:
  assumes "wf_chain r" "bytes r = eth_hdr dst src (lwip_htons ETHTYPE_ARP) @ etharp_hdr opc hs si hwd di @ pad" "r \<noteq> []" "42 \<le> length (payload (hd r))"
    "flag_etharp E netif" "length dst = 6" "length src = 6" "length hs = 6" "length hwd = 6" "di = ip_addr4 (netif_of E netif)" "di \<noteq> IPADDR_ANY"
  shows "ethernet_input E netif r s =
    map_option (Pair Eth_Arp) (case etharp_update_arp_entry E netif si hs ETHARP_FLAG_TRY_HARD s of
      None \<Rightarrow> None
    | Some (_, s) \<Rightarrow>
        if opc = ARP_REQUEST then map_option snd (etharp_raw E netif (hwaddr E netif) hs (hwaddr E netif) di hs si ARP_REPLY s)
        else if opc = ARP_REPLY then Some (s\<lparr>dhcp_calls := dhcp_calls s @ [(netif, si)]\<rparr>)
        else Some s)"
proof -
  obtain rh rs where r: "r = rh # rs" using assms(3) by (cases r) auto
  let ?a = "etharp_hdr opc hs si hwd di" and ?e = "eth_hdr dst src (lwip_htons ETHTYPE_ARP)"
  define d where "d = take (length (payload rh) - 42) pad"
  have "payload rh = take (length (payload rh)) (bytes r)" by (simp add: r)
  also have "\<dots> = ?e @ ?a @ d" unfolding assms(2) using assms(4,6-9) by (simp add: r d_def)
  finally have pl: "payload rh = ?e @ ?a @ d" .
  have n: "unat (len rh) = length (payload rh)" using assms(1) wf_small [of r] by (simp add: r unat_len)
  have m: "payload (mark_flags rh) = payload rh" "len (mark_flags rh) = len rh" by (simp_all add: mark_flags_def Let_def len_def)
  have h: "pbuf_header (mark_flags rh) (- 14) = Some (0, hide 14 (mark_flags rh))" "payload (hide 14 (mark_flags rh)) = ?a @ d"
    using n m assms(4,6,7) by (simp_all add: pbuf_header_def pbuf_header_impl_def r hide_def pl)
  have inj: "lwip_htons x = lwip_htons y \<longleftrightarrow> x = y" for x y by (metis htons_htons)
  have op: "lwip_htons ETHTYPE_ARP \<noteq> lwip_htons ETHTYPE_IP" by (simp add: inj ethertypes_differ)
  have arp: "etharp_input E netif (hide 14 (mark_flags rh) # rs) s =
    (case etharp_update_arp_entry E netif si hs ETHARP_FLAG_TRY_HARD s of
      None \<Rightarrow> None
    | Some (_, s) \<Rightarrow>
        if opc = ARP_REQUEST then map_option snd (etharp_raw E netif (hwaddr E netif) hs (hwaddr E netif) di hs si ARP_REPLY s)
        else if opc = ARP_REPLY then Some (s\<lparr>dhcp_calls := dhcp_calls s @ [(netif, si)]\<rparr>)
        else Some s)"
    using assms(10,11) unfolding etharp_input_def list.case h(2) Let_def etharp_hdr_fields [OF assms(8,9)] inj
    by (simp add: assms(8,9) SIZEOF_ETHARP_HDR_def split: option.split)
  have "get16 (payload rh) 12 = lwip_htons ETHTYPE_ARP" unfolding pl by (rule eth_hdr_type [OF assms(6,7)])
  then show ?thesis using n assms(4,5) op h(1) arp by (simp add: ethernet_input_def r SIZEOF_ETH_HDR_def Let_def)
qed

lemma ethernet_output_allocs: "ethernet_output E netif p src dst type s = Some (err, t) \<Longrightarrow> allocs t = allocs s"
  by (auto simp: ethernet_output_def Let_def split: list.splits option.splits if_splits)

lemma update_allocs: "arp_ok s \<Longrightarrow> etharp_update_arp_entry E netif ip addr flag s = Some (err, t) \<Longrightarrow> allocs t = allocs s"
  by (cases rule: find_entry_cases [where s = s and a = ip and flag = flag])
    (auto simp: etharp_update_arp_entry_def created_def Let_def dest!: ethernet_output_allocs split: if_splits option.splits)

text \<open>A frame as it is received: its bytes, perhaps padded, the headers in the first buffer.\<close>

definition received :: "chain \<Rightarrow> chain \<Rightarrow> bool" where
  "received f r \<longleftrightarrow> wf_chain r \<and> r \<noteq> [] \<and> take (length (bytes f)) (bytes r) = bytes f \<and> 42 \<le> length (payload (hd r))"

lemma received_bytes: "received f r \<Longrightarrow> bytes r = bytes f @ drop (length (bytes f)) (bytes r)"
  by (metis append_take_drop_id received_def)

text \<open>A frame with an IP packet reaches IP with the bytes that were sent.\<close>

lemma ip_frame_received:
  assumes "received f r" "bytes f = eth_hdr dst src (lwip_htons ETHTYPE_IP) @ d" "length dst = 6" "length src = 6" "flag_etharp E netif"
  shows "\<exists>p. ethernet_input E netif r s = Some (Eth_Ip p, s) \<and> wf_chain p \<and> take (length d) (bytes p) = d"
proof -
  obtain rh rs where r: "r = rh # rs" "wf_chain (rh # rs)" "42 \<le> length (payload rh)" using assms(1) by (cases r) (auto simp: received_def)
  obtain pad where b: "bytes (rh # rs) = eth_hdr dst src (lwip_htons ETHTYPE_IP) @ d @ pad" using received_bytes [OF assms(1)] assms(2) r(1) by simp
  have n: "unat (len rh) = length (payload rh)" using r(2) wf_small [OF r(2)] by (simp add: unat_len)
  have m: "payload (mark_flags rh) = payload rh" "len (mark_flags rh) = len rh" "tot_len (mark_flags rh) = tot_len rh" by (simp_all add: mark_flags_def Let_def len_def)
  have wf: "wf_chain (mark_flags rh # rs)" using r(2) m by simp
  let ?p = "hide 14 (mark_flags rh) # rs"
  have "take 14 (payload rh) = take 14 (bytes (rh # rs))" using r(3) by simp
  also have "\<dots> = eth_hdr dst src (lwip_htons ETHTYPE_IP)" unfolding b using assms(3,4) by simp
  finally have "payload rh = eth_hdr dst src (lwip_htons ETHTYPE_IP) @ drop 14 (payload rh)" by (metis append_take_drop_id)
  then have "get16 (payload rh) 12 = lwip_htons ETHTYPE_IP" using eth_hdr_type [OF assms(3,4)] by metis
  moreover have "pbuf_header (mark_flags rh) (- 14) = Some (0, hide 14 (mark_flags rh))" using n m r(3) by (simp add: pbuf_header_def pbuf_header_impl_def)
  ultimately have "ethernet_input E netif r s = Some (Eth_Ip ?p, s)" using n r(1,3) assms(5) by (simp add: ethernet_input_def SIZEOF_ETH_HDR_def Let_def)
  moreover have "wf_chain ?p" using header_wf(1) [OF wf, of 14] m(1) r(3) by simp
  moreover have "bytes ?p = drop 14 (bytes (rh # rs))" using m(1) r(3) by (simp add: hide_def)
  then have "bytes ?p = d @ pad" unfolding b using assms(3,4) by simp
  ultimately show ?thesis by auto
qed

lemma unresolved_is_queried:
  assumes "arp_ok s" "unicast E netif d" "ip4_addr_netcmp d (ip_addr4 (netif_of E netif)) (netmask4 (netif_of E netif))" "d \<notin> set (used (arp_table s))"
  shows "etharp_output E netif q d s = etharp_query E netif d (Some q) s"
proof -
  have u: "\<not> (arp_stable (arp_st (arp_table s ! i)) \<and> d = ipaddr (arp_table s ! i))" if "i < ARP_TABLE_SIZE" for i
    using used_nth [of i "arp_table s"] that assms(1,4) by (auto simp: arp_ok_def stable_cases)
  have "stable_loop d (arp_table s) 0 = None"
  proof (rule ccontr)
    assume "stable_loop d (arp_table s) 0 \<noteq> None"
    then obtain k where "stable_loop d (arp_table s) 0 = Some k" by blast
    from stable_loop_Some [OF this] show False using u [of k] assms(1) by (simp add: arp_ok_def)
  qed
  then show ?thesis using u [of "etharp_cached_entry s"] assms(1-3) by (auto simp: etharp_output_def unicast_def arp_ok_def Let_def)
qed

text \<open>The station that is asked learns the address of the other and answers it.\<close>

lemma request_answered:
  assumes "arp_ok t" "env_ok F" "unicast F k a" "length ma = 6" "ip_addr4 (netif_of F k) = b" "b \<noteq> IPADDR_ANY" "flag_etharp F k"
    "alloc_ram (heap_at F (allocs t)) PBUF_LINK 28 \<noteq> None" "received f r"
    "bytes f = eth_hdr ethbroadcast ma (lwip_htons ETHTYPE_ARP) @ etharp_hdr ARP_REQUEST ma a ethzero b"
  shows "\<exists>t' g. ethernet_input F k r t = Some (Eth_Arp, t') \<and> cached a t' = Some ma \<and> last (frames t') = g \<and>
    bytes g = eth_hdr ma (hwaddr F k) (lwip_htons ETHTYPE_ARP) @ etharp_hdr ARP_REPLY (hwaddr F k) b ma a"
proof -
  obtain u i e where u: "etharp_update_arp_entry F k a ma ETHARP_FLAG_TRY_HARD t = Some (ERR_OK, u)" "i < ARP_TABLE_SIZE"
    "arp_table u = (arp_table t)[i := e]" "arp_stable (arp_st e)" "ipaddr e = a" "ethaddr e = ma"
    by (rule update_learns [OF assms(1-3)])
  have al: "alloc_ram (heap_at F (allocs u)) PBUF_LINK 28 \<noteq> None" using assms(8) update_allocs [OF assms(1) u(1)] by simp
  have h: "length (hwaddr F k) = 6" by (rule hwaddr_6 [OF assms(2)])
  obtain g where g: "etharp_raw F k (hwaddr F k) ma (hwaddr F k) b ma a ARP_REPLY u = Some (ERR_OK, u\<lparr>allocs := Suc (allocs u), frames := frames u @ [g]\<rparr>)"
    "bytes g = eth_hdr ma (hwaddr F k) (lwip_htons ETHTYPE_ARP) @ etharp_hdr ARP_REPLY (hwaddr F k) b ma a"
    by (rule etharp_raw_frame [OF assms(2) al h assms(4) h assms(4)])
  let ?t = "u\<lparr>allocs := Suc (allocs u), frames := frames u @ [g]\<rparr>"
  have r: "bytes r = eth_hdr ethbroadcast ma (lwip_htons ETHTYPE_ARP) @ etharp_hdr ARP_REQUEST ma a ethzero b @ drop (length (bytes f)) (bytes r)"
    using received_bytes [OF assms(9)] assms(10) by simp
  have in': "ethernet_input F k r t = Some (Eth_Arp, ?t)"
    using arp_received [OF _ r _ _ assms(7), of t] assms(4,5,6,9) u(1) g(1) by (simp add: received_def)
  have ok: "arp_ok ?t" by (rule ethernet_input_ok [OF assms(1,2) in'])
  have "cached a ?t = Some ma" unfolding cached_iff [OF ok] using u assms(1) by (intro exI [of _ i]) (simp add: arp_ok_def)
  then show ?thesis using in' g(2) by simp
qed

text \<open>The answer resolves the pending entry, and the packet that waited there is sent.\<close>

lemma answer_resolves:
  assumes "arp_ok s" "env_ok E" "unicast E n b" "length mb = 6" "ip_addr4 (netif_of E n) = a" "a \<noteq> IPADDR_ANY" "flag_etharp E n" "received g r"
    "bytes g = eth_hdr (hwaddr E n) mb (lwip_htons ETHTYPE_ARP) @ etharp_hdr ARP_REPLY mb b (hwaddr E n) a"
    "i < ARP_TABLE_SIZE" "arp_st (arp_table s ! i) = ETHARP_STATE_PENDING" "ipaddr (arp_table s ! i) = b" "queued (arp_table s ! i) = Some [ph]"
    "wf_chain [ph]" "ptype ph = PBUF_RAM" "length (front ph) = 16" "length (bytes [ph]) + 14 < 65536"
  shows "\<exists>s'. ethernet_input E n r s = Some (Eth_Arp, s') \<and> cached b s' = Some mb \<and>
    bytes (last (frames s')) = eth_hdr mb (hwaddr E n) (lwip_htons ETHTYPE_IP) @ bytes [ph]"
proof -
  have h: "length (hwaddr E n) = 6" by (rule hwaddr_6 [OF assms(2)])
  have l: "length (arp_table s) = ARP_TABLE_SIZE" using assms(1) by (simp add: arp_ok_def)
  have fe: "etharp_find_entry (Some b) ETHARP_FLAG_TRY_HARD s = Some (Some i, s)" using find_entry_at [OF assms(1,10) _ assms(12)] assms(11) by simp
  define u where "u = s\<lparr>arp_table := (arp_table s)[i := learnt n mb (arp_table s ! i)]\<rparr>"
  have room: "14 \<le> length (front ph)" using assms(16) by simp
  obtain f where f: "ethernet_output E n [ph] (hwaddr E n) mb ETHTYPE_IP u = Some (linkoutput E f, u\<lparr>frames := frames u @ [f]\<rparr>)"
    "bytes f = eth_hdr mb (hwaddr E n) (lwip_htons ETHTYPE_IP) @ bytes [ph]"
    by (rule ethernet_output_frame [OF assms(2,14,15) room assms(17) h assms(4)])
  have up: "etharp_update_arp_entry E n b mb ETHARP_FLAG_TRY_HARD s = Some (ERR_OK, u\<lparr>frames := frames u @ [f]\<rparr>)"
    unfolding update_unfold [OF assms(2,3) fe] using f(1) assms(13) by (simp add: u_def [symmetric] Let_def)
  let ?s = "u\<lparr>frames := frames u @ [f], dhcp_calls := dhcp_calls u @ [(n, b)]\<rparr>"
  have r: "bytes r = eth_hdr (hwaddr E n) mb (lwip_htons ETHTYPE_ARP) @ etharp_hdr ARP_REPLY mb b (hwaddr E n) a @ drop (length (bytes g)) (bytes r)"
    using received_bytes [OF assms(8)] assms(9) by simp
  have in': "ethernet_input E n r s = Some (Eth_Arp, ?s)"
    using arp_received [OF _ r _ _ assms(7), of s] assms(4-6,8) h up by (simp add: received_def ARP_REQUEST_def ARP_REPLY_def)
  have ok: "arp_ok ?s" by (rule ethernet_input_ok [OF assms(1,2) in'])
  have "cached b ?s = Some mb" unfolding cached_iff [OF ok] using assms(10,12) l by (intro exI [of _ i]) (simp add: u_def)
  then show ?thesis using in' f(2) by simp
qed

text \<open>
  C20: Two stations on one link resolve each other, given memory for the packet and the frames: a packet for an address that is not in the table is
  kept and one frame goes out, a request
  for that address to the broadcast address; the station with the address learns the sender's hardware address and answers to it alone; and the answer makes the first
  station send the kept packet to the other's hardware address, where it reaches IP byte for byte, however the frames were cut and padded on the way.
\<close>

theorem arp_exchange:
  assumes "arp_ok s" "env_ok E" "unicast E n b" "ip4_addr_netcmp b a (netmask4 (netif_of E n))" "b \<notin> set (used (arp_table s))"
    and "wf_chain q" "packet q" "q \<noteq> []" "ptype (hd q) \<noteq> PBUF_ROM" "length (bytes q) + 14 < 65536"
    and "alloc_ram (heap_at E (allocs s)) PBUF_LINK 28 \<noteq> None" "alloc_ram (heap_at E (Suc (allocs s))) PBUF_LINK (tot_len (hd q)) \<noteq> None"
    and "arp_ok t" "env_ok F" "unicast F k a" "alloc_ram (heap_at F (allocs t)) PBUF_LINK 28 \<noteq> None"
    and "ip_addr4 (netif_of E n) = a" "ip_addr4 (netif_of F k) = b" "flag_etharp E n" "flag_etharp F k"
  shows "\<exists>s1 f. etharp_output E n q b s = Some (ERR_OK, s1) \<and> frames s1 = frames s @ [f] \<and>
    bytes f = eth_hdr (replicate 6 0xff) (hwaddr E n) (lwip_htons ETHTYPE_ARP) @ etharp_hdr ARP_REQUEST (hwaddr E n) a ethzero b \<and>
    (\<forall>r. received f r \<longrightarrow>
      (\<exists>t1. ethernet_input F k r t = Some (Eth_Arp, t1) \<and> cached a t1 = Some (hwaddr E n) \<and>
        bytes (last (frames t1)) = eth_hdr (hwaddr E n) (hwaddr F k) (lwip_htons ETHTYPE_ARP) @ etharp_hdr ARP_REPLY (hwaddr F k) b (hwaddr E n) a \<and>
        (\<forall>r. received (last (frames t1)) r \<longrightarrow>
          (\<exists>s2. ethernet_input E n r s1 = Some (Eth_Arp, s2) \<and> cached b s2 = Some (hwaddr F k) \<and>
            bytes (last (frames s2)) = eth_hdr (hwaddr F k) (hwaddr E n) (lwip_htons ETHTYPE_IP) @ bytes q \<and>
            (\<forall>r. received (last (frames s2)) r \<longrightarrow>
              (\<exists>p. ethernet_input F k r t1 = Some (Eth_Ip p, t1) \<and> wf_chain p \<and> take (length (bytes q)) (bytes p) = bytes q))))))"
proof -
  obtain s1 f i ph where s1: "etharp_query E n b (Some q) s = Some (ERR_OK, s1)" "frames s1 = frames s @ [f]" "wf_chain f"
    "bytes f = eth_hdr ethbroadcast (hwaddr E n) (lwip_htons ETHTYPE_ARP) @ etharp_hdr ARP_REQUEST (hwaddr E n) (ip_addr4 (netif_of E n)) ethzero b"
    and i: "i < ARP_TABLE_SIZE" "arp_st (arp_table s1 ! i) = ETHARP_STATE_PENDING" "ipaddr (arp_table s1 ! i) = b" "queued (arp_table s1 ! i) = Some [ph]"
    and ph: "wf_chain [ph]" "bytes [ph] = bytes q" "ptype ph = PBUF_RAM" "length (front ph) = 16"
    by (rule query_new [OF assms(1-3,5-9,11,12)])
  have ok: "arp_ok s1" by (rule query_ok [OF assms(1,2) _ s1(1)]) (use assms(8) in simp)
  have ne: "a \<noteq> IPADDR_ANY" "b \<noteq> IPADDR_ANY" using assms(3,15) by (simp_all add: unicast_def)
  have out: "etharp_output E n q b s = Some (ERR_OK, s1)" using unresolved_is_queried [OF assms(1,3) _ assms(5)] assms(4,17) s1(1) by simp
  have q: "length (bytes [ph]) + 14 < 65536" using ph(2) assms(10) by simp
  have "\<exists>t1. ethernet_input F k r t = Some (Eth_Arp, t1) \<and> cached a t1 = Some (hwaddr E n) \<and>
      bytes (last (frames t1)) = eth_hdr (hwaddr E n) (hwaddr F k) (lwip_htons ETHTYPE_ARP) @ etharp_hdr ARP_REPLY (hwaddr F k) b (hwaddr E n) a \<and>
      (\<forall>r. received (last (frames t1)) r \<longrightarrow> (\<exists>s2. ethernet_input E n r s1 = Some (Eth_Arp, s2) \<and> cached b s2 = Some (hwaddr F k) \<and>
            bytes (last (frames s2)) = eth_hdr (hwaddr F k) (hwaddr E n) (lwip_htons ETHTYPE_IP) @ bytes q \<and>
            (\<forall>r. received (last (frames s2)) r \<longrightarrow>
              (\<exists>p. ethernet_input F k r t1 = Some (Eth_Ip p, t1) \<and> wf_chain p \<and> take (length (bytes q)) (bytes p) = bytes q))))"
    if r: "received f r" for r
  proof -
    obtain t1 where t1: "ethernet_input F k r t = Some (Eth_Arp, t1)" "cached a t1 = Some (hwaddr E n)"
      "bytes (last (frames t1)) = eth_hdr (hwaddr E n) (hwaddr F k) (lwip_htons ETHTYPE_ARP) @ etharp_hdr ARP_REPLY (hwaddr F k) b (hwaddr E n) a"
      using request_answered [OF assms(13-15) hwaddr_6 [OF assms(2)] assms(18) ne(2) assms(20,16) r s1(4) [unfolded assms(17)]] by auto
    have "\<exists>s2. ethernet_input E n r' s1 = Some (Eth_Arp, s2) \<and> cached b s2 = Some (hwaddr F k) \<and>
        bytes (last (frames s2)) = eth_hdr (hwaddr F k) (hwaddr E n) (lwip_htons ETHTYPE_IP) @ bytes q \<and>
        (\<forall>r. received (last (frames s2)) r \<longrightarrow>
          (\<exists>p. ethernet_input F k r t1 = Some (Eth_Ip p, t1) \<and> wf_chain p \<and> take (length (bytes q)) (bytes p) = bytes q))"
      if r': "received (last (frames t1)) r'" for r'
    proof -
      obtain s2 where s2: "ethernet_input E n r' s1 = Some (Eth_Arp, s2)" "cached b s2 = Some (hwaddr F k)"
        "bytes (last (frames s2)) = eth_hdr (hwaddr F k) (hwaddr E n) (lwip_htons ETHTYPE_IP) @ bytes q"
        using answer_resolves [OF ok assms(2,3) hwaddr_6 [OF assms(14)] assms(17) ne(1) assms(19) r' t1(3) i ph(1,3,4) q] unfolding ph(2) by metis
      show ?thesis
        by (intro exI [of _ s2] conjI allI impI s2, rule ip_frame_received [OF _ s2(3) hwaddr_6 [OF assms(14)] hwaddr_6 [OF assms(2)] assms(20)])
    qed
    with t1 show ?thesis by metis
  qed
  note inner = this
  have b: "replicate 6 0xff = ethbroadcast" by (simp add: ethbroadcast_def numeral_eq_Suc)
  show ?thesis
    unfolding b by (rule exI [of _ s1], rule exI [of _ f], intro conjI allI impI, rule out, rule s1(2), rule s1(4) [unfolded assms(17)], erule inner)
qed

text \<open>A frame that ends inside its ARP packet: the fields behind its end are read all the same.\<close>

lemma arp_short_overread:
  assumes "wf_chain [rh]" "payload rh = eth_hdr dst src (lwip_htons ETHTYPE_ARP) @ take m (etharp_hdr opc hs si hwd di)" "6 \<le> m" "m < 28"
    "length dst = 6" "length src = 6" "length hs = 6" "length hwd = 6" "flag_etharp E netif"
  shows "ethernet_input E netif [rh] s = None"
proof -
  let ?a = "take m (etharp_hdr opc hs si hwd di)"
  have n: "unat (len rh) = 14 + m" using assms wf_small [OF assms(1)] by (simp add: unat_len)
  have m: "payload (mark_flags rh) = payload rh" "len (mark_flags rh) = len rh" by (simp_all add: mark_flags_def Let_def len_def)
  have h: "pbuf_header (mark_flags rh) (- 14) = Some (0, hide 14 (mark_flags rh))" "payload (hide 14 (mark_flags rh)) = ?a"
    using n m assms(2,5,6) by (simp_all add: pbuf_header_def pbuf_header_impl_def hide_def)
  have a: "length ?a = m" "get16 ?a 0 = get16 (etharp_hdr opc hs si hwd di @ []) 0" "get16 ?a 2 = get16 (etharp_hdr opc hs si hwd di @ []) 2"
    "?a ! 4 = (etharp_hdr opc hs si hwd di @ []) ! 4" "?a ! 5 = (etharp_hdr opc hs si hwd di @ []) ! 5"
    using assms(3,4,7,8) by (simp_all add: get16_def)
  have "etharp_input E netif [hide 14 (mark_flags rh)] s = None"
    unfolding etharp_input_def list.case h(2) Let_def a etharp_hdr_fields [OF assms(7,8)] using assms(3,4) by (simp add: SIZEOF_ETHARP_HDR_def)
  moreover have "get16 (payload rh) 12 = lwip_htons ETHTYPE_ARP" unfolding assms(2) by (rule eth_hdr_type [OF assms(5,6)])
  moreover have "lwip_htons ETHTYPE_ARP \<noteq> lwip_htons ETHTYPE_IP" by (metis htons_htons ethertypes_differ)
  ultimately show ?thesis using n assms(3,9) h(1) by (simp add: ethernet_input_def SIZEOF_ETH_HDR_def Let_def)
qed

section \<open>Instances\<close>

definition station :: "u32 \<Rightarrow> u8 \<Rightarrow> link_env" where
  "station ip m = \<lparr>linkoutput = \<lambda>_. ERR_OK, heap_at = \<lambda>_ n. Some (replicate (unat n) 0), netif_of = \<lambda>_. eth0\<lparr>ip_addr4 := ip\<rparr>,
     hwaddr = \<lambda>_. [2, 0, 0, 0, 0, m], flag_etharp = \<lambda>_. True\<rparr>"

lemma station_ok: "env_ok (station ip m)"
  by (simp add: env_ok_def station_def heap_ok_def ETH_HWADDR_LEN_def)

lemma station_alloc: "alloc_ram (heap_at (station ip m) k) PBUF_LINK 28 \<noteq> None" "alloc_ram (heap_at (station ip m) k) PBUF_LINK 3 \<noteq> None"
  by (simp_all add: station_def alloc_ram_def Let_def SIZEOF_STRUCT_PBUF_def mem_align_def PBUF_LINK_HLEN_def)

lemma station_unicast: "unicast (station 0x6500a8c0 m) n 0x6600a8c0" "unicast (station 0x6600a8c0 m) n 0x6500a8c0"
  by (simp_all add: unicast_def station_def eth0_def ip4_addr_isbroadcast_u32_def ip4_addr_netcmp_def ip4_addr_ismulticast_def lwip_htonl_def
      IPADDR_ANY_def IPADDR_BROADCAST_def)

lemma station_link: "ip4_addr_netcmp 0x6600a8c0 0x6500a8c0 (netmask4 (netif_of (station ip m) n))"
  by (simp add: ip4_addr_netcmp_def station_def eth0_def)

lemma ping_ok: "wf_chain ping" "packet ping" "ping \<noteq> []" "ptype (hd ping) \<noteq> PBUF_ROM" "length (bytes ping) + 14 < 65536" "tot_len (hd ping) = 3" "bytes ping = [1, 2, 3]"
  by (simp_all add: ping_def is_queue_def)

lemma used_init: "x \<notin> set (used (arp_table arp_init))"
  by (simp add: arp_init_def)

theorem arp_exchange_witness:
  "\<exists>s1 f. etharp_output (station 0x6500a8c0 1) 0 ping 0x6600a8c0 arp_init = Some (ERR_OK, s1) \<and> frames s1 = [] @ [f] \<and>
    bytes f = eth_hdr (replicate 6 0xff) [2, 0, 0, 0, 0, 1] (lwip_htons ETHTYPE_ARP) @ etharp_hdr ARP_REQUEST [2, 0, 0, 0, 0, 1] 0x6500a8c0 ethzero 0x6600a8c0 \<and>
    (\<forall>r. received f r \<longrightarrow>
      (\<exists>t1. ethernet_input (station 0x6600a8c0 2) 0 r arp_init = Some (Eth_Arp, t1) \<and> cached 0x6500a8c0 t1 = Some [2, 0, 0, 0, 0, 1] \<and>
        bytes (last (frames t1)) = eth_hdr [2, 0, 0, 0, 0, 1] [2, 0, 0, 0, 0, 2] (lwip_htons ETHTYPE_ARP) @
          etharp_hdr ARP_REPLY [2, 0, 0, 0, 0, 2] 0x6600a8c0 [2, 0, 0, 0, 0, 1] 0x6500a8c0 \<and>
        (\<forall>r. received (last (frames t1)) r \<longrightarrow>
          (\<exists>s2. ethernet_input (station 0x6500a8c0 1) 0 r s1 = Some (Eth_Arp, s2) \<and> cached 0x6600a8c0 s2 = Some [2, 0, 0, 0, 0, 2] \<and>
            bytes (last (frames s2)) = [2, 0, 0, 0, 0, 2, 2, 0, 0, 0, 0, 1, 8, 0, 1, 2, 3] \<and>
            (\<forall>r. received (last (frames s2)) r \<longrightarrow>
              (\<exists>p. ethernet_input (station 0x6600a8c0 2) 0 r t1 = Some (Eth_Ip p, t1) \<and> wf_chain p \<and> take 3 (bytes p) = [1, 2, 3]))))))"
proof -
  have al: "alloc_ram (heap_at (station ip m) k) PBUF_LINK (tot_len (hd ping)) \<noteq> None" for ip m k unfolding ping_ok(6) by (rule station_alloc(2))
  have hw: "hwaddr (station ip m) k = [2, 0, 0, 0, 0, m]" for ip m k by (simp add: station_def)
  have ip: "ip_addr4 (netif_of (station ip m) 0) = ip" "flag_etharp (station ip m) 0" for ip m by (simp_all add: station_def)
  have three: "length [1, 2, 3 :: u8] = 3" by simp
  have eth: "eth_hdr [2, 0, 0, 0, 0, 2] [2, 0, 0, 0, 0, 1] (lwip_htons ETHTYPE_IP) @ [1, 2, 3] = [2, 0, 0, 0, 0, 2, 2, 0, 0, 0, 0, 1, 8, 0, 1, 2, 3]"
    by (simp add: eth_hdr_def mem16_htons ETHTYPE_IP_def)
  have none: "frames arp_init = []" by (simp add: arp_init_def)
  show ?thesis
    by (rule arp_exchange [of arp_init "station 0x6500a8c0 1" 0 "0x6600a8c0" "0x6500a8c0" ping arp_init "station 0x6600a8c0 2" 0,
      OF arp_init_ok station_ok station_unicast(1) station_link used_init ping_ok(1-5) station_alloc(1) al arp_init_ok station_ok
      station_unicast(2) station_alloc(1) ip(1) ip(1) ip(2) ip(2), unfolded hw ping_ok(7) three eth none])
qed

text \<open>The state after the first packet for an address: one step from the start.\<close>

lemma first_packet:
  obtains s f where "etharp_output (station 0x6500a8c0 1) 0 ping 0x6600a8c0 arp_init = Some (ERR_OK, s)" "arp_step\<^sup>*\<^sup>* arp_init s"
proof -
  have al: "alloc_ram (heap_at (station 0x6500a8c0 1) (Suc (allocs arp_init))) PBUF_LINK (tot_len (hd ping)) \<noteq> None" unfolding ping_ok(6) by (rule station_alloc(2))
  obtain s where s: "etharp_query (station 0x6500a8c0 1) 0 0x6600a8c0 (Some ping) arp_init = Some (ERR_OK, s)"
    by (rule query_new [OF arp_init_ok station_ok station_unicast(1) used_init ping_ok(1-4) station_alloc(1) al])
  have n: "ip4_addr_netcmp 0x6600a8c0 (ip_addr4 (netif_of (station 0x6500a8c0 1) 0)) (netmask4 (netif_of (station 0x6500a8c0 1) 0))"
    using station_link [of "0x6500a8c0" 1 0] by (simp add: station_def)
  have o: "etharp_output (station 0x6500a8c0 1) 0 ping 0x6600a8c0 arp_init = Some (ERR_OK, s)"
    using unresolved_is_queried [OF arp_init_ok station_unicast(1) n used_init] s by simp
  show thesis using o arp_step.send [OF station_ok ping_ok(3) o] by (intro that) auto
qed

theorem arp_reachable_ok_witness:
  "\<exists>s. etharp_output (station 0x6500a8c0 1) 0 ping 0x6600a8c0 arp_init = Some (ERR_OK, s) \<and> etharp_tmr (station 0x6500a8c0 1) s \<noteq> None \<and>
    etharp_output (station 0x6500a8c0 1) 0 ping 0x6700a8c0 s \<noteq> None"
proof -
  obtain s where s: "etharp_output (station 0x6500a8c0 1) 0 ping 0x6600a8c0 arp_init = Some (ERR_OK, s)" "arp_step\<^sup>*\<^sup>* arp_init s" by (rule first_packet)
  from arp_reachable_ok [OF s(2) station_ok ping_ok(3,2), of "0x6500a8c0" 1 0 "0x6700a8c0"] show ?thesis using s(1) by blast
qed

text \<open>A table with one resolved entry, 290 ticks old.\<close>

definition old_table :: arp_state where
  "old_table = arp_init\<lparr>arp_table := (arp_table arp_init)[3 := \<lparr>queued = None, ipaddr = 0x6600a8c0, on_netif = Some 0, ethaddr = [2, 0, 0, 0, 0, 2],
     ctime = 290, arp_st = ETHARP_STATE_STABLE\<rparr>]\<rparr>"

lemma old_table_ok: "arp_ok old_table"
  unfolding old_table_def
  by (rule arp_ok_update [OF arp_init_ok]) (use used_free [of "arp_table arp_init" 3] used_init [of "0x6600a8c0"] in
    \<open>auto simp: ARP_TABLE_SIZE_def entry_ok_def ARP_MAXAGE_def ETH_HWADDR_LEN_def IPADDR_ANY_def\<close>)

theorem arp_ageing_witness:
  "(\<exists>t. arp_ticks (station 0x6500a8c0 1) 9 old_table = Some t \<and> cached 0x6600a8c0 t = Some [2, 0, 0, 0, 0, 2]) \<and>
   (\<exists>t. arp_ticks (station 0x6500a8c0 1) 10 old_table = Some t \<and> arp_table t ! 3 = empty_entry)"
proof -
  have i: "3 < ARP_TABLE_SIZE" and e: "arp_table old_table ! 3 = \<lparr>queued = None, ipaddr = 0x6600a8c0, on_netif = Some 0, ethaddr = [2, 0, 0, 0, 0, 2],
     ctime = 290, arp_st = ETHARP_STATE_STABLE\<rparr>" by (simp_all add: ARP_TABLE_SIZE_def old_table_def arp_init_def)
  show ?thesis using arp_ageing [OF old_table_ok station_ok i refl, of "0x6500a8c0" 1 9] arp_ageing [OF old_table_ok station_ok i refl, of "0x6500a8c0" 1 10]
    unfolding e by simp
qed

theorem arp_cache_sound_witness:
  "\<exists>t. learn_all (arp_learn (station 0x6500a8c0 1) 0) [(0x6600a8c0, [2, 0, 0, 0, 0, 9]), (0x6600a8c0, [2, 0, 0, 0, 0, 2])] old_table = Some t \<and>
    cached 0x6600a8c0 t = Some [2, 0, 0, 0, 0, 2]"
  using arp_cache_sound [OF old_table_ok station_ok [of "0x6500a8c0" 1], of 0 "[(0x6600a8c0, [2, 0, 0, 0, 0, 9])]" "0x6600a8c0" "[2, 0, 0, 0, 0, 2]"] station_unicast(1) [of 1 0]
  by (auto simp: ETH_HWADDR_LEN_def)

end
