(* ===== verification/Timeouts.thy ===== *)
theory Timeouts
  imports Prelude
begin

text \<open>
  The timers of the stack, \<^verbatim>\<open>lwip/src/core/timeouts.c\<close>, as built (with an operating system; timers of TCP, reassembly, ARP and DHCP).
  The list of pending timeouts holds in each \<^verbatim>\<open>struct sys_timeo\<close> the time after the one before it. The values of \<^verbatim>\<open>sys_now\<close>, one per
  call, the message box and the state of TCP are arguments; the pool of \<^verbatim>\<open>struct sys_timeo\<close> is the number of its free elements,
  and the calls of the timer functions are recorded in the state. A result \<open>None\<close> is a failed assertion or a loop that does not end.
\<close>

section \<open>Data\<close>

datatype sys_timeout_handler = H_tcpip_tcp_timer | H_cyclic_timer

datatype lwip_cyclic_timer_handler = H_tcp_tmr | H_ip_reass_tmr | H_etharp_tmr | H_dhcp_coarse_tmr | H_dhcp_fine_tmr

record lwip_cyclic_timer =
  interval_ms :: u32
  cyclic_handler :: lwip_cyclic_timer_handler

record sys_timeo =
  time :: u32
  h :: sys_timeout_handler
  arg :: nat

record timeouts =
  next_timeout :: "sys_timeo list"
  timeouts_last_time :: u32
  tcpip_tcp_timer_active :: bool
  free_timeos :: nat
  now_calls :: nat
  fetches :: nat
  called :: "lwip_cyclic_timer_handler list"

record timer_env =
  sys_now :: "nat \<Rightarrow> u32"
  tcp_pcbs :: "nat \<Rightarrow> bool"
  sys_arch_mbox_fetch :: "nat \<Rightarrow> u32 \<Rightarrow> nat option"

definition MEMP_NUM_SYS_TIMEOUT :: nat where "MEMP_NUM_SYS_TIMEOUT = 10"
definition TCP_TMR_INTERVAL :: u32 where "TCP_TMR_INTERVAL = 250"
definition IP_TMR_INTERVAL :: u32 where "IP_TMR_INTERVAL = 1000"
definition ARP_TMR_INTERVAL :: u32 where "ARP_TMR_INTERVAL = 1000"
definition DHCP_COARSE_TIMER_MSECS :: u32 where "DHCP_COARSE_TIMER_MSECS = 60 * 1000"
definition DHCP_FINE_TIMER_MSECS :: u32 where "DHCP_FINE_TIMER_MSECS = 500"

definition lwip_cyclic_timers :: "lwip_cyclic_timer list" where
  "lwip_cyclic_timers =
    [\<lparr>interval_ms = TCP_TMR_INTERVAL, cyclic_handler = H_tcp_tmr\<rparr>,
     \<lparr>interval_ms = IP_TMR_INTERVAL, cyclic_handler = H_ip_reass_tmr\<rparr>,
     \<lparr>interval_ms = ARP_TMR_INTERVAL, cyclic_handler = H_etharp_tmr\<rparr>,
     \<lparr>interval_ms = DHCP_COARSE_TIMER_MSECS, cyclic_handler = H_dhcp_coarse_tmr\<rparr>,
     \<lparr>interval_ms = DHCP_FINE_TIMER_MSECS, cyclic_handler = H_dhcp_fine_tmr\<rparr>]"

section \<open>The list of timeouts\<close>

text \<open>The loop that finds the place of a new timeout; \<open>first\<close> is the time of the first timeout of the list.\<close>

fun timeout_loop :: "u32 \<Rightarrow> u32 \<Rightarrow> sys_timeo \<Rightarrow> sys_timeo list \<Rightarrow> sys_timeo list" where
  "timeout_loop msecs first timeout [] = []"
| "timeout_loop msecs first timeout (t # ts) =
    (let timeout = timeout\<lparr>time := time timeout - time t\<rparr> in
     case ts of
       [] \<Rightarrow> [t, if time timeout > msecs then timeout\<lparr>time := msecs + first\<rparr> else timeout]
     | n # ns \<Rightarrow>
         if time n > time timeout then t # timeout # n\<lparr>time := time n - time timeout\<rparr> # ns
         else t # timeout_loop msecs first timeout ts)"

definition sys_timeout :: "timer_env \<Rightarrow> u32 \<Rightarrow> sys_timeout_handler \<Rightarrow> nat \<Rightarrow> timeouts \<Rightarrow> timeouts option" where
  "sys_timeout E msecs handler a s =
    (if free_timeos s = 0 then None
     else
       let
         now = sys_now E (now_calls s);
         s = s\<lparr>free_timeos := free_timeos s - 1, now_calls := Suc (now_calls s)\<rparr>
       in Some (case next_timeout s of
           [] \<Rightarrow> s\<lparr>timeouts_last_time := now, next_timeout := [\<lparr>time = msecs + 0, h = handler, arg = a\<rparr>]\<rparr>
         | t # ts \<Rightarrow>
             let timeout = \<lparr>time = msecs + (now - timeouts_last_time s), h = handler, arg = a\<rparr> in
             if time t > msecs then s\<lparr>next_timeout := timeout # t\<lparr>time := time t - msecs\<rparr> # ts\<rparr>
             else s\<lparr>next_timeout := timeout_loop msecs (time t) timeout (t # ts)\<rparr>))"

fun untimeout_loop :: "sys_timeout_handler \<Rightarrow> nat \<Rightarrow> sys_timeo list \<Rightarrow> sys_timeo list option" where
  "untimeout_loop handler a [] = None"
| "untimeout_loop handler a (t # ts) =
    (if h t = handler \<and> arg t = a then Some (case ts of [] \<Rightarrow> [] | n # ns \<Rightarrow> n\<lparr>time := time n + time t\<rparr> # ns)
     else map_option (Cons t) (untimeout_loop handler a ts))"

definition sys_untimeout :: "sys_timeout_handler \<Rightarrow> nat \<Rightarrow> timeouts \<Rightarrow> timeouts" where
  "sys_untimeout handler a s =
    (case untimeout_loop handler a (next_timeout s) of
       None \<Rightarrow> s
     | Some ts \<Rightarrow> s\<lparr>next_timeout := ts, free_timeos := Suc (free_timeos s)\<rparr>)"

section \<open>Timer functions\<close>

definition tcpip_tcp_timer :: "timer_env \<Rightarrow> timeouts \<Rightarrow> timeouts option" where
  "tcpip_tcp_timer E s =
    (let s = s\<lparr>called := called s @ [H_tcp_tmr]\<rparr> in
     if tcp_pcbs E (length (called s)) then sys_timeout E TCP_TMR_INTERVAL H_tcpip_tcp_timer 0 s
     else Some (s\<lparr>tcpip_tcp_timer_active := False\<rparr>))"

definition tcp_timer_needed :: "timer_env \<Rightarrow> bool \<Rightarrow> timeouts \<Rightarrow> timeouts option" where
  "tcp_timer_needed E pcbs s =
    (if \<not> tcpip_tcp_timer_active s \<and> pcbs
     then sys_timeout E TCP_TMR_INTERVAL H_tcpip_tcp_timer 0 (s\<lparr>tcpip_tcp_timer_active := True\<rparr>) else Some s)"

definition cyclic_timer :: "timer_env \<Rightarrow> nat \<Rightarrow> timeouts \<Rightarrow> timeouts option" where
  "cyclic_timer E a s =
    (if a < length lwip_cyclic_timers
     then
       let cyclic = lwip_cyclic_timers ! a
       in sys_timeout E (interval_ms cyclic) H_cyclic_timer a (s\<lparr>called := called s @ [cyclic_handler cyclic]\<rparr>)
     else None)"

fun call_handler :: "timer_env \<Rightarrow> sys_timeout_handler \<Rightarrow> nat \<Rightarrow> timeouts \<Rightarrow> timeouts option" where
  "call_handler E H_tcpip_tcp_timer a s = tcpip_tcp_timer E s"
| "call_handler E H_cyclic_timer a s = cyclic_timer E a s"

fun init_loop :: "timer_env \<Rightarrow> nat list \<Rightarrow> timeouts \<Rightarrow> timeouts option" where
  "init_loop E [] s = Some s"
| "init_loop E (i # is) s = Option.bind (sys_timeout E (interval_ms (lwip_cyclic_timers ! i)) H_cyclic_timer i s) (init_loop E is)"

definition sys_timeouts_init :: "timer_env \<Rightarrow> timeouts \<Rightarrow> timeouts option" where
  "sys_timeouts_init E s =
    map_option (\<lambda>s. s\<lparr>timeouts_last_time := sys_now E (now_calls s), now_calls := Suc (now_calls s)\<rparr>)
      (init_loop E [1..<length lwip_cyclic_timers] s)"

section \<open>Expiry\<close>

partial_function (option) check_loop :: "timer_env \<Rightarrow> u32 \<Rightarrow> timeouts \<Rightarrow> timeouts option" where
  "check_loop E diff s =
    (case next_timeout s of
       [] \<Rightarrow> Some s
     | t # ts \<Rightarrow>
         if time t \<le> diff then
           Option.bind
             (call_handler E (h t) (arg t)
               (s\<lparr>timeouts_last_time := timeouts_last_time s + time t, next_timeout := ts, free_timeos := Suc (free_timeos s)\<rparr>))
             (check_loop E (diff - time t))
         else Some s)"

definition sys_check_timeouts :: "timer_env \<Rightarrow> timeouts \<Rightarrow> timeouts option" where
  "sys_check_timeouts E s =
    (if next_timeout s = [] then Some s
     else check_loop E (sys_now E (now_calls s) - timeouts_last_time s) (s\<lparr>now_calls := Suc (now_calls s)\<rparr>))"

definition sys_restart_timeouts :: "timer_env \<Rightarrow> timeouts \<Rightarrow> timeouts" where
  "sys_restart_timeouts E s = s\<lparr>timeouts_last_time := sys_now E (now_calls s), now_calls := Suc (now_calls s)\<rparr>"

definition sys_timeouts_sleeptime :: "timer_env \<Rightarrow> timeouts \<Rightarrow> u32 \<times> timeouts" where
  "sys_timeouts_sleeptime E s =
    (case next_timeout s of
       [] \<Rightarrow> (0xffffffff, s)
     | t # _ \<Rightarrow>
         let diff = sys_now E (now_calls s) - timeouts_last_time s
         in (if diff > time t then 0 else time t - diff, s\<lparr>now_calls := Suc (now_calls s)\<rparr>))"

text \<open>The message that is fetched; \<open>None\<close> from the message box is \<^verbatim>\<open>SYS_ARCH_TIMEOUT\<close>, and no message when it waits without limit.\<close>

partial_function (option) sys_timeouts_mbox_fetch :: "timer_env \<Rightarrow> timeouts \<Rightarrow> (nat \<times> timeouts) option" where
  "sys_timeouts_mbox_fetch E s =
    (if next_timeout s = [] then map_option (\<lambda>m. (m, s\<lparr>fetches := Suc (fetches s)\<rparr>)) (sys_arch_mbox_fetch E (fetches s) 0)
     else
       (case sys_timeouts_sleeptime E s of
          (sleeptime, s) \<Rightarrow>
            if sleeptime = 0 then Option.bind (sys_check_timeouts E s) (sys_timeouts_mbox_fetch E)
            else
              (case sys_arch_mbox_fetch E (fetches s) sleeptime of
                 None \<Rightarrow> Option.bind (sys_check_timeouts E (s\<lparr>fetches := Suc (fetches s)\<rparr>)) (sys_timeouts_mbox_fetch E)
               | Some m \<Rightarrow> Some (m, s\<lparr>fetches := Suc (fetches s)\<rparr>))))"

end
