(* ===== verification/Timeouts_Props.thy ===== *)
theory Timeouts_Props
  imports Timeouts "HOL-Library.Multiset"
begin

text \<open>
  The timers keep their promises: the list of differences stands for a list of due times, in which timeouts are inserted and removed; the
  timers of the stack stay scheduled in every run, the pool never runs out, and a check in time calls exactly the timers that are due.
\<close>

section \<open>Due times\<close>

fun dues :: "nat \<Rightarrow> sys_timeo list \<Rightarrow> (nat \<times> sys_timeout_handler \<times> nat) list" where
  "dues off [] = []"
| "dues off (t # ts) = (off + unat (time t), h t, arg t) # dues (off + unat (time t)) ts"

definition total :: "sys_timeo list \<Rightarrow> nat" where
  "total ts = (\<Sum>t\<leftarrow>ts. unat (time t))"

text \<open>A timeout goes behind those that are due no later.\<close>

fun insert_due :: "nat \<times> 'a \<Rightarrow> (nat \<times> 'a) list \<Rightarrow> (nat \<times> 'a) list" where
  "insert_due e [] = [e]"
| "insert_due e (f # fs) = (if fst f > fst e then e # f # fs else f # insert_due e fs)"

fun remove_due :: "'a \<Rightarrow> (nat \<times> 'a) list \<Rightarrow> (nat \<times> 'a) list" where
  "remove_due x [] = []"
| "remove_due x (f # fs) = (if snd f = x then fs else f # remove_due x fs)"

lemma total_simps [simp]: "total [] = 0" "total (t # ts) = unat (time t) + total ts"
  by (simp_all add: total_def)

lemma unat_sub32: "(b :: u32) \<le> a \<Longrightarrow> unat (a - b) = unat a - unat b"
  by (simp add: unat_sub_if' word_le_nat_alt)

lemma unat_add32: "unat (a :: u32) + unat b < 2 ^ 32 \<Longrightarrow> unat (a + b) = unat a + unat b"
  by (rule unat_add_lem [THEN iffD1]) simp

lemma dues_shift: "dues (off + d) ts = map (\<lambda>(t, x). (t + d, x)) (dues off ts)"
  by (induction ts arbitrary: off) (simp_all add: algebra_simps, metis add.assoc add.commute)

lemma timeout_loop_one [simp]:
  "timeout_loop msecs first n [t] = [t, if time n - time t > msecs then n\<lparr>time := msecs + first\<rparr> else n\<lparr>time := time n - time t\<rparr>]"
  by simp

lemma timeout_loop_more [simp]:
  "timeout_loop msecs first n (t # u # us) =
    (if time u > time n - time t then t # n\<lparr>time := time n - time t\<rparr> # u\<lparr>time := time u - (time n - time t)\<rparr> # us
     else t # timeout_loop msecs first (n\<lparr>time := time n - time t\<rparr>) (u # us))"
  by simp

declare timeout_loop.simps(2) [simp del]

lemma timeout_loop_dues:
  assumes "time t \<le> time n" "unat (time n) \<le> unat msecs + total (t # ts)"
  shows "dues off (timeout_loop msecs first n (t # ts)) = insert_due (off + unat (time n), h n, arg n) (dues off (t # ts))"
  using assms
proof (induction ts arbitrary: t n off)
  case Nil
  have "unat (time n - time t) = unat (time n) - unat (time t)" by (rule unat_sub32 [OF Nil(1)])
  moreover from this have "\<not> time n - time t > msecs" using Nil(2) by (simp add: word_less_nat_alt)
  ultimately show ?case using Nil(1) by (simp add: Let_def word_le_nat_alt)
next
  case (Cons u us)
  let ?n = "n\<lparr>time := time n - time t\<rparr>"
  have s: "unat (time n - time t) = unat (time n) - unat (time t)" "unat (time t) \<le> unat (time n)"
    using unat_sub32 [OF Cons.prems(1)] Cons.prems(1) by (simp_all add: word_le_nat_alt)
  show ?case
  proof (cases "time u > time ?n")
    case True
    have m: "unat (time u - (time n - time t)) = unat (time u) - unat (time n - time t)" using True by (intro unat_sub32) simp
    obtain k where k: "unat (time n) = unat (time t) + k" using s(2) le_Suc_ex by blast
    obtain j where j: "unat (time u) = Suc (k + j)" using True s(1) k by (auto simp: word_less_nat_alt less_iff_Suc_add)
    show ?thesis using True s(1) m by (simp add: Let_def k j add.assoc)
  next
    case False
    have "dues (off + unat (time t)) (timeout_loop msecs first ?n (u # us)) = insert_due (off + unat (time t) + unat (time ?n), h ?n, arg ?n) (dues (off + unat (time t)) (u # us))"
      by (rule Cons.IH) (use False s Cons.prems(2) in \<open>simp_all add: not_less\<close>)
    then show ?thesis using False s by (simp add: Let_def)
  qed
qed

lemma untimeout_dues:
  assumes "total ts < 2 ^ 32"
  shows "dues off (case untimeout_loop hdl a ts of None \<Rightarrow> ts | Some us \<Rightarrow> us) = remove_due (hdl, a) (dues off ts)"
  using assms
proof (induction ts arbitrary: off)
  case (Cons t ts)
  show ?case
  proof (cases "h t = hdl \<and> arg t = a")
    case True
    show ?thesis
    proof (cases ts)
      case (Cons u us)
      then have "unat (time u + time t) = unat (time u) + unat (time t)" using \<open>total (t # ts) < 2 ^ 32\<close> by (intro unat_add32) simp
      then show ?thesis using True Cons by (simp add: algebra_simps)
    qed (use True in simp)
  next
    case False
    then show ?thesis using Cons.IH [of "off + unat (time t)"] Cons.prems by (auto split: option.splits)
  qed
qed simp

section \<open>Which timers are scheduled\<close>

definition keys :: "sys_timeo list \<Rightarrow> (sys_timeout_handler \<times> nat) multiset" where
  "keys ts = image_mset (\<lambda>t. (h t, arg t)) (mset ts)"

definition stack_timers :: "(sys_timeout_handler \<times> nat) multiset" where
  "stack_timers = {#(H_cyclic_timer, 1), (H_cyclic_timer, 2), (H_cyclic_timer, 3), (H_cyclic_timer, 4)#}"

definition tcp_key :: "bool \<Rightarrow> (sys_timeout_handler \<times> nat) multiset" where
  "tcp_key b = (if b then {#(H_tcpip_tcp_timer, 0)#} else {#})"

definition timers_ok :: "timeouts \<Rightarrow> bool" where
  "timers_ok s \<longleftrightarrow> keys (next_timeout s) = stack_timers + tcp_key (tcpip_tcp_timer_active s) \<and>
    free_timeos s + length (next_timeout s) = MEMP_NUM_SYS_TIMEOUT"

lemma keys_simps [simp]: "keys [] = {#}" "keys (t # ts) = add_mset (h t, arg t) (keys ts)"
  by (simp_all add: keys_def)

lemma length_keys: "size (keys ts) = length ts"
  by (simp add: keys_def)

lemma timeout_loop_keys: "keys (timeout_loop msecs first n (t # ts)) = add_mset (h n, arg n) (keys (t # ts))"
proof (induction ts arbitrary: t n)
  case (Cons u us)
  then show ?case using Cons.IH [of "n\<lparr>time := time n - time t\<rparr>" u] by (simp add: Let_def add_mset_commute)
qed (simp add: Let_def add_mset_commute)

lemma sys_timeout_runs:
  assumes "free_timeos s > 0"
  obtains s' where "sys_timeout E msecs hdl a s = Some s'" "keys (next_timeout s') = add_mset (hdl, a) (keys (next_timeout s))"
    "free_timeos s' = free_timeos s - 1" "tcpip_tcp_timer_active s' = tcpip_tcp_timer_active s" "called s' = called s" "now_calls s' = Suc (now_calls s)"
proof (cases "next_timeout s")
  case Nil
  then show thesis using assms by (intro that [of "the (sys_timeout E msecs hdl a s)"]) (simp_all add: sys_timeout_def Let_def)
next
  case (Cons t ts)
  then show thesis using assms
    by (cases "time t > msecs"; intro that [of "the (sys_timeout E msecs hdl a s)"]) (simp_all add: sys_timeout_def timeout_loop_keys Let_def add_mset_commute)
qed

lemma keys_free: "keys (next_timeout s') = add_mset k (keys (next_timeout s)) \<Longrightarrow> length (next_timeout s') = Suc (length (next_timeout s))"
  by (metis length_keys size_add_mset)

text \<open>The timer function of a timeout, and the state once the timeout is taken off the list.\<close>

definition fn_of :: "sys_timeo \<Rightarrow> lwip_cyclic_timer_handler" where
  "fn_of t = (case h t of H_tcpip_tcp_timer \<Rightarrow> H_tcp_tmr | H_cyclic_timer \<Rightarrow> cyclic_handler (lwip_cyclic_timers ! arg t))"

definition pop :: "sys_timeo \<Rightarrow> sys_timeo list \<Rightarrow> timeouts \<Rightarrow> timeouts" where
  "pop t ts s = s\<lparr>timeouts_last_time := timeouts_last_time s + time t, next_timeout := ts, free_timeos := Suc (free_timeos s)\<rparr>"

definition interval_of :: "sys_timeo \<Rightarrow> u32" where
  "interval_of t = (case h t of H_tcpip_tcp_timer \<Rightarrow> TCP_TMR_INTERVAL | H_cyclic_timer \<Rightarrow> interval_ms (lwip_cyclic_timers ! arg t))"

lemma key_cases:
  assumes "timers_ok s" "t \<in> set (next_timeout s)"
  shows "h t = H_cyclic_timer \<and> arg t \<in> {1, 2, 3, 4} \<or> h t = H_tcpip_tcp_timer \<and> arg t = 0 \<and> tcpip_tcp_timer_active s"
proof -
  have "(h t, arg t) \<in># keys (next_timeout s)" using assms(2) by (auto simp: keys_def)
  then show ?thesis using assms(1) by (auto simp: timers_ok_def stack_timers_def tcp_key_def split: if_splits)
qed

lemma intervals: "a \<in> {1, 2, 3, 4} \<Longrightarrow> 250 \<le> interval_ms (lwip_cyclic_timers ! a) \<and> interval_ms (lwip_cyclic_timers ! a) \<le> 60000 \<and> a < length lwip_cyclic_timers"
  by (auto simp: lwip_cyclic_timers_def IP_TMR_INTERVAL_def ARP_TMR_INTERVAL_def DHCP_COARSE_TIMER_MSECS_def DHCP_FINE_TIMER_MSECS_def)

lemma timers_ok_length: "timers_ok s \<Longrightarrow> 4 \<le> length (next_timeout s) \<and> length (next_timeout s) \<le> 5 \<and> 5 \<le> free_timeos s"
  by (cases "tcpip_tcp_timer_active s") (auto simp: timers_ok_def length_keys [symmetric] stack_timers_def tcp_key_def MEMP_NUM_SYS_TIMEOUT_def)

text \<open>A timer that is taken off the list and called is scheduled again, unless TCP does not need it.\<close>

lemma call_handler_ok:
  assumes "timers_ok s" "next_timeout s = t # ts"
  obtains s' where "call_handler E (h t) (arg t) (pop t ts s) = Some s'" "timers_ok s'" "called s' = called s @ [fn_of t]"
    "s' = pop t ts s\<lparr>called := called s @ [fn_of t], tcpip_tcp_timer_active := False\<rparr> \<or>
     sys_timeout E (interval_of t) (h t) (arg t) (pop t ts s\<lparr>called := called s @ [fn_of t]\<rparr>) = Some s'"
proof -
  note result = that
  let ?s = "pop t ts s\<lparr>called := called s @ [fn_of t]\<rparr>"
  have k: "add_mset (h t, arg t) (keys ts) = stack_timers + tcp_key (tcpip_tcp_timer_active s)" "free_timeos s + Suc (length ts) = MEMP_NUM_SYS_TIMEOUT"
    using assms by (simp_all add: timers_ok_def)
  obtain u where u: "sys_timeout E (interval_of t) (h t) (arg t) ?s = Some u" "keys (next_timeout u) = add_mset (h t, arg t) (keys ts)"
    "free_timeos u = free_timeos s" "tcpip_tcp_timer_active u = tcpip_tcp_timer_active s" "called u = called s @ [fn_of t]"
    by (rule sys_timeout_runs [of ?s E "interval_of t" "h t" "arg t"]) (auto simp: pop_def)
  have "length (next_timeout u) = Suc (length ts)" using keys_free [of u "(h t, arg t)" ?s] u(2) by (simp add: pop_def)
  then have ok: "timers_ok u" using k u(2-4) by (simp add: timers_ok_def)
  from key_cases [OF assms(1), of t] assms(2) consider "h t = H_cyclic_timer" "arg t \<in> {1, 2, 3, 4}" | "h t = H_tcpip_tcp_timer" "arg t = 0" "tcpip_tcp_timer_active s" by auto
  then show thesis
  proof cases
    case 1
    then have "call_handler E (h t) (arg t) (pop t ts s) = Some u"
      using u(1) intervals [OF 1(2)] by (simp add: cyclic_timer_def interval_of_def fn_of_def pop_def Let_def)
    then show thesis using result u(1,5) ok by blast
  next
    case 2
    show thesis
    proof (cases "tcp_pcbs E (length (called s @ [fn_of t]))")
      case True
      then have "call_handler E (h t) (arg t) (pop t ts s) = Some u"
        using u(1) 2 by (simp add: tcpip_tcp_timer_def interval_of_def fn_of_def pop_def Let_def)
      then show thesis using result u(1,5) ok by blast
    next
      case False
      let ?v = "pop t ts s\<lparr>called := called s @ [fn_of t], tcpip_tcp_timer_active := False\<rparr>"
      have "call_handler E (h t) (arg t) (pop t ts s) = Some ?v" using False 2 by (simp add: tcpip_tcp_timer_def fn_of_def pop_def Let_def)
      moreover have "timers_ok ?v" using k 2 by (simp add: timers_ok_def pop_def tcp_key_def)
      ultimately show thesis using result by simp
    qed
  qed
qed

section \<open>Expiry\<close>

definition zeros :: "sys_timeo list \<Rightarrow> nat" where
  "zeros ts = length (takeWhile (\<lambda>t. time t = 0) ts)"

text \<open>The timeouts that are due when \<open>d\<close> milliseconds have passed.\<close>

fun due :: "u32 \<Rightarrow> sys_timeo list \<Rightarrow> sys_timeo list" where
  "due d [] = []"
| "due d (t # ts) = (if time t \<le> d then t # due (d - time t) ts else [])"

lemma zeros_simps [simp]: "zeros [] = 0" "zeros (t # ts) = (if time t = 0 then Suc (zeros ts) else 0)"
  by (simp_all add: zeros_def)

lemma timeout_loop_zeros: "time n \<noteq> 0 \<Longrightarrow> msecs + first \<noteq> 0 \<Longrightarrow> zeros (timeout_loop msecs first n (t # ts)) \<le> zeros (t # ts)"
proof (induction ts arbitrary: t n)
  case (Cons u us)
  show ?case using Cons.prems Cons.IH [where n = n and t = u] by (cases "time t = 0") (auto simp: Let_def)
qed (auto simp: Let_def)

lemma sub_mono32: "(b :: u32) \<le> d \<Longrightarrow> d < a \<Longrightarrow> d - b < a - b"
  by (simp add: word_less_nat_alt unat_sub32 word_le_nat_alt diff_less_mono)

lemma timeout_loop_due:
  "time t \<le> time n \<Longrightarrow> d < time n \<Longrightarrow> d < msecs + first \<Longrightarrow> due d (timeout_loop msecs first n (t # ts)) = due d (t # ts)"
proof (induction ts arbitrary: t n d)
  case Nil
  show ?case
  proof (cases "time t \<le> d")
    case True
    then have "d - time t < time n - time t" "d - time t \<le> d" using sub_mono32 Nil(2) by (auto simp: word_sub_le)
    then show ?thesis using True Nil(3) by (auto simp: Let_def not_le)
  qed (simp add: Let_def)
next
  case (Cons u us)
  let ?n = "n\<lparr>time := time n - time t\<rparr>"
  show ?case
  proof (cases "time t \<le> d")
    case True
    then have d: "d - time t < time ?n" "d - time t < msecs + first" using sub_mono32 [of "time t" d] Cons.prems(2,3) word_sub_le [OF True] by auto
    show ?thesis
    proof (cases "time u > time ?n")
      case True
      then show ?thesis using d(1) \<open>time t \<le> d\<close> by (auto simp: Let_def not_le)
    next
      case False
      then have "due (d - time t) (timeout_loop msecs first ?n (u # us)) = due (d - time t) (u # us)" using d by (intro Cons.IH) simp_all
      then show ?thesis using False True by (simp add: Let_def)
    qed
  qed (simp add: Let_def)
qed

text \<open>Scheduling a timer ahead changes nothing about what is due now.\<close>

lemma sys_timeout_ahead:
  assumes "sys_timeout E msecs hdl a s = Some s'" "next_timeout s \<noteq> []" "0 < msecs" "msecs \<le> 60000" "sys_now E (now_calls s) - timeouts_last_time s < 2 ^ 31"
  shows "zeros (next_timeout s') \<le> zeros (next_timeout s) \<and> timeouts_last_time s' = timeouts_last_time s \<and> now_calls s' = Suc (now_calls s) \<and>
    (\<forall>d. d < msecs \<longrightarrow> due d (next_timeout s') = due d (next_timeout s))"
proof -
  obtain t ts where t: "next_timeout s = t # ts" using assms(2) by (cases "next_timeout s") auto
  let ?w = "msecs + (sys_now E (now_calls s) - timeouts_last_time s)"
  have w: "unat ?w = unat msecs + unat (sys_now E (now_calls s) - timeouts_last_time s)"
    using assms(4,5) by (intro unat_add32) (simp add: word_less_nat_alt word_le_nat_alt)
  have m: "msecs \<le> ?w" "?w \<noteq> 0" using w assms(3) by (simp_all add: word_le_nat_alt word_less_nat_alt unat_eq_zero [symmetric])
  show ?thesis
  proof (cases "time t > msecs")
    case True
    then have "time t - msecs \<noteq> 0" by auto
    moreover have "\<not> ?w \<le> d \<and> \<not> time t \<le> d" if "d < msecs" for d using that m(1) True by auto
    ultimately show ?thesis using assms(1) t True m(2) by (auto simp: sys_timeout_def Let_def split: if_splits)
  next
    case False
    then have f: "unat (msecs + time t) = unat msecs + unat (time t)"
      using assms(4) by (intro unat_add32) (simp add: word_le_nat_alt not_less)
    let ?n = "\<lparr>time = ?w, h = hdl, arg = a\<rparr>"
    have s': "s' = s\<lparr>free_timeos := free_timeos s - 1, now_calls := Suc (now_calls s), next_timeout := timeout_loop msecs (time t) ?n (t # ts)\<rparr>"
      using assms(1) t False by (auto simp: sys_timeout_def Let_def split: if_splits)
    have "zeros (timeout_loop msecs (time t) ?n (t # ts)) \<le> zeros (t # ts)"
      using m f assms(3) by (intro timeout_loop_zeros) (auto simp: unat_eq_zero [symmetric] word_less_nat_alt)
    moreover have "due d (timeout_loop msecs (time t) ?n (t # ts)) = due d (t # ts)" if "d < msecs" for d
      using that m(1) False f by (intro timeout_loop_due) (auto simp: word_less_nat_alt word_le_nat_alt)
    ultimately show ?thesis by (simp add: s' t del: due.simps zeros_simps)
  qed
qed

text \<open>How far the clock is ahead of the last timeout that was handled.\<close>

lemma clock_ahead:
  assumes "(D :: u32) \<le> now - L" "lt + diff = L + D" "diff \<le> D"
  shows "diff \<le> now - lt" "now - lt \<le> now - L"
proof -
  have "lt = L + D - diff" using assms(2) by (simp add: eq_diff_eq)
  then have e: "now - lt = ((now - L) - D) + diff" by (simp add: algebra_simps)
  have u: "unat ((now - L) - D) = unat (now - L) - unat D" by (rule unat_sub32 [OF assms(1)])
  have "unat (now - L) < 2 ^ 32" using unsigned_less [of "now - L"] by simp
  then have "unat (now - lt) = unat (now - L) - unat D + unat diff"
    unfolding e using assms(1,3) u by (subst unat_add32) (simp_all add: word_le_nat_alt)
  then show "diff \<le> now - lt" "now - lt \<le> now - L" using assms(1,3) by (simp_all add: word_le_nat_alt)
qed

definition clock_from :: "timer_env \<Rightarrow> nat \<Rightarrow> u32 \<Rightarrow> u32 \<Rightarrow> bool" where
  "clock_from E k L D \<longleftrightarrow> (\<forall>j\<ge>k. D \<le> sys_now E j - L \<and> sys_now E j - L < 2 ^ 31)"

lemma interval_bounds: "timers_ok s \<Longrightarrow> t \<in> set (next_timeout s) \<Longrightarrow> 250 \<le> interval_of t \<and> interval_of t \<le> 60000"
  using key_cases [of s t] intervals [of "arg t"] by (auto simp: interval_of_def TCP_TMR_INTERVAL_def)

text \<open>One round of the loop.\<close>

lemma check_round:
  assumes "timers_ok s" "next_timeout s = t # ts" "clock_from E (now_calls s) L D" "timeouts_last_time s + diff = L + D" "diff \<le> D" "time t \<le> diff"
  obtains s' where "call_handler E (h t) (arg t) (pop t ts s) = Some s'" "timers_ok s'" "called s' = called s @ [fn_of t]" "clock_from E (now_calls s') L D"
    "timeouts_last_time s' + (diff - time t) = L + D" "zeros (next_timeout s') \<le> zeros ts" "diff - time t < 250 \<longrightarrow> due (diff - time t) (next_timeout s') = due (diff - time t) ts"
proof -
  note result = that
  obtain s' where s': "call_handler E (h t) (arg t) (pop t ts s) = Some s'" "timers_ok s'" "called s' = called s @ [fn_of t]"
    "s' = pop t ts s\<lparr>called := called s @ [fn_of t], tcpip_tcp_timer_active := False\<rparr> \<or>
     sys_timeout E (interval_of t) (h t) (arg t) (pop t ts s\<lparr>called := called s @ [fn_of t]\<rparr>) = Some s'"
    by (rule call_handler_ok [OF assms(1,2)])
  have last: "timeouts_last_time s + time t + (diff - time t) = L + D" using assms(4) by simp
  from s'(4) show thesis
  proof
    assume "s' = pop t ts s\<lparr>called := called s @ [fn_of t], tcpip_tcp_timer_active := False\<rparr>"
    then show thesis using result [OF s'(1-3)] assms(3) last by (simp add: pop_def)
  next
    let ?s = "pop t ts s\<lparr>called := called s @ [fn_of t]\<rparr>"
    assume st: "sys_timeout E (interval_of t) (h t) (arg t) ?s = Some s'"
    have i: "250 \<le> interval_of t" "interval_of t \<le> 60000" using interval_bounds [OF assms(1)] assms(2) by auto
    have ne: "ts \<noteq> []" using timers_ok_length [OF assms(1)] assms(2) by auto
    have c: "D \<le> sys_now E (now_calls s) - L" "sys_now E (now_calls s) - L < 2 ^ 31" using assms(3) by (simp_all add: clock_from_def)
    have dt: "diff - time t \<le> D" by (rule order_trans [OF word_sub_le [OF assms(6)] assms(5)])
    have "sys_now E (now_calls ?s) - timeouts_last_time ?s < 2 ^ 31"
      using clock_ahead(2) [OF c(1) last dt] c(2) by (simp add: pop_def)
    from sys_timeout_ahead [OF st _ _ i(2) this] have a: "zeros (next_timeout s') \<le> zeros ts" "timeouts_last_time s' = timeouts_last_time s + time t"
      "now_calls s' = Suc (now_calls s)" "\<And>d. d < interval_of t \<Longrightarrow> due d (next_timeout s') = due d ts"
      using ne less_le_trans [OF _ i(1), of 0] by (auto simp: pop_def)
    have "diff - time t < interval_of t" if "diff - time t < 250" using that i(1) by simp
    then show thesis using result [OF s'(1-3)] a assms(3) last by (simp add: clock_from_def)
  qed
qed

lemma zeros_le_length: "zeros ts \<le> length ts"
  by (simp add: zeros_def length_takeWhile_le)

text \<open>How late a check is for the first timeout.\<close>

definition late :: "u32 \<Rightarrow> sys_timeo list \<Rightarrow> u32" where
  "late diff ts = (case ts of [] \<Rightarrow> 0 | t # _ \<Rightarrow> if time t \<le> diff then diff - time t else 0)"

lemma late_le: "late diff ts \<le> diff"
  by (auto simp: late_def word_sub_le split: list.split)

lemma check_loop_ok:
  assumes "timers_ok s" "clock_from E (now_calls s) L D" "timeouts_last_time s + diff = L + D" "diff \<le> D"
  shows "\<exists>s'. check_loop E diff s = Some s' \<and> timers_ok s' \<and> (late diff (next_timeout s) < 250 \<longrightarrow> called s' = called s @ map fn_of (due diff (next_timeout s)))"
  using assms
proof (induction "6 * unat diff + zeros (next_timeout s)" arbitrary: diff s rule: less_induct)
  case less
  obtain t ts where t: "next_timeout s = t # ts" using timers_ok_length [OF less.prems(1)] by (cases "next_timeout s") auto
  show ?case
  proof (cases "time t \<le> diff")
    case False
    then show ?thesis using less.prems(1) t by (simp add: check_loop.simps)
  next
    case True
    obtain s' where s': "call_handler E (h t) (arg t) (pop t ts s) = Some s'" "timers_ok s'" "called s' = called s @ [fn_of t]" "clock_from E (now_calls s') L D"
      "timeouts_last_time s' + (diff - time t) = L + D" "zeros (next_timeout s') \<le> zeros ts" "diff - time t < 250 \<longrightarrow> due (diff - time t) (next_timeout s') = due (diff - time t) ts"
      by (rule check_round [OF less.prems(1) t less.prems(2-4) True])
    have u: "unat (diff - time t) = unat diff - unat (time t)" "unat (time t) \<le> unat diff" using True by (simp_all add: unat_sub32 word_le_nat_alt)
    have "zeros ts \<le> 5" using timers_ok_length [OF less.prems(1)] zeros_le_length [of ts] t by simp
    then have "6 * unat (diff - time t) + zeros (next_timeout s') < 6 * unat diff + zeros (next_timeout s)"
      using s'(6) u t unat_gt_0 [of "time t"] by (cases "time t = 0") auto
    from less.hyps [OF this s'(2,4,5) order_trans [OF word_sub_le [OF True] less.prems(4)]] obtain v where v: "check_loop E (diff - time t) s' = Some v" "timers_ok v"
      "late (diff - time t) (next_timeout s') < 250 \<longrightarrow> called v = called s' @ map fn_of (due (diff - time t) (next_timeout s'))"
      by blast
    have "check_loop E diff s = Some v" using t True s'(1) v(1) by (subst check_loop.simps) (simp add: pop_def)
    moreover have "called v = called s @ map fn_of (due diff (next_timeout s))" if "late diff (next_timeout s) < 250"
    proof -
      have "diff - time t < 250" using that t True by (simp add: late_def)
      then show ?thesis using v(3) s'(3,7) t True le_less_trans [OF late_le] by auto
    qed
    ultimately show ?thesis using v(2) by simp
  qed
qed

text \<open>The clock does not run backwards during a call, and a call takes less than 24 days.\<close>

definition clock_ok :: "timer_env \<Rightarrow> timeouts \<Rightarrow> bool" where
  "clock_ok E s \<longleftrightarrow> clock_from E (now_calls s) (timeouts_last_time s) (sys_now E (now_calls s) - timeouts_last_time s)"

lemma check_timeouts_ok:
  assumes "timers_ok s" "clock_ok E s"
  shows "\<exists>s'. sys_check_timeouts E s = Some s' \<and> timers_ok s' \<and>
    (late (sys_now E (now_calls s) - timeouts_last_time s) (next_timeout s) < 250 \<longrightarrow>
      called s' = called s @ map fn_of (due (sys_now E (now_calls s) - timeouts_last_time s) (next_timeout s)))"
proof -
  let ?s = "s\<lparr>now_calls := Suc (now_calls s)\<rparr>" and ?d = "sys_now E (now_calls s) - timeouts_last_time s"
  have "next_timeout s \<noteq> []" using timers_ok_length [OF assms(1)] by auto
  moreover have "timers_ok ?s" "clock_from E (now_calls ?s) (timeouts_last_time s) ?d" "timeouts_last_time ?s + ?d = timeouts_last_time s + ?d"
    using assms by (simp_all add: timers_ok_def clock_ok_def clock_from_def)
  from check_loop_ok [OF this] have "\<exists>s'. check_loop E ?d ?s = Some s' \<and> timers_ok s' \<and> (late ?d (next_timeout s) < 250 \<longrightarrow> called s' = called s @ map fn_of (due ?d (next_timeout s)))" by simp
  ultimately show ?thesis by (simp add: sys_check_timeouts_def)
qed

section \<open>Every order of events\<close>

text \<open>The same timers stay on the list whatever the clock shows.\<close>

lemma check_loop_keeps: "check_loop E diff s = Some s' \<Longrightarrow> timers_ok s \<Longrightarrow> timers_ok s'"
proof (induction rule: check_loop.raw_induct [rotated, consumes 1])
  case (1 loop E diff s s')
  show ?case
  proof (cases "next_timeout s")
    case (Cons t ts)
    obtain u where u: "call_handler E (h t) (arg t) (pop t ts s) = Some u" "timers_ok u" by (rule call_handler_ok [OF 1(3) Cons])
    show ?thesis using 1(2,3) 1(1) [OF _ u(2)] Cons u(1) [unfolded pop_def] by (auto split: if_splits)
  qed (use 1 in simp)
qed

lemma check_timeouts_keeps: "sys_check_timeouts E s = Some s' \<Longrightarrow> timers_ok s \<Longrightarrow> timers_ok s'"
  using check_loop_keeps [of E _ "s\<lparr>now_calls := Suc (now_calls s)\<rparr>" s']
  by (cases "next_timeout s = []") (simp_all add: sys_check_timeouts_def timers_ok_def [of "s\<lparr>now_calls := _\<rparr>"] timers_ok_def [of s])

lemma sleeptime_keeps: "sys_timeouts_sleeptime E s = (n, s') \<Longrightarrow> timers_ok s \<Longrightarrow> timers_ok s'"
  by (auto simp: sys_timeouts_sleeptime_def timers_ok_def Let_def split: list.splits)

lemma fetch_keeps: "sys_timeouts_mbox_fetch E s = Some r \<Longrightarrow> timers_ok s \<Longrightarrow> timers_ok (snd r)"
proof (induction rule: sys_timeouts_mbox_fetch.raw_induct [rotated, consumes 1])
  case (1 fetch E s r)
  obtain n u where u: "sys_timeouts_sleeptime E s = (n, u)" by fastforce
  have ok: "timers_ok u" "timers_ok (u\<lparr>fetches := k\<rparr>)" "timers_ok (s\<lparr>fetches := k\<rparr>)" for k
    using sleeptime_keeps [OF u 1(3)] 1(3) by (simp_all add: timers_ok_def)
  show ?case using 1(2) u ok check_timeouts_keeps [OF _ ok(1)] check_timeouts_keeps [OF _ ok(2)] 1(1)
    by (auto split: if_splits option.splits bind_splits)
qed

inductive timer_step :: "timeouts \<Rightarrow> timeouts \<Rightarrow> bool" where
  tcp_needs: "tcp_timer_needed E pcbs s = Some s' \<Longrightarrow> timer_step s s'"
| check: "sys_check_timeouts E s = Some s' \<Longrightarrow> timer_step s s'"
| fetch: "sys_timeouts_mbox_fetch E s = Some (m, s') \<Longrightarrow> timer_step s s'"
| restart: "timer_step s (sys_restart_timeouts E s)"

inductive_cases timer_stepE: "timer_step s s'"

lemma tcp_timer_needed_ok:
  assumes "timers_ok s"
  shows "\<exists>s'. tcp_timer_needed E pcbs s = Some s' \<and> timers_ok s'"
proof (cases "\<not> tcpip_tcp_timer_active s \<and> pcbs")
  case True
  let ?s = "s\<lparr>tcpip_tcp_timer_active := True\<rparr>"
  have f: "0 < free_timeos ?s" using timers_ok_length [OF assms] by simp
  obtain u where u: "sys_timeout E TCP_TMR_INTERVAL H_tcpip_tcp_timer 0 ?s = Some u" "keys (next_timeout u) = add_mset (H_tcpip_tcp_timer, 0) (keys (next_timeout ?s))"
    "free_timeos u = free_timeos ?s - 1" "tcpip_tcp_timer_active u = tcpip_tcp_timer_active ?s"
    by (rule sys_timeout_runs [OF f])
  have "timers_ok u" using assms True u(2-4) keys_free [OF u(2)] f by (simp add: timers_ok_def tcp_key_def)
  then show ?thesis using True u(1) by (simp add: tcp_timer_needed_def)
qed (use assms in \<open>auto simp: tcp_timer_needed_def\<close>)

lemma timer_step_ok: "timer_step s s' \<Longrightarrow> timers_ok s \<Longrightarrow> timers_ok s'"
proof (erule timer_stepE, goal_cases)
  case (1 E pcbs)
  then show ?case using tcp_timer_needed_ok [of s E pcbs] by auto
next
  case (2 E)
  then show ?case by (blast intro: check_timeouts_keeps)
next
  case (3 E m)
  then show ?case using fetch_keeps by fastforce
next
  case (4 E)
  then show ?case by (simp add: sys_restart_timeouts_def timers_ok_def)
qed

definition no_timeouts :: "timeouts \<Rightarrow> bool" where
  "no_timeouts s \<longleftrightarrow> next_timeout s = [] \<and> \<not> tcpip_tcp_timer_active s \<and> free_timeos s = MEMP_NUM_SYS_TIMEOUT"

lemma init_loop_keys:
  assumes "length is \<le> free_timeos s"
  shows "\<exists>s'. init_loop E is s = Some s' \<and> keys (next_timeout s') = mset (map (Pair H_cyclic_timer) is) + keys (next_timeout s) \<and>
    free_timeos s' = free_timeos s - length is \<and> tcpip_tcp_timer_active s' = tcpip_tcp_timer_active s"
  using assms
proof (induction "is" arbitrary: s)
  case (Cons i "is")
  have f: "0 < free_timeos s" using Cons.prems by simp
  obtain u where u: "sys_timeout E (interval_ms (lwip_cyclic_timers ! i)) H_cyclic_timer i s = Some u" "keys (next_timeout u) = add_mset (H_cyclic_timer, i) (keys (next_timeout s))"
    "free_timeos u = free_timeos s - 1" "tcpip_tcp_timer_active u = tcpip_tcp_timer_active s"
    by (rule sys_timeout_runs [OF f])
  then show ?case using Cons.IH [of u] Cons.prems by auto
qed simp

lemma sys_timeouts_init_ok:
  assumes "no_timeouts s"
  shows "\<exists>s'. sys_timeouts_init E s = Some s' \<and> timers_ok s'"
proof -
  have l: "[1..<length lwip_cyclic_timers] = [1, 2, 3, 4]" by (simp add: lwip_cyclic_timers_def upt_conv_Cons)
  obtain s' where s': "init_loop E [1, 2, 3, 4] s = Some s'" "keys (next_timeout s') = stack_timers" "free_timeos s' = 6" "\<not> tcpip_tcp_timer_active s'"
    using init_loop_keys [of "[1, 2, 3, 4]" s E] assms by (auto simp: no_timeouts_def MEMP_NUM_SYS_TIMEOUT_def stack_timers_def)
  have "length (next_timeout s') = 4" using length_keys [of "next_timeout s'"] s'(2) by (simp add: stack_timers_def)
  then show ?thesis using s' unfolding sys_timeouts_init_def l by (simp add: timers_ok_def tcp_key_def MEMP_NUM_SYS_TIMEOUT_def)
qed

interpretation tm: step_invariant "\<lambda>s. \<exists>E s0. no_timeouts s0 \<and> sys_timeouts_init E s0 = Some s" timer_step timers_ok
proof (unfold_locales, goal_cases)
  case (1 s)
  then show ?case using sys_timeouts_init_ok by (metis option.inject)
qed (rule timer_step_ok)

section \<open>Properties\<close>

lemma count_keys: "length (filter (\<lambda>t. h t = hdl \<and> arg t = a) ts) = count (keys ts) (hdl, a)"
  by (induction ts) auto

text \<open>
  C24: From their initialisation on, in any order of checks, waits for messages, restarts and requests of TCP, each timer of the stack stays scheduled exactly once and
  that of TCP at most once, so that the pool of timeouts never runs out; and a check always returns, however late it comes, as long as the
  clock does not run backwards and is less than \<open>2\<^sup>3\<^sup>1\<close> milliseconds ahead.
\<close>

theorem timers_stay_scheduled:
  assumes "no_timeouts s0" "sys_timeouts_init E0 s0 = Some s1" "timer_step\<^sup>*\<^sup>* s1 s" "clock_ok E s"
  shows "(\<forall>i\<in>{1, 2, 3, 4}. length (filter (\<lambda>t. h t = H_cyclic_timer \<and> arg t = i) (next_timeout s)) = 1) \<and>
    length (filter (\<lambda>t. h t = H_tcpip_tcp_timer) (next_timeout s)) = (if tcpip_tcp_timer_active s then 1 else 0) \<and>
    5 \<le> free_timeos s \<and> tcp_timer_needed E pcbs s \<noteq> None \<and> sys_check_timeouts E s \<noteq> None"
proof -
  have ok: "timers_ok s" using tm.reachable_inv [OF _ assms(3)] assms(1,2) by blast
  have "filter (\<lambda>t. h t = H_tcpip_tcp_timer) (next_timeout s) = filter (\<lambda>t. h t = H_tcpip_tcp_timer \<and> arg t = 0) (next_timeout s)"
    by (rule filter_cong) (use key_cases [OF ok] in fastforce)+
  then show ?thesis using ok timers_ok_length [OF ok] tcp_timer_needed_ok [OF ok, of E pcbs] check_timeouts_ok [OF ok assms(4)]
    by (auto simp: count_keys timers_ok_def stack_timers_def tcp_key_def)
qed

text \<open>
  C25: A check that is less than 250 milliseconds late for the first timeout calls exactly the timers that are due, each once and in their
  order, although each of them schedules itself again on the way.
\<close>

theorem check_calls_due:
  assumes "no_timeouts s0" "sys_timeouts_init E0 s0 = Some s1" "timer_step\<^sup>*\<^sup>* s1 s" "clock_ok E s"
    and "diff = sys_now E (now_calls s) - timeouts_last_time s" "late diff (next_timeout s) < 250"
  shows "\<exists>s'. sys_check_timeouts E s = Some s' \<and> called s' = called s @ map fn_of (due diff (next_timeout s))"
proof -
  have "timers_ok s" using tm.reachable_inv [OF _ assms(3)] assms(1,2) by blast
  from check_timeouts_ok [OF this assms(4)] assms(5,6) show ?thesis by auto
qed

text \<open>
  With everything overdue the walk through the list gets to its end, where the new timeout is put its delay and that of the first one behind
  the last.
\<close>

lemma timeout_loop_overdue:
  assumes "unat msecs + total (t # ts) < unat (time n)" "unat msecs + unat first < 2 ^ 32"
  shows "dues off (timeout_loop msecs first n (t # ts)) = dues off (t # ts) @ [(off + total (t # ts) + (unat msecs + unat first), h n, arg n)]"
  using assms(1)
proof (induction ts arbitrary: t n off)
  case Nil
  then have le: "time t \<le> time n" by (simp add: word_le_nat_alt)
  have "unat msecs < unat (time n) - unat (time t)" using Nil by simp
  then show ?case using unat_sub32 [OF le] unat_add32 [OF assms(2)] by (simp add: word_less_nat_alt)
next
  case (Cons u us)
  let ?n = "n\<lparr>time := time n - time t\<rparr>"
  have le: "time t \<le> time n" using Cons.prems by (simp add: word_le_nat_alt)
  have "\<not> time u > time ?n" using Cons.prems unat_sub32 [OF le] by (simp add: word_less_nat_alt)
  moreover have "unat msecs + total (u # us) < unat (time ?n)" using Cons.prems unat_sub32 [OF le] by simp
  note Cons.IH [OF this, of "off + unat (time t)"]
  ultimately show ?case by simp
qed

lemma front_timeout_dues:
  assumes "msecs < time t" "unat msecs + unat diff < 2 ^ 32"
  shows "dues 0 (\<lparr>time = msecs + diff, h = hdl, arg = a\<rparr> # t\<lparr>time := time t - msecs\<rparr> # ts) =
    (unat msecs + unat diff, hdl, a) # map (\<lambda>(d, x). (d + unat diff, x)) (dues 0 (t # ts))"
proof -
  have "unat (time t - msecs) = unat (time t) - unat msecs" "unat msecs < unat (time t)"
    using assms(1) unat_sub32 [of msecs "time t"] by (auto simp: word_less_nat_alt word_le_nat_alt)
  then have u: "unat msecs + unat diff + unat (time t - msecs) = unat (time t) + unat diff" by simp
  show ?thesis using dues_shift [of "unat (time t)" "unat diff" ts] unat_add32 [OF assms(2)] by (simp add: u)
qed

text \<open>
  C26: The list of time differences against a list of due times, counted from \<^verbatim>\<open>timeouts_last_time\<close>, exactly. In three cases a new timeout is due
  after its delay from now, goes behind those that are due no later and leaves their times alone: the list is empty, it was brought up to date just now,
  or the new timeout is not the first and not everything is overdue. In the two others the code departs from the due times: a new first timeout delays all
  others by the time since the list was brought up to date, which is added to the new timeout but not taken off the next one, and when everything is overdue
  the new timeout goes to the end, its delay and that of the first one behind the last. Removing a timeout removes the first one with this function and
  argument and leaves the other times alone. (There is a free timeout in the pool, and the sum of the
  new delay and the time since the last update, those of two delays and that of the list fit their 32 bits.)
\<close>

theorem timeouts_refine_dues:
  assumes "free_timeos s > 0" "diff = sys_now E (now_calls s) - timeouts_last_time s" "unat msecs + unat diff < 2 ^ 32"
    and "total (next_timeout s) < 2 ^ 32" "\<forall>t\<in>set (next_timeout s). unat msecs + unat (time t) < 2 ^ 32"
  shows "(\<exists>s'. sys_timeout E msecs hdl a s = Some s' \<and> dues 0 (next_timeout s') =
      (case next_timeout s of [] \<Rightarrow> [(unat msecs, hdl, a)]
       | t # ts \<Rightarrow>
           if diff = 0 \<or> time t \<le> msecs \<and> unat diff \<le> total (t # ts) then insert_due (unat msecs + unat diff, hdl, a) (dues 0 (t # ts))
           else if msecs < time t then (unat msecs + unat diff, hdl, a) # map (\<lambda>(d, x). (d + unat diff, x)) (dues 0 (t # ts))
           else dues 0 (t # ts) @ [(total (t # ts) + (unat msecs + unat (time t)), hdl, a)]) \<and>
      (next_timeout s = [] \<longrightarrow> timeouts_last_time s' = sys_now E (now_calls s))) \<and>
    dues 0 (next_timeout (sys_untimeout hdl a s)) = remove_due (hdl, a) (dues 0 (next_timeout s))"
proof
  let ?n = "\<lparr>time = msecs + diff, h = hdl, arg = a\<rparr>"
  have w: "unat (msecs + diff) = unat msecs + unat diff" by (rule unat_add32 [OF assms(3)])
  show "dues 0 (next_timeout (sys_untimeout hdl a s)) = remove_due (hdl, a) (dues 0 (next_timeout s))"
    using untimeout_dues [OF assms(4), of 0 hdl a] by (auto simp: sys_untimeout_def simp del: dues.simps untimeout_loop.simps split: option.split)
  show "\<exists>s'. sys_timeout E msecs hdl a s = Some s' \<and> dues 0 (next_timeout s') =
      (case next_timeout s of [] \<Rightarrow> [(unat msecs, hdl, a)]
       | t # ts \<Rightarrow>
           if diff = 0 \<or> time t \<le> msecs \<and> unat diff \<le> total (t # ts) then insert_due (unat msecs + unat diff, hdl, a) (dues 0 (t # ts))
           else if msecs < time t then (unat msecs + unat diff, hdl, a) # map (\<lambda>(d, x). (d + unat diff, x)) (dues 0 (t # ts))
           else dues 0 (t # ts) @ [(total (t # ts) + (unat msecs + unat (time t)), hdl, a)]) \<and>
      (next_timeout s = [] \<longrightarrow> timeouts_last_time s' = sys_now E (now_calls s))"
  proof (cases "next_timeout s")
    case Nil
    then show ?thesis using assms(1) by (simp add: sys_timeout_def Let_def)
  next
    case (Cons t ts)
    show ?thesis
    proof (cases "msecs < time t")
      case True
      have "insert_due (unat msecs, hdl, a) (dues 0 (t # ts)) = (unat msecs, hdl, a) # dues 0 (t # ts)" using True by (simp add: word_less_nat_alt)
      then show ?thesis using True Cons assms(1) front_timeout_dues [OF True assms(3), of hdl a ts]
        by (auto simp: sys_timeout_def Let_def assms(2) [symmetric] simp del: dues.simps insert_due.simps)
    next
      case False
      have "dues 0 (timeout_loop msecs (time t) ?n (t # ts)) = (if unat diff \<le> total (t # ts) then insert_due (unat msecs + unat diff, hdl, a) (dues 0 (t # ts))
          else dues 0 (t # ts) @ [(total (t # ts) + (unat msecs + unat (time t)), hdl, a)])"
      proof (cases "unat diff \<le> total (t # ts)")
        case True
        have "time t \<le> time ?n" using w False by (simp add: word_le_nat_alt not_less)
        from timeout_loop_dues [OF this, where msecs = msecs and ts = ts and off = 0 and first = "time t"] show ?thesis using w True by (simp del: dues.simps)
      next
        case over: False
        have "unat msecs + total (t # ts) < unat (time ?n)" using w over by simp
        from timeout_loop_overdue [OF this, of "time t" 0] show ?thesis using over assms(5) Cons by (simp del: dues.simps)
      qed
      then show ?thesis using False Cons assms(1) by (auto simp: sys_timeout_def Let_def assms(2) [symmetric] not_less simp del: dues.simps)
    qed
  qed
qed

section \<open>Instances\<close>

definition at_time :: "u32 \<Rightarrow> timer_env" where
  "at_time n = \<lparr>sys_now = \<lambda>_. n, tcp_pcbs = \<lambda>_. False, sys_arch_mbox_fetch = \<lambda>_ _. None\<rparr>"

definition blank_timeouts :: timeouts where
  "blank_timeouts = \<lparr>next_timeout = [], timeouts_last_time = 0, tcpip_tcp_timer_active = False, free_timeos = 10, now_calls = 0, fetches = 0, called = []\<rparr>"

definition first_timeouts :: timeouts where
  "first_timeouts = \<lparr>next_timeout = [\<lparr>time = 500, h = H_cyclic_timer, arg = 4\<rparr>, \<lparr>time = 500, h = H_cyclic_timer, arg = 1\<rparr>,
     \<lparr>time = 0, h = H_cyclic_timer, arg = 2\<rparr>, \<lparr>time = 59000, h = H_cyclic_timer, arg = 3\<rparr>],
     timeouts_last_time = 0, tcpip_tcp_timer_active = False, free_timeos = 6, now_calls = 5, fetches = 0, called = []\<rparr>"

lemma first_timeouts_init: "no_timeouts blank_timeouts" "sys_timeouts_init (at_time 0) blank_timeouts = Some first_timeouts"
proof -
  show "no_timeouts blank_timeouts" by (simp add: no_timeouts_def blank_timeouts_def MEMP_NUM_SYS_TIMEOUT_def)
  have l: "[1..<length lwip_cyclic_timers] = [1, 2, 3, 4]" by (simp add: lwip_cyclic_timers_def upt_conv_Cons)
  show "sys_timeouts_init (at_time 0) blank_timeouts = Some first_timeouts" unfolding sys_timeouts_init_def l
    by (simp add: sys_timeout_def at_time_def blank_timeouts_def first_timeouts_def lwip_cyclic_timers_def IP_TMR_INTERVAL_def ARP_TMR_INTERVAL_def
        DHCP_COARSE_TIMER_MSECS_def DHCP_FINE_TIMER_MSECS_def Let_def)
qed

lemma at_time_clock: "clock_ok (at_time 510) first_timeouts"
  by (simp add: clock_ok_def clock_from_def at_time_def first_timeouts_def)

theorem timers_stay_scheduled_witness: "sys_check_timeouts (at_time 510) first_timeouts \<noteq> None \<and> tcp_timer_needed (at_time 510) True first_timeouts \<noteq> None"
  using timers_stay_scheduled [OF first_timeouts_init rtranclp.rtrancl_refl at_time_clock, of True] by blast

theorem check_calls_due_witness: "\<exists>s'. sys_check_timeouts (at_time 510) first_timeouts = Some s' \<and> called s' = [H_dhcp_fine_tmr]"
  using check_calls_due [OF first_timeouts_init rtranclp.rtrancl_refl at_time_clock refl]
  by (simp add: at_time_def first_timeouts_def late_def fn_of_def lwip_cyclic_timers_def)

theorem timeouts_refine_dues_witness:
  "(\<exists>s'. sys_timeout (at_time 30) 700 H_cyclic_timer 9 first_timeouts = Some s' \<and> dues 0 (next_timeout s') =
     [(500, H_cyclic_timer, 4), (730, H_cyclic_timer, 9), (1000, H_cyclic_timer, 1), (1000, H_cyclic_timer, 2), (60000, H_cyclic_timer, 3)]) \<and>
   (\<exists>s'. sys_timeout (at_time 30) 20 H_cyclic_timer 9 first_timeouts = Some s' \<and> dues 0 (next_timeout s') =
     [(50, H_cyclic_timer, 9), (530, H_cyclic_timer, 4), (1030, H_cyclic_timer, 1), (1030, H_cyclic_timer, 2), (60030, H_cyclic_timer, 3)]) \<and>
   dues 0 (next_timeout (sys_untimeout H_cyclic_timer 9 first_timeouts)) = dues 0 (next_timeout first_timeouts)"
  using timeouts_refine_dues [of first_timeouts 30 "at_time 30" 700 H_cyclic_timer 9] timeouts_refine_dues [of first_timeouts 30 "at_time 30" 20 H_cyclic_timer 9]
  by (simp add: first_timeouts_def at_time_def)

end
