(* ===== verification/Spec2Isabelle.thy ===== *)
theory Spec2Isabelle
  imports Mcg_Checks Mcg_Calls Ip4_Addr Apps_Props Mem_Props Etharp_Props Timeouts_Props
begin

text \<open>
  A verification development for wireless speakers on the Freescale K64: a board that receives
  sound in UDP packets, plays it through a digital-to-analog converter at the rate of a timer
  interrupt, and offers a control menu over TCP.

  \<^bold>\<open>The program.\<close> \<^verbatim>\<open>source/TCP_UDP_AUDIO_main.c\<close> sets the clock with \<^verbatim>\<open>source/MCG.c\<close>, starts the
  lwIP stack and two threads. The UDP thread (\<^verbatim>\<open>lwip/contrib/apps/UDP/UDP.c\<close>) configures the sound
  output (\<^verbatim>\<open>source/Audio.c\<close>, \<^verbatim>\<open>pit.c\<close>, \<^verbatim>\<open>DAC.c\<close> over \<^verbatim>\<open>drivers/fsl_pit\<close> and \<^verbatim>\<open>fsl_dac\<close>) and copies every
  packet into one of two buffers, from which the interrupt of timer 0 plays. The TCP thread
  (\<^verbatim>\<open>lwip/contrib/apps/TCP/TCP.c\<close>) reads commands: mute, choose another UDP port (sent to the UDP
  thread through a queue of length one), show statistics. Packets reach the threads as network
  buffers (\<^verbatim>\<open>lwip/src/api/netbuf.c\<close>), which are chains of packet buffers (\<^verbatim>\<open>lwip/src/core/pbuf.c\<close>). The stack
  below takes frames from Ethernet (\<^verbatim>\<open>netif/ethernet.c\<close>), resolves hardware addresses (\<^verbatim>\<open>etharp.c\<close>), reassembles
  fragments (\<^verbatim>\<open>ip4_frag.c\<close>), answers control messages (\<^verbatim>\<open>icmp.c\<close>) and hands datagrams from IP (\<^verbatim>\<open>ip4.c\<close>) to UDP
  (\<^verbatim>\<open>udp.c\<close>), with memory from a heap (\<^verbatim>\<open>mem.c\<close>) and pools (\<^verbatim>\<open>memp.c\<close>).

  \<^bold>\<open>The theories.\<close>

  \<^item> \<open>Prelude\<close>: C integer types, loads and stores, weakest preconditions for the state monad,
    the locale \<open>step_invariant\<close> of transition systems with an invariant.
  \<^item> \<open>Mcg_Regs\<close>, \<open>Mcg\<close>: the clock generator's registers as records of bit fields and every function of
    \<^verbatim>\<open>MCG.c\<close> in the state monad. The hardware's own step \<open>hw\<close>, taken before every access, is an
    argument. \<open>Mcg_Correct\<close> and \<open>Mcg_Props\<close>: on hardware that keeps the control registers and whose
    status follows them (\<open>hw_frame\<close>, \<open>hw_settles\<close>) the driver refines a machine on eight modes and
    \<^verbatim>\<open>main\<close> reaches 60 MHz. \<open>Mcg_Any\<close>: on any hardware a returned frequency means that every check was
    passed. \<open>Mcg_Calls\<close>: all register-writing calls in any order keep the generator in one of its modes, and auto-trim
    returns with the right code and restores the dividers. \<open>Mcg_Checks\<close>: the arithmetic of the FLL, PLL, RTC and
    auto-trim checks, with the places where they fail.
  \<^item> \<open>Pbuf\<close>, \<open>Pbuf_Write\<close>, \<open>Pbuf_Chain\<close>, \<open>Pbuf_Props\<close>: packet buffers. A chain is the list of its buffers; its
    abstract value is its bytes, on which reading, comparing, searching (locale \<open>searchable\<close>), writing,
    joining, truncating, copying and moving headers do what they promise, keeping \<open>wf_chain\<close>.
  \<^item> \<open>Chksum\<close>, \<open>Chksum_Props\<close>: the three checksum routines of \<^verbatim>\<open>inet_chksum.c\<close> meet the contract
    \<open>chksum_routine\<close>, for which the functions on buffers, chains and pseudo headers are proved once.
  \<^item> \<open>Lwip_Def\<close>, \<open>Ip4_Addr\<close>: string functions of \<^verbatim>\<open>def.c\<close>; parsing, printing and testing of IPv4 addresses.
  \<^item> \<open>Netbuf\<close>: packets with a cursor; walking with \<^verbatim>\<open>netbuf_first\<close> and \<^verbatim>\<open>netbuf_next\<close> visits every part.
  \<^item> \<open>Pit_Dac\<close>, \<open>Audio\<close>: the two peripherals and the sound output; the interrupt plays cyclically.
  \<^item> \<open>Apps\<close>, \<open>Apps_Props\<close>: the two threads, cut at their blocking calls, and their interleaving with the
    interrupt as the step relation \<open>sys_step\<close>, with the invariant \<open>app_ok\<close>. Receives, binds and allocations may fail; the
    two places where that (or the first round) goes through \<^verbatim>\<open>NULL\<close> are stated as such.

  \<^item> \<open>Alloc\<close>: the contract \<open>allocator\<close> and what clients may rely on in any order of calls. \<open>Mem\<close>, \<open>Mem_Blocks\<close>,
    \<open>Mem_Ops\<close>, \<open>Mem_Props\<close>: the heap on a memory of bytes, where the headers of the blocks lie among the data; its list of
    blocks stays sound, and it meets the contract. \<open>Memp\<close>: the pools, which meet it too.
  \<^item> \<open>Udp\<close>, \<open>Udp_Inv\<close>, \<open>Udp_Props\<close>: UDP control blocks in the pools; the invariant of their list over all calls (\<open>udp_step\<close>),
    which has different local ends only as long as no interface takes over an address in use (the flag \<open>uq\<close>); binding, the search for a free port, demultiplexing, and the checksum of what is sent.
  \<^item> \<open>Ip4\<close>, \<open>Ip4_Hdr\<close>, \<open>Ip4_Props\<close>: routing, output and input of IPv4; the header checksum that is added up inline; the way of a
    datagram from one station's UDP through IP to the other's. \<open>Icmp\<close>, \<open>Icmp_Props\<close>: echo replies and error messages.
  \<^item> \<open>Ip4_Frag\<close>, \<open>Ip4_Reass\<close>, \<open>Ip4_Frag_Props\<close>: cutting a packet into fragments and the queue of datagrams being reassembled, with
    its invariant \<open>reass_ok\<close> over all fragments and ticks (\<open>reass_step\<close>); fragments in order give back the packet, the queue is
    bounded and empties in four ticks, and two sequences of fragments that it mishandles.
  \<^item> \<open>Etharp\<close>, \<open>Etharp_Inv\<close>, \<open>Etharp_Props\<close>: Ethernet frames and the ARP table, with its invariant \<open>arp_ok\<close> over all events
    (\<open>arp_step\<close>); the table meets the contract \<open>cache\<close>; how entries age; the exchange of request and reply between two stations.
  \<^item> \<open>Timeouts\<close>, \<open>Timeouts_Props\<close>: the list of timeouts that drives the ticks of ARP and reassembly; it stands for a list of due
    times, with the two exceptions spelled out, every timer of the stack stays scheduled in every run (\<open>timer_step\<close>), and a check in time calls what is due.

  \<^bold>\<open>Conventions.\<close> Machine integers are words of their width; frequencies in \<^verbatim>\<open>MCG.c\<close> are \<^typ>\<open>int\<close>, with
  a theorem that the products fit. A pointer that may be \<^verbatim>\<open>NULL\<close> is an option or the empty list. A
  result \<^const>\<open>None\<close> of an operation is a failed assertion, an invalid access, a read outside the first buffer of a packet,
  or a loop that does not end; the theorems say when it does not occur. A layer gets the results of the layer below as
  arguments and its own calls of it are part of the result, so that layers are composed in theorems (\<open>udp_over_ip\<close>). What code outside the
  development returns is an argument: results of the netconn calls and of the driver, the bus
  clock, the contents of uninitialised memory, the halfword at address 0
  that the UDP thread reads in its first round (\<^const>\<open>None\<close> when the read faults). IP input takes reassembly as an argument with the law \<open>reass_gives\<close>. Where a component only needs that memory is given or refused, the allocator is an argument
  with the law \<open>heap_ok\<close>. Freeing of packets is not recorded except where a component counts them;
  the assertions of \<^verbatim>\<open>pbuf_free\<close> are the predicate \<open>pbuf_free_asserts\<close>, met by every chain of referenced buffers.

  \<^bold>\<open>Loops.\<close> Loops over chains, tables and buffers are structural recursions. The waits of the clock driver
  have the bounds of the source. The wait of auto-trim is unbounded in the source and has fuel
  in the model; a theorem gives enough fuel for hardware that ends the trim. The search in a chain
  is a partial function, shown to return; so are the walk through the block list of the heap, the
  loop that cuts fragments and the check of the timeouts; waiting for a message may not end. Walking a netbuf takes as fuel the length of the chain.

  \<^bold>\<open>Not modelled.\<close> TCP, DHCP, AutoIP and DNS, the message passing of the sequential
  API and its port to FreeRTOS: the threads see them
  through call results, all of which are covered. IGMP, raw sockets, IPv6, PPP and 6LoWPAN are disabled in the build.
  Other peripheral drivers are vendor code the program calls only at start-up or not at all.
  Candidates for extension, in this order: the interface configuration of \<^verbatim>\<open>stack_init\<close> and \<^verbatim>\<open>netif.c\<close>, the bus clock of \<^verbatim>\<open>fsl_clock.c\<close>, the TCP state machine.
\<close>

end
